(* ===== verification/Mish_Prelude.thy ===== *)
theory Mish_Prelude
  imports Main "HOL-Library.Word"
begin

text \<open>
  Shared vocabulary of the development: the fixed-width integers of the Rust sources as words,
  checked arithmetic, fallible results as a sum type (\<open>Inl\<close> is \<open>Err\<close>, \<open>Inr\<close> is \<open>Ok\<close>),
  and the three interfaces (locales) the components are stated against:
  \<^item> \<open>guarded_machine\<close> and \<open>ranked_machine\<close>: an owner with a start state, a total step function, an
    invariant and a rank that never falls; used for every state owner of the system;
  \<^item> \<open>codec\<close> and \<open>canonical_codec\<close>: an encoder and a fallible decoder with their round-trip laws;
    used for every durable or transferred record of the credential owner.
\<close>

unbundle bit_operations_syntax

type_synonym u8 = "8 word"
type_synonym u16 = "16 word"
type_synonym u32 = "32 word"
type_synonym u64 = "64 word"

text \<open>\<open>usize\<close> of the 64-bit targets: a natural number below \<open>2 ^ 64\<close>, overflow written out.\<close>

type_synonym usize = nat

abbreviation usize_limit :: nat where
  "usize_limit \<equiv> 2 ^ 64"

subsection \<open>Checked arithmetic\<close>

lemma unat_bound: "unat (a :: 'w::len word) < 2 ^ LENGTH('w)"
  by (rule unsigned_less)

text \<open>Rust's \<open>checked_add\<close> on an unsigned integer and on \<open>usize\<close>.\<close>

definition checked_add :: "'w::len word \<Rightarrow> 'w word \<Rightarrow> 'w word option" where
  "checked_add a b = (if unat a + unat b < 2 ^ LENGTH('w) then Some (a + b) else None)"

definition checked_add_usize :: "usize \<Rightarrow> usize \<Rightarrow> usize option" where
  "checked_add_usize a b = (if a + b < usize_limit then Some (a + b) else None)"

lemma checked_add_code [code]:
  "checked_add a b = (if a \<le> a + b then Some (a + b) else None)"
  by (simp add: checked_add_def no_olen_add_nat)

lemma checked_add_Some_iff:
  "checked_add a b = Some c \<longleftrightarrow> unat c = unat a + unat b"
proof
  assume "checked_add a b = Some c"
  then show "unat c = unat a + unat b"
    by (auto simp: checked_add_def unat_add_lem [THEN iffD1] split: if_splits)
next
  assume eq: "unat c = unat a + unat b"
  then have "unat a + unat b < 2 ^ LENGTH('a)"
    using unat_bound [of c] by simp
  moreover from this eq have "c = a + b"
    by (metis unat_add_lem word_unat_eq_iff)
  ultimately show "checked_add a b = Some c"
    by (simp add: checked_add_def)
qed

lemma checked_add_Some_unat:
  "checked_add a b = Some c \<Longrightarrow> unat c = unat a + unat b"
  by (simp add: checked_add_Some_iff)

lemma checked_add_Some_less:
  "checked_add a b = Some c \<Longrightarrow> 0 < b \<Longrightarrow> a < c"
  by (simp add: checked_add_Some_iff word_less_nat_alt)

lemma checked_add_1_None:
  "checked_add (a :: 'w::len word) 1 = None \<longleftrightarrow> a = - 1"
proof -
  have "checked_add a 1 = None \<longleftrightarrow> 2 ^ LENGTH('w) \<le> unat a + 1"
    by (simp add: checked_add_def not_less)
  also have "\<dots> \<longleftrightarrow> unat a = 2 ^ LENGTH('w) - 1"
    using unat_bound [of a] by linarith
  also have "\<dots> \<longleftrightarrow> unat a = unat (- 1 :: 'w word)"
    by (simp add: unsigned_minus_1_eq_mask mask_eq_exp_minus_1)
  finally show ?thesis
    by (simp add: word_unat_eq_iff)
qed

subsection \<open>Fallible results\<close>

text \<open>\<open>Option::ok_or\<close>, \<open>Result::map_err\<close> and \<open>Result::is_ok\<close>.\<close>

primrec ok_or :: "'a option \<Rightarrow> 'e \<Rightarrow> 'e + 'a" where
  "ok_or None e = Inl e"
| "ok_or (Some x) e = Inr x"

primrec map_err :: "('e \<Rightarrow> 'f) \<Rightarrow> 'e + 'a \<Rightarrow> 'f + 'a" where
  "map_err f (Inl e) = Inl (f e)"
| "map_err f (Inr x) = Inr x"

primrec is_ok :: "'e + 'a \<Rightarrow> bool" where
  "is_ok (Inl e) = False"
| "is_ok (Inr x) = True"

text \<open>The question-mark operator: run the continuation on \<open>Ok\<close>, return \<open>Err\<close> early.\<close>

primrec rbind :: "'e + 'a \<Rightarrow> ('a \<Rightarrow> 'e + 'b) \<Rightarrow> 'e + 'b" where
  "rbind (Inl e) k = Inl e"
| "rbind (Inr x) k = k x"

lemma ok_or_Inr_iff [simp]: "ok_or m e = Inr x \<longleftrightarrow> m = Some x"
  by (cases m) auto

lemma ok_or_Inl_iff [simp]: "ok_or m e = Inl f \<longleftrightarrow> m = None \<and> f = e"
  by (cases m) auto

lemma map_err_Inr_iff [simp]: "map_err f r = Inr x \<longleftrightarrow> r = Inr x"
  by (cases r) auto

lemma rbind_Inr_iff: "rbind r k = Inr y \<longleftrightarrow> (\<exists>x. r = Inr x \<and> k x = Inr y)"
  by (cases r) auto

lemma is_ok_iff: "is_ok r \<longleftrightarrow> (\<exists>x. r = Inr x)"
  by (cases r) auto

lemma is_ok_map_err [simp]: "is_ok (map_err f r) = is_ok r"
  by (cases r) auto

subsection \<open>State owners\<close>

text \<open>
  An owner is a start state and a step function over its events; the invariant holds at the start
  and every step keeps it. The lemmas lift both to whole event sequences.
\<close>

locale guarded_machine =
  fixes init :: 's
    and step :: "'s \<Rightarrow> 'e \<Rightarrow> 's"
    and inv :: "'s \<Rightarrow> bool"
  assumes inv_init: "inv init"
    and inv_step: "inv s \<Longrightarrow> inv (step s e)"
begin

lemma inv_run: "inv s \<Longrightarrow> inv (foldl step s es)"
  by (induction es arbitrary: s) (auto intro: inv_step)

lemma inv_reachable: "inv (foldl step init es)"
  by (rule inv_run [OF inv_init])

end

text \<open>An owner with a rank (a sequence number, a generation) that no step lowers.\<close>

locale ranked_machine = guarded_machine init step inv
  for init :: 's and step :: "'s \<Rightarrow> 'e \<Rightarrow> 's" and inv :: "'s \<Rightarrow> bool" +
  fixes rank :: "'s \<Rightarrow> nat"
  assumes rank_step: "inv s \<Longrightarrow> rank s \<le> rank (step s e)"
begin

lemma rank_run: "inv s \<Longrightarrow> rank s \<le> rank (foldl step s es)"
proof (induction es arbitrary: s)
  case Nil
  then show ?case by simp
next
  case (Cons e es)
  have "rank s \<le> rank (step s e)"
    using Cons.prems by (rule rank_step)
  also have "\<dots> \<le> rank (foldl step (step s e) es)"
    using Cons.prems by (intro Cons.IH inv_step)
  finally show ?case by simp
qed

lemma rank_prefix: "rank (foldl step init es) \<le> rank (foldl step init (es @ fs))"
  using rank_run [OF inv_reachable [of es], of fs] by simp

end

subsection \<open>Codecs\<close>

text \<open>
  An encoder and a fallible decoder over byte strings. A \<open>codec\<close> decodes what it encoded and
  produces only valid values; a \<open>canonical_codec\<close> accepts nothing but its own encodings.
\<close>

locale codec =
  fixes valid :: "'a \<Rightarrow> bool"
    and encode :: "'a \<Rightarrow> u8 list"
    and decode :: "u8 list \<Rightarrow> 'e + 'a"
  assumes decode_encode: "valid x \<Longrightarrow> decode (encode x) = Inr x"
    and decode_valid: "decode bs = Inr x \<Longrightarrow> valid x"
begin

lemma encode_inj: "valid x \<Longrightarrow> valid y \<Longrightarrow> encode x = encode y \<Longrightarrow> x = y"
  by (metis decode_encode sum.inject(2))

lemma recode: "decode bs = Inr x \<Longrightarrow> decode (encode x) = decode bs"
  by (metis decode_encode decode_valid)

end

locale canonical_codec = codec valid encode decode
  for valid :: "'a \<Rightarrow> bool" and encode :: "'a \<Rightarrow> u8 list" and decode :: "u8 list \<Rightarrow> 'e + 'a" +
  assumes decode_canonical: "decode bs = Inr x \<Longrightarrow> encode x = bs"
begin

lemma decode_iff: "decode bs = Inr x \<longleftrightarrow> valid x \<and> bs = encode x"
  using decode_encode decode_valid decode_canonical by blast

lemma decode_unique: "decode bs = Inr x \<Longrightarrow> decode cs = Inr x \<Longrightarrow> bs = cs"
  using decode_canonical [of bs x] decode_canonical [of cs x] by blast

end

end
