(* ===== verification/Rust_Net.thy ===== *)
theory Rust_Net
  imports Mish_Prelude
begin

text \<open>
  The address types of the Rust standard library that the sources use (\<open>std::net\<close>): an IPv4
  address is its big-endian \<open>u32\<close>, an IPv6 address its big-endian \<open>u128\<close>.
\<close>

type_synonym Ipv4Addr = u32
type_synonym Ipv6Addr = "128 word"

datatype IpAddr = V4 Ipv4Addr | V6 Ipv6Addr

definition ipv4_from_octets :: "u8 \<Rightarrow> u8 \<Rightarrow> u8 \<Rightarrow> u8 \<Rightarrow> Ipv4Addr" where
  "ipv4_from_octets a b c d =
     push_bit 24 (ucast a) OR push_bit 16 (ucast b) OR push_bit 8 (ucast c) OR ucast d"

definition ipv4_octets :: "Ipv4Addr \<Rightarrow> u8 list" where
  "ipv4_octets a = [ucast (drop_bit 24 a), ucast (drop_bit 16 a), ucast (drop_bit 8 a), ucast a]"

definition ipv4_is_unspecified :: "Ipv4Addr \<Rightarrow> bool" where
  "ipv4_is_unspecified a \<longleftrightarrow> a = 0"

definition ipv4_is_multicast :: "Ipv4Addr \<Rightarrow> bool" where
  "ipv4_is_multicast a \<longleftrightarrow> drop_bit 28 a = 14"

definition ipv4_BROADCAST :: Ipv4Addr where
  "ipv4_BROADCAST = - 1"

subsection \<open>Big-endian bytes\<close>

definition from_be :: "u8 list \<Rightarrow> 'w::len word" where
  "from_be bs = foldl (\<lambda>a b. push_bit 8 a OR ucast b) 0 bs"

definition to_be :: "nat \<Rightarrow> 'w::len word \<Rightarrow> u8 list" where
  "to_be k a = map (\<lambda>i. ucast (drop_bit (8 * i) a)) (rev [0..<k])"

lemma bit_from_be:
  "n < LENGTH('w) \<Longrightarrow> bit (from_be bs :: 'w::len word) n \<longleftrightarrow>
     n < 8 * length bs \<and> bit (rev bs ! (n div 8)) (n mod 8)"
proof (induction bs arbitrary: n rule: rev_induct)
  case Nil
  then show ?case by (simp add: from_be_def)
next
  case (snoc b bs)
  have eq: "from_be (bs @ [b]) = push_bit 8 (from_be bs :: 'w word) OR ucast b"
    by (simp add: from_be_def)
  show ?case
  proof (cases "n < 8")
    case True
    with snoc.prems show ?thesis by (simp add: eq bit_simps)
  next
    case False
    then obtain m where m: "n = m + 8" by (metis add.commute le_Suc_ex not_less)
    have "\<not> bit b n" using False by (simp add: bit_word.rep_eq m bit_take_bit_iff)
    moreover have "(m + 8) div 8 = Suc (m div 8)" by simp
    ultimately show ?thesis using False snoc m by (simp add: eq bit_simps)
  qed
qed

lemma length_to_be [simp]: "length (to_be k a) = k"
  by (simp add: to_be_def)

lemma nth_rev_to_be: "m < k \<Longrightarrow> rev (to_be k a) ! m = ucast (drop_bit (8 * m) a)"
  by (simp add: to_be_def rev_map)

lemma from_be_to_be: "8 * k = LENGTH('w) \<Longrightarrow> from_be (to_be k a) = (a :: 'w::len word)"
proof (rule bit_word_eqI)
  fix n assume k: "8 * k = LENGTH('w)" and n: "n < LENGTH('w)"
  have "n div 8 < k" using k n by (simp add: div_less_iff_less_mult)
  moreover have "8 * (n div 8) + n mod 8 = n" by simp
  ultimately show "bit (from_be (to_be k a) :: 'w word) n = bit a n"
    using n k by (simp add: bit_from_be nth_rev_to_be bit_simps del: mult_div_mod_eq)
qed

lemma to_be_from_be:
  assumes "length bs = k" "8 * k = LENGTH('w)"
  shows "to_be k (from_be bs :: 'w::len word) = bs"
proof -
  have "rev (to_be k (from_be bs :: 'w word)) = rev bs"
  proof (rule nth_equalityI)
    fix m assume "m < length (rev (to_be k (from_be bs :: 'w word)))"
    then have m: "m < k" by simp
    show "rev (to_be k (from_be bs :: 'w word)) ! m = rev bs ! m"
    proof (rule bit_word_eqI)
      fix j assume "j < LENGTH(8)"
      then have j: "j < 8" by simp
      with m have "8 * m + j < 8 * k" by linarith
      moreover have "(8 * m + j) div 8 = m" "(8 * m + j) mod 8 = j" using j by auto
      ultimately show "bit (rev (to_be k (from_be bs :: 'w word)) ! m) j = bit (rev bs ! m) j"
        using m j assms by (simp add: nth_rev_to_be bit_simps bit_from_be)
    qed
  qed (simp add: assms)
  then show ?thesis by simp
qed

lemma ipv4_octets_to_be: "ipv4_octets a = to_be 4 a"
  by (simp add: ipv4_octets_def to_be_def upt_rec)

lemma ipv4_from_octets_from_be: "ipv4_from_octets a b c d = from_be [a, b, c, d]"
  by (simp add: ipv4_from_octets_def from_be_def push_bit_or or.assoc)

lemma ipv4_octets_inverse:
  "ipv4_octets (ipv4_from_octets a b c d) = [a, b, c, d]"
  by (simp add: ipv4_octets_to_be ipv4_from_octets_from_be to_be_from_be)

lemma ipv4_octets_Cons:
  obtains a b c d where "ipv4_octets x = [a, b, c, d]" "ipv4_from_octets a b c d = x"
proof -
  have "ipv4_from_octets (ucast (drop_bit 24 x)) (ucast (drop_bit 16 x)) (ucast (drop_bit 8 x)) (ucast x) =
      from_be (to_be 4 x)"
    by (simp add: ipv4_from_octets_from_be ipv4_octets_to_be [symmetric] ipv4_octets_def)
  also have "\<dots> = x" by (rule from_be_to_be) simp
  finally show ?thesis using that by (simp add: ipv4_octets_def)
qed

end
