(* ===== verification/Rust_Str.thy ===== *)
theory Rust_Str
  imports Mish_Prelude
begin

text \<open>
  The string functions of the Rust standard library that the sources use. A \<open>str\<close> is the list of
  its UTF-8 bytes, kept as characters so that literals read as in the code; wire data are lists of
  \<open>u8\<close>. Included are UTF-8 validation, integer parsing and printing, and trimming and splitting at
  Unicode white space.
\<close>

subsection \<open>Bytes and characters\<close>

definition byte_of :: "char \<Rightarrow> u8" where
  "byte_of c = of_char c"

definition char_of_byte :: "u8 \<Rightarrow> char" where
  "char_of_byte b = char_of (unat b)"

definition as_bytes :: "string \<Rightarrow> u8 list" where
  "as_bytes s = map byte_of s"

lemma byte_of_char_of_byte [simp]: "byte_of (char_of_byte b) = b"
proof -
  have "unat b < 256" using unat_bound [of b] by simp
  then have "(of_char (char_of (unat b)) :: nat) = unat b" by simp
  then have "(of_char (char_of (unat b)) :: u8) = word_of_nat (unat b)"
    by (metis of_nat_of_char)
  then show ?thesis by (simp add: byte_of_def char_of_byte_def)
qed

lemma unat_byte_of: "unat (byte_of c) = of_char c"
proof -
  have less: "(of_char c :: nat) < 256" by simp
  have "byte_of c = of_nat (of_char c)" by (metis byte_of_def of_nat_of_char)
  then show ?thesis using less by (simp add: unat_of_nat)
qed

lemma char_of_byte_byte_of [simp]: "char_of_byte (byte_of c) = c"
  by (simp add: char_of_byte_def unat_byte_of)

lemma byte_of_inj [simp]: "byte_of c = byte_of d \<longleftrightarrow> c = d"
  by (metis char_of_byte_byte_of)

lemma as_bytes_inj [simp]: "as_bytes s = as_bytes t \<longleftrightarrow> s = t"
  by (simp add: as_bytes_def inj_map_eq_map inj_def)

lemma as_bytes_simps [simp]:
  "as_bytes [] = []" "as_bytes (c # s) = byte_of c # as_bytes s"
  "as_bytes (s @ t) = as_bytes s @ as_bytes t" "length (as_bytes s) = length s"
  by (simp_all add: as_bytes_def)

subsection \<open>UTF-8\<close>

definition continuation :: "u8 \<Rightarrow> bool" where
  "continuation b \<longleftrightarrow> 0x80 \<le> b \<and> b \<le> 0xBF"

definition second_byte :: "u8 \<Rightarrow> u8 \<Rightarrow> bool" where
  "second_byte a b \<longleftrightarrow>
     (if a = 0xE0 then 0xA0 \<le> b \<and> b \<le> 0xBF
      else if a = 0xED then 0x80 \<le> b \<and> b \<le> 0x9F
      else if a = 0xF0 then 0x90 \<le> b \<and> b \<le> 0xBF
      else if a = 0xF4 then 0x80 \<le> b \<and> b \<le> 0x8F
      else continuation b)"

fun valid_utf8 :: "u8 list \<Rightarrow> bool" where
  "valid_utf8 [] = True"
| "valid_utf8 (a # bs) =
     (if a < 0x80 then valid_utf8 bs
      else if 0xC2 \<le> a \<and> a \<le> 0xDF then
        (case bs of b # r \<Rightarrow> continuation b \<and> valid_utf8 r | _ \<Rightarrow> False)
      else if 0xE0 \<le> a \<and> a \<le> 0xEF then
        (case bs of b # c # r \<Rightarrow> second_byte a b \<and> continuation c \<and> valid_utf8 r | _ \<Rightarrow> False)
      else if 0xF0 \<le> a \<and> a \<le> 0xF4 then
        (case bs of b # c # d # r \<Rightarrow> second_byte a b \<and> continuation c \<and> continuation d \<and> valid_utf8 r
                  | _ \<Rightarrow> False)
      else False)"

definition from_utf8 :: "u8 list \<Rightarrow> string option" where
  "from_utf8 bs = (if valid_utf8 bs then Some (map char_of_byte bs) else None)"

text \<open>The strings of the program: every Rust \<open>str\<close> is valid UTF-8.\<close>

definition is_str :: "string \<Rightarrow> bool" where
  "is_str s \<longleftrightarrow> valid_utf8 (as_bytes s)"

lemma map_char_of_as_bytes [simp]: "map char_of_byte (as_bytes s) = s"
  by (simp add: as_bytes_def map_idI)

lemma as_bytes_map_char_of [simp]: "as_bytes (map char_of_byte bs) = bs"
  by (simp add: as_bytes_def map_idI)

lemma from_utf8_as_bytes: "is_str s \<Longrightarrow> from_utf8 (as_bytes s) = Some s"
  by (simp add: from_utf8_def is_str_def)

lemma from_utf8_Some_iff: "from_utf8 bs = Some s \<longleftrightarrow> is_str s \<and> bs = as_bytes s"
  by (auto simp: from_utf8_def is_str_def)

lemma ascii_valid_utf8: "(\<forall>b \<in> set bs. b < 0x80) \<Longrightarrow> valid_utf8 bs"
  by (induction bs) auto

subsection \<open>Characters\<close>

definition is_ascii_digit :: "char \<Rightarrow> bool" where
  "is_ascii_digit c \<longleftrightarrow> 0x30 \<le> byte_of c \<and> byte_of c \<le> 0x39"

definition to_ascii_lowercase :: "char \<Rightarrow> char" where
  "to_ascii_lowercase c =
     (if 0x41 \<le> byte_of c \<and> byte_of c \<le> 0x5A then char_of_byte (byte_of c + 0x20) else c)"

definition eq_ignore_ascii_case :: "string \<Rightarrow> string \<Rightarrow> bool" where
  "eq_ignore_ascii_case s t \<longleftrightarrow> map to_ascii_lowercase s = map to_ascii_lowercase t"

text \<open>The value of a digit character in a radix up to 36, as \<open>char::to_digit\<close> gives it.\<close>

definition digit_value :: "nat \<Rightarrow> char \<Rightarrow> nat option" where
  "digit_value radix c =
     (let b = unat (byte_of (to_ascii_lowercase c));
          v = (if 0x30 \<le> b \<and> b \<le> 0x39 then b - 0x30
               else if 0x61 \<le> b \<and> b \<le> 0x7A then b - 0x61 + 10 else radix)
      in if v < radix then Some v else None)"

fun digits_value :: "nat \<Rightarrow> nat \<Rightarrow> string \<Rightarrow> nat option" where
  "digits_value radix acc [] = Some acc"
| "digits_value radix acc (c # s) =
     (case digit_value radix c of
        None \<Rightarrow> None
      | Some v \<Rightarrow> digits_value radix (acc * radix + v) s)"

text \<open>
  \<open>from_str_radix\<close> and \<open>parse\<close> of an unsigned integer below \<open>limit\<close>: one leading plus sign is
  allowed, at least one digit is needed, and overflow is an error.
\<close>

definition parse_unsigned :: "nat \<Rightarrow> nat \<Rightarrow> string \<Rightarrow> nat option" where
  "parse_unsigned radix limit s =
     (let digits = (case s of c # r \<Rightarrow> if c = CHR ''+'' then r else s | [] \<Rightarrow> [])
      in if digits = [] then None
         else case digits_value radix 0 digits of
           None \<Rightarrow> None
         | Some v \<Rightarrow> if v < limit then Some v else None)"

definition parse_u8 :: "string \<Rightarrow> u8 option" where
  "parse_u8 s = map_option of_nat (parse_unsigned 10 (2 ^ 8) s)"

definition parse_u16 :: "string \<Rightarrow> u16 option" where
  "parse_u16 s = map_option of_nat (parse_unsigned 10 (2 ^ 16) s)"

definition parse_u32 :: "string \<Rightarrow> u32 option" where
  "parse_u32 s = map_option of_nat (parse_unsigned 10 (2 ^ 32) s)"

definition parse_u64 :: "string \<Rightarrow> u64 option" where
  "parse_u64 s = map_option of_nat (parse_unsigned 10 (2 ^ 64) s)"

definition digit_char :: "nat \<Rightarrow> char" where
  "digit_char d = char_of (d + 48)"

text \<open>Decimal printing, most significant digit first.\<close>

fun show_nat :: "nat \<Rightarrow> string" where
  "show_nat n = (if n < 10 then [digit_char n] else show_nat (n div 10) @ [digit_char (n mod 10)])"

declare show_nat.simps [simp del]

definition show_u64 :: "u64 \<Rightarrow> string" where
  "show_u64 n = show_nat (unat n)"

subsection \<open>White space\<close>

text \<open>The UTF-8 encodings of the characters with the Unicode property White-Space.\<close>

definition white_space :: "u8 list list" where
  "white_space =
     [[0x09], [0x0A], [0x0B], [0x0C], [0x0D], [0x20], [0xC2, 0x85], [0xC2, 0xA0],
      [0xE1, 0x9A, 0x80]] @ map (\<lambda>b. [0xE2, 0x80, b])
      [0x80, 0x81, 0x82, 0x83, 0x84, 0x85, 0x86, 0x87, 0x88, 0x89, 0x8A, 0xA8, 0xA9, 0xAF] @
     [[0xE2, 0x81, 0x9F], [0xE3, 0x80, 0x80]]"

definition white_prefix :: "string \<Rightarrow> nat" where
  "white_prefix s =
     (case find (\<lambda>w. take (length w) (as_bytes s) = w) white_space of None \<Rightarrow> 0 | Some w \<Rightarrow> length w)"

definition white_suffix :: "string \<Rightarrow> nat" where
  "white_suffix s =
     (case find (\<lambda>w. length w \<le> length s \<and> drop (length s - length w) (as_bytes s) = w) white_space of
        None \<Rightarrow> 0 | Some w \<Rightarrow> length w)"

function trim_start :: "string \<Rightarrow> string" where
  "trim_start s = (if white_prefix s = 0 \<or> s = [] then s else trim_start (drop (white_prefix s) s))"
  by pat_completeness auto
termination by (relation "measure length") auto

function trim_end :: "string \<Rightarrow> string" where
  "trim_end s =
     (if white_suffix s = 0 \<or> s = [] then s else trim_end (take (length s - white_suffix s) s))"
  by pat_completeness auto
termination by (relation "measure length") auto

declare trim_start.simps [simp del] trim_end.simps [simp del]

definition trim :: "string \<Rightarrow> string" where
  "trim s = trim_end (trim_start s)"

subsection \<open>Searching and splitting\<close>

definition is_ascii_control :: "u8 \<Rightarrow> bool" where
  "is_ascii_control b \<longleftrightarrow> b < 0x20 \<or> b = 0x7F"

definition is_ascii_whitespace :: "u8 \<Rightarrow> bool" where
  "is_ascii_whitespace b \<longleftrightarrow> b \<in> {0x20, 0x09, 0x0A, 0x0C, 0x0D}"

definition is_ascii_alphanumeric :: "u8 \<Rightarrow> bool" where
  "is_ascii_alphanumeric b \<longleftrightarrow>
     (0x30 \<le> b \<and> b \<le> 0x39) \<or> (0x41 \<le> b \<and> b \<le> 0x5A) \<or> (0x61 \<le> b \<and> b \<le> 0x7A)"

text \<open>The first position of a pattern.\<close>

fun find_sub :: "'a list \<Rightarrow> 'a list \<Rightarrow> nat option" where
  "find_sub p [] = (if p = [] then Some 0 else None)"
| "find_sub p (c # s) =
     (if take (length p) (c # s) = p then Some 0 else map_option Suc (find_sub p s))"

function split_str :: "'a list \<Rightarrow> 'a list \<Rightarrow> 'a list list" where
  "split_str p s =
     (if p = [] then [s]
      else case find_sub p s of
        None \<Rightarrow> [s]
      | Some i \<Rightarrow> take i s # split_str p (drop (i + length p) s))"
  by pat_completeness auto
termination
proof (relation "measure (\<lambda>(p, s). length s)")
  fix p s :: "'a list" and i assume "p \<noteq> []" "find_sub p s = Some i"
  moreover from this have "s \<noteq> []" by auto
  ultimately show "((p, drop (i + length p) s), p, s) \<in> measure (\<lambda>(p, s). length s)" by simp
qed simp

declare split_str.simps [simp del]

definition split_once :: "char \<Rightarrow> string \<Rightarrow> (string \<times> string) option" where
  "split_once c s =
     (if c \<in> set s then Some (takeWhile (\<lambda>x. x \<noteq> c) s, tl (dropWhile (\<lambda>x. x \<noteq> c) s)) else None)"

definition rsplit_once :: "char \<Rightarrow> string \<Rightarrow> (string \<times> string) option" where
  "rsplit_once c s = map_option (\<lambda>(a, b). (rev b, rev a)) (split_once c (rev s))"

fun split_when :: "(char \<Rightarrow> bool) \<Rightarrow> string \<Rightarrow> string list" where
  "split_when p [] = [[]]"
| "split_when p (c # s) =
     (if p c then [] # split_when p s
      else case split_when p s of w # ws \<Rightarrow> (c # w) # ws | [] \<Rightarrow> [[c]])"

definition split_ascii_whitespace :: "string \<Rightarrow> string list" where
  "split_ascii_whitespace s =
     filter (\<lambda>w. w \<noteq> []) (split_when (\<lambda>c. is_ascii_whitespace (byte_of c)) s)"

definition strip_prefix :: "string \<Rightarrow> string \<Rightarrow> string option" where
  "strip_prefix p s = (if take (length p) s = p then Some (drop (length p) s) else None)"

definition ends_with :: "'a list \<Rightarrow> 'a list \<Rightarrow> bool" where
  "ends_with s p \<longleftrightarrow> length p \<le> length s \<and> drop (length s - length p) s = p"

lemma split_once_Some_iff:
  "split_once c s = Some (a, b) \<longleftrightarrow> s = a @ c # b \<and> c \<notin> set a"
proof
  assume "split_once c s = Some (a, b)"
  then have c: "c \<in> set s" and a: "a = takeWhile (\<lambda>x. x \<noteq> c) s" and b: "b = tl (dropWhile (\<lambda>x. x \<noteq> c) s)"
    by (auto simp: split_once_def split: if_splits)
  from c obtain r where "dropWhile (\<lambda>x. x \<noteq> c) s = c # r"
    by (metis (mono_tags, lifting) dropWhile_eq_Nil_conv hd_dropWhile list.collapse)
  then have "s = a @ c # b" using takeWhile_dropWhile_id [of "\<lambda>x. x \<noteq> c" s] by (simp add: a b)
  moreover have "c \<notin> set a" using set_takeWhileD [of c "\<lambda>x. x \<noteq> c" s] by (auto simp: a)
  ultimately show "s = a @ c # b \<and> c \<notin> set a" ..
next
  assume s: "s = a @ c # b \<and> c \<notin> set a"
  then have "takeWhile (\<lambda>x. x \<noteq> c) s = a" "dropWhile (\<lambda>x. x \<noteq> c) s = c # b"
    by (auto simp: takeWhile_append2 takeWhile_append dropWhile_append dropWhile_append3 dest: set_takeWhileD)
  with s show "split_once c s = Some (a, b)" by (simp add: split_once_def)
qed

lemma rsplit_once_Some_iff:
  "rsplit_once c s = Some (a, b) \<longleftrightarrow> s = a @ c # b \<and> c \<notin> set b"
proof -
  have "rsplit_once c s = Some (a, b) \<longleftrightarrow> split_once c (rev s) = Some (rev b, rev a)"
    by (auto simp: rsplit_once_def)
  also have "\<dots> \<longleftrightarrow> rev s = rev b @ c # rev a \<and> c \<notin> set b"
    by (simp add: split_once_Some_iff)
  also have "rev s = rev b @ c # rev a \<longleftrightarrow> s = a @ c # b"
    by (metis append.assoc append_Cons append_Nil rev.simps(2) rev_append rev_rev_ident)
  finally show ?thesis .
qed

lemma strip_prefix_Some_iff: "strip_prefix p s = Some r \<longleftrightarrow> s = p @ r"
  by (auto simp: strip_prefix_def) (metis append_take_drop_id)

lemma ends_with_iff: "ends_with s p \<longleftrightarrow> (\<exists>r. s = r @ p)"
  by (auto simp: ends_with_def) (metis append_take_drop_id)

subsection \<open>Words between white space\<close>

function split_white :: "string \<Rightarrow> string list" where
  "split_white s =
     (if s = [] then [[]]
      else if 0 < white_prefix s then [] # split_white (drop (white_prefix s) s)
      else case split_white (tl s) of w # ws \<Rightarrow> (hd s # w) # ws | [] \<Rightarrow> [[hd s]])"
  by pat_completeness auto
termination by (relation "measure length") auto

declare split_white.simps [simp del]

definition split_whitespace :: "string \<Rightarrow> string list" where
  "split_whitespace s = filter (\<lambda>w. w \<noteq> []) (split_white s)"

text \<open>Visible ASCII characters neither start nor end a white-space character.\<close>

definition visible :: "char \<Rightarrow> bool" where
  "visible c \<longleftrightarrow> 0x20 < byte_of c \<and> byte_of c < 0x7F"

lemma white_space_ends:
  "\<forall>w \<in> set white_space. w \<noteq> [] \<and> \<not> (0x20 < hd w \<and> hd w < 0x7F) \<and> \<not> (0x20 < last w \<and> last w < 0x7F)"
  by (simp add: white_space_def)

lemma find_None: "(\<And>x. x \<in> set xs \<Longrightarrow> \<not> p x) \<Longrightarrow> find p xs = None"
  by (simp add: find_None_iff)

lemma white_prefix_visible [simp]: "visible c \<Longrightarrow> white_prefix (c # s) = 0"
proof -
  assume c: "visible c"
  have "find (\<lambda>w. take (length w) (as_bytes (c # s)) = w) white_space = None"
  proof (rule find_None)
    fix w assume "w \<in> set white_space"
    with white_space_ends c show "take (length w) (as_bytes (c # s)) \<noteq> w"
      by (cases w) (auto simp: visible_def)
  qed
  then show ?thesis by (simp add: white_prefix_def)
qed

lemma white_suffix_visible [simp]: "visible c \<Longrightarrow> white_suffix (s @ [c]) = 0"
proof -
  assume c: "visible c"
  have "find (\<lambda>w. length w \<le> length (s @ [c]) \<and> drop (length (s @ [c]) - length w) (as_bytes (s @ [c])) = w)
      white_space = None"
  proof (rule find_None)
    fix w assume w: "w \<in> set white_space"
    show "\<not> (length w \<le> length (s @ [c]) \<and> drop (length (s @ [c]) - length w) (as_bytes (s @ [c])) = w)"
    proof
      assume "length w \<le> length (s @ [c]) \<and> drop (length (s @ [c]) - length w) (as_bytes (s @ [c])) = w"
      then have eq: "drop (length (s @ [c]) - length w) (as_bytes (s @ [c])) = w" ..
      have "w \<noteq> []" using w white_space_ends by blast
      then have "last w = last (as_bytes (s @ [c]))" using eq by (metis drop_eq_Nil last_drop not_le)
      then have "last w = byte_of c" by simp
      with w white_space_ends c show False by (auto simp: visible_def)
    qed
  qed
  then show ?thesis by (simp add: white_suffix_def del: as_bytes_simps)
qed

lemma white_prefix_space [simp]: "white_prefix (CHR '' '' # s) = 1"
  by (simp add: white_prefix_def white_space_def byte_of_def)

lemma trim_visible:
  assumes "v = c # r" "visible c" "v = l @ [d]" "visible d"
  shows "trim v = v" "trim (CHR '' '' # v) = v"
proof -
  have start: "trim_start v = v" using assms(1,2) by (subst trim_start.simps) simp
  have "trim_end v = v" using assms(3,4) by (subst trim_end.simps) simp
  with start show "trim v = v" by (simp add: trim_def)
  moreover have "trim_start (CHR '' '' # v) = v" using start by (subst trim_start.simps) simp
  ultimately show "trim (CHR '' '' # v) = v" using start by (simp add: trim_def)
qed

lemma split_white_word: "list_all visible w \<Longrightarrow> split_white w = [w]"
  by (induction w) (subst split_white.simps; simp)+

lemma split_white_space:
  "list_all visible w \<Longrightarrow> split_white (w @ CHR '' '' # s) = w # split_white s"
proof (induction w)
  case Nil
  show ?case by (subst split_white.simps) simp
next
  case (Cons c w)
  then show ?case by (subst split_white.simps) simp
qed

lemma split_when_word: "(\<And>c. c \<in> set w \<Longrightarrow> \<not> p c) \<Longrightarrow> split_when p w = [w]"
  by (induction w) auto

lemma split_when_sep: "(\<And>c. c \<in> set w \<Longrightarrow> \<not> p c) \<Longrightarrow> p d \<Longrightarrow> split_when p (w @ d # s) = w # split_when p s"
  by (induction w) auto

subsection \<open>Searching\<close>

lemma find_sub_skip: "p \<noteq> [] \<Longrightarrow> c \<noteq> hd p \<Longrightarrow> find_sub p (c # s) = map_option Suc (find_sub p s)"
  by (cases p) auto

lemma find_sub_skip_word:
  "p \<noteq> [] \<Longrightarrow> hd p \<notin> set w \<Longrightarrow> find_sub p (w @ s) = map_option (\<lambda>i. length w + i) (find_sub p s)"
proof (induction w)
  case Nil
  show ?case by (cases "find_sub p s") simp_all
next
  case (Cons c w)
  then have "find_sub p (c # (w @ s)) = map_option Suc (find_sub p (w @ s))"
    by (intro find_sub_skip) auto
  with Cons show ?case by (simp add: option.map_comp o_def)
qed

lemma find_sub_here: "p \<noteq> [] \<Longrightarrow> find_sub p (p @ s) = Some 0"
  by (cases "p @ s") (auto simp: append_eq_Cons_conv)

lemma find_sub_first:
  "find_sub p s = Some i \<Longrightarrow> j < i \<Longrightarrow> take (length p) (drop j s) \<noteq> p"
proof (induction p s arbitrary: i j rule: find_sub.induct)
  case (2 p c s)
  show ?case
  proof (cases "take (length p) (c # s) = p")
    case True
    with 2 show ?thesis by simp
  next
    case False
    with 2(2) obtain k where k: "find_sub p s = Some k" "i = Suc k" by auto
    show ?thesis
    proof (cases j)
      case 0
      with False show ?thesis by simp
    next
      case (Suc m)
      with 2(1) [OF False k(1)] 2(3) k(2) show ?thesis by simp
    qed
  qed
qed (auto split: if_splits)

text \<open>When the first occurrence of a pattern is at the end, no proper prefix ends with it.\<close>

lemma no_earlier_end:
  assumes "find_sub p s = Some (length s - length p)" "k < length s"
  shows "\<not> ends_with (take k s) p"
proof
  assume "ends_with (take k s) p"
  then have len: "length p \<le> k" and eq: "drop (k - length p) (take k s) = p"
    using assms(2) by (auto simp: ends_with_def)
  have "take (length p) (drop (k - length p) s) = p" using eq len by (simp add: drop_take)
  moreover have "k - length p < length s - length p" using len assms(2) by simp
  ultimately show False using find_sub_first [OF assms(1)] by blast
qed

text \<open>Splitting at a pattern whose first character occurs in none of the pieces.\<close>

lemma split_str_piece: "p \<noteq> [] \<Longrightarrow> hd p \<notin> set w \<Longrightarrow> split_str p (w @ p @ s) = w # split_str p s"
  by (subst split_str.simps) (simp add: find_sub_skip_word find_sub_here)

lemma find_sub_absent: "p \<noteq> [] \<Longrightarrow> hd p \<notin> set w \<Longrightarrow> find_sub p w = None"
  using find_sub_skip_word [of p w "[]"] by simp

lemma split_str_last: "p \<noteq> [] \<Longrightarrow> hd p \<notin> set w \<Longrightarrow> split_str p w = [w]"
  by (subst split_str.simps) (simp add: find_sub_absent)

subsection \<open>Printed numbers parse back\<close>

lemma byte_of_digit_char: "d < 10 \<Longrightarrow> unat (byte_of (digit_char d)) = d + 48"
  by (simp add: unat_byte_of digit_char_def)

lemma digit_value_char: "d < 10 \<Longrightarrow> digit_value 10 (digit_char d) = Some d"
proof -
  assume d: "d < 10"
  then have "to_ascii_lowercase (digit_char d) = digit_char d"
    by (simp add: to_ascii_lowercase_def word_le_nat_alt byte_of_digit_char)
  with d show ?thesis by (simp add: digit_value_def byte_of_digit_char)
qed

lemma digits_value_append:
  "digits_value radix acc (xs @ ys) =
     (case digits_value radix acc xs of None \<Rightarrow> None | Some v \<Rightarrow> digits_value radix v ys)"
  by (induction radix acc xs rule: digits_value.induct) (auto split: option.splits)

lemma digits_value_show: "digits_value 10 0 (show_nat n) = Some n"
proof (induction n rule: show_nat.induct)
  case (1 n)
  then show ?case
    by (subst show_nat.simps) (auto simp: digits_value_append digit_value_char)
qed

lemma show_nat_digits: "c \<in> set (show_nat n) \<Longrightarrow> \<exists>d < 10. c = digit_char d"
proof (induction n rule: show_nat.induct)
  case (1 n)
  have last: "\<exists>d < 10. digit_char (n mod 10) = digit_char d" by (rule exI [of _ "n mod 10"]) simp
  have "c \<in> set (if n < 10 then [digit_char n] else show_nat (n div 10) @ [digit_char (n mod 10)])"
    using 1(2) by (subst (asm) show_nat.simps)
  with 1(1) last show ?case by (auto split: if_splits)
qed

lemma show_nat_length: "n < 10 ^ k \<Longrightarrow> 0 < k \<Longrightarrow> length (show_nat n) \<le> k"
proof (induction n arbitrary: k rule: show_nat.induct)
  case (1 n)
  show ?case
  proof (cases "n < 10")
    case True
    with 1(3) show ?thesis by (subst show_nat.simps) simp
  next
    case False
    then have "k \<noteq> 1" using 1(2) by auto
    then obtain j where j: "k = Suc j" "0 < j" using 1(3) by (cases k) auto
    then have "length (show_nat (n div 10)) \<le> j" using False 1(2) by (intro 1(1)) auto
    with False j show ?thesis by (subst show_nat.simps) simp
  qed
qed

lemma show_nat_nonempty [simp]: "show_nat n \<noteq> []"
  by (subst show_nat.simps) simp

lemma parse_show: "n < limit \<Longrightarrow> parse_unsigned 10 limit (show_nat n) = Some n"
proof -
  assume n: "n < limit"
  obtain c r where s: "show_nat n = c # r" by (cases "show_nat n") simp_all
  then obtain d where "d < 10" "c = digit_char d" using show_nat_digits [of c n] by auto
  then have "byte_of c \<noteq> byte_of (CHR ''+'')"
    using byte_of_digit_char [of d] by (auto simp: byte_of_def)
  then have "c \<noteq> CHR ''+''" by auto
  with n s digits_value_show [of n] show ?thesis by (simp add: parse_unsigned_def)
qed

lemma parse_show_u16: "parse_u16 (show_nat (unat p)) = Some p"
  using unat_bound [of p] by (simp add: parse_u16_def parse_show)

lemma visible_digit_char: "d < 10 \<Longrightarrow> visible (digit_char d)"
  by (simp add: visible_def word_less_nat_alt byte_of_digit_char)

lemma show_nat_visible: "list_all visible (show_nat n)"
  by (auto simp: list_all_iff dest!: show_nat_digits intro: visible_digit_char)

lemma digit_not_colon: "c \<in> set (show_nat n) \<Longrightarrow> c \<noteq> CHR '':''"
proof
  assume "c \<in> set (show_nat n)" "c = CHR '':''"
  then obtain d where "d < 10" "digit_char d = CHR '':''" using show_nat_digits by metis
  then show False using byte_of_digit_char [of d] by (simp add: byte_of_def)
qed

lemma parse_show_u32: "parse_u32 (show_nat (unat p)) = Some p"
  using unat_bound [of p] by (simp add: parse_u32_def parse_show)

lemma white_prefix_tab [simp]: "white_prefix (CHR 0x09 # s) = 1"
  by (simp add: white_prefix_def white_space_def byte_of_def)

lemma split_white_tab:
  "list_all visible w \<Longrightarrow> split_white (w @ CHR 0x09 # s) = w # split_white s"
proof (induction w)
  case Nil
  show ?case by (subst split_white.simps) simp
next
  case (Cons c w)
  then show ?case by (subst split_white.simps) simp
qed

subsection \<open>Trimming keeps the visible characters\<close>

lemma white_space_bytes: "\<forall>w \<in> set white_space. \<forall>b \<in> set w. \<not> (0x20 < b \<and> b < 0x7F)"
  by (simp add: white_space_def)

lemma white_space_dropped:
  "w \<in> set white_space \<Longrightarrow> map byte_of cs = w \<Longrightarrow> c \<in> set cs \<Longrightarrow> \<not> visible c"
  using white_space_bytes by (auto simp: visible_def)

lemma white_prefix_dropped: "c \<in> set (take (white_prefix s) s) \<Longrightarrow> \<not> visible c"
proof (cases "find (\<lambda>w. take (length w) (as_bytes s) = w) white_space")
  case (Some w)
  assume c: "c \<in> set (take (white_prefix s) s)"
  from Some have "w \<in> set white_space" "take (length w) (as_bytes s) = w"
    by (auto simp: find_Some_iff)
  with Some c show ?thesis
    by (intro white_space_dropped [of w "take (length w) s"]) (simp_all add: as_bytes_def take_map white_prefix_def)
qed (simp add: white_prefix_def)

lemma white_suffix_dropped: "c \<in> set (drop (length s - white_suffix s) s) \<Longrightarrow> \<not> visible c"
proof (cases "find (\<lambda>w. length w \<le> length s \<and> drop (length s - length w) (as_bytes s) = w) white_space")
  case (Some w)
  assume c: "c \<in> set (drop (length s - white_suffix s) s)"
  from Some have "w \<in> set white_space" "drop (length s - length w) (as_bytes s) = w"
    by (auto simp: find_Some_iff)
  with Some c show ?thesis
    by (intro white_space_dropped [of w "drop (length s - length w) s"]) (simp_all add: as_bytes_def drop_map white_suffix_def)
qed (simp add: white_suffix_def)

lemma trim_start_visible: "visible c \<Longrightarrow> c \<in> set s \<Longrightarrow> c \<in> set (trim_start s)"
proof (induction s rule: trim_start.induct)
  case (1 s)
  have "c \<in> set (take (white_prefix s) s @ drop (white_prefix s) s)" using 1(3) by simp
  then have "c \<in> set (drop (white_prefix s) s)" using white_prefix_dropped [of c s] 1(2) by (metis Un_iff set_append)
  with 1 show ?case by (subst trim_start.simps) simp
qed

lemma trim_end_visible: "visible c \<Longrightarrow> c \<in> set s \<Longrightarrow> c \<in> set (trim_end s)"
proof (induction s rule: trim_end.induct)
  case (1 s)
  let ?n = "length s - white_suffix s"
  have "c \<in> set (take ?n s @ drop ?n s)" using 1(3) by (subst append_take_drop_id)
  then have "c \<in> set (take ?n s)" using white_suffix_dropped [of c s] 1(2) by (metis Un_iff set_append)
  with 1 show ?case by (subst trim_end.simps) simp
qed

lemma trim_keeps_visible: "visible c \<Longrightarrow> c \<in> set s \<Longrightarrow> c \<in> set (trim s)"
  by (simp add: trim_def trim_start_visible trim_end_visible)

end
