(* ===== verification/Rotation.thy ===== *)
theory Rotation
  imports Rust_Net
begin

text \<open>
  The IP-rotation owner (\<open>crates/rotation/src/lib.rs\<close>): one operation at a time walks from
  \<open>Preparing\<close> to a terminal phase, driven by facts from the runtime (before/after IP, mobile-data
  mutation outcomes, cellular admission and root-policy authorization per owner generation). Each
  method of \<open>RotationStateMachine\<close> is a function from the machine to its result and the machine
  afterwards, so that a rejected fact that still updates the record is visible.
\<close>

subsection \<open>Data\<close>

datatype RotationPhase =
    Idle | Preparing | DataDisabling | WaitingCellularLoss | DataEnabling
  | WaitingCellularRecovery | WaitingRootPolicy | ProbingPublicIp
  | Changed | Unchanged | Failed

definition terminal :: "RotationPhase \<Rightarrow> bool" where
  "terminal p \<longleftrightarrow> p \<in> {Changed, Unchanged, Failed}"

datatype RotationTerminalResult = ResultChanged | ResultUnchanged | ResultFailed

datatype RotationMutationOutcome = Applied | Rejected | Uncertain

datatype RotationFailure =
    RuntimeNotRunning | NoCurrentCellular | RootPolicyUnavailable | BeforeIpFailed
  | DataDisableFailed | MobileDataObservationFailed | DataEnableFailed
  | FreshCellularUnavailable | RootPolicyRecoveryFailed | AfterIpFailed
  | CredentialChanged | DeadlineExceeded | RotationFailureStateUnavailable

datatype RotationRestoreResult =
    NotRequired | AlreadyEnabled | RestoredEnabled | RestoreFailed | RestoreUncertain

datatype RotationStartError = AlreadyInProgress | InvalidGeneration | OperationIdExhausted

datatype RotationTransitionError =
    StaleOperation | InvalidPhase | StaleGeneration | StateUnavailable

record RotationSnapshot =
  snap_operation_id :: "u64 option"
  snap_phase :: RotationPhase
  snap_before_generation :: "u64 option"
  snap_after_generation :: "u64 option"
  snap_before_ip :: "IpAddr option"
  snap_after_ip :: "IpAddr option"
  snap_restore_required :: bool
  snap_terminal_result :: "RotationTerminalResult option"
  snap_failure :: "RotationFailure option"
  snap_restore_result :: "RotationRestoreResult option"

definition idle :: RotationSnapshot where
  "idle = \<lparr>
     snap_operation_id = None, snap_phase = Idle,
     snap_before_generation = None, snap_after_generation = None,
     snap_before_ip = None, snap_after_ip = None,
     snap_restore_required = False, snap_terminal_result = None,
     snap_failure = None, snap_restore_result = None\<rparr>"

record RotationOperation =
  op_id :: u64
  phase :: RotationPhase
  before_generation :: u64
  after_generation :: "u64 option"
  before_ip :: "IpAddr option"
  after_ip :: "IpAddr option"
  cellular_loss_observed :: bool
  latest_owner_generation :: u64
  fresh_cellular_generation :: "u64 option"
  root_authorized_generation :: "u64 option"
  restore_required :: bool
  terminal_result :: "RotationTerminalResult option"
  failure :: "RotationFailure option"
  restore_result :: "RotationRestoreResult option"

record RotationStateMachine =
  next_operation_id :: u64
  current_operation :: "RotationOperation option"

subsection \<open>Methods of the operation\<close>

definition operation_snapshot :: "RotationOperation \<Rightarrow> RotationSnapshot" where
  "operation_snapshot op = \<lparr>
     snap_operation_id = Some (op_id op), snap_phase = phase op,
     snap_before_generation = Some (before_generation op),
     snap_after_generation = after_generation op,
     snap_before_ip = before_ip op, snap_after_ip = after_ip op,
     snap_restore_required = restore_required op,
     snap_terminal_result = terminal_result op,
     snap_failure = failure op, snap_restore_result = restore_result op\<rparr>"

text \<open>\<open>Option::is_some_and(|current| current < generation)\<close> followed by a reset to \<open>None\<close>.\<close>

definition drop_older :: "u64 option \<Rightarrow> u64 \<Rightarrow> u64 option" where
  "drop_older m generation =
     (case m of None \<Rightarrow> None | Some current \<Rightarrow> if current < generation then None else Some current)"

definition observe_owner_generation ::
    "RotationOperation \<Rightarrow> u64 \<Rightarrow> bool \<times> RotationOperation" where
  "observe_owner_generation op generation =
     (if generation < latest_owner_generation op then (False, op)
      else if generation > latest_owner_generation op then
        (True, op\<lparr>latest_owner_generation := generation,
                  fresh_cellular_generation :=
                    drop_older (fresh_cellular_generation op) generation,
                  root_authorized_generation :=
                    drop_older (root_authorized_generation op) generation\<rparr>)
      else (True, op))"

definition observe_recovery_cellular ::
    "RotationOperation \<Rightarrow> u64 \<Rightarrow> bool \<Rightarrow> RotationOperation" where
  "observe_recovery_cellular op generation admitted =
     (if admitted then op\<lparr>fresh_cellular_generation := Some generation\<rparr>
      else
        (let op = (if fresh_cellular_generation op = Some generation
                   then op\<lparr>fresh_cellular_generation := None\<rparr> else op)
         in if root_authorized_generation op = Some generation
            then op\<lparr>root_authorized_generation := None\<rparr> else op))"

definition maybe_advance_loss :: "RotationOperation \<Rightarrow> RotationOperation" where
  "maybe_advance_loss op =
     (if phase op = WaitingCellularLoss \<and> cellular_loss_observed op
      then op\<lparr>phase := DataEnabling\<rparr> else op)"

definition maybe_advance_recovery :: "RotationOperation \<Rightarrow> RotationOperation" where
  "maybe_advance_recovery op =
     (if phase op \<notin> {WaitingCellularRecovery, WaitingRootPolicy} then op
      else case fresh_cellular_generation op of
        None \<Rightarrow> op\<lparr>phase := WaitingCellularRecovery\<rparr>
      | Some fresh \<Rightarrow>
          if root_authorized_generation op \<noteq> Some fresh then op\<lparr>phase := WaitingRootPolicy\<rparr>
          else op\<lparr>after_generation := Some fresh, phase := ProbingPublicIp\<rparr>)"

definition fail_operation :: "RotationOperation \<Rightarrow> RotationFailure \<Rightarrow> RotationOperation" where
  "fail_operation op f =
     op\<lparr>phase := Failed, terminal_result := Some ResultFailed, failure := Some f\<rparr>"

subsection \<open>Methods of the state machine\<close>

definition new_machine :: RotationStateMachine where
  "new_machine = \<lparr>next_operation_id = 1, current_operation = None\<rparr>"

definition snapshot :: "RotationStateMachine \<Rightarrow> RotationSnapshot" where
  "snapshot m =
     (case current_operation m of None \<Rightarrow> idle | Some op \<Rightarrow> operation_snapshot op)"

text \<open>The private accessors \<open>current\<close> and \<open>active\<close>.\<close>

definition current ::
    "RotationStateMachine \<Rightarrow> u64 \<Rightarrow> RotationTransitionError + RotationOperation" where
  "current m operation_id =
     (case current_operation m of
        None \<Rightarrow> Inl StaleOperation
      | Some op \<Rightarrow> if op_id op \<noteq> operation_id then Inl StaleOperation else Inr op)"

definition active ::
    "RotationStateMachine \<Rightarrow> u64 \<Rightarrow> RotationTransitionError + RotationOperation" where
  "active m operation_id =
     (case current m operation_id of
        Inl e \<Rightarrow> Inl e
      | Inr op \<Rightarrow> if terminal (phase op) then Inl InvalidPhase else Inr op)"

type_synonym transition =
  "(RotationTransitionError + RotationSnapshot) \<times> RotationStateMachine"

text \<open>
  Every method borrows the operation mutably through \<open>current\<close> or \<open>active\<close>, edits it and returns
  its snapshot or an error; \<open>with_operation\<close> writes the edited operation back in both cases.
\<close>

definition with_operation ::
    "RotationTransitionError + RotationOperation \<Rightarrow> RotationStateMachine \<Rightarrow>
     (RotationOperation \<Rightarrow> RotationTransitionError option \<times> RotationOperation) \<Rightarrow> transition" where
  "with_operation r m body =
     (case r of
        Inl e \<Rightarrow> (Inl e, m)
      | Inr op \<Rightarrow>
          (case body op of
             (Some e, op') \<Rightarrow> (Inl e, m\<lparr>current_operation := Some op'\<rparr>)
           | (None, op') \<Rightarrow> (Inr (operation_snapshot op'), m\<lparr>current_operation := Some op'\<rparr>)))"

definition fresh_operation :: "u64 \<Rightarrow> u64 \<Rightarrow> RotationOperation" where
  "fresh_operation i g = \<lparr>
     op_id = i, phase = Preparing, before_generation = g, after_generation = None,
     before_ip = None, after_ip = None, cellular_loss_observed = False,
     latest_owner_generation = g, fresh_cellular_generation = None,
     root_authorized_generation = None, restore_required = False,
     terminal_result = None, failure = None, restore_result = None\<rparr>"

definition start ::
    "RotationStateMachine \<Rightarrow> u64 \<Rightarrow> (RotationStartError + u64) \<times> RotationStateMachine" where
  "start m g =
     (if g = 0 then (Inl InvalidGeneration, m)
      else if (case current_operation m of None \<Rightarrow> False | Some op \<Rightarrow> \<not> terminal (phase op))
      then (Inl AlreadyInProgress, m)
      else
        (let i = next_operation_id m
         in case checked_add (next_operation_id m) 1 of
              None \<Rightarrow> (Inl OperationIdExhausted, m)
            | Some nxt \<Rightarrow>
                (Inr i, m\<lparr>next_operation_id := nxt,
                          current_operation := Some (fresh_operation i g)\<rparr>)))"

definition record_before_ip ::
    "RotationStateMachine \<Rightarrow> u64 \<Rightarrow> u64 \<Rightarrow> IpAddr \<Rightarrow> transition" where
  "record_before_ip m operation_id generation address =
     with_operation (active m operation_id) m (\<lambda>op.
       if phase op \<noteq> Preparing then (Some InvalidPhase, op)
       else if generation \<noteq> before_generation op then (Some StaleGeneration, op)
       else (None, op\<lparr>before_ip := Some address, phase := DataDisabling\<rparr>))"

definition data_disable_mutation_started :: "RotationStateMachine \<Rightarrow> u64 \<Rightarrow> transition" where
  "data_disable_mutation_started m operation_id =
     with_operation (active m operation_id) m (\<lambda>op.
       if phase op \<noteq> DataDisabling then (Some InvalidPhase, op)
       else (None, op\<lparr>restore_required := True\<rparr>))"

definition data_disable_effect_completed ::
    "RotationStateMachine \<Rightarrow> u64 \<Rightarrow> RotationMutationOutcome \<Rightarrow> transition" where
  "data_disable_effect_completed m operation_id outcome =
     with_operation (active m operation_id) m (\<lambda>op.
       if phase op \<noteq> DataDisabling then (Some InvalidPhase, op)
       else case outcome of
         Applied \<Rightarrow>
           (None, maybe_advance_loss
                    (op\<lparr>restore_required := True, phase := WaitingCellularLoss\<rparr>))
       | Rejected \<Rightarrow>
           (None, fail_operation (op\<lparr>restore_required := False\<rparr>) DataDisableFailed)
       | Uncertain \<Rightarrow>
           (None, fail_operation (op\<lparr>restore_required := True\<rparr>) DataDisableFailed))"

definition data_enable_effect_completed ::
    "RotationStateMachine \<Rightarrow> u64 \<Rightarrow> RotationMutationOutcome \<Rightarrow> transition" where
  "data_enable_effect_completed m operation_id outcome =
     with_operation (active m operation_id) m (\<lambda>op.
       if phase op \<noteq> DataEnabling then (Some InvalidPhase, op)
       else case outcome of
         Applied \<Rightarrow>
           (None, maybe_advance_recovery
                    (op\<lparr>restore_required := False, phase := WaitingCellularRecovery\<rparr>))
       | Rejected \<Rightarrow>
           (None, fail_operation (op\<lparr>restore_required := True\<rparr>) DataEnableFailed)
       | Uncertain \<Rightarrow>
           (None, fail_operation (op\<lparr>restore_required := True\<rparr>) DataEnableFailed))"

definition observe_cellular ::
    "RotationStateMachine \<Rightarrow> u64 \<Rightarrow> u64 \<Rightarrow> bool \<Rightarrow> transition" where
  "observe_cellular m operation_id generation admitted =
     with_operation (active m operation_id) m (\<lambda>op.
       if generation \<le> before_generation op then
         (if phase op \<in> {DataDisabling, WaitingCellularLoss, DataEnabling,
                         WaitingCellularRecovery, WaitingRootPolicy}
          then (None, op) else (Some StaleGeneration, op))
       else
         (let (fresh, op) = observe_owner_generation op generation
          in if \<not> fresh then (None, op)
             else if phase op \<in> {DataDisabling, WaitingCellularLoss} then
               (None, maybe_advance_loss
                        (if \<not> admitted then op\<lparr>cellular_loss_observed := True\<rparr> else op))
             else if phase op = DataEnabling then
               (None, observe_recovery_cellular op generation admitted)
             else if phase op \<in> {WaitingCellularRecovery, WaitingRootPolicy} then
               (None, maybe_advance_recovery (observe_recovery_cellular op generation admitted))
             else (Some InvalidPhase, op)))"

definition observe_root_policy ::
    "RotationStateMachine \<Rightarrow> u64 \<Rightarrow> u64 \<Rightarrow> bool \<Rightarrow> transition" where
  "observe_root_policy m operation_id generation authorized =
     with_operation (active m operation_id) m (\<lambda>op.
       if generation \<le> before_generation op then
         (if phase op \<in> {DataEnabling, WaitingCellularRecovery, WaitingRootPolicy}
          then (None, op) else (Some StaleGeneration, op))
       else
         (let (fresh, op) = observe_owner_generation op generation
          in if \<not> fresh then (None, op)
             else if phase op \<in> {DataEnabling, WaitingCellularRecovery, WaitingRootPolicy} then
               (let op = (if authorized then op\<lparr>root_authorized_generation := Some generation\<rparr>
                          else op\<lparr>root_authorized_generation := None\<rparr>)
                in (None, if phase op \<noteq> DataEnabling then maybe_advance_recovery op else op))
             else (Some InvalidPhase, op)))"

definition record_after_ip ::
    "RotationStateMachine \<Rightarrow> u64 \<Rightarrow> u64 \<Rightarrow> IpAddr \<Rightarrow> transition" where
  "record_after_ip m operation_id generation address =
     with_operation (active m operation_id) m (\<lambda>op.
       if phase op \<noteq> ProbingPublicIp then (Some InvalidPhase, op)
       else if after_generation op \<noteq> Some generation then (Some StaleGeneration, op)
       else case before_ip op of
         None \<Rightarrow> (Some StateUnavailable, op)
       | Some previous \<Rightarrow>
           (let op = op\<lparr>after_ip := Some address\<rparr>;
                op = (if previous = address
                      then op\<lparr>phase := Unchanged, terminal_result := Some ResultUnchanged\<rparr>
                      else op\<lparr>phase := Changed, terminal_result := Some ResultChanged\<rparr>)
            in (None, op\<lparr>restore_required := False\<rparr>)))"

definition fail :: "RotationStateMachine \<Rightarrow> u64 \<Rightarrow> RotationFailure \<Rightarrow> transition" where
  "fail m operation_id f =
     with_operation (active m operation_id) m (\<lambda>op. (None, fail_operation op f))"

definition deadline_exceeded :: "RotationStateMachine \<Rightarrow> u64 \<Rightarrow> transition" where
  "deadline_exceeded m operation_id = fail m operation_id DeadlineExceeded"

definition record_restore ::
    "RotationStateMachine \<Rightarrow> u64 \<Rightarrow> RotationRestoreResult \<Rightarrow> transition" where
  "record_restore m operation_id restore =
     with_operation (current m operation_id) m (\<lambda>op.
       if phase op \<noteq> Failed then (Some InvalidPhase, op)
       else
         (let op = op\<lparr>restore_result := Some restore\<rparr>
          in (None, if restore \<in> {NotRequired, AlreadyEnabled, RestoredEnabled}
                    then op\<lparr>restore_required := False\<rparr> else op)))"

subsection \<open>The owner as a machine over its events\<close>

datatype RotationEvent =
    EvStart u64
  | EvBeforeIp u64 u64 IpAddr
  | EvDisableStarted u64
  | EvDisableCompleted u64 RotationMutationOutcome
  | EvEnableCompleted u64 RotationMutationOutcome
  | EvCellular u64 u64 bool
  | EvRootPolicy u64 u64 bool
  | EvAfterIp u64 u64 IpAddr
  | EvFail u64 RotationFailure
  | EvDeadline u64
  | EvRestore u64 RotationRestoreResult

fun rotation_step :: "RotationStateMachine \<Rightarrow> RotationEvent \<Rightarrow> RotationStateMachine" where
  "rotation_step m (EvStart g) = snd (start m g)"
| "rotation_step m (EvBeforeIp i g a) = snd (record_before_ip m i g a)"
| "rotation_step m (EvDisableStarted i) = snd (data_disable_mutation_started m i)"
| "rotation_step m (EvDisableCompleted i r) = snd (data_disable_effect_completed m i r)"
| "rotation_step m (EvEnableCompleted i r) = snd (data_enable_effect_completed m i r)"
| "rotation_step m (EvCellular i g b) = snd (observe_cellular m i g b)"
| "rotation_step m (EvRootPolicy i g b) = snd (observe_root_policy m i g b)"
| "rotation_step m (EvAfterIp i g a) = snd (record_after_ip m i g a)"
| "rotation_step m (EvFail i f) = snd (fail m i f)"
| "rotation_step m (EvDeadline i) = snd (deadline_exceeded m i)"
| "rotation_step m (EvRestore i r) = snd (record_restore m i r)"

text \<open>
  The operation invariant. The generations an operation holds are newer than the one it started
  from, and the two recovery facts are never older than the newest owner generation seen; the
  phase determines which addresses, results and compensation duties the record carries.
\<close>

definition generations_ok :: "RotationOperation \<Rightarrow> bool" where
  "generations_ok op \<longleftrightarrow>
     before_generation op \<noteq> 0 \<and>
     before_generation op \<le> latest_owner_generation op \<and>
     (\<forall>g. fresh_cellular_generation op = Some g \<longrightarrow>
        before_generation op < g \<and> g = latest_owner_generation op) \<and>
     (\<forall>g. root_authorized_generation op = Some g \<longrightarrow>
        before_generation op < g \<and> g = latest_owner_generation op) \<and>
     (\<forall>g. after_generation op = Some g \<longrightarrow>
        before_generation op < g \<and> g \<le> latest_owner_generation op)"

definition facts_ok :: "RotationOperation \<Rightarrow> bool" where
  "facts_ok op \<longleftrightarrow>
     phase op \<noteq> Idle \<and>
     (phase op = Preparing \<longrightarrow> before_ip op = None) \<and>
     (phase op \<notin> {Preparing, Failed} \<longrightarrow> before_ip op \<noteq> None) \<and>
     (after_generation op \<noteq> None \<longrightarrow> before_ip op \<noteq> None) \<and>
     (phase op \<in> {ProbingPublicIp, Changed, Unchanged} \<longrightarrow> after_generation op \<noteq> None) \<and>
     (phase op = DataEnabling \<longrightarrow> cellular_loss_observed op) \<and>
     (after_ip op \<noteq> None \<longleftrightarrow> phase op \<in> {Changed, Unchanged}) \<and>
     (phase op = Changed \<longrightarrow> after_ip op \<noteq> before_ip op) \<and>
     (phase op = Unchanged \<longrightarrow> after_ip op = before_ip op)"

definition result_of_phase :: "RotationPhase \<Rightarrow> RotationTerminalResult option" where
  "result_of_phase p =
     (if p = Changed then Some ResultChanged
      else if p = Unchanged then Some ResultUnchanged
      else if p = Failed then Some ResultFailed else None)"

definition outcome_ok :: "RotationOperation \<Rightarrow> bool" where
  "outcome_ok op \<longleftrightarrow>
     terminal_result op = result_of_phase (phase op) \<and>
     (failure op \<noteq> None \<longleftrightarrow> phase op = Failed) \<and>
     (restore_result op \<noteq> None \<longrightarrow> phase op = Failed)"

definition compensation_ok :: "RotationOperation \<Rightarrow> bool" where
  "compensation_ok op \<longleftrightarrow>
     (phase op \<in> {WaitingCellularLoss, DataEnabling} \<longrightarrow> restore_required op) \<and>
     (restore_required op \<longrightarrow>
        before_ip op \<noteq> None \<and>
        phase op \<in> {DataDisabling, WaitingCellularLoss, DataEnabling, Failed})"

definition operation_ok :: "RotationOperation \<Rightarrow> bool" where
  "operation_ok op \<longleftrightarrow>
     generations_ok op \<and> facts_ok op \<and> outcome_ok op \<and> compensation_ok op"

definition rotation_inv :: "RotationStateMachine \<Rightarrow> bool" where
  "rotation_inv m \<longleftrightarrow>
     next_operation_id m \<noteq> 0 \<and>
     (\<forall>op. current_operation m = Some op \<longrightarrow>
        operation_ok op \<and> op_id op \<noteq> 0 \<and> op_id op < next_operation_id m)"

lemmas operation_ok_defs =
  operation_ok_def generations_ok_def facts_ok_def outcome_ok_def compensation_ok_def

subsection \<open>Every method keeps the invariant\<close>

text \<open>A method that edits the current operation keeps the invariant if its edit keeps
  \<^const>\<open>operation_ok\<close> and the operation's identity.\<close>

lemma current_Inr_iff:
  "current m i = Inr op \<longleftrightarrow> current_operation m = Some op \<and> op_id op = i"
  by (auto simp: current_def split: option.splits if_splits)

lemma active_Inr_iff:
  "active m i = Inr op \<longleftrightarrow>
     current_operation m = Some op \<and> op_id op = i \<and> \<not> terminal (phase op)"
proof (cases "current m i")
  case (Inl e)
  then have "\<not> (current_operation m = Some op \<and> op_id op = i)"
    by (metis Inl_Inr_False current_Inr_iff)
  with Inl show ?thesis by (auto simp: active_def)
next
  case (Inr op')
  with current_Inr_iff [of m i op'] show ?thesis by (auto simp: active_def)
qed

lemma with_operation_inv:
  assumes "rotation_inv m"
    and "\<And>op. r = Inr op \<Longrightarrow> current_operation m = Some op"
    and "\<And>op. r = Inr op \<Longrightarrow> operation_ok op \<Longrightarrow>
      operation_ok (snd (body op)) \<and> op_id (snd (body op)) = op_id op"
  shows "rotation_inv (snd (with_operation r m body))"
proof (cases r)
  case (Inl e)
  with assms(1) show ?thesis by (simp add: with_operation_def)
next
  case (Inr op)
  with assms have "operation_ok (snd (body op)) \<and> op_id (snd (body op)) = op_id op"
    and "operation_ok op" "op_id op \<noteq> 0" "op_id op < next_operation_id m" "next_operation_id m \<noteq> 0"
    by (auto simp: rotation_inv_def)
  with Inr show ?thesis
    by (auto simp: with_operation_def rotation_inv_def split: prod.splits option.splits)
qed

lemma drop_older_Some: "drop_older m g = Some h \<longleftrightarrow> m = Some h \<and> g \<le> h"
  by (auto simp: drop_older_def split: option.splits)

lemma observe_owner_generation_ok:
  assumes "operation_ok op" "before_generation op < generation"
  shows "operation_ok (snd (observe_owner_generation op generation))"
proof -
  have "generations_ok (snd (observe_owner_generation op generation))"
    using assms
    by (auto simp: observe_owner_generation_def generations_ok_def operation_ok_def drop_older_Some)
  moreover have "facts_ok (snd (observe_owner_generation op generation)) = facts_ok op"
    "outcome_ok (snd (observe_owner_generation op generation)) = outcome_ok op"
    "compensation_ok (snd (observe_owner_generation op generation)) = compensation_ok op"
    by (simp_all add: observe_owner_generation_def facts_ok_def outcome_ok_def compensation_ok_def)
  ultimately show ?thesis using assms(1) by (simp add: operation_ok_def)
qed

lemma observe_owner_generation_latest:
  "fst (observe_owner_generation op generation) \<Longrightarrow>
     latest_owner_generation (snd (observe_owner_generation op generation)) = generation"
  by (auto simp: observe_owner_generation_def split: if_splits)

lemma observe_owner_generation_frame [simp]:
  "op_id (snd (observe_owner_generation op g)) = op_id op"
  "phase (snd (observe_owner_generation op g)) = phase op"
  "before_generation (snd (observe_owner_generation op g)) = before_generation op"
  "restore_required (snd (observe_owner_generation op g)) = restore_required op"
  by (auto simp: observe_owner_generation_def)

lemma observe_recovery_cellular_frame [simp]:
  "op_id (observe_recovery_cellular op g b) = op_id op"
  "phase (observe_recovery_cellular op g b) = phase op"
  "before_generation (observe_recovery_cellular op g b) = before_generation op"
  "restore_required (observe_recovery_cellular op g b) = restore_required op"
  "latest_owner_generation (observe_recovery_cellular op g b) = latest_owner_generation op"
  by (auto simp: observe_recovery_cellular_def Let_def)

lemma observe_recovery_cellular_ok:
  assumes "operation_ok op" "before_generation op < generation"
    and "latest_owner_generation op = generation"
  shows "operation_ok (observe_recovery_cellular op generation admitted)"
proof -
  have "generations_ok op"
    using assms(1) by (simp add: operation_ok_def)
  then have "generations_ok (observe_recovery_cellular op generation admitted)"
    using assms(2,3)
    by (cases admitted; cases "fresh_cellular_generation op = Some generation";
        cases "root_authorized_generation op = Some generation")
       (simp_all add: observe_recovery_cellular_def generations_ok_def)
  moreover have "facts_ok (observe_recovery_cellular op generation admitted) = facts_ok op"
    "outcome_ok (observe_recovery_cellular op generation admitted) = outcome_ok op"
    "compensation_ok (observe_recovery_cellular op generation admitted) = compensation_ok op"
    by (simp_all add: observe_recovery_cellular_def Let_def facts_ok_def outcome_ok_def
                      compensation_ok_def)
  ultimately show ?thesis using assms(1) by (simp add: operation_ok_def)
qed

lemma maybe_advance_loss_frame [simp]: "op_id (maybe_advance_loss op) = op_id op"
  by (simp add: maybe_advance_loss_def)

lemma operation_okI:
  assumes "generations_ok op" "facts_ok op" "outcome_ok op" "compensation_ok op"
  shows "operation_ok op"
  using assms by (simp add: operation_ok_def)

lemma maybe_advance_loss_ok:
  assumes "operation_ok op"
  shows "operation_ok (maybe_advance_loss op)"
proof (cases "phase op = WaitingCellularLoss \<and> cellular_loss_observed op")
  case True
  then have eq: "maybe_advance_loss op = op\<lparr>phase := DataEnabling\<rparr>"
    by (simp add: maybe_advance_loss_def)
  from assms have "generations_ok op" "facts_ok op" "outcome_ok op" "compensation_ok op"
    by (simp_all add: operation_ok_def)
  with True show ?thesis unfolding eq
    by (intro operation_okI)
       (auto simp: generations_ok_def, auto simp: facts_ok_def,
        auto simp: outcome_ok_def result_of_phase_def, auto simp: compensation_ok_def)
qed (use assms in \<open>auto simp: maybe_advance_loss_def\<close>)

lemma maybe_advance_recovery_frame [simp]: "op_id (maybe_advance_recovery op) = op_id op"
  by (simp add: maybe_advance_recovery_def split: option.splits)

lemma advance_phase_ok:
  assumes "operation_ok op" "phase op \<in> {WaitingCellularRecovery, WaitingRootPolicy}"
    and "p \<in> {WaitingCellularRecovery, WaitingRootPolicy}"
  shows "operation_ok (op\<lparr>phase := p\<rparr>)"
proof -
  from assms have "generations_ok op" "facts_ok op" "outcome_ok op" "compensation_ok op"
    by (simp_all add: operation_ok_def)
  with assms(2,3) show ?thesis
    by (intro operation_okI)
       (auto simp: generations_ok_def, auto simp: facts_ok_def,
        auto simp: outcome_ok_def result_of_phase_def, auto simp: compensation_ok_def)
qed

lemma advance_probe_ok:
  assumes "operation_ok op" "phase op \<in> {WaitingCellularRecovery, WaitingRootPolicy}"
    and "fresh_cellular_generation op = Some g"
  shows "operation_ok (op\<lparr>after_generation := Some g, phase := ProbingPublicIp\<rparr>)"
proof -
  from assms have "generations_ok op" "facts_ok op" "outcome_ok op" "compensation_ok op"
    by (simp_all add: operation_ok_def)
  with assms(2,3) show ?thesis
    by (intro operation_okI)
       (auto simp: generations_ok_def, auto simp: facts_ok_def,
        auto simp: outcome_ok_def result_of_phase_def, auto simp: compensation_ok_def)
qed

lemma maybe_advance_recovery_ok:
  assumes "operation_ok op"
  shows "operation_ok (maybe_advance_recovery op)"
proof (cases "phase op \<in> {WaitingCellularRecovery, WaitingRootPolicy}")
  case True
  show ?thesis
  proof (cases "fresh_cellular_generation op")
    case None
    with True have "maybe_advance_recovery op = op\<lparr>phase := WaitingCellularRecovery\<rparr>"
      by (simp add: maybe_advance_recovery_def)
    with advance_phase_ok [OF assms True] show ?thesis by simp
  next
    case (Some g)
    with True have "maybe_advance_recovery op =
        (if root_authorized_generation op \<noteq> Some g then op\<lparr>phase := WaitingRootPolicy\<rparr>
         else op\<lparr>after_generation := Some g, phase := ProbingPublicIp\<rparr>)"
      by (simp add: maybe_advance_recovery_def)
    with advance_phase_ok [OF assms True] advance_probe_ok [OF assms True Some]
    show ?thesis by simp
  qed
next
  case False
  with assms show ?thesis by (simp add: maybe_advance_recovery_def)
qed

lemma fail_operation_frame [simp]: "op_id (fail_operation op f) = op_id op"
  by (simp add: fail_operation_def)

lemma fail_operation_ok:
  assumes "operation_ok op" "\<not> terminal (phase op)"
  shows "operation_ok (fail_operation op f)"
proof -
  from assms have ok: "generations_ok op" "facts_ok op" "outcome_ok op" "compensation_ok op"
    by (simp_all add: operation_ok_def)
  from ok(2) assms(2) have "after_ip op = None"
    by (auto simp: facts_ok_def terminal_def)
  with ok show ?thesis unfolding fail_operation_def
    by (intro operation_okI)
       (simp add: generations_ok_def, simp add: facts_ok_def,
        simp add: outcome_ok_def result_of_phase_def, simp add: compensation_ok_def)
qed

lemma operation_okE:
  assumes "operation_ok op"
  obtains "generations_ok op" "facts_ok op" "outcome_ok op" "compensation_ok op"
  using assms by (simp add: operation_ok_def)

lemma before_ip_ok:
  assumes "operation_ok op" "phase op = Preparing"
  shows "operation_ok (op\<lparr>before_ip := Some a, phase := DataDisabling\<rparr>)"
  using assms(1)
proof (rule operation_okE)
  assume "generations_ok op" "facts_ok op" "outcome_ok op" "compensation_ok op"
  with assms(2) show ?thesis
    by (intro operation_okI)
       (simp add: generations_ok_def, simp add: facts_ok_def,
        simp add: outcome_ok_def result_of_phase_def, simp add: compensation_ok_def)
qed

lemma restore_required_ok:
  assumes "operation_ok op" "phase op = DataDisabling"
  shows "operation_ok (op\<lparr>restore_required := b\<rparr>)"
    and "operation_ok (op\<lparr>restore_required := True, phase := WaitingCellularLoss\<rparr>)"
proof -
  from assms(1) have ok: "generations_ok op" "facts_ok op" "outcome_ok op" "compensation_ok op"
    by (simp_all add: operation_ok_def)
  with assms(2) show "operation_ok (op\<lparr>restore_required := b\<rparr>)"
    by (intro operation_okI)
       (simp add: generations_ok_def, simp add: facts_ok_def,
        simp add: outcome_ok_def result_of_phase_def, simp add: compensation_ok_def facts_ok_def)
  from ok assms(2) show "operation_ok (op\<lparr>restore_required := True, phase := WaitingCellularLoss\<rparr>)"
    by (intro operation_okI)
       (simp add: generations_ok_def, simp add: facts_ok_def,
        simp add: outcome_ok_def result_of_phase_def, simp add: compensation_ok_def facts_ok_def)
qed

lemma enabling_ok:
  assumes "operation_ok op" "phase op = DataEnabling"
  shows "operation_ok (op\<lparr>restore_required := True\<rparr>)"
    and "operation_ok (op\<lparr>restore_required := False, phase := WaitingCellularRecovery\<rparr>)"
proof -
  from assms(1) have ok: "generations_ok op" "facts_ok op" "outcome_ok op" "compensation_ok op"
    by (simp_all add: operation_ok_def)
  with assms(2) show "operation_ok (op\<lparr>restore_required := True\<rparr>)"
    by (intro operation_okI)
       (simp add: generations_ok_def, simp add: facts_ok_def,
        simp add: outcome_ok_def result_of_phase_def, simp add: compensation_ok_def facts_ok_def)
  from ok assms(2)
  show "operation_ok (op\<lparr>restore_required := False, phase := WaitingCellularRecovery\<rparr>)"
    by (intro operation_okI)
       (simp add: generations_ok_def, simp add: facts_ok_def,
        simp add: outcome_ok_def result_of_phase_def, simp add: compensation_ok_def facts_ok_def)
qed

lemma loss_observed_ok:
  "operation_ok op \<Longrightarrow> operation_ok (op\<lparr>cellular_loss_observed := True\<rparr>)"
  by (simp add: operation_ok_defs)

lemma root_authorized_ok:
  assumes "operation_ok op" "before_generation op < g" "latest_owner_generation op = g"
  shows "operation_ok (op\<lparr>root_authorized_generation := Some g\<rparr>)"
    and "operation_ok (op\<lparr>root_authorized_generation := None\<rparr>)"
  using assms by (simp_all add: operation_ok_defs)

lemma after_ip_ok:
  assumes "operation_ok op" "phase op = ProbingPublicIp" "before_ip op = Some before"
  shows "operation_ok (op\<lparr>after_ip := Some a, phase := if before = a then Unchanged else Changed,
    terminal_result := Some (if before = a then ResultUnchanged else ResultChanged),
    restore_required := False\<rparr>)"
proof -
  from assms(1) have "generations_ok op" "facts_ok op" "outcome_ok op" "compensation_ok op"
    by (simp_all add: operation_ok_def)
  with assms(2,3) show ?thesis
    by (intro operation_okI)
       (simp add: generations_ok_def, simp add: facts_ok_def,
        simp add: outcome_ok_def result_of_phase_def, simp add: compensation_ok_def)
qed

lemma restore_ok:
  assumes "operation_ok op" "phase op = Failed"
  shows "operation_ok (op\<lparr>restore_result := Some r\<rparr>)"
    and "operation_ok (op\<lparr>restore_result := Some r, restore_required := False\<rparr>)"
  using assms by (simp_all add: operation_ok_defs)

subsection \<open>The owner is a guarded machine, ranked by its next operation id\<close>

lemma start_inv: "rotation_inv m \<Longrightarrow> rotation_inv (snd (start m g))"
proof -
  assume inv: "rotation_inv m"
  have "operation_ok (fresh_operation i g)" if "g \<noteq> 0" for i
    using that by (simp add: fresh_operation_def operation_ok_defs result_of_phase_def)
  moreover have "next_operation_id m < n" if "checked_add (next_operation_id m) 1 = Some n" for n
    using that by (simp add: checked_add_Some_less)
  ultimately show ?thesis
    using inv by (fastforce simp: start_def rotation_inv_def fresh_operation_def Let_def
                            split: option.splits)
qed

lemma record_before_ip_inv:
  "rotation_inv m \<Longrightarrow> rotation_inv (snd (record_before_ip m i g a))"
  unfolding record_before_ip_def
  by (rule with_operation_inv) (auto simp: active_Inr_iff intro: before_ip_ok)

lemma data_disable_mutation_started_inv:
  "rotation_inv m \<Longrightarrow> rotation_inv (snd (data_disable_mutation_started m i))"
  unfolding data_disable_mutation_started_def
  by (rule with_operation_inv) (auto simp: active_Inr_iff intro: restore_required_ok)

lemma data_disable_effect_completed_inv:
  "rotation_inv m \<Longrightarrow> rotation_inv (snd (data_disable_effect_completed m i r))"
  unfolding data_disable_effect_completed_def
  by (rule with_operation_inv)
     (auto simp: active_Inr_iff terminal_def split: RotationMutationOutcome.split
           intro!: maybe_advance_loss_ok fail_operation_ok restore_required_ok)

lemma data_enable_effect_completed_inv:
  "rotation_inv m \<Longrightarrow> rotation_inv (snd (data_enable_effect_completed m i r))"
  unfolding data_enable_effect_completed_def
  by (rule with_operation_inv)
     (auto simp: active_Inr_iff terminal_def split: RotationMutationOutcome.split
           intro!: maybe_advance_recovery_ok fail_operation_ok enabling_ok)

lemma observe_cellular_inv:
  assumes "rotation_inv m"
  shows "rotation_inv (snd (observe_cellular m i g b))"
  unfolding observe_cellular_def
proof (rule with_operation_inv [OF assms], goal_cases)
  case (1 op)
  then show ?case by (simp add: active_Inr_iff)
next
  case (2 op)
  then have ok: "operation_ok op" by simp
  obtain fresh op' where ob: "observe_owner_generation op g = (fresh, op')" by fastforce
  have frame: "op_id op' = op_id op" "phase op' = phase op"
      "before_generation op' = before_generation op"
    using observe_owner_generation_frame [of op g] by (simp_all add: ob)
  have ok': "operation_ok op'" if "before_generation op < g"
    using observe_owner_generation_ok [OF ok that] by (simp add: ob)
  have lat: "latest_owner_generation op' = g" if fresh
    using observe_owner_generation_latest [of op g] that by (simp add: ob)
  show ?case
    using ok ok' lat frame
    by (auto simp: ob not_le intro!: maybe_advance_loss_ok maybe_advance_recovery_ok
                   observe_recovery_cellular_ok loss_observed_ok)
qed

lemma observe_root_policy_inv:
  assumes "rotation_inv m"
  shows "rotation_inv (snd (observe_root_policy m i g b))"
  unfolding observe_root_policy_def
proof (rule with_operation_inv [OF assms], goal_cases)
  case (1 op)
  then show ?case by (simp add: active_Inr_iff)
next
  case (2 op)
  then have ok: "operation_ok op" by simp
  obtain fresh op' where ob: "observe_owner_generation op g = (fresh, op')" by fastforce
  have frame: "op_id op' = op_id op" "phase op' = phase op"
      "before_generation op' = before_generation op"
    using observe_owner_generation_frame [of op g] by (simp_all add: ob)
  have ok': "operation_ok op'" if "before_generation op < g"
    using observe_owner_generation_ok [OF ok that] by (simp add: ob)
  have lat: "latest_owner_generation op' = g" if fresh
    using observe_owner_generation_latest [of op g] that by (simp add: ob)
  show ?case
    using ok ok' lat frame
    by (auto simp: ob not_le Let_def intro!: maybe_advance_recovery_ok root_authorized_ok)
qed

lemma record_after_ip_inv:
  "rotation_inv m \<Longrightarrow> rotation_inv (snd (record_after_ip m i g a))"
  unfolding record_after_ip_def
proof (rule with_operation_inv, goal_cases)
  case (3 op)
  then show ?case
    using after_ip_ok [of op _ a] by (auto simp: Let_def split: option.split)
qed (auto simp: active_Inr_iff)

lemma fail_inv: "rotation_inv m \<Longrightarrow> rotation_inv (snd (fail m i f))"
  unfolding fail_def
  by (rule with_operation_inv) (auto simp: active_Inr_iff intro: fail_operation_ok)

lemma record_restore_inv: "rotation_inv m \<Longrightarrow> rotation_inv (snd (record_restore m i r))"
  unfolding record_restore_def
  by (rule with_operation_inv) (auto simp: current_Inr_iff Let_def intro: restore_ok)

lemma rotation_step_inv: "rotation_inv m \<Longrightarrow> rotation_inv (rotation_step m e)"
  by (cases e)
     (simp_all add: start_inv record_before_ip_inv data_disable_mutation_started_inv
        data_disable_effect_completed_inv data_enable_effect_completed_inv observe_cellular_inv
        observe_root_policy_inv record_after_ip_inv fail_inv deadline_exceeded_def
        record_restore_inv)

lemma with_operation_next_id [simp]:
  "next_operation_id (snd (with_operation r m body)) = next_operation_id m"
  by (auto simp: with_operation_def split: sum.splits prod.splits option.splits)

lemma start_next_id_mono: "next_operation_id m \<le> next_operation_id (snd (start m g))"
  by (auto simp: start_def Let_def split: option.splits dest!: checked_add_Some_less)

lemma rotation_step_next_id:
  "next_operation_id m \<le> next_operation_id (rotation_step m e)"
  by (cases e)
     (simp_all add: start_next_id_mono record_before_ip_def data_disable_mutation_started_def
        data_disable_effect_completed_def data_enable_effect_completed_def observe_cellular_def
        observe_root_policy_def record_after_ip_def fail_def deadline_exceeded_def
        record_restore_def)

interpretation rotation: ranked_machine new_machine rotation_step rotation_inv
  "\<lambda>m. unat (next_operation_id m)"
proof unfold_locales
  show "rotation_inv new_machine" by (simp add: rotation_inv_def new_machine_def)
  fix m e
  show "rotation_inv m \<Longrightarrow> rotation_inv (rotation_step m e)" by (rule rotation_step_inv)
  show "unat (next_operation_id m) \<le> unat (next_operation_id (rotation_step m e))"
    using rotation_step_next_id by (simp add: word_le_nat_alt)
qed

abbreviation rotation_run :: "RotationEvent list \<Rightarrow> RotationStateMachine" where
  "rotation_run es \<equiv> foldl rotation_step new_machine es"

subsection \<open>Properties\<close>

lemma rotation_run_operation_ok:
  "current_operation (rotation_run es) = Some op \<Longrightarrow> operation_ok op"
  using rotation.inv_reachable [of es] by (simp add: rotation_inv_def)

text \<open>Where the content of an operation comes from. Everything an operation holds is traced back to the fact that
  reported it: the start that handed out its id, the before address of exactly its generation, the
  confirmations of the generation it probes, and the after address of exactly that generation.\<close>

definition confirmed :: "RotationEvent list \<Rightarrow> u64 \<Rightarrow> u64 \<Rightarrow> bool" where
  "confirmed es i g \<longleftrightarrow> EvCellular i g True \<in> set es \<and> EvRootPolicy i g True \<in> set es"

definition traced_facts :: "RotationEvent list \<Rightarrow> RotationOperation \<Rightarrow> bool" where
  "traced_facts es op \<longleftrightarrow>
     (\<forall>g. fresh_cellular_generation op = Some g \<longrightarrow> EvCellular (op_id op) g True \<in> set es) \<and>
     (\<forall>g. root_authorized_generation op = Some g \<longrightarrow> EvRootPolicy (op_id op) g True \<in> set es) \<and>
     (\<forall>g. after_generation op = Some g \<longrightarrow> confirmed es (op_id op) g) \<and>
     (\<forall>a. after_ip op = Some a \<longrightarrow>
        (\<exists>g es1 es2. after_generation op = Some g \<and> es = es1 @ EvAfterIp (op_id op) g a # es2 \<and>
           confirmed es1 (op_id op) g))"

definition traced_before :: "RotationEvent list \<Rightarrow> RotationOperation \<Rightarrow> bool" where
  "traced_before es op =
     (case before_ip op of
        None \<Rightarrow> fresh_cellular_generation op = None \<and> root_authorized_generation op = None \<and>
          after_generation op = None \<and> after_ip op = None
      | Some b \<Rightarrow> \<exists>es1 es2. es = es1 @ EvBeforeIp (op_id op) (before_generation op) b # es2 \<and> traced_facts es2 op)"

definition traced :: "RotationEvent list \<Rightarrow> RotationOperation \<Rightarrow> bool" where
  "traced es op \<longleftrightarrow>
     (\<exists>earlier es1. es = earlier @ EvStart (before_generation op) # es1 \<and>
        fst (start (rotation_run earlier) (before_generation op)) = Inr (op_id op) \<and> traced_before es1 op)"

text \<open>What an event may add to an operation without touching its addresses.\<close>

definition learns :: "RotationEvent \<Rightarrow> RotationOperation \<Rightarrow> RotationOperation \<Rightarrow> bool" where
  "learns e op op' \<longleftrightarrow>
     op_id op' = op_id op \<and> before_generation op' = before_generation op \<and>
     before_ip op' = before_ip op \<and> after_ip op' = after_ip op \<and>
     (\<forall>g. fresh_cellular_generation op' = Some g \<longrightarrow>
        fresh_cellular_generation op = Some g \<or> before_ip op \<noteq> None \<and> e = EvCellular (op_id op) g True) \<and>
     (\<forall>g. root_authorized_generation op' = Some g \<longrightarrow>
        root_authorized_generation op = Some g \<or> before_ip op \<noteq> None \<and> e = EvRootPolicy (op_id op) g True) \<and>
     (\<forall>g. after_generation op' = Some g \<longrightarrow>
        after_generation op = Some g \<or>
        before_ip op \<noteq> None \<and> (fresh_cellular_generation op = Some g \<or> e = EvCellular (op_id op) g True) \<and>
        (root_authorized_generation op = Some g \<or> e = EvRootPolicy (op_id op) g True)) \<and>
     (after_ip op \<noteq> None \<longrightarrow> after_generation op' = after_generation op)"

lemma learns_refl [simp]: "learns e op op"
  by (simp add: learns_def)

lemma learns_trans: "learns e a b \<Longrightarrow> learns e b c \<Longrightarrow> learns e a c"
  by (auto simp: learns_def)

lemma traced_learns:
  assumes t: "traced es op" and l: "learns e op op'"
  shows "traced (es @ [e]) op'"
proof -
  have same: "op_id op' = op_id op" "before_generation op' = before_generation op" "before_ip op' = before_ip op"
    "after_ip op' = after_ip op"
    using l by (simp_all add: learns_def)
  have facts: "traced_facts (es2 @ [e]) op'" if f: "traced_facts es2 op" for es2
  proof -
    have "\<exists>g es1 es3. after_generation op' = Some g \<and> es2 @ [e] = es1 @ EvAfterIp (op_id op) g a # es3 \<and>
        confirmed es1 (op_id op) g" if a: "after_ip op = Some a" for a
    proof -
      obtain g es1 es3 where "after_generation op = Some g" "es2 = es1 @ EvAfterIp (op_id op) g a # es3" "confirmed es1 (op_id op) g"
        using f a unfolding traced_facts_def by blast
      moreover have "after_generation op' = after_generation op" using l a by (simp add: learns_def)
      ultimately show ?thesis by (intro exI [of _ g] exI [of _ es1] exI [of _ "es3 @ [e]"]) simp
    qed
    then show ?thesis
      using f l by (auto simp: traced_facts_def learns_def same confirmed_def)
  qed
  obtain earlier es1 where e: "es = earlier @ EvStart (before_generation op) # es1"
    "fst (start (rotation_run earlier) (before_generation op)) = Inr (op_id op)" "traced_before es1 op"
    using t unfolding traced_def by blast
  have "traced_before (es1 @ [e]) op'"
  proof (cases "before_ip op")
    case None
    then show ?thesis using e(3) l by (auto simp: traced_before_def learns_def)
  next
    case (Some b)
    then show ?thesis using e(3) facts by (fastforce simp: traced_before_def same)
  qed
  with e(1,2) show ?thesis unfolding traced_def same by (intro exI [of _ earlier] exI [of _ "es1 @ [e]"]) simp
qed

lemma learns_owner_generation: "learns e op (snd (observe_owner_generation op g))"
  by (auto simp: observe_owner_generation_def learns_def drop_older_Some)

lemma learns_recovery_cellular:
  "before_ip op \<noteq> None \<Longrightarrow> learns (EvCellular (op_id op) g b) op (observe_recovery_cellular op g b)"
  by (auto simp: observe_recovery_cellular_def learns_def Let_def)

lemma learns_advance_loss: "learns e op (maybe_advance_loss op)"
  by (simp add: maybe_advance_loss_def learns_def)

lemma learns_advance_recovery:
  "after_ip op = None \<Longrightarrow> before_ip op \<noteq> None \<Longrightarrow> learns e op (maybe_advance_recovery op)"
  by (auto simp: maybe_advance_recovery_def learns_def split: option.splits)

lemma with_operation_traced:
  assumes "current_operation (snd (with_operation r m body)) = Some op'"
    and "\<And>op. current_operation m = Some op \<Longrightarrow> traced es op"
    and "\<And>op. r = Inr op \<Longrightarrow> current_operation m = Some op \<and> learns e op (snd (body op))"
  shows "traced (es @ [e]) op'"
proof (cases r)
  case (Inl err)
  then have "current_operation m = Some op'" using assms(1) by (simp add: with_operation_def)
  then show ?thesis using assms(2) traced_learns [OF _ learns_refl] by blast
next
  case (Inr op)
  then have "op' = snd (body op)" using assms(1) by (auto simp: with_operation_def split: prod.splits option.splits)
  then show ?thesis using assms(2,3) [of op] Inr traced_learns by blast
qed

lemma waiting_addresses:
  assumes "operation_ok op" "phase op \<in> {DataEnabling, WaitingCellularRecovery, WaitingRootPolicy}"
  shows "before_ip op \<noteq> None \<and> after_ip op = None"
proof -
  have "facts_ok op" using assms(1) by (simp add: operation_ok_def)
  then have "phase op \<notin> {Preparing, Failed} \<longrightarrow> before_ip op \<noteq> None" "after_ip op \<noteq> None \<longleftrightarrow> phase op \<in> {Changed, Unchanged}"
    by (simp_all add: facts_ok_def)
  with assms(2) show ?thesis by auto
qed

lemma observe_cellular_traced:
  assumes inv: "rotation_inv m" and "current_operation (snd (observe_cellular m i g b)) = Some op'"
    and "\<And>op. current_operation m = Some op \<Longrightarrow> traced es op"
  shows "traced (es @ [EvCellular i g b]) op'"
  using assms(2,3) unfolding observe_cellular_def
proof (rule with_operation_traced, goal_cases)
  case (2 op)
  then have cur: "current_operation m = Some op" and i: "op_id op = i" by (simp_all add: active_Inr_iff)
  then have ok: "operation_ok op" using inv by (simp add: rotation_inv_def)
  let ?e = "EvCellular i g b"
  obtain fresh op1 where ob: "observe_owner_generation op g = (fresh, op1)" by fastforce
  have l1: "learns ?e op op1" using learns_owner_generation [of ?e op g] by (simp add: ob)
  have same: "phase op1 = phase op" "op_id op1 = i" "before_ip op1 = before_ip op" "after_ip op1 = after_ip op"
    using observe_owner_generation_frame [of op g] l1 i by (simp_all add: ob learns_def)
  have addr: "before_ip op1 \<noteq> None \<and> after_ip op1 = None"
    if "phase op \<in> {DataEnabling, WaitingCellularRecovery, WaitingRootPolicy}"
    using waiting_addresses [OF ok that] by (simp add: same)
  have l2: "learns ?e op (observe_recovery_cellular op1 g b)" if "before_ip op1 \<noteq> None"
    using learns_trans [OF l1] learns_recovery_cellular [OF that] same(2) by simp
  have l3: "learns ?e op (maybe_advance_recovery (observe_recovery_cellular op1 g b))"
    if "before_ip op1 \<noteq> None" "after_ip op1 = None"
    by (rule learns_trans [OF l2 learns_advance_recovery]) (use that in \<open>simp_all add: observe_recovery_cellular_def Let_def\<close>)
  have l4: "learns ?e op (maybe_advance_loss (op1\<lparr>cellular_loss_observed := True\<rparr>))"
    by (rule learns_trans [OF learns_trans [OF l1] learns_advance_loss]) (simp add: learns_def)
  show ?case
    using cur addr l1 l2 l3 l4 learns_trans [OF l1 learns_advance_loss] by (auto simp: ob same(1))
qed auto

lemma observe_root_policy_traced:
  assumes inv: "rotation_inv m" and "current_operation (snd (observe_root_policy m i g b)) = Some op'"
    and "\<And>op. current_operation m = Some op \<Longrightarrow> traced es op"
  shows "traced (es @ [EvRootPolicy i g b]) op'"
  using assms(2,3) unfolding observe_root_policy_def
proof (rule with_operation_traced, goal_cases)
  case (2 op)
  then have cur: "current_operation m = Some op" and i: "op_id op = i" by (simp_all add: active_Inr_iff)
  then have ok: "operation_ok op" using inv by (simp add: rotation_inv_def)
  let ?e = "EvRootPolicy i g b" and ?root = "\<lambda>op1. op1\<lparr>root_authorized_generation := if b then Some g else None\<rparr>"
  obtain fresh op1 where ob: "observe_owner_generation op g = (fresh, op1)" by fastforce
  have l1: "learns ?e op op1" using learns_owner_generation [of ?e op g] by (simp add: ob)
  have same: "phase op1 = phase op" "op_id op1 = i" "before_ip op1 = before_ip op" "after_ip op1 = after_ip op"
    using observe_owner_generation_frame [of op g] l1 i by (simp_all add: ob learns_def)
  have addr: "before_ip op1 \<noteq> None \<and> after_ip op1 = None"
    if "phase op \<in> {DataEnabling, WaitingCellularRecovery, WaitingRootPolicy}"
    using waiting_addresses [OF ok that] by (simp add: same)
  have l2: "learns ?e op (?root op1)" if "before_ip op1 \<noteq> None"
    by (rule learns_trans [OF l1]) (use that same(2) in \<open>auto simp: learns_def\<close>)
  have l3: "learns ?e op (maybe_advance_recovery (?root op1))" if "before_ip op1 \<noteq> None" "after_ip op1 = None"
    by (rule learns_trans [OF l2 learns_advance_recovery]) (use that in simp_all)
  show ?case using cur addr l1 l2 l3 by (cases b) (auto simp: ob same(1) Let_def)
qed auto

text \<open>The three facts that write an address or start an operation.\<close>

lemma traced_start:
  assumes "fst (start (rotation_run es) g) = Inr i"
  shows "traced (es @ [EvStart g]) (fresh_operation i g)"
  using assms unfolding traced_def
  by (intro exI [of _ es] exI [of _ "[]"]) (simp add: fresh_operation_def traced_before_def)

lemma traced_before_ip:
  assumes "traced es op" "before_ip op = None"
  shows "traced (es @ [EvBeforeIp (op_id op) (before_generation op) a]) (op\<lparr>before_ip := Some a, phase := DataDisabling\<rparr>)"
proof -
  obtain earlier es1 where "es = earlier @ EvStart (before_generation op) # es1"
    "fst (start (rotation_run earlier) (before_generation op)) = Inr (op_id op)" "traced_before es1 op"
    using assms(1) unfolding traced_def by blast
  then show ?thesis
    using assms(2) unfolding traced_def
    by (intro exI [of _ earlier] exI [of _ "es1 @ [EvBeforeIp (op_id op) (before_generation op) a]"])
      (auto simp: traced_before_def traced_facts_def)
qed

lemma traced_after_ip:
  assumes "traced es op" "before_ip op = Some b" "after_generation op = Some g" "after_ip op = None"
  shows "traced (es @ [EvAfterIp (op_id op) g a]) (op\<lparr>after_ip := Some a, phase := p, terminal_result := t, restore_required := False\<rparr>)"
proof -
  obtain earlier es1 where e: "es = earlier @ EvStart (before_generation op) # es1"
    "fst (start (rotation_run earlier) (before_generation op)) = Inr (op_id op)" "traced_before es1 op"
    using assms(1) unfolding traced_def by blast
  obtain es2 es3 where f: "es1 = es2 @ EvBeforeIp (op_id op) (before_generation op) b # es3" "traced_facts es3 op"
    using e(3) assms(2) by (auto simp: traced_before_def)
  have "traced_facts (es3 @ [EvAfterIp (op_id op) g a]) (op\<lparr>after_ip := Some a, phase := p, terminal_result := t, restore_required := False\<rparr>)"
    using f(2) assms(3,4) by (auto simp: traced_facts_def confirmed_def)
  with e(1,2) f(1) assms(2) show ?thesis
    unfolding traced_def
    by (intro exI [of _ earlier] exI [of _ "es1 @ [EvAfterIp (op_id op) g a]"]) (auto simp: traced_before_def)
qed

lemma record_before_ip_cases:
  assumes "current_operation (snd (record_before_ip m i g a)) = Some op'"
  obtains "current_operation m = Some op'"
  | op where "current_operation m = Some op" "op_id op = i" "phase op = Preparing" "before_generation op = g"
      "op' = op\<lparr>before_ip := Some a, phase := DataDisabling\<rparr>"
  using assms
  by (cases "active m i") (auto simp: record_before_ip_def with_operation_def active_Inr_iff split: if_splits)

lemma record_after_ip_cases:
  assumes "current_operation (snd (record_after_ip m i g a)) = Some op'"
  obtains "current_operation m = Some op'"
  | op b p t where "current_operation m = Some op" "op_id op = i" "phase op = ProbingPublicIp" "before_ip op = Some b"
      "after_generation op = Some g"
      "op' = op\<lparr>after_ip := Some a, phase := p, terminal_result := t, restore_required := False\<rparr>"
  using assms
  by (cases "active m i")
    (auto simp: record_after_ip_def with_operation_def active_Inr_iff Let_def split: if_splits option.splits)

lemma start_cases:
  assumes "current_operation (snd (start m g)) = Some op'"
  obtains "current_operation m = Some op'" | i where "fst (start m g) = Inr i" "op' = fresh_operation i g"
  using assms by (auto simp: start_def Let_def split: if_splits option.splits)

lemma learns_failed: "learns e op (fail_operation (op\<lparr>restore_required := b\<rparr>) f)"
  by (simp add: learns_def fail_operation_def)

lemma data_enable_effect_completed_traced:
  assumes inv: "rotation_inv m" and "current_operation (snd (data_enable_effect_completed m i r)) = Some op'"
    and "\<And>op. current_operation m = Some op \<Longrightarrow> traced es op"
  shows "traced (es @ [EvEnableCompleted i r]) op'"
  using assms(2,3) unfolding data_enable_effect_completed_def
proof (rule with_operation_traced, goal_cases)
  case (2 op)
  then have op: "current_operation m = Some op" "operation_ok op" using inv by (simp_all add: active_Inr_iff rotation_inv_def)
  let ?op = "op\<lparr>restore_required := False, phase := WaitingCellularRecovery\<rparr>"
  have "learns (EvEnableCompleted i r) op (maybe_advance_recovery ?op)" if "phase op = DataEnabling"
    by (rule learns_trans [where b = ?op, OF _ learns_advance_recovery])
      (use waiting_addresses [OF op(2)] that in \<open>simp_all add: learns_def\<close>)
  then show ?case using op(1) by (cases r) (simp_all add: learns_failed)
qed auto

lemma rotation_step_traced:
  assumes inv: "rotation_inv m" and m: "m = rotation_run es" and cur: "current_operation (rotation_step m e) = Some op'"
    and tr: "\<And>op. current_operation m = Some op \<Longrightarrow> traced es op"
  shows "traced (es @ [e]) op'"
proof (cases e)
  case (EvStart g)
  from cur [unfolded EvStart rotation_step.simps] show ?thesis
    by (cases rule: start_cases) (use EvStart m tr traced_learns [OF _ learns_refl] traced_start in auto)
next
  case (EvBeforeIp i g a)
  from cur [unfolded EvBeforeIp rotation_step.simps] show ?thesis
  proof (cases rule: record_before_ip_cases)
    case (2 op)
    then have "before_ip op = None" using inv by (simp add: rotation_inv_def operation_ok_def facts_ok_def)
    with 2 tr traced_before_ip [of es op a] EvBeforeIp show ?thesis by simp
  qed (use tr traced_learns [OF _ learns_refl] in blast)
next
  case (EvAfterIp i g a)
  from cur [unfolded EvAfterIp rotation_step.simps] show ?thesis
  proof (cases rule: record_after_ip_cases)
    case (2 op b p t)
    then have "facts_ok op" using inv by (simp add: rotation_inv_def operation_ok_def)
    then have "after_ip op \<noteq> None \<longleftrightarrow> phase op \<in> {Changed, Unchanged}" by (simp add: facts_ok_def)
    with 2(3) have "after_ip op = None" by simp
    with 2 tr traced_after_ip [where es = es and op = op and b = b and g = g and a = a and p = p and t = t] EvAfterIp show ?thesis by simp
  qed (use tr traced_learns [OF _ learns_refl] in blast)
next
  case (EvCellular i g b)
  with observe_cellular_traced [OF inv _ tr] cur show ?thesis by simp
next
  case (EvRootPolicy i g b)
  with observe_root_policy_traced [OF inv _ tr] cur show ?thesis by simp
next
  case (EvEnableCompleted i r)
  with data_enable_effect_completed_traced [OF inv _ tr] cur show ?thesis by simp
next
  case (EvDisableStarted i)
  from cur tr show ?thesis unfolding EvDisableStarted rotation_step.simps data_disable_mutation_started_def
    by (rule with_operation_traced) (auto simp: active_Inr_iff learns_def)
next
  case (EvDisableCompleted i r)
  have l: "learns e op (maybe_advance_loss (op\<lparr>restore_required := True, phase := WaitingCellularLoss\<rparr>))" for op
    by (rule learns_trans [OF _ learns_advance_loss]) (simp add: learns_def)
  from cur tr show ?thesis
    unfolding EvDisableCompleted rotation_step.simps data_disable_effect_completed_def
    by (rule with_operation_traced)
      (use l EvDisableCompleted in \<open>auto simp: active_Inr_iff learns_failed split: RotationMutationOutcome.splits\<close>)
next
  case (EvFail i f)
  from cur tr show ?thesis unfolding EvFail rotation_step.simps fail_def
    by (rule with_operation_traced) (auto simp: active_Inr_iff learns_def fail_operation_def)
next
  case (EvDeadline i)
  from cur tr show ?thesis unfolding EvDeadline rotation_step.simps deadline_exceeded_def fail_def
    by (rule with_operation_traced) (auto simp: active_Inr_iff learns_def fail_operation_def)
next
  case (EvRestore i r)
  from cur tr show ?thesis unfolding EvRestore rotation_step.simps record_restore_def
    by (rule with_operation_traced) (auto simp: current_Inr_iff learns_def Let_def)
qed

lemma rotation_run_traced: "current_operation (rotation_run es) = Some op \<Longrightarrow> traced es op"
proof (induction es arbitrary: op rule: rev_induct)
  case Nil
  then show ?case by (simp add: new_machine_def)
next
  case (snoc e es)
  show ?case by (rule rotation_step_traced [OF rotation.inv_reachable [of es] refl]) (use snoc in auto)
qed

text \<open>C1. After any sequence of facts, a rotation that reports CHANGED or UNCHANGED holds a before and an after
  address of two owner generations, the second strictly newer. Both were really observed there: the facts contain,
  in this order, the start of this operation in the first generation, the before address reported for exactly the
  first generation, the cellular and the root-policy confirmation of the second generation, and the after address
  reported for exactly the second generation, all but the start naming this operation. CHANGED is reported exactly
  when the two addresses differ, and no mobile-data restore is owed.\<close>

theorem rotation_result_sound:
  assumes "snap_terminal_result (snapshot (rotation_run es)) = Some r" "r \<noteq> ResultFailed"
  shows "\<exists>i b a gb ga earlier es1 es2 es3.
      snap_operation_id (snapshot (rotation_run es)) = Some i \<and>
      snap_before_ip (snapshot (rotation_run es)) = Some b \<and>
      snap_after_ip (snapshot (rotation_run es)) = Some a \<and>
      snap_before_generation (snapshot (rotation_run es)) = Some gb \<and>
      snap_after_generation (snapshot (rotation_run es)) = Some ga \<and>
      gb < ga \<and> (r = ResultChanged \<longleftrightarrow> a \<noteq> b) \<and>
      \<not> snap_restore_required (snapshot (rotation_run es)) \<and>
      es = earlier @ EvStart gb # es1 @ EvBeforeIp i gb b # es2 @ EvAfterIp i ga a # es3 \<and>
      fst (start (rotation_run earlier) gb) = Inr i \<and>
      EvCellular i ga True \<in> set es2 \<and> EvRootPolicy i ga True \<in> set es2"
proof -
  from assms(1) obtain op where op: "current_operation (rotation_run es) = Some op"
    and res: "terminal_result op = Some r"
    by (auto simp: snapshot_def idle_def operation_snapshot_def split: option.splits)
  have ok: "operation_ok op" using op by (rule rotation_run_operation_ok)
  then have ph: "phase op = (if r = ResultChanged then Changed else Unchanged)"
    using res assms(2) by (cases r; auto simp: operation_ok_def outcome_ok_def result_of_phase_def
        split: if_splits)
  from ok have "generations_ok op" "facts_ok op" "compensation_ok op"
    by (simp_all add: operation_ok_def)
  with ph obtain b a ga where held: "before_ip op = Some b" "after_ip op = Some a" "after_generation op = Some ga"
    "before_generation op < ga" "r = ResultChanged \<longleftrightarrow> a \<noteq> b" "\<not> restore_required op"
    by (cases "r = ResultChanged") (auto simp: generations_ok_def facts_ok_def compensation_ok_def)
  obtain earlier es1 where st: "es = earlier @ EvStart (before_generation op) # es1"
    "fst (start (rotation_run earlier) (before_generation op)) = Inr (op_id op)" "traced_before es1 op"
    using rotation_run_traced [OF op] unfolding traced_def by blast
  obtain es2 es3 where be: "es1 = es2 @ EvBeforeIp (op_id op) (before_generation op) b # es3" "traced_facts es3 op"
    using st(3) held(1) by (auto simp: traced_before_def)
  obtain es4 es5 where "es3 = es4 @ EvAfterIp (op_id op) ga a # es5" "confirmed es4 (op_id op) ga"
    using be(2) held(2,3) unfolding traced_facts_def by force
  with st(1,2) be(1) held show ?thesis unfolding snapshot_def op
    by (intro exI [of _ "op_id op"] exI [of _ b] exI [of _ a] exI [of _ "before_generation op"] exI [of _ ga]
        exI [of _ earlier] exI [of _ es2] exI [of _ es4] exI [of _ es5])
      (simp add: operation_snapshot_def confirmed_def)
qed

definition rotation_demo :: "RotationEvent list" where
  "rotation_demo =
     [EvStart 3, EvBeforeIp 1 3 (V4 10), EvDisableStarted 1, EvDisableCompleted 1 Applied,
      EvCellular 1 4 False, EvEnableCompleted 1 Applied, EvCellular 1 5 True,
      EvRootPolicy 1 5 True, EvAfterIp 1 5 (V4 11)]"

lemmas rotation_defs =
  start_def record_before_ip_def data_disable_mutation_started_def
  data_disable_effect_completed_def data_enable_effect_completed_def observe_cellular_def
  observe_root_policy_def record_after_ip_def fail_def deadline_exceeded_def record_restore_def
  with_operation_def active_def current_def fresh_operation_def observe_owner_generation_def
  drop_older_def observe_recovery_cellular_def maybe_advance_loss_def maybe_advance_recovery_def
  fail_operation_def terminal_def checked_add_def

theorem rotation_result_sound_witness:
  "snap_terminal_result (snapshot (rotation_run rotation_demo)) = Some ResultChanged \<and>
   (\<exists>i b a gb ga earlier es1 es2 es3.
      snap_before_ip (snapshot (rotation_run rotation_demo)) = Some b \<and>
      snap_after_ip (snapshot (rotation_run rotation_demo)) = Some a \<and>
      gb < ga \<and> a \<noteq> b \<and> \<not> snap_restore_required (snapshot (rotation_run rotation_demo)) \<and>
      rotation_demo = earlier @ EvStart gb # es1 @ EvBeforeIp i gb b # es2 @ EvAfterIp i ga a # es3 \<and>
      EvCellular i ga True \<in> set es2 \<and> EvRootPolicy i ga True \<in> set es2)"
proof -
  have h: "snap_terminal_result (snapshot (rotation_run rotation_demo)) = Some ResultChanged"
    by (simp add: rotation_demo_def new_machine_def rotation_defs snapshot_def
                  operation_snapshot_def)
  have "ResultChanged \<noteq> ResultFailed" by simp
  from h rotation_result_sound [OF h this] show ?thesis by blast
qed

text \<open>Entering the probing phase: only \<^const>\<open>maybe_advance_recovery\<close> does it, and only when the
  cellular and the root-policy fact name the same generation.\<close>

definition probe_entry :: "RotationOperation \<Rightarrow> bool" where
  "probe_entry op \<longleftrightarrow>
     (\<exists>g. fresh_cellular_generation op = Some g \<and> root_authorized_generation op = Some g \<and>
          after_generation op = Some g)"

lemma maybe_advance_recovery_probe:
  "phase (maybe_advance_recovery op) = ProbingPublicIp \<Longrightarrow>
     phase op = ProbingPublicIp \<or> probe_entry (maybe_advance_recovery op)"
  by (auto simp: maybe_advance_recovery_def probe_entry_def split: option.splits if_splits)

lemma maybe_advance_loss_probe:
  "phase (maybe_advance_loss op) = ProbingPublicIp \<longleftrightarrow> phase op = ProbingPublicIp"
  by (auto simp: maybe_advance_loss_def)

definition probing :: "RotationStateMachine \<Rightarrow> bool" where
  "probing m \<longleftrightarrow> (\<exists>op. current_operation m = Some op \<and> phase op = ProbingPublicIp)"

lemma with_operation_probe:
  assumes "current_operation (snd (with_operation r m body)) = Some op'"
    and "phase op' = ProbingPublicIp"
    and "\<And>op. r = Inr op \<Longrightarrow> current_operation m = Some op"
    and "\<And>op. r = Inr op \<Longrightarrow> phase (snd (body op)) = ProbingPublicIp \<Longrightarrow>
      phase op = ProbingPublicIp \<or> probe_entry (snd (body op))"
  shows "probing m \<or> probe_entry op'"
proof (cases r)
  case (Inl e)
  with assms(1,2) show ?thesis by (auto simp: with_operation_def probing_def)
next
  case (Inr op)
  with assms(1) have "op' = snd (body op)"
    by (auto simp: with_operation_def split: prod.splits option.splits)
  with assms(2-4) Inr show ?thesis by (auto simp: probing_def)
qed

lemma rotation_step_probe:
  assumes "current_operation (rotation_step m e) = Some op'" "phase op' = ProbingPublicIp"
  shows "probing m \<or> probe_entry op'"
proof (cases e)
  case (EvStart g)
  with assms show ?thesis
    by (auto simp: start_def fresh_operation_def probing_def Let_def split: option.splits if_splits)
next
  case (EvBeforeIp i g a)
  from assms show ?thesis unfolding EvBeforeIp rotation_step.simps record_before_ip_def
    by (rule with_operation_probe) (auto simp: active_Inr_iff split: if_splits)
next
  case (EvDisableStarted i)
  from assms show ?thesis
    unfolding EvDisableStarted rotation_step.simps data_disable_mutation_started_def
    by (rule with_operation_probe) (auto simp: active_Inr_iff split: if_splits)
next
  case (EvDisableCompleted i r)
  from assms show ?thesis
    unfolding EvDisableCompleted rotation_step.simps data_disable_effect_completed_def
    by (rule with_operation_probe)
       (auto simp: active_Inr_iff fail_operation_def maybe_advance_loss_probe
             split: if_splits RotationMutationOutcome.splits)
next
  case (EvEnableCompleted i r)
  from assms show ?thesis
    unfolding EvEnableCompleted rotation_step.simps data_enable_effect_completed_def
    by (rule with_operation_probe)
       (auto simp: active_Inr_iff fail_operation_def dest!: maybe_advance_recovery_probe
             split: if_splits RotationMutationOutcome.splits)
next
  case (EvCellular i g b)
  from assms show ?thesis unfolding EvCellular rotation_step.simps observe_cellular_def
  proof (rule with_operation_probe, goal_cases)
    case (1 op)
    then show ?case by (simp add: active_Inr_iff)
  next
    case (2 op)
    obtain fresh op' where ob: "observe_owner_generation op g = (fresh, op')" by fastforce
    with observe_owner_generation_frame(2) [of op g] have "phase op' = phase op" by simp
    with 2(2) show ?case
      by (auto simp: ob maybe_advance_loss_probe split: if_splits
               dest!: maybe_advance_recovery_probe)
  qed
next
  case (EvRootPolicy i g b)
  from assms show ?thesis unfolding EvRootPolicy rotation_step.simps observe_root_policy_def
  proof (rule with_operation_probe, goal_cases)
    case (1 op)
    then show ?case by (simp add: active_Inr_iff)
  next
    case (2 op)
    obtain fresh op' where ob: "observe_owner_generation op g = (fresh, op')" by fastforce
    with observe_owner_generation_frame(2) [of op g] have "phase op' = phase op" by simp
    with 2(2) show ?case
      by (auto simp: ob Let_def split: if_splits dest!: maybe_advance_recovery_probe)
  qed
next
  case (EvAfterIp i g a)
  from assms show ?thesis unfolding EvAfterIp rotation_step.simps record_after_ip_def
    by (rule with_operation_probe)
       (auto simp: active_Inr_iff Let_def split: if_splits option.splits)
next
  case (EvFail i f)
  from assms show ?thesis unfolding EvFail rotation_step.simps fail_def
    by (rule with_operation_probe) (auto simp: active_Inr_iff fail_operation_def)
next
  case (EvDeadline i)
  from assms show ?thesis
    unfolding EvDeadline rotation_step.simps deadline_exceeded_def fail_def
    by (rule with_operation_probe) (auto simp: active_Inr_iff fail_operation_def)
next
  case (EvRestore i r)
  from assms show ?thesis unfolding EvRestore rotation_step.simps record_restore_def
    by (rule with_operation_probe) (auto simp: current_Inr_iff Let_def split: if_splits)
qed

text \<open>C2. Whenever a fact moves a rotation into the public-IP probing phase, the cellular network
  and the root policy have both been confirmed for one and the same owner generation; that
  generation is the newest one seen, is strictly newer than the generation before the rotation,
  and is the generation the after-address must come from.\<close>

theorem rotation_probe_authorized:
  assumes "\<not> probing (rotation_run es)"
    and "current_operation (rotation_run (es @ [e])) = Some op"
    and "phase op = ProbingPublicIp"
  shows "\<exists>g. fresh_cellular_generation op = Some g \<and> root_authorized_generation op = Some g \<and>
      after_generation op = Some g \<and> latest_owner_generation op = g \<and> before_generation op < g"
proof -
  have "current_operation (rotation_step (rotation_run es) e) = Some op"
    using assms(2) by simp
  with assms(1,3) have "probe_entry op" using rotation_step_probe by blast
  moreover have "generations_ok op"
    using rotation_run_operation_ok [OF assms(2)] by (simp add: operation_ok_def)
  ultimately show ?thesis by (auto simp: probe_entry_def generations_ok_def)
qed

theorem rotation_probe_authorized_witness:
  "\<exists>op g. current_operation (rotation_run (take 7 rotation_demo @ [EvRootPolicy 1 5 True])) = Some op \<and>
      phase op = ProbingPublicIp \<and>
      fresh_cellular_generation op = Some g \<and> root_authorized_generation op = Some g \<and>
      after_generation op = Some g \<and> latest_owner_generation op = g \<and> before_generation op < g"
proof -
  let ?es = "take 7 rotation_demo"
  have n: "\<not> probing (rotation_run ?es)"
    by (simp add: rotation_demo_def new_machine_def rotation_defs probing_def)
  obtain op where op: "current_operation (rotation_run (?es @ [EvRootPolicy 1 5 True])) = Some op"
    and p: "phase op = ProbingPublicIp"
    by (simp add: rotation_demo_def new_machine_def rotation_defs)
  from rotation_probe_authorized [OF n op p] op p show ?thesis by blast
qed

text \<open>The restore duty. An event settles it if it starts another rotation or reports that mobile
  data is on again.\<close>

fun settles_restore :: "RotationEvent \<Rightarrow> bool" where
  "settles_restore (EvStart g) = True"
| "settles_restore (EvRestore i r) = (r \<in> {NotRequired, AlreadyEnabled, RestoredEnabled})"
| "settles_restore e = False"

definition owes_restore :: "RotationStateMachine \<Rightarrow> u64 \<Rightarrow> bool" where
  "owes_restore m i \<longleftrightarrow>
     (\<exists>op. current_operation m = Some op \<and> op_id op = i \<and> phase op = Failed \<and> restore_required op)"

lemma active_terminal:
  "current_operation m = Some op \<Longrightarrow> terminal (phase op) \<Longrightarrow> \<exists>e. active m i = Inl e"
  by (auto simp: active_def current_def split: if_splits)

lemma with_operation_Inl [simp]: "snd (with_operation (Inl e) m body) = m"
  by (simp add: with_operation_def)

lemma terminal_step_frame:
  assumes "current_operation m = Some op" "terminal (phase op)"
    and "\<And>g. e \<noteq> EvStart g" "\<And>i r. e \<noteq> EvRestore i r"
  shows "rotation_step m e = m"
proof -
  have "\<exists>err. active m i = Inl err" for i
    using assms(1,2) by (rule active_terminal)
  then have "snd (with_operation (active m i) m body) = m" for i body
    by (metis with_operation_Inl)
  with assms(3,4) show ?thesis
    by (cases e)
       (simp_all add: record_before_ip_def data_disable_mutation_started_def
          data_disable_effect_completed_def data_enable_effect_completed_def observe_cellular_def
          observe_root_policy_def record_after_ip_def fail_def deadline_exceeded_def, blast+)
qed

lemma owes_restore_step:
  assumes "owes_restore m i" "\<not> settles_restore e"
  shows "owes_restore (rotation_step m e) i"
proof (cases "\<exists>j r. e = EvRestore j r")
  case True
  with assms show ?thesis
    by (auto simp: owes_restore_def record_restore_def with_operation_def current_def Let_def)
next
  case False
  from assms(1) obtain op where "current_operation m = Some op" "phase op = Failed"
    by (auto simp: owes_restore_def)
  moreover from assms(2) have "\<And>g. e \<noteq> EvStart g" by auto
  ultimately have "rotation_step m e = m"
    using False by (intro terminal_step_frame) (auto simp: terminal_def)
  with assms(1) show ?thesis by simp
qed

lemma owes_restore_run:
  "owes_restore m i \<Longrightarrow> (\<forall>e \<in> set es. \<not> settles_restore e) \<Longrightarrow> owes_restore (foldl rotation_step m es) i"
  by (induction es arbitrary: m) (auto intro: owes_restore_step)

text \<open>An event that makes a rotation fail. Only a disable command that was certainly not applied takes the duty
  to restore away, and the other ways to fail keep it or create it.\<close>

lemma fails_via:
  assumes "current_operation (snd (with_operation (active m i) m body)) = Some op'" "current_operation m = Some op"
    and "phase op \<noteq> Failed" "phase op' = Failed"
  shows "active m i = Inr op \<and> op' = snd (body op)"
  using assms
  by (cases "active m i") (auto simp: with_operation_def active_Inr_iff split: prod.splits option.splits)

lemma advance_not_failed:
  "phase (maybe_advance_loss op) = Failed \<longleftrightarrow> phase op = Failed"
  "phase (maybe_advance_recovery op) = Failed \<longleftrightarrow> phase op = Failed"
  by (auto simp: maybe_advance_loss_def maybe_advance_recovery_def split: option.splits)

lemma observe_cellular_not_failed:
  assumes "current_operation (snd (observe_cellular m i g b)) = Some op'" "current_operation m = Some op" "phase op \<noteq> Failed"
  shows "phase op' \<noteq> Failed"
proof
  assume "phase op' = Failed"
  note via = fails_via [OF assms(1) [unfolded observe_cellular_def] assms(2,3) this]
  obtain fresh op1 where ob: "observe_owner_generation op g = (fresh, op1)" by fastforce
  then have "phase op1 = phase op" using observe_owner_generation_frame(2) [of op g] by simp
  with via assms(3) \<open>phase op' = Failed\<close> show False by (auto simp: ob advance_not_failed split: if_splits)
qed

lemma observe_root_policy_not_failed:
  assumes "current_operation (snd (observe_root_policy m i g b)) = Some op'" "current_operation m = Some op" "phase op \<noteq> Failed"
  shows "phase op' \<noteq> Failed"
proof
  assume "phase op' = Failed"
  note via = fails_via [OF assms(1) [unfolded observe_root_policy_def] assms(2,3) this]
  obtain fresh op1 where ob: "observe_owner_generation op g = (fresh, op1)" by fastforce
  then have "phase op1 = phase op" using observe_owner_generation_frame(2) [of op g] by simp
  with via assms(3) \<open>phase op' = Failed\<close> show False by (auto simp: ob advance_not_failed Let_def split: if_splits)
qed

text \<open>The data may be off when the event arrives: the operation waits for the loss or for the enable command, or the
  disable command was started and the event is not the report that it was rejected, or the event reports that
  its outcome is unknown.\<close>

definition data_may_be_off :: "RotationOperation \<Rightarrow> RotationEvent \<Rightarrow> bool" where
  "data_may_be_off op e \<longleftrightarrow>
     phase op \<in> {WaitingCellularLoss, DataEnabling} \<or>
     phase op = DataDisabling \<and> restore_required op \<and> e \<noteq> EvDisableCompleted (op_id op) Rejected \<or>
     e = EvDisableCompleted (op_id op) Uncertain"

lemma failing_owes:
  assumes inv: "rotation_inv m" and op: "current_operation m = Some op" "phase op \<noteq> Failed"
    and op': "current_operation (rotation_step m e) = Some op'" "phase op' = Failed"
    and off: "data_may_be_off op e"
  shows "owes_restore (rotation_step m e) (op_id op)"
proof -
  have ok: "compensation_ok op" using inv op(1) by (simp add: rotation_inv_def operation_ok_def)
  have owed: "phase op \<in> {WaitingCellularLoss, DataEnabling} \<Longrightarrow> restore_required op" using ok by (simp add: compensation_ok_def)
  have "op_id op' = op_id op \<and> restore_required op'"
  proof (cases e)
    case (EvStart g)
    then show ?thesis
      using op op' off by (auto simp: start_def Let_def data_may_be_off_def terminal_def fresh_operation_def split: if_splits option.splits)
  next
    case (EvBeforeIp i g a)
    from fails_via [OF op'(1) [unfolded EvBeforeIp rotation_step.simps record_before_ip_def] op op'(2)] op(2) op'(2)
    show ?thesis by (auto split: if_splits)
  next
    case (EvDisableStarted i)
    from fails_via [OF op'(1) [unfolded EvDisableStarted rotation_step.simps data_disable_mutation_started_def] op op'(2)] op(2) op'(2)
    show ?thesis by (auto split: if_splits)
  next
    case (EvDisableCompleted i r)
    from fails_via [OF op'(1) [unfolded EvDisableCompleted rotation_step.simps data_disable_effect_completed_def] op op'(2)] op(2) op'(2)
      off EvDisableCompleted show ?thesis
      by (cases r) (auto simp: advance_not_failed fail_operation_def data_may_be_off_def active_Inr_iff split: if_splits)
  next
    case (EvEnableCompleted i r)
    from fails_via [OF op'(1) [unfolded EvEnableCompleted rotation_step.simps data_enable_effect_completed_def] op op'(2)] op(2) op'(2)
    show ?thesis by (cases r) (auto simp: advance_not_failed fail_operation_def split: if_splits)
  next
    case (EvCellular i g b)
    with observe_cellular_not_failed [OF _ op] op' show ?thesis by simp
  next
    case (EvRootPolicy i g b)
    with observe_root_policy_not_failed [OF _ op] op' show ?thesis by simp
  next
    case (EvAfterIp i g a)
    from fails_via [OF op'(1) [unfolded EvAfterIp rotation_step.simps record_after_ip_def] op op'(2)] op(2) op'(2)
    show ?thesis by (auto simp: Let_def split: if_splits option.splits)
  next
    case (EvFail i f)
    from fails_via [OF op'(1) [unfolded EvFail rotation_step.simps fail_def] op op'(2)] off owed EvFail
    show ?thesis by (auto simp: fail_operation_def data_may_be_off_def)
  next
    case (EvDeadline i)
    from fails_via [OF op'(1) [unfolded EvDeadline rotation_step.simps deadline_exceeded_def fail_def] op op'(2)] off owed EvDeadline
    show ?thesis by (auto simp: fail_operation_def data_may_be_off_def)
  next
    case (EvRestore i r)
    then show ?thesis using op op'
      by (auto simp: record_restore_def with_operation_def current_def Let_def split: if_splits option.splits)
  qed
  with op' show ?thesis by (simp add: owes_restore_def)
qed



text \<open>Operation identity. Facts name the operation they belong to; ids are handed out in strictly
  increasing order.\<close>

fun event_operation :: "RotationEvent \<Rightarrow> u64 option" where
  "event_operation (EvStart g) = None"
| "event_operation (EvBeforeIp i g a) = Some i"
| "event_operation (EvDisableStarted i) = Some i"
| "event_operation (EvDisableCompleted i r) = Some i"
| "event_operation (EvEnableCompleted i r) = Some i"
| "event_operation (EvCellular i g b) = Some i"
| "event_operation (EvRootPolicy i g b) = Some i"
| "event_operation (EvAfterIp i g a) = Some i"
| "event_operation (EvFail i f) = Some i"
| "event_operation (EvDeadline i) = Some i"
| "event_operation (EvRestore i r) = Some i"

lemma current_stale:
  "current_operation m = Some op \<Longrightarrow> op_id op \<noteq> i \<Longrightarrow> current m i = Inl StaleOperation"
  by (simp add: current_def)

lemma stale_step_frame:
  assumes "current_operation m = Some op" "event_operation e = Some i" "op_id op \<noteq> i"
  shows "rotation_step m e = m"
proof -
  have "current m i = Inl StaleOperation" using assms(1,3) by (rule current_stale)
  then have "active m i = Inl StaleOperation" by (simp add: active_def)
  with \<open>current m i = _\<close> assms(2) show ?thesis
    by (cases e)
       (simp_all add: record_before_ip_def data_disable_mutation_started_def
          data_disable_effect_completed_def data_enable_effect_completed_def observe_cellular_def
          observe_root_policy_def record_after_ip_def fail_def deadline_exceeded_def
          record_restore_def)
qed

definition keeps_identity :: "RotationStateMachine \<Rightarrow> RotationStateMachine \<Rightarrow> bool" where
  "keeps_identity m m' \<longleftrightarrow>
     map_option op_id (current_operation m') = map_option op_id (current_operation m) \<and>
     next_operation_id m' = next_operation_id m"

lemma with_operation_keeps_identity:
  assumes "\<And>op. r = Inr op \<Longrightarrow> current_operation m = Some op"
    and "\<And>op. op_id (snd (body op)) = op_id op"
  shows "keeps_identity m (snd (with_operation r m body))"
proof (cases r)
  case (Inl e)
  then show ?thesis by (simp add: keeps_identity_def)
next
  case (Inr op)
  with assms(1) assms(2) [of op] show ?thesis
    by (auto simp: with_operation_def keeps_identity_def split: prod.splits option.splits)
qed

lemma observe_owner_generation_id:
  "observe_owner_generation op g = (fresh, op') \<Longrightarrow> op_id op' = op_id op"
  using observe_owner_generation_frame(1) [of op g] by simp

lemma named_step_keeps_identity:
  "event_operation e = Some i \<Longrightarrow> keeps_identity m (rotation_step m e)"
  by (cases e)
     (auto simp: record_before_ip_def data_disable_mutation_started_def
        data_disable_effect_completed_def data_enable_effect_completed_def observe_cellular_def
        observe_root_policy_def record_after_ip_def fail_def deadline_exceeded_def
        record_restore_def active_Inr_iff current_Inr_iff Let_def
        split: RotationMutationOutcome.splits option.splits prod.splits
        dest: observe_owner_generation_id intro!: with_operation_keeps_identity)

lemma start_identity:
  "snd (start m g) = m \<or>
     (\<exists>op. current_operation (snd (start m g)) = Some op \<and> op_id op = next_operation_id m \<and>
        next_operation_id m < next_operation_id (snd (start m g)))"
  by (auto simp: start_def fresh_operation_def Let_def split: option.splits
           dest!: checked_add_Some_less)

lemma run_identity:
  "current_operation (foldl rotation_step m es) = Some op \<Longrightarrow>
     map_option op_id (current_operation m) = Some (op_id op) \<or> next_operation_id m \<le> op_id op"
proof (induction es arbitrary: m)
  case (Cons e es)
  let ?m = "rotation_step m e"
  have later: "map_option op_id (current_operation ?m) = Some (op_id op) \<or>
      next_operation_id ?m \<le> op_id op"
    using Cons.prems by (intro Cons.IH) simp
  show ?case
  proof (cases "event_operation e")
    case None
    then obtain g where "?m = snd (start m g)" by (cases e) auto
    with start_identity [of m g] later show ?thesis by auto
  next
    case (Some i)
    with named_step_keeps_identity [of e i m] later show ?thesis
      by (simp add: keeps_identity_def)
  qed
qed simp



text \<open>Recovery makes progress: the two confirmations of one new generation lead to the probe in
  either order, whatever older facts the operation still holds.\<close>

definition recovering :: "RotationOperation \<Rightarrow> bool" where
  "recovering op \<longleftrightarrow> phase op \<in> {WaitingCellularRecovery, WaitingRootPolicy}"

lemma observe_newer:
  assumes "generations_ok op" "latest_owner_generation op < g"
  shows "observe_owner_generation op g =
    (True, op\<lparr>latest_owner_generation := g, fresh_cellular_generation := None,
              root_authorized_generation := None\<rparr>)"
  using assms
  by (auto simp: observe_owner_generation_def drop_older_def generations_ok_def split: option.splits)

lemma observe_same: "observe_owner_generation op (latest_owner_generation op) = (True, op)"
  by (simp add: observe_owner_generation_def)

lemma active_operation:
  "current_operation m = Some op \<Longrightarrow> recovering op \<Longrightarrow> active m (op_id op) = Inr op"
  by (auto simp: active_Inr_iff recovering_def terminal_def)

lemma cellular_confirmation:
  assumes "current_operation m = Some op" "recovering op" "before_generation op < g"
    and "observe_owner_generation op g = (True, op')"
  shows "current_operation (rotation_step m (EvCellular (op_id op) g True)) =
    Some (maybe_advance_recovery (op'\<lparr>fresh_cellular_generation := Some g\<rparr>))"
proof -
  have "phase op' = phase op" using observe_owner_generation_frame(2) [of op g] assms(4) by simp
  with active_operation [OF assms(1,2)] assms(2-4) show ?thesis
    by (auto simp: observe_cellular_def with_operation_def recovering_def observe_recovery_cellular_def
             dest: leD)
qed

lemma root_confirmation:
  assumes "current_operation m = Some op" "recovering op" "before_generation op < g"
    and "observe_owner_generation op g = (True, op')"
  shows "current_operation (rotation_step m (EvRootPolicy (op_id op) g True)) =
    Some (maybe_advance_recovery (op'\<lparr>root_authorized_generation := Some g\<rparr>))"
proof -
  have "phase op' = phase op" using observe_owner_generation_frame(2) [of op g] assms(4) by simp
  with active_operation [OF assms(1,2)] assms(2-4) show ?thesis
    by (auto simp: observe_root_policy_def with_operation_def recovering_def Let_def dest: leD)
qed

definition probing_at :: "RotationOperation \<Rightarrow> u64 \<Rightarrow> RotationOperation" where
  "probing_at op g =
     op\<lparr>latest_owner_generation := g, fresh_cellular_generation := Some g,
        root_authorized_generation := Some g, after_generation := Some g, phase := ProbingPublicIp\<rparr>"

lemma confirmations_reach_probe:
  assumes "current_operation m = Some op" "recovering op" "generations_ok op"
    and "latest_owner_generation op < g"
    and "es \<in> {[EvCellular (op_id op) g True, EvRootPolicy (op_id op) g True],
              [EvRootPolicy (op_id op) g True, EvCellular (op_id op) g True]}"
  shows "current_operation (foldl rotation_step m es) = Some (probing_at op g)"
proof -
  from assms(3,4) have before: "before_generation op < g"
    by (auto simp: generations_ok_def)
  let ?new = "op\<lparr>latest_owner_generation := g, fresh_cellular_generation := None,
                root_authorized_generation := None\<rparr>"
  note obs = observe_newer [OF assms(3,4)]
  let ?c = "?new\<lparr>fresh_cellular_generation := Some g, phase := WaitingRootPolicy\<rparr>"
  let ?r = "?new\<lparr>root_authorized_generation := Some g, phase := WaitingCellularRecovery\<rparr>"
  have "current_operation (rotation_step m (EvCellular (op_id op) g True)) = Some ?c"
    using cellular_confirmation [OF assms(1,2) before obs] assms(2)
    by (auto simp: maybe_advance_recovery_def recovering_def)
  from root_confirmation [OF this, of g ?c] before have c:
    "current_operation (rotation_step (rotation_step m (EvCellular (op_id op) g True))
       (EvRootPolicy (op_id op) g True)) = Some (probing_at op g)"
    using observe_same [of ?c] by (simp add: recovering_def maybe_advance_recovery_def probing_at_def)
  have "current_operation (rotation_step m (EvRootPolicy (op_id op) g True)) = Some ?r"
    using root_confirmation [OF assms(1,2) before obs] assms(2)
    by (auto simp: maybe_advance_recovery_def recovering_def)
  from cellular_confirmation [OF this, of g ?r] before have
    "current_operation (rotation_step (rotation_step m (EvRootPolicy (op_id op) g True))
       (EvCellular (op_id op) g True)) = Some (probing_at op g)"
    using observe_same [of ?r] by (simp add: recovering_def maybe_advance_recovery_def probing_at_def)
  with c assms(5) show ?thesis by auto
qed

lemma probe_completes:
  assumes "current_operation m = Some (probing_at op g)" "before_ip op = Some b"
  shows "\<exists>op'. current_operation (rotation_step m (EvAfterIp (op_id op) g a)) = Some op' \<and>
    terminal_result op' = Some (if b = a then ResultUnchanged else ResultChanged)"
  using assms
  by (simp add: record_after_ip_def with_operation_def active_def current_def probing_at_def
                terminal_def Let_def)

text \<open>C5. Recovery cannot get stuck. Wherever a rotation waits for the network to come back, the
  admission and the root authorization of one newer owner generation, in either order and whatever
  stale confirmations the operation still holds, followed by the public address seen through that
  generation, end the rotation with the verdict that compares the two addresses.\<close>

theorem rotation_recovery_completes:
  assumes "current_operation (rotation_run es) = Some op" "recovering op"
    and "latest_owner_generation op < g"
    and "confirmations \<in> {[EvCellular (op_id op) g True, EvRootPolicy (op_id op) g True],
              [EvRootPolicy (op_id op) g True, EvCellular (op_id op) g True]}"
  shows "\<exists>op'. current_operation (rotation_run (es @ confirmations @ [EvAfterIp (op_id op) g a])) = Some op' \<and>
    terminal_result op' = Some (if before_ip op = Some a then ResultUnchanged else ResultChanged)"
proof -
  have ok: "generations_ok op" "facts_ok op"
    using rotation_run_operation_ok [OF assms(1)] by (simp_all add: operation_ok_def)
  from ok(2) assms(2) obtain b where b: "before_ip op = Some b"
    by (auto simp: facts_ok_def recovering_def)
  have "current_operation (rotation_run (es @ confirmations)) = Some (probing_at op g)"
    using confirmations_reach_probe [OF assms(1,2) ok(1) assms(3,4)] by simp
  from probe_completes [OF this b, of a] b show ?thesis by simp
qed

theorem rotation_recovery_completes_witness:
  "\<exists>op'. current_operation (rotation_run (take 6 rotation_demo @
      [EvRootPolicy 1 9 True, EvCellular 1 9 True] @ [EvAfterIp 1 9 (V4 7)])) = Some op' \<and>
    terminal_result op' \<in> {Some ResultChanged, Some ResultUnchanged}"
proof -
  obtain op where op: "current_operation (rotation_run (take 6 rotation_demo)) = Some op"
    and i: "op_id op = 1" and r: "recovering op" and g: "latest_owner_generation op < 9"
    by (simp add: rotation_demo_def new_machine_def rotation_defs recovering_def)
  have "[EvRootPolicy 1 9 True, EvCellular 1 9 True] \<in>
      {[EvCellular (op_id op) 9 True, EvRootPolicy (op_id op) 9 True],
       [EvRootPolicy (op_id op) 9 True, EvCellular (op_id op) 9 True]}"
    by (simp add: i)
  from rotation_recovery_completes [OF op r g this, of "V4 7"] i show ?thesis
    by (auto split: if_splits)
qed

end
