(* ===== verification/Cellular_Egress.thy ===== *)
theory Cellular_Egress
  imports Mish_Prelude
begin

text \<open>
  The Cellular Egress owner (\<open>crates/cellular/src/lib.rs\<close>). It turns the stream of platform
  observations into at most one admitted cellular network and issues authority tokens for it.
  The lemmas relate the owner to the log of the observations it applied: which network is
  admitted is a function of that log, and a token stays valid exactly as long as the log does not
  grow.
\<close>

subsection \<open>Data\<close>

type_synonym NetworkHandle = u64
type_synonym ObservationSequence = u64

definition NetworkHandle_new :: "u64 \<Rightarrow> NetworkHandle option" where
  "NetworkHandle_new raw = (if raw = 0 then None else Some raw)"

definition ObservationSequence_new :: "u64 \<Rightarrow> ObservationSequence option" where
  "ObservationSequence_new raw = (if raw = 0 then None else Some raw)"

record CellularNetworkAuthority =
  authority_network :: NetworkHandle
  authority_sequence :: ObservationSequence

datatype CellularNetworkAuthorityError = NoAdmittedNetwork | NetworkChanged

record NetworkObservation =
  obs_sequence :: ObservationSequence
  obs_handle :: NetworkHandle
  is_cellular :: bool
  has_internet :: bool
  is_validated :: bool
  is_not_vpn :: bool

datatype CellularAdmissionState = AdmissionUnknown | NotAdmitted | Admitted

datatype CellularAdmissionReason =
    NoObservation
  | NotCellular
  | MissingInternetCapability
  | VpnDerivedNetwork
  | NotValidated
  | NetworkLost

record CellularAdmissionSnapshot =
  admission_state :: CellularAdmissionState
  admission_reason :: "CellularAdmissionReason option"
  admitted_network :: "NetworkHandle option"
  last_sequence :: "ObservationSequence option"

datatype ApplyResult =
    Applied CellularAdmissionSnapshot
  | IgnoredStale CellularAdmissionSnapshot

record CellularEgress =
  admission :: CellularAdmissionSnapshot
  last_observed_network :: "NetworkHandle option"

subsection \<open>Operations\<close>

definition rejection_reason :: "NetworkObservation \<Rightarrow> CellularAdmissionReason option" where
  "rejection_reason obs =
     (if \<not> is_cellular obs then Some NotCellular
      else if \<not> has_internet obs then Some MissingInternetCapability
      else if \<not> is_not_vpn obs then Some VpnDerivedNetwork
      else if \<not> is_validated obs then Some NotValidated
      else None)"

definition cellular_new :: CellularEgress where
  "cellular_new =
     \<lparr>admission = \<lparr>admission_state = AdmissionUnknown, admission_reason = Some NoObservation,
                   admitted_network = None, last_sequence = None\<rparr>,
      last_observed_network = None\<rparr>"

definition admitted_network_authority ::
    "CellularEgress \<Rightarrow> CellularNetworkAuthorityError + CellularNetworkAuthority" where
  "admitted_network_authority s =
     (if admission_state (admission s) \<noteq> Admitted then Inl NoAdmittedNetwork
      else rbind (ok_or (admitted_network (admission s)) NoAdmittedNetwork) (\<lambda>network.
           rbind (ok_or (last_sequence (admission s)) NoAdmittedNetwork) (\<lambda>sequence.
             Inr \<lparr>authority_network = network, authority_sequence = sequence\<rparr>)))"

definition validate_network_authority ::
    "CellularEgress \<Rightarrow> CellularNetworkAuthority \<Rightarrow> CellularNetworkAuthorityError + unit" where
  "validate_network_authority s authority =
     (let unchanged = admission_state (admission s) = Admitted \<and>
            admitted_network (admission s) = Some (authority_network authority) \<and>
            last_sequence (admission s) = Some (authority_sequence authority)
      in if unchanged then Inr () else Inl NetworkChanged)"

definition is_stale :: "CellularEgress \<Rightarrow> ObservationSequence \<Rightarrow> bool" where
  "is_stale s sequence =
     (case last_sequence (admission s) of Some newest \<Rightarrow> sequence \<le> newest | None \<Rightarrow> False)"

definition observe :: "CellularEgress \<Rightarrow> NetworkObservation \<Rightarrow> ApplyResult \<times> CellularEgress" where
  "observe s obs =
     (if is_stale s (obs_sequence obs) then (IgnoredStale (admission s), s)
      else
        (let adm = (admission s)\<lparr>last_sequence := Some (obs_sequence obs)\<rparr>;
             s' = (case rejection_reason obs of
                Some reason \<Rightarrow>
                  (if admitted_network adm = None \<or> admitted_network adm = Some (obs_handle obs)
                   then s\<lparr>last_observed_network := Some (obs_handle obs),
                          admission := adm\<lparr>admission_state := NotAdmitted,
                                           admission_reason := Some reason,
                                           admitted_network := None\<rparr>\<rparr>
                   else s\<lparr>admission := adm\<rparr>)
              | None \<Rightarrow>
                  s\<lparr>last_observed_network := Some (obs_handle obs),
                    admission := adm\<lparr>admission_state := Admitted, admission_reason := None,
                                     admitted_network := Some (obs_handle obs)\<rparr>\<rparr>)
         in (Applied (admission s'), s')))"

definition lost ::
    "CellularEgress \<Rightarrow> ObservationSequence \<Rightarrow> NetworkHandle \<Rightarrow> ApplyResult \<times> CellularEgress" where
  "lost s sequence handle =
     (if is_stale s sequence then (IgnoredStale (admission s), s)
      else
        (let adm = (admission s)\<lparr>last_sequence := Some sequence\<rparr>;
             s' = (if admitted_network adm = Some handle \<or> last_observed_network s = Some handle \<or>
                      admission_state adm = AdmissionUnknown
                   then s\<lparr>admission := adm\<lparr>admission_state := NotAdmitted,
                                           admission_reason := Some NetworkLost,
                                           admitted_network := None\<rparr>,
                          last_observed_network :=
                            (if last_observed_network s = Some handle then None
                             else last_observed_network s)\<rparr>
                   else s\<lparr>admission := adm\<rparr>)
         in (Applied (admission s'), s')))"

subsection \<open>The owner as a machine over platform events\<close>

datatype CellularEvent = Observe NetworkObservation | Lost ObservationSequence NetworkHandle

fun event_sequence :: "CellularEvent \<Rightarrow> ObservationSequence" where
  "event_sequence (Observe obs) = obs_sequence obs"
| "event_sequence (Lost sequence handle) = sequence"

fun cellular_step :: "CellularEgress \<Rightarrow> CellularEvent \<Rightarrow> CellularEgress" where
  "cellular_step s (Observe obs) = snd (observe s obs)"
| "cellular_step s (Lost sequence handle) = snd (lost s sequence handle)"

abbreviation cellular_run :: "CellularEvent list \<Rightarrow> CellularEgress" where
  "cellular_run es \<equiv> foldl cellular_step cellular_new es"

text \<open>An admitted state names its network, carries no reason and has seen an observation; the
  admitted network is always the last observed one.\<close>

definition cellular_inv :: "CellularEgress \<Rightarrow> bool" where
  "cellular_inv s \<longleftrightarrow>
     (admission_state (admission s) = Admitted \<longleftrightarrow> admitted_network (admission s) \<noteq> None) \<and>
     (admission_state (admission s) = Admitted \<longleftrightarrow> admission_reason (admission s) = None) \<and>
     (admission_state (admission s) = AdmissionUnknown \<longleftrightarrow> last_sequence (admission s) = None) \<and>
     (\<forall>h. admitted_network (admission s) = Some h \<longrightarrow> last_observed_network s = Some h)"

definition sequence_rank :: "CellularEgress \<Rightarrow> nat" where
  "sequence_rank s = (case last_sequence (admission s) of None \<Rightarrow> 0 | Some q \<Rightarrow> Suc (unat q))"

text \<open>The log of the events the owner applied, and what a log admits.\<close>

fun applied_log :: "CellularEgress \<Rightarrow> CellularEvent list \<Rightarrow> CellularEvent list" where
  "applied_log s [] = []"
| "applied_log s (e # es) =
     (if is_stale s (event_sequence e) then applied_log s es
      else e # applied_log (cellular_step s e) es)"

fun admits :: "CellularEvent \<Rightarrow> NetworkHandle \<Rightarrow> bool" where
  "admits (Observe obs) h = (obs_handle obs = h \<and> is_cellular obs \<and> has_internet obs \<and>
                              is_validated obs \<and> is_not_vpn obs)"
| "admits (Lost sequence handle) h = False"

text \<open>An event displaces an admitted network if it reports the network lost, reports that it no
  longer qualifies, or admits another one.\<close>

fun displaces :: "CellularEvent \<Rightarrow> NetworkHandle \<Rightarrow> bool" where
  "displaces (Observe obs) h =
     (if obs_handle obs = h then \<not> admits (Observe obs) h else admits (Observe obs) (obs_handle obs))"
| "displaces (Lost sequence handle) h = (handle = h)"

definition log_admits :: "CellularEvent list \<Rightarrow> NetworkHandle \<Rightarrow> bool" where
  "log_admits log h \<longleftrightarrow>
     (\<exists>earlier e later. log = earlier @ e # later \<and> admits e h \<and> (\<forall>d \<in> set later. \<not> displaces d h))"

subsection \<open>Invariant and rank\<close>

lemma stale_step: "is_stale s (event_sequence e) \<Longrightarrow> cellular_step s e = s"
  by (cases e) (auto simp: observe_def lost_def)

lemma fresh_step_sequence:
  "\<not> is_stale s (event_sequence e) \<Longrightarrow>
     last_sequence (admission (cellular_step s e)) = Some (event_sequence e)"
  by (cases e) (auto simp: observe_def lost_def Let_def split: option.splits)

lemma cellular_step_inv: "cellular_inv s \<Longrightarrow> cellular_inv (cellular_step s e)"
  by (cases e) (auto simp: observe_def lost_def Let_def cellular_inv_def split: option.splits)

lemma cellular_step_rank: "sequence_rank s \<le> sequence_rank (cellular_step s e)"
proof (cases "is_stale s (event_sequence e)")
  case True
  then show ?thesis by (simp add: stale_step)
next
  case False
  then have "sequence_rank s \<le> Suc (unat (event_sequence e))"
    by (auto simp: sequence_rank_def is_stale_def word_le_nat_alt split: option.splits)
  with fresh_step_sequence [OF False] show ?thesis by (simp add: sequence_rank_def)
qed

interpretation cellular: ranked_machine cellular_new cellular_step cellular_inv sequence_rank
proof
  show "cellular_inv cellular_new" by (simp add: cellular_new_def cellular_inv_def)
qed (auto intro: cellular_step_inv cellular_step_rank)

subsection \<open>The admitted network is a function of the applied log\<close>

lemma applied_log_snoc:
  "applied_log s (es @ [e]) =
     applied_log s es @ (if is_stale (foldl cellular_step s es) (event_sequence e) then [] else [e])"
  by (induction es arbitrary: s) (auto simp: stale_step)

lemma log_admits_snoc:
  "log_admits (log @ [e]) h \<longleftrightarrow> admits e h \<or> log_admits log h \<and> \<not> displaces e h"
proof
  assume "log_admits (log @ [e]) h"
  then obtain earlier d later where l: "log @ [e] = earlier @ d # later" "admits d h"
    "\<forall>x \<in> set later. \<not> displaces x h"
    by (auto simp: log_admits_def)
  show "admits e h \<or> log_admits log h \<and> \<not> displaces e h"
    using l by (cases later rule: rev_cases) (auto simp: log_admits_def)
next
  assume "admits e h \<or> log_admits log h \<and> \<not> displaces e h"
  then show "log_admits (log @ [e]) h"
  proof
    assume "admits e h"
    then show ?thesis unfolding log_admits_def
      by (intro exI [of _ log] exI [of _ e] exI [of _ "[]"]) simp
  next
    assume a: "log_admits log h \<and> \<not> displaces e h"
    then obtain earlier d later where "log = earlier @ d # later" "admits d h"
      "\<forall>x \<in> set later. \<not> displaces x h"
      by (auto simp: log_admits_def)
    with a show ?thesis unfolding log_admits_def
      by (intro exI [of _ earlier] exI [of _ d] exI [of _ "later @ [e]"]) auto
  qed
qed

lemma rejection_reason_None: "rejection_reason obs = None \<longleftrightarrow> admits (Observe obs) (obs_handle obs)"
  by (auto simp: rejection_reason_def)

lemma fresh_step_admitted:
  assumes "cellular_inv s" "\<not> is_stale s (event_sequence e)"
  shows "admitted_network (admission (cellular_step s e)) = Some h \<longleftrightarrow>
    admits e h \<or> admitted_network (admission s) = Some h \<and> \<not> displaces e h"
proof (cases e)
  case (Observe obs)
  with assms(2) show ?thesis
    using rejection_reason_None [of obs]
    by (auto simp: observe_def Let_def split: option.splits)
next
  case (Lost sequence handle)
  with assms show ?thesis
    by (auto simp: lost_def Let_def cellular_inv_def)
qed

lemma admitted_log_iff:
  "admitted_network (admission (cellular_run es)) = Some h \<longleftrightarrow>
     log_admits (applied_log cellular_new es) h"
proof (induction es rule: rev_induct)
  case Nil
  show ?case by (simp add: cellular_new_def log_admits_def)
next
  case (snoc e es)
  show ?case
  proof (cases "is_stale (cellular_run es) (event_sequence e)")
    case True
    with snoc show ?thesis by (simp add: applied_log_snoc stale_step)
  next
    case False
    with snoc fresh_step_admitted [OF cellular.inv_reachable False]
    show ?thesis by (simp add: applied_log_snoc log_admits_snoc)
  qed
qed

text \<open>C6. The admitted network is exactly what the applied observations say. After any events, in
  any order and with any stale deliveries among them, a network is admitted if and only if some
  applied observation reported it cellular, with Internet, validated and not a VPN, and no applied
  event since reported it lost, reported that it no longer qualifies, or admitted another network.\<close>

theorem cellular_admitted_iff:
  "admitted_network (admission (cellular_run es)) = Some h \<longleftrightarrow>
     (\<exists>earlier e later. applied_log cellular_new es = earlier @ e # later \<and>
        admits e h \<and> (\<forall>d \<in> set later. \<not> displaces d h))"
  unfolding admitted_log_iff log_admits_def by (rule refl)

subsection \<open>Authority tokens\<close>

lemma authority_Inr_iff:
  "admitted_network_authority s = Inr a \<longleftrightarrow>
     admission_state (admission s) = Admitted \<and>
     admitted_network (admission s) = Some (authority_network a) \<and>
     last_sequence (admission s) = Some (authority_sequence a)"
  by (cases a) (auto simp: admitted_network_authority_def rbind_Inr_iff)

lemma validate_iff_issue:
  "validate_network_authority s a = Inr () \<longleftrightarrow> admitted_network_authority s = Inr a"
  by (simp add: validate_network_authority_def authority_Inr_iff)

lemma stale_run:
  "(\<forall>e \<in> set es. is_stale s (event_sequence e)) \<Longrightarrow> foldl cellular_step s es = s"
  by (induction es) (simp_all add: stale_step)

lemma sequence_grows:
  assumes "cellular_inv s" "e \<in> set es" "\<not> is_stale s (event_sequence e)"
  shows "sequence_rank s < sequence_rank (foldl cellular_step s es)"
  using assms
proof (induction es arbitrary: s)
  case (Cons d es)
  show ?case
  proof (cases "is_stale s (event_sequence d)")
    case True
    with Cons show ?thesis by (auto simp: stale_step)
  next
    case False
    have "sequence_rank s < Suc (unat (event_sequence d))"
      using False by (auto simp: sequence_rank_def is_stale_def word_less_nat_alt not_le
                      split: option.splits)
    moreover have "Suc (unat (event_sequence d)) \<le> sequence_rank (foldl cellular_step s (d # es))"
      using cellular.rank_run [OF cellular_step_inv [OF Cons.prems(1)], of d es]
        fresh_step_sequence [OF False]
      by (simp add: sequence_rank_def)
    ultimately show ?thesis by simp
  qed
qed simp

text \<open>C7. An authority token issued by the owner is valid after later events exactly if the owner
  applied none of them: every later event carries a sequence number no newer than the token. In
  particular a new observation of the very same network already invalidates older tokens.\<close>

theorem cellular_authority_current:
  assumes "admitted_network_authority (cellular_run es) = Inr a"
  shows "validate_network_authority (cellular_run (es @ later)) a = Inr () \<longleftrightarrow>
    (\<forall>e \<in> set later. event_sequence e \<le> authority_sequence a)"
proof -
  let ?s = "cellular_run es"
  have q: "last_sequence (admission ?s) = Some (authority_sequence a)"
    using assms by (simp add: authority_Inr_iff)
  then have stale: "is_stale ?s (event_sequence e) \<longleftrightarrow> event_sequence e \<le> authority_sequence a" for e
    by (simp add: is_stale_def)
  show ?thesis
  proof
    assume "\<forall>e \<in> set later. event_sequence e \<le> authority_sequence a"
    with assms show "validate_network_authority (cellular_run (es @ later)) a = Inr ()"
      by (simp add: stale stale_run validate_iff_issue)
  next
    assume "validate_network_authority (cellular_run (es @ later)) a = Inr ()"
    then have "sequence_rank (foldl cellular_step ?s later) = sequence_rank ?s"
      using q by (simp add: validate_iff_issue authority_Inr_iff sequence_rank_def)
    then show "\<forall>e \<in> set later. event_sequence e \<le> authority_sequence a"
      using sequence_grows [OF cellular.inv_reachable, of _ later es] by (force simp: stale)
  qed
qed

definition demo_observation :: "u64 \<Rightarrow> NetworkHandle \<Rightarrow> NetworkObservation" where
  "demo_observation sequence handle =
     \<lparr>obs_sequence = sequence, obs_handle = handle, is_cellular = True, has_internet = True,
      is_validated = True, is_not_vpn = True\<rparr>"

theorem cellular_authority_current_witness:
  "validate_network_authority (cellular_run ([Observe (demo_observation 4 9)] @ [Lost 3 9]))
     \<lparr>authority_network = 9, authority_sequence = 4\<rparr> = Inr () \<and>
   validate_network_authority (cellular_run ([Observe (demo_observation 4 9)] @
     [Observe (demo_observation 5 9)])) \<lparr>authority_network = 9, authority_sequence = 4\<rparr> \<noteq> Inr ()"
proof -
  let ?a = "\<lparr>authority_network = 9, authority_sequence = 4\<rparr> :: CellularNetworkAuthority"
  have issued: "admitted_network_authority (cellular_run [Observe (demo_observation 4 9)]) = Inr ?a"
    by (simp add: demo_observation_def cellular_new_def observe_def rejection_reason_def Let_def
          is_stale_def admitted_network_authority_def)
  note current = cellular_authority_current [OF issued]
  show ?thesis
    using current [of "[Lost 3 9]"] current [of "[Observe (demo_observation 5 9)]"]
    by (simp add: demo_observation_def)
qed

theorem cellular_admitted_iff_witness:
  "admitted_network (admission (cellular_run
     [Observe (demo_observation 4 9), Lost 3 9, Lost 5 8])) = Some 9"
proof -
  let ?e = "Observe (demo_observation 4 9)"
  have "applied_log cellular_new [?e, Lost 3 9, Lost 5 8] = [] @ ?e # [Lost 5 8]"
    by (simp add: demo_observation_def cellular_new_def observe_def rejection_reason_def Let_def is_stale_def)
  moreover have "admits ?e 9" "\<forall>d \<in> set [Lost 5 8]. \<not> displaces d 9"
    by (simp_all add: demo_observation_def)
  ultimately show ?thesis unfolding cellular_admitted_iff by blast
qed

end
