(* ===== verification/Readiness.thy ===== *)
theory Readiness
  imports Mish_Prelude
begin

text \<open>
  The product readiness projection (\<open>crates/readiness/src/lib.rs\<close>) and the egress-probe use case
  that feeds it (\<open>crates/application/src/lib.rs\<close>). The projection is pure; the probe coordinator
  owns a freshness sequence and the one outstanding ticket. The lemmas show that a ticket completes
  at most once, that only the latest ticket can complete, and that the product is reported ready
  only on the strength of that latest ticket under the present generations of every owner.
\<close>

subsection \<open>Facts and projection\<close>

type_synonym CellularOwnerGeneration = u64
type_synonym RuntimeGeneration = u64
type_synonym ProxyServingGeneration = u64
type_synonym MeshAdmissionEpoch = u64
type_synonym CredentialVersion = u64
type_synonym FreshnessMarker = u64

definition generation_key_new :: "u64 \<Rightarrow> u64 option" where
  "generation_key_new raw = (if raw = 0 then None else Some raw)"

datatype Readiness = Ready | NotReady | Degraded | Unknown

datatype ProbeOutcome =
    Succeeded
  | DnsFailed
  | TlsFailed
  | AuthenticationFailed
  | TransportFailed
  | Timeout

record ProbeBinding =
  bind_cellular_owner_generation :: CellularOwnerGeneration
  bind_runtime_generation :: RuntimeGeneration
  bind_proxy_serving_generation :: ProxyServingGeneration
  bind_mesh_admission_epoch :: MeshAdmissionEpoch
  bind_credential_version :: CredentialVersion

record EgressProbeObservation =
  probe_outcome :: ProbeOutcome
  probe_binding :: ProbeBinding
  probe_freshness :: FreshnessMarker

record CellularReadinessFact =
  owner_generation :: CellularOwnerGeneration
  cellular_admitted :: bool
  root_policy_verified :: bool

record RuntimeReadinessFact =
  runtime_generation :: RuntimeGeneration

record ProxyReadinessFact =
  proxy_runtime_generation :: RuntimeGeneration
  serving_generation :: "ProxyServingGeneration option"
  proxy_credential_version :: "CredentialVersion option"
  proxy_healthy :: bool

record CredentialReadinessFact =
  credential_version :: CredentialVersion
  credential_active :: bool

record MeshReadinessFact =
  mesh_runtime_generation :: RuntimeGeneration
  admission_epoch :: "MeshAdmissionEpoch option"
  mesh_admitted :: bool
  ingress_running :: bool

record ProductReadinessInput =
  in_cellular :: "CellularReadinessFact option"
  in_runtime :: "RuntimeReadinessFact option"
  in_proxy :: "ProxyReadinessFact option"
  in_credential :: "CredentialReadinessFact option"
  in_mesh :: "MeshReadinessFact option"
  in_expected_freshness :: "FreshnessMarker option"
  in_probe :: "EgressProbeObservation option"

datatype ProbeEligibility = Eligible ProbeBinding | EligibilityNotReady | EligibilityUnknown

definition probe_eligibility :: "ProductReadinessInput \<Rightarrow> ProbeEligibility" where
  "probe_eligibility input =
     (case (in_cellular input, in_runtime input, in_proxy input, in_credential input, in_mesh input) of
        (Some cellular, Some runtime, Some proxy, Some credential, Some mesh) \<Rightarrow>
          if \<not> cellular_admitted cellular \<or> \<not> root_policy_verified cellular \<or>
             \<not> proxy_healthy proxy \<or> \<not> credential_active credential \<or> \<not> mesh_admitted mesh
          then EligibilityNotReady
          else if proxy_runtime_generation proxy \<noteq> runtime_generation runtime \<or>
                  mesh_runtime_generation mesh \<noteq> runtime_generation runtime
          then EligibilityUnknown
          else
            (case (serving_generation proxy, proxy_credential_version proxy, admission_epoch mesh) of
               (Some serving, Some version, Some epoch) \<Rightarrow>
                 if version \<noteq> credential_version credential then EligibilityUnknown
                 else Eligible \<lparr>bind_cellular_owner_generation = owner_generation cellular,
                                bind_runtime_generation = runtime_generation runtime,
                                bind_proxy_serving_generation = serving,
                                bind_mesh_admission_epoch = epoch,
                                bind_credential_version = credential_version credential\<rparr>
             | _ \<Rightarrow> EligibilityUnknown)
      | _ \<Rightarrow> EligibilityUnknown)"

definition project :: "ProductReadinessInput \<Rightarrow> Readiness" where
  "project input =
     (case probe_eligibility input of
        EligibilityNotReady \<Rightarrow> NotReady
      | EligibilityUnknown \<Rightarrow> Unknown
      | Eligible current_binding \<Rightarrow>
          (case in_expected_freshness input of
             None \<Rightarrow> Unknown
           | Some expected_freshness \<Rightarrow>
               (case in_probe input of
                  None \<Rightarrow> Unknown
                | Some probe \<Rightarrow>
                    if probe_binding probe \<noteq> current_binding \<or>
                       probe_freshness probe \<noteq> expected_freshness
                    then Unknown
                    else (case probe_outcome probe of
                            Succeeded \<Rightarrow> Ready
                          | DnsFailed \<Rightarrow> Degraded
                          | TlsFailed \<Rightarrow> Degraded
                          | AuthenticationFailed \<Rightarrow> Degraded
                          | TransportFailed \<Rightarrow> Degraded
                          | Timeout \<Rightarrow> Degraded))))"

subsection \<open>The probe coordinator\<close>

text \<open>Durations and instants count nanoseconds; an \<open>Instant\<close> holds fewer than \<open>2\<^sup>6\<^sup>3\<close> seconds.\<close>

type_synonym Duration = nat
type_synonym Instant = nat

definition duration_from_secs :: "nat \<Rightarrow> Duration" where
  "duration_from_secs secs = secs * 1000000000"

definition instant_checked_add :: "Instant \<Rightarrow> Duration \<Rightarrow> Instant option" where
  "instant_checked_add t d =
     (if t + d < duration_from_secs (2 ^ 63) then Some (t + d) else None)"

definition DEFAULT_EGRESS_PROBE_BUDGET :: Duration where
  "DEFAULT_EGRESS_PROBE_BUDGET = duration_from_secs 20"

definition DEFAULT_EGRESS_PROBE_REFRESH_DELAY :: Duration where
  "DEFAULT_EGRESS_PROBE_REFRESH_DELAY = duration_from_secs 60"

datatype EgressProbeError = ZeroBudget | DeadlineOverflow | FreshnessExhausted

record ProbeTicket =
  ticket_binding :: ProbeBinding
  ticket_freshness :: FreshnessMarker

record EgressProbeCoordinator =
  last_freshness :: u64
  current_ticket :: "ProbeTicket option"

definition coordinator_new :: EgressProbeCoordinator where
  "coordinator_new = \<lparr>last_freshness = 0, current_ticket = None\<rparr>"

definition next_freshness ::
    "EgressProbeCoordinator \<Rightarrow> (EgressProbeError + FreshnessMarker) \<times> EgressProbeCoordinator" where
  "next_freshness c =
     (case checked_add (last_freshness c) 1 of
        None \<Rightarrow> (Inl FreshnessExhausted, c)
      | Some raw \<Rightarrow>
          (case generation_key_new raw of
             None \<Rightarrow> (Inl FreshnessExhausted, c)
           | Some freshness \<Rightarrow> (Inr freshness, c\<lparr>last_freshness := raw\<rparr>)))"

definition probe_begin ::
    "EgressProbeCoordinator \<Rightarrow> ProbeBinding \<Rightarrow>
     (EgressProbeError + ProbeTicket) \<times> EgressProbeCoordinator" where
  "probe_begin c binding =
     (case next_freshness c of
        (Inl e, c) \<Rightarrow> (Inl e, c)
      | (Inr freshness, c) \<Rightarrow>
          (let ticket = \<lparr>ticket_binding = binding, ticket_freshness = freshness\<rparr>
           in (Inr ticket, c\<lparr>current_ticket := Some ticket\<rparr>)))"

definition invalidate ::
    "EgressProbeCoordinator \<Rightarrow> (EgressProbeError + FreshnessMarker) \<times> EgressProbeCoordinator" where
  "invalidate c =
     (case next_freshness c of
        (Inl e, c) \<Rightarrow> (Inl e, c)
      | (Inr freshness, c) \<Rightarrow> (Inr freshness, c\<lparr>current_ticket := None\<rparr>))"

definition expected_freshness :: "EgressProbeCoordinator \<Rightarrow> FreshnessMarker option" where
  "expected_freshness c = generation_key_new (last_freshness c)"

definition classify_outcome :: "ProbeOutcome \<Rightarrow> bool \<Rightarrow> ProbeOutcome" where
  "classify_outcome reported timed_out = (if timed_out then Timeout else reported)"

definition complete_bounded ::
    "EgressProbeCoordinator \<Rightarrow> ProbeTicket \<Rightarrow> ProbeOutcome \<Rightarrow> Duration \<Rightarrow> Duration \<Rightarrow>
     EgressProbeObservation option \<times> EgressProbeCoordinator" where
  "complete_bounded c ticket reported elapsed budget =
     (if current_ticket c \<noteq> Some ticket then (None, c)
      else (Some \<lparr>probe_outcome = classify_outcome reported (elapsed \<ge> budget),
                  probe_binding = ticket_binding ticket,
                  probe_freshness = ticket_freshness ticket\<rparr>,
            c\<lparr>current_ticket := None\<rparr>))"

text \<open>The injected effect maps its deadline to an outcome and the instant at which it returns.\<close>

definition run_authenticated_egress_probe ::
    "ProbeBinding \<Rightarrow> FreshnessMarker \<Rightarrow> Duration \<Rightarrow> Instant \<Rightarrow>
     (Instant \<Rightarrow> ProbeOutcome \<times> Instant) \<Rightarrow> EgressProbeError + EgressProbeObservation" where
  "run_authenticated_egress_probe binding freshness budget started effect =
     (if budget = 0 then Inl ZeroBudget
      else rbind (ok_or (instant_checked_add started budget) DeadlineOverflow) (\<lambda>deadline.
        case effect deadline of
          (reported, finished) \<Rightarrow>
            Inr \<lparr>probe_outcome = classify_outcome reported (finished - started \<ge> budget),
                 probe_binding = binding, probe_freshness = freshness\<rparr>))"

subsection \<open>The coordinator as a machine\<close>

datatype ProbeEvent =
    EvBegin ProbeBinding
  | EvInvalidate
  | EvComplete ProbeTicket ProbeOutcome Duration Duration

fun probe_step :: "EgressProbeCoordinator \<Rightarrow> ProbeEvent \<Rightarrow> EgressProbeCoordinator" where
  "probe_step c (EvBegin binding) = snd (probe_begin c binding)"
| "probe_step c EvInvalidate = snd (invalidate c)"
| "probe_step c (EvComplete ticket reported elapsed budget) =
     snd (complete_bounded c ticket reported elapsed budget)"

abbreviation probe_run :: "ProbeEvent list \<Rightarrow> EgressProbeCoordinator" where
  "probe_run es \<equiv> foldl probe_step coordinator_new es"

definition coordinator_inv :: "EgressProbeCoordinator \<Rightarrow> bool" where
  "coordinator_inv c \<longleftrightarrow>
     (\<forall>t. current_ticket c = Some t \<longrightarrow>
        ticket_freshness t = last_freshness c \<and> last_freshness c \<noteq> 0)"

text \<open>An event that asks for a new freshness marker.\<close>

fun renews :: "ProbeEvent \<Rightarrow> bool" where
  "renews (EvBegin binding) = True"
| "renews EvInvalidate = True"
| "renews (EvComplete ticket reported elapsed budget) = False"

subsection \<open>Freshness\<close>

lemma next_freshness_cases:
  obtains (exhausted) "last_freshness c = - 1" "next_freshness c = (Inl FreshnessExhausted, c)"
  | (fresh) raw where "unat raw = Suc (unat (last_freshness c))" "raw \<noteq> 0"
      "next_freshness c = (Inr raw, c\<lparr>last_freshness := raw\<rparr>)"
proof (cases "checked_add (last_freshness c) 1")
  case None
  show thesis
  proof (rule exhausted)
    show "last_freshness c = - 1" using None by (simp add: checked_add_1_None)
    show "next_freshness c = (Inl FreshnessExhausted, c)" using None by (simp add: next_freshness_def)
  qed
next
  case (Some raw)
  then have "unat raw = Suc (unat (last_freshness c))"
    by (simp add: checked_add_Some_iff)
  moreover from this have "raw \<noteq> 0" by auto
  ultimately show thesis
    using Some by (intro fresh) (simp_all add: next_freshness_def generation_key_new_def)
qed

lemma probe_step_inv: "coordinator_inv c \<Longrightarrow> coordinator_inv (probe_step c e)"
proof (cases e)
  case (EvComplete t r x b)
  then show "coordinator_inv c \<Longrightarrow> ?thesis"
    by (simp add: complete_bounded_def coordinator_inv_def)
qed (cases c rule: next_freshness_cases;
     simp add: probe_begin_def invalidate_def Let_def coordinator_inv_def)+

lemma probe_step_freshness:
  "unat (last_freshness c) \<le> unat (last_freshness (probe_step c e))"
proof (cases e)
  case (EvComplete t r x b)
  then show ?thesis by (simp add: complete_bounded_def)
qed (cases c rule: next_freshness_cases; simp add: probe_begin_def invalidate_def Let_def)+

interpretation probe: ranked_machine coordinator_new probe_step coordinator_inv
    "\<lambda>c. unat (last_freshness c)"
proof
  show "coordinator_inv coordinator_new" by (simp add: coordinator_new_def coordinator_inv_def)
qed (auto intro: probe_step_inv probe_step_freshness)

text \<open>Once the marker has passed a ticket's freshness, or the ticket has been consumed at its own
  freshness, that ticket cannot be current again.\<close>

definition spent :: "EgressProbeCoordinator \<Rightarrow> ProbeTicket \<Rightarrow> bool" where
  "spent c t \<longleftrightarrow>
     unat (ticket_freshness t) \<le> unat (last_freshness c) \<and> current_ticket c \<noteq> Some t"

lemma spent_step: "spent c t \<Longrightarrow> spent (probe_step c e) t"
proof (cases e)
  case (EvComplete t' r x b)
  then show "spent c t \<Longrightarrow> ?thesis" by (simp add: complete_bounded_def spent_def)
qed (cases c rule: next_freshness_cases;
     auto simp: probe_begin_def invalidate_def Let_def spent_def)+

lemma spent_run: "spent c t \<Longrightarrow> spent (foldl probe_step c es) t"
  by (induction es arbitrary: c) (auto intro: spent_step)

lemma completed_spent:
  assumes "coordinator_inv c" "fst (complete_bounded c t r x b) = Some obs"
  shows "spent (probe_step c (EvComplete t r x b)) t"
  using assms by (auto simp: complete_bounded_def coordinator_inv_def spent_def split: if_splits)

text \<open>C10. A probe ticket is consumed at most once: after a ticket completed, no later sequence of
  events makes another completion of the same ticket produce an observation.\<close>

theorem probe_ticket_single_use:
  assumes "fst (complete_bounded (probe_run es) t r x b) = Some obs"
  shows "fst (complete_bounded (probe_run (es @ EvComplete t r x b # later)) t r' x' b') = None"
proof -
  have "spent (probe_run (es @ EvComplete t r x b # later)) t"
    using spent_run [OF completed_spent [OF probe.inv_reachable assms], of later] by simp
  then show ?thesis by (simp add: complete_bounded_def spent_def)
qed

definition demo_binding :: ProbeBinding where
  "demo_binding = \<lparr>bind_cellular_owner_generation = 1, bind_runtime_generation = 2,
     bind_proxy_serving_generation = 3, bind_mesh_admission_epoch = 4, bind_credential_version = 5\<rparr>"

definition demo_ticket :: ProbeTicket where
  "demo_ticket = \<lparr>ticket_binding = demo_binding, ticket_freshness = 1\<rparr>"

lemma demo_begin: "probe_run [EvBegin demo_binding] =
    \<lparr>last_freshness = 1, current_ticket = Some demo_ticket\<rparr>"
  by (simp add: coordinator_new_def probe_begin_def next_freshness_def checked_add_def
        generation_key_new_def demo_ticket_def Let_def)

theorem probe_ticket_single_use_witness:
  "fst (complete_bounded (probe_run ([EvBegin demo_binding] @
      EvComplete demo_ticket Succeeded 5 20 # [EvBegin demo_binding])) demo_ticket Succeeded 6 20) = None"
proof -
  have "fst (complete_bounded (probe_run [EvBegin demo_binding]) demo_ticket Succeeded 5 20) =
      Some \<lparr>probe_outcome = Succeeded, probe_binding = demo_binding, probe_freshness = 1\<rparr>"
    unfolding demo_begin by (simp add: complete_bounded_def classify_outcome_def demo_ticket_def)
  from probe_ticket_single_use [OF this] show ?thesis .
qed

subsection \<open>Readiness\<close>

definition coherent :: "ProductReadinessInput \<Rightarrow> ProbeBinding \<Rightarrow> bool" where
  "coherent input b \<longleftrightarrow>
     in_cellular input = Some \<lparr>owner_generation = bind_cellular_owner_generation b,
       cellular_admitted = True, root_policy_verified = True\<rparr> \<and>
     in_runtime input = Some \<lparr>runtime_generation = bind_runtime_generation b\<rparr> \<and>
     in_proxy input = Some \<lparr>proxy_runtime_generation = bind_runtime_generation b,
       serving_generation = Some (bind_proxy_serving_generation b),
       proxy_credential_version = Some (bind_credential_version b), proxy_healthy = True\<rparr> \<and>
     in_credential input = Some \<lparr>credential_version = bind_credential_version b,
       credential_active = True\<rparr> \<and>
     (\<exists>running. in_mesh input = Some \<lparr>mesh_runtime_generation = bind_runtime_generation b,
       admission_epoch = Some (bind_mesh_admission_epoch b), mesh_admitted = True,
       ingress_running = running\<rparr>)"

lemma probe_eligibility_iff: "probe_eligibility input = Eligible b \<longleftrightarrow> coherent input b"
proof
  assume eligible: "probe_eligibility input = Eligible b"
  then obtain cellular runtime proxy credential mesh where
    "in_cellular input = Some cellular" "in_runtime input = Some runtime"
    "in_proxy input = Some proxy" "in_credential input = Some credential"
    "in_mesh input = Some mesh"
    by (auto simp: probe_eligibility_def split: option.splits)
  with eligible show "coherent input b"
    unfolding probe_eligibility_def coherent_def
    by (cases b; cases cellular; cases runtime; cases proxy; cases credential; cases mesh)
       (auto split: option.splits if_splits)
next
  assume "coherent input b"
  then show "probe_eligibility input = Eligible b"
    by (auto simp: probe_eligibility_def coherent_def)
qed

lemma project_Ready_iff:
  "project input = Ready \<longleftrightarrow>
     (\<exists>b f. coherent input b \<and> in_expected_freshness input = Some f \<and>
        in_probe input = Some \<lparr>probe_outcome = Succeeded, probe_binding = b, probe_freshness = f\<rparr>)"
proof
  assume "project input = Ready"
  then show "\<exists>b f. coherent input b \<and> in_expected_freshness input = Some f \<and>
      in_probe input = Some \<lparr>probe_outcome = Succeeded, probe_binding = b, probe_freshness = f\<rparr>"
    unfolding project_def probe_eligibility_iff [symmetric]
    by (auto split: ProbeEligibility.splits option.splits if_splits ProbeOutcome.splits)
qed (auto simp: project_def probe_eligibility_iff [symmetric])

lemma freshness_kept:
  assumes "last_freshness (foldl probe_step c es) = last_freshness c"
    and "coordinator_inv c" "last_freshness c \<noteq> - 1"
  shows "\<forall>e \<in> set es. \<not> renews e"
  using assms
proof (induction es arbitrary: c)
  case (Cons e es)
  have ge: "unat (last_freshness (probe_step c e)) \<le> unat (last_freshness c)"
    using probe.rank_run [OF probe_step_inv [OF Cons.prems(2)], of e es] Cons.prems(1) by simp
  with probe_step_freshness [of c e] have same: "last_freshness (probe_step c e) = last_freshness c"
    by (simp add: word_unat_eq_iff)
  have "\<not> renews e"
  proof (cases e)
    case (EvComplete t r x b)
    then show ?thesis by simp
  qed (use ge Cons.prems(3) in \<open>cases c rule: next_freshness_cases;
         simp add: probe_begin_def invalidate_def Let_def\<close>)+
  moreover have "\<forall>e \<in> set es. \<not> renews e"
    using Cons.prems same by (intro Cons.IH [of "probe_step c e"]) (auto intro: probe_step_inv)
  ultimately show ?case by simp
qed simp

text \<open>C11. The product reports READY only on a successful probe that was issued under the present
  generation of every owner and has not been superseded: if the observation came from completing a
  ticket after the events \<open>es\<close>, then READY after further events means that none of them began or
  invalidated a probe, that the probe succeeded within its budget, and that the cellular, runtime,
  proxy, mesh and credential facts all still carry the generations captured in the ticket. The 64-bit
  freshness counter is assumed not to be used up at the completion.\<close>

theorem ready_rests_on_latest_probe:
  assumes "fst (complete_bounded (probe_run es) t r x budget) = Some obs"
    and "last_freshness (probe_run es) \<noteq> - 1"
    and "in_probe input = Some obs"
    and "in_expected_freshness input =
      expected_freshness (probe_run (es @ EvComplete t r x budget # later))"
    and "project input = Ready"
  shows "(\<forall>e \<in> set later. \<not> renews e) \<and> r = Succeeded \<and> x < budget \<and>
    coherent input (ticket_binding t)"
proof -
  let ?c = "probe_step (probe_run es) (EvComplete t r x budget)"
  obtain b f where ready: "coherent input b" "in_expected_freshness input = Some f"
    "obs = \<lparr>probe_outcome = Succeeded, probe_binding = b, probe_freshness = f\<rparr>"
    using assms(3,5) by (auto simp: project_Ready_iff)
  have cur: "current_ticket (probe_run es) = Some t"
    and obs: "b = ticket_binding t" "f = ticket_freshness t"
    and ok: "classify_outcome r (budget \<le> x) = Succeeded"
    using assms(1) ready(3) by (auto simp: complete_bounded_def split: if_splits)
  have inv: "coordinator_inv ?c" by (rule probe_step_inv [OF probe.inv_reachable])
  have c: "last_freshness ?c = last_freshness (probe_run es)"
    by (simp add: complete_bounded_def)
  have "f = last_freshness (probe_run es)"
    using cur obs(2) probe.inv_reachable [of es] by (simp add: coordinator_inv_def)
  moreover have "f = last_freshness (foldl probe_step ?c later)"
    using assms(4) ready(2) by (auto simp: expected_freshness_def generation_key_new_def split: if_splits)
  ultimately have "\<forall>e \<in> set later. \<not> renews e"
    using freshness_kept [OF _ inv, of later] c assms(2) by simp
  moreover have "r = Succeeded" "x < budget"
    using ok by (auto simp: classify_outcome_def split: if_splits)
  ultimately show ?thesis using ready(1) obs(1) by simp
qed

definition demo_input :: ProductReadinessInput where
  "demo_input =
     \<lparr>in_cellular = Some \<lparr>owner_generation = 1, cellular_admitted = True, root_policy_verified = True\<rparr>,
      in_runtime = Some \<lparr>runtime_generation = 2\<rparr>,
      in_proxy = Some \<lparr>proxy_runtime_generation = 2, serving_generation = Some 3,
                       proxy_credential_version = Some 5, proxy_healthy = True\<rparr>,
      in_credential = Some \<lparr>credential_version = 5, credential_active = True\<rparr>,
      in_mesh = Some \<lparr>mesh_runtime_generation = 2, admission_epoch = Some 4, mesh_admitted = True,
                      ingress_running = True\<rparr>,
      in_expected_freshness = Some 1,
      in_probe = Some \<lparr>probe_outcome = Succeeded, probe_binding = demo_binding, probe_freshness = 1\<rparr>\<rparr>"

theorem ready_rests_on_latest_probe_witness:
  "project demo_input = Ready \<and> coherent demo_input (ticket_binding demo_ticket)"
proof -
  let ?obs = "\<lparr>probe_outcome = Succeeded, probe_binding = demo_binding, probe_freshness = 1\<rparr>"
  have 1: "fst (complete_bounded (probe_run [EvBegin demo_binding]) demo_ticket Succeeded 5 20) =
      Some ?obs"
    unfolding demo_begin by (simp add: complete_bounded_def classify_outcome_def demo_ticket_def)
  have 2: "last_freshness (probe_run [EvBegin demo_binding]) \<noteq> - 1"
    unfolding demo_begin by simp
  have 3: "in_probe demo_input = Some ?obs" by (simp add: demo_input_def)
  have "probe_run ([EvBegin demo_binding] @ EvComplete demo_ticket Succeeded 5 20 # []) =
      \<lparr>last_freshness = 1, current_ticket = None\<rparr>"
    using demo_begin by (simp add: complete_bounded_def)
  then have 4: "in_expected_freshness demo_input =
      expected_freshness (probe_run ([EvBegin demo_binding] @ EvComplete demo_ticket Succeeded 5 20 # []))"
    by (simp add: demo_input_def expected_freshness_def generation_key_new_def)
  have 5: "project demo_input = Ready"
    by (simp add: project_def probe_eligibility_def demo_input_def demo_binding_def)
  from ready_rests_on_latest_probe [OF 1 2 3 4 5] 5 show ?thesis by blast
qed

end
