(* ===== verification/Mesh_Endpoint.thy ===== *)
theory Mesh_Endpoint
  imports Rust_Net
begin

text \<open>
  The Mesh endpoint owner (\<open>crates/transport/src/lib.rs\<close>): which local address is admitted as the
  Mesh endpoint, and under which admission epoch. The lemmas show that the endpoint is the unique
  local address inside the accepted network and that an epoch names one uninterrupted admission.
\<close>

definition MIN_ACCEPTED_PREFIX :: u8 where
  "MIN_ACCEPTED_PREFIX = 8"

datatype MeshAdmissionState = MeshNotAdmitted | MeshAdmitted

datatype MeshAdmissionReason =
    MeshNoObservation
  | NoAcceptedAddress
  | MultipleAcceptedAddresses

record MeshAdmissionSnapshot =
  mesh_state :: MeshAdmissionState
  mesh_reason :: "MeshAdmissionReason option"
  admitted_endpoint :: "Ipv4Addr option"
  mesh_epoch :: "u64 option"
  mesh_last_sequence :: "u64 option"

datatype MeshOwnerError =
    InvalidAcceptedCidr
  | InvalidObservationSequence
  | StaleObservation
  | AdmissionEpochExhausted

record Ipv4Cidr =
  cidr_network :: u32
  cidr_mask :: u32

definition Ipv4Cidr_new :: "Ipv4Addr \<Rightarrow> u8 \<Rightarrow> MeshOwnerError + Ipv4Cidr" where
  "Ipv4Cidr_new network prefix =
     (if \<not> (MIN_ACCEPTED_PREFIX \<le> prefix \<and> prefix \<le> 32) then Inl InvalidAcceptedCidr
      else
        (let mask = push_bit (unat (32 - prefix)) (- 1 :: u32)
         in if network AND mask \<noteq> network then Inl InvalidAcceptedCidr
            else Inr \<lparr>cidr_network = network, cidr_mask = mask\<rparr>))"

definition cidr_contains :: "Ipv4Cidr \<Rightarrow> Ipv4Addr \<Rightarrow> bool" where
  "cidr_contains cidr address \<longleftrightarrow>
     \<not> ipv4_is_unspecified address \<and> \<not> ipv4_is_multicast address \<and>
     address \<noteq> ipv4_BROADCAST \<and> (address AND cidr_mask cidr) = cidr_network cidr"

record MeshEndpointOwner =
  accepted :: Ipv4Cidr
  mesh_snapshot :: MeshAdmissionSnapshot
  next_epoch :: u64

definition mesh_owner_fresh :: "Ipv4Cidr \<Rightarrow> MeshEndpointOwner" where
  "mesh_owner_fresh cidr =
     \<lparr>accepted = cidr,
      mesh_snapshot = \<lparr>mesh_state = MeshNotAdmitted, mesh_reason = Some MeshNoObservation,
                       admitted_endpoint = None, mesh_epoch = None, mesh_last_sequence = None\<rparr>,
      next_epoch = 0\<rparr>"

definition MeshEndpointOwner_new :: "Ipv4Addr \<Rightarrow> u8 \<Rightarrow> MeshOwnerError + MeshEndpointOwner" where
  "MeshEndpointOwner_new accepted_network accepted_prefix =
     rbind (Ipv4Cidr_new accepted_network accepted_prefix) (\<lambda>cidr. Inr (mesh_owner_fresh cidr))"

text \<open>The distinct candidates in ascending order, as the \<open>BTreeSet\<close> holds them.\<close>

definition mesh_candidates :: "Ipv4Cidr \<Rightarrow> Ipv4Addr list \<Rightarrow> Ipv4Addr list" where
  "mesh_candidates cidr addresses = sort (remdups (filter (cidr_contains cidr) addresses))"

definition mesh_selection ::
    "Ipv4Addr list \<Rightarrow> MeshAdmissionState \<times> MeshAdmissionReason option \<times> Ipv4Addr option" where
  "mesh_selection candidates =
     (case candidates of
        [] \<Rightarrow> (MeshNotAdmitted, Some NoAcceptedAddress, None)
      | [a] \<Rightarrow> (MeshAdmitted, None, Some a)
      | _ \<Rightarrow> (MeshNotAdmitted, Some MultipleAcceptedAddresses, None))"

definition next_admission_epoch ::
    "MeshEndpointOwner \<Rightarrow> Ipv4Addr option \<Rightarrow> MeshOwnerError + u64 option \<times> u64" where
  "next_admission_epoch owner endpoint =
     (case endpoint of
        None \<Rightarrow> Inr (None, next_epoch owner)
      | Some e \<Rightarrow>
          if admitted_endpoint (mesh_snapshot owner) = Some e
          then Inr (mesh_epoch (mesh_snapshot owner), next_epoch owner)
          else (case checked_add (next_epoch owner) 1 of
                  None \<Rightarrow> Inl AdmissionEpochExhausted
                | Some n \<Rightarrow> Inr (Some n, n)))"

definition observe_local_ipv4 ::
    "MeshEndpointOwner \<Rightarrow> u64 \<Rightarrow> Ipv4Addr list \<Rightarrow>
     (MeshOwnerError + MeshAdmissionSnapshot) \<times> MeshEndpointOwner" where
  "observe_local_ipv4 owner sequence addresses =
     (if sequence = 0 then (Inl InvalidObservationSequence, owner)
      else if (case mesh_last_sequence (mesh_snapshot owner) of
                 None \<Rightarrow> False | Some newest \<Rightarrow> sequence \<le> newest)
      then (Inl StaleObservation, owner)
      else
        (case mesh_selection (mesh_candidates (accepted owner) addresses) of
           (state, reason, endpoint) \<Rightarrow>
             (case next_admission_epoch owner endpoint of
                Inl e \<Rightarrow> (Inl e, owner)
              | Inr (epoch, n) \<Rightarrow>
                  (let snapshot = \<lparr>mesh_state = state, mesh_reason = reason,
                                   admitted_endpoint = endpoint, mesh_epoch = epoch,
                                   mesh_last_sequence = Some sequence\<rparr>
                   in (Inr snapshot, owner\<lparr>mesh_snapshot := snapshot, next_epoch := n\<rparr>)))))"

subsection \<open>The owner as a machine\<close>

fun mesh_step :: "MeshEndpointOwner \<Rightarrow> u64 \<times> Ipv4Addr list \<Rightarrow> MeshEndpointOwner" where
  "mesh_step owner (sequence, addresses) = snd (observe_local_ipv4 owner sequence addresses)"

definition mesh_owner_inv :: "MeshEndpointOwner \<Rightarrow> bool" where
  "mesh_owner_inv owner \<longleftrightarrow>
     (let s = mesh_snapshot owner in
       (mesh_state s = MeshAdmitted \<longleftrightarrow> admitted_endpoint s \<noteq> None) \<and>
       (mesh_epoch s \<noteq> None \<longleftrightarrow> admitted_endpoint s \<noteq> None) \<and>
       (\<forall>e. mesh_epoch s = Some e \<longrightarrow> e = next_epoch owner \<and> e \<noteq> 0) \<and>
       (\<forall>a. admitted_endpoint s = Some a \<longrightarrow> cidr_contains (accepted owner) a))"

lemma mesh_selection_endpoint: "snd (snd (mesh_selection cs)) = Some a \<longleftrightarrow> cs = [a]"
  by (auto simp: mesh_selection_def split: list.splits)

lemma mesh_selection_state:
  "fst (mesh_selection cs) = MeshAdmitted \<longleftrightarrow> snd (snd (mesh_selection cs)) \<noteq> None"
  by (auto simp: mesh_selection_def split: list.splits)

lemma sort_remdups_singleton: "sort (remdups xs) = [a] \<longleftrightarrow> set xs = {a}" for a :: "'a::linorder"
proof
  assume "sort (remdups xs) = [a]"
  then have "set (sort (remdups xs)) = {a}" by simp
  then show "set xs = {a}" by simp
next
  assume a: "set xs = {a}"
  then have "length (remdups xs) = Suc 0" using distinct_card [of "remdups xs"] by simp
  then obtain b where b: "remdups xs = [b]" by (auto simp: length_Suc_conv)
  then have "set xs = {b}" by (metis empty_set list.simps(15) set_remdups)
  with a b show "sort (remdups xs) = [a]" by simp
qed

lemma mesh_candidates_singleton:
  "mesh_candidates cidr addresses = [a] \<longleftrightarrow> {b \<in> set addresses. cidr_contains cidr b} = {a}"
  by (simp add: mesh_candidates_def sort_remdups_singleton)

text \<open>The outcomes of an observation: refused, no endpoint, the endpoint kept, or a new epoch.\<close>

definition accepted_locals :: "MeshEndpointOwner \<Rightarrow> Ipv4Addr list \<Rightarrow> Ipv4Addr set" where
  "accepted_locals owner addresses = {a \<in> set addresses. cidr_contains (accepted owner) a}"

inductive mesh_outcome ::
    "MeshEndpointOwner \<Rightarrow> Ipv4Addr list \<Rightarrow> MeshEndpointOwner \<Rightarrow> bool"
  for owner addresses where
  Refused: "mesh_outcome owner addresses owner"
| Dropped: "mesh_outcome owner addresses owner'"
    if "accepted owner' = accepted owner" "next_epoch owner' = next_epoch owner"
      "mesh_state (mesh_snapshot owner') = MeshNotAdmitted"
      "admitted_endpoint (mesh_snapshot owner') = None" "mesh_epoch (mesh_snapshot owner') = None"
      "\<nexists>a. accepted_locals owner addresses = {a}"
| Kept: "mesh_outcome owner addresses owner'"
    if "accepted owner' = accepted owner" "next_epoch owner' = next_epoch owner"
      "mesh_state (mesh_snapshot owner') = MeshAdmitted"
      "admitted_endpoint (mesh_snapshot owner') = Some a"
      "admitted_endpoint (mesh_snapshot owner) = Some a"
      "mesh_epoch (mesh_snapshot owner') = mesh_epoch (mesh_snapshot owner)"
      "accepted_locals owner addresses = {a}"
| Renewed: "mesh_outcome owner addresses owner'"
    if "accepted owner' = accepted owner"
      "unat (next_epoch owner') = Suc (unat (next_epoch owner))"
      "mesh_state (mesh_snapshot owner') = MeshAdmitted"
      "admitted_endpoint (mesh_snapshot owner') = Some a"
      "admitted_endpoint (mesh_snapshot owner) \<noteq> Some a"
      "mesh_epoch (mesh_snapshot owner') = Some (next_epoch owner')"
      "accepted_locals owner addresses = {a}"

lemma mesh_selection_locals:
  assumes "mesh_selection (mesh_candidates (accepted owner) addresses) = (state, reason, endpoint)"
  shows "endpoint = Some a \<longleftrightarrow> accepted_locals owner addresses = {a}"
    and "state = MeshAdmitted \<longleftrightarrow> endpoint \<noteq> None"
  using mesh_selection_endpoint [of "mesh_candidates (accepted owner) addresses" a]
    mesh_selection_state [of "mesh_candidates (accepted owner) addresses"]
  by (simp_all add: assms accepted_locals_def mesh_candidates_singleton)

lemma observe_fresh:
  assumes "sequence \<noteq> 0"
    and "\<not> (case mesh_last_sequence (mesh_snapshot owner) of
              None \<Rightarrow> False | Some newest \<Rightarrow> sequence \<le> newest)"
    and "mesh_selection (mesh_candidates (accepted owner) addresses) = (state, reason, endpoint)"
  shows "mesh_step owner (sequence, addresses) =
    (case next_admission_epoch owner endpoint of
       Inl e \<Rightarrow> owner
     | Inr (epoch, n) \<Rightarrow>
         owner\<lparr>mesh_snapshot := \<lparr>mesh_state = state, mesh_reason = reason, admitted_endpoint = endpoint,
                                 mesh_epoch = epoch, mesh_last_sequence = Some sequence\<rparr>,
               next_epoch := n\<rparr>)"
  using assms by (simp add: observe_local_ipv4_def Let_def split: sum.splits prod.splits)

lemma mesh_step_outcome: "mesh_outcome owner addresses (mesh_step owner (sequence, addresses))"
proof (cases "sequence = 0 \<or> (case mesh_last_sequence (mesh_snapshot owner) of
    None \<Rightarrow> False | Some newest \<Rightarrow> sequence \<le> newest)")
  case True
  then have "mesh_step owner (sequence, addresses) = owner"
    by (auto simp: observe_local_ipv4_def)
  then show ?thesis by (simp add: Refused del: mesh_step.simps)
next
  case False
  obtain state reason endpoint where
    sel: "mesh_selection (mesh_candidates (accepted owner) addresses) = (state, reason, endpoint)"
    by (cases "mesh_selection (mesh_candidates (accepted owner) addresses)") auto
  have step: "mesh_step owner (sequence, addresses) =
    (case next_admission_epoch owner endpoint of
       Inl e \<Rightarrow> owner
     | Inr (epoch, n) \<Rightarrow>
         owner\<lparr>mesh_snapshot := \<lparr>mesh_state = state, mesh_reason = reason, admitted_endpoint = endpoint,
                                 mesh_epoch = epoch, mesh_last_sequence = Some sequence\<rparr>,
               next_epoch := n\<rparr>)"
    using False by (intro observe_fresh sel) auto
  note locals = mesh_selection_locals [OF sel]
  show ?thesis
  proof (cases endpoint)
    case None
    then have "\<nexists>a. accepted_locals owner addresses = {a}" "state = MeshNotAdmitted"
      using locals by (auto, cases state) auto
    with None show ?thesis
      unfolding step by (intro Dropped) (auto simp: next_admission_epoch_def)
  next
    case (Some a)
    then have "accepted_locals owner addresses = {a}" "state = MeshAdmitted"
      using locals by auto
    note facts = this Some
    consider (kept) "admitted_endpoint (mesh_snapshot owner) = Some a"
      | (exhausted) "admitted_endpoint (mesh_snapshot owner) \<noteq> Some a" "checked_add (next_epoch owner) 1 = None"
      | (renewed) n where "admitted_endpoint (mesh_snapshot owner) \<noteq> Some a"
          "checked_add (next_epoch owner) 1 = Some n"
      by fastforce
    then show ?thesis
    proof cases
      case kept
      with facts show ?thesis unfolding step by (intro Kept [of _ _ a]) (auto simp: next_admission_epoch_def)
    next
      case exhausted
      with facts show ?thesis unfolding step by (simp add: next_admission_epoch_def Refused)
    next
      case (renewed n)
      with facts checked_add_Some_unat [OF renewed(2)] show ?thesis
        unfolding step by (intro Renewed [of _ _ a]) (auto simp: next_admission_epoch_def)
    qed
  qed
qed

subsection \<open>Epochs\<close>

lemma mesh_outcome_inv: "mesh_outcome owner addresses owner' \<Longrightarrow> mesh_owner_inv owner \<Longrightarrow> mesh_owner_inv owner'"
proof (induction rule: mesh_outcome.induct)
  case (Renewed owner' a)
  then have "next_epoch owner' \<noteq> 0" by auto
  moreover have "a \<in> accepted_locals owner addresses" using Renewed by simp
  ultimately show ?case
    using Renewed by (simp add: mesh_owner_inv_def Let_def accepted_locals_def)
qed (auto simp: mesh_owner_inv_def Let_def)

lemma mesh_outcome_epoch:
  "mesh_outcome owner addresses owner' \<Longrightarrow> unat (next_epoch owner) \<le> unat (next_epoch owner')"
  by (induction rule: mesh_outcome.induct) auto

text \<open>An epoch is over once it has been issued and is not the current one.\<close>

definition epoch_over :: "MeshEndpointOwner \<Rightarrow> u64 \<Rightarrow> bool" where
  "epoch_over owner e \<longleftrightarrow>
     unat e \<le> unat (next_epoch owner) \<and> mesh_epoch (mesh_snapshot owner) \<noteq> Some e"

lemma epoch_over_outcome:
  "mesh_outcome owner addresses owner' \<Longrightarrow> epoch_over owner e \<Longrightarrow> epoch_over owner' e"
  by (induction rule: mesh_outcome.induct) (auto simp: epoch_over_def)

lemma epoch_over_run: "epoch_over owner e \<Longrightarrow> epoch_over (foldl mesh_step owner es) e"
  by (induction es arbitrary: owner) (auto intro: epoch_over_outcome mesh_step_outcome)

interpretation mesh: ranked_machine "mesh_owner_fresh cidr" mesh_step mesh_owner_inv
    "\<lambda>owner. unat (next_epoch owner)" for cidr
proof
  show "mesh_owner_inv (mesh_owner_fresh cidr)" for cidr
    by (simp add: mesh_owner_fresh_def mesh_owner_inv_def)
  show "mesh_owner_inv s \<Longrightarrow> mesh_owner_inv (mesh_step s e)" for s e
    by (cases e) (metis mesh_outcome_inv mesh_step_outcome)
  show "unat (next_epoch s) \<le> unat (next_epoch (mesh_step s e))" for s e
    by (cases e) (metis mesh_outcome_epoch mesh_step_outcome)
qed

lemma new_owner_fresh:
  "MeshEndpointOwner_new network prefix = Inr owner \<Longrightarrow> \<exists>cidr. owner = mesh_owner_fresh cidr"
  by (auto simp: MeshEndpointOwner_new_def rbind_Inr_iff)

lemma epoch_kept_or_over:
  assumes "mesh_owner_inv owner" "mesh_epoch (mesh_snapshot owner) = Some e"
    and "mesh_outcome owner addresses owner'"
  shows "epoch_over owner' e \<or> mesh_epoch (mesh_snapshot owner') = Some e \<and>
    admitted_endpoint (mesh_snapshot owner') = admitted_endpoint (mesh_snapshot owner)"
  using assms(3,1,2)
  by (induction rule: mesh_outcome.induct) (auto simp: epoch_over_def mesh_owner_inv_def Let_def)

lemma epoch_kept_or_over_run:
  assumes "mesh_owner_inv owner" "mesh_epoch (mesh_snapshot owner) = Some e"
  shows "epoch_over (foldl mesh_step owner es) e \<or>
    mesh_epoch (mesh_snapshot (foldl mesh_step owner es)) = Some e \<and>
    admitted_endpoint (mesh_snapshot (foldl mesh_step owner es)) =
      admitted_endpoint (mesh_snapshot owner)"
  using assms
proof (induction es arbitrary: owner)
  case (Cons ev es)
  obtain sequence addresses where ev: "ev = (sequence, addresses)" by (cases ev)
  let ?o = "mesh_step owner ev"
  have out: "mesh_outcome owner addresses ?o" unfolding ev by (rule mesh_step_outcome)
  have inv: "mesh_owner_inv ?o" using mesh_outcome_inv [OF out Cons.prems(1)] .
  from epoch_kept_or_over [OF Cons.prems out] Cons.IH [OF inv] show ?case
    using epoch_over_run [of ?o e es] by auto
qed simp

text \<open>C12. A Mesh admission epoch names one uninterrupted admission. If the owner shows the same
  epoch at two points of its history, it showed that epoch with the same endpoint at every point in
  between; a loss or an address change in between is impossible, because it ends the epoch for
  good.\<close>

theorem mesh_epoch_uninterrupted:
  assumes "MeshEndpointOwner_new network prefix = Inr owner"
    and "mesh_epoch (mesh_snapshot (foldl mesh_step owner es)) = Some e"
    and "mesh_epoch (mesh_snapshot (foldl mesh_step owner (es @ middle @ later))) = Some e"
  shows "mesh_epoch (mesh_snapshot (foldl mesh_step owner (es @ middle))) = Some e \<and>
    admitted_endpoint (mesh_snapshot (foldl mesh_step owner (es @ middle))) =
    admitted_endpoint (mesh_snapshot (foldl mesh_step owner es))"
proof -
  let ?s = "foldl mesh_step owner es"
  have "mesh_owner_inv ?s"
    using new_owner_fresh [OF assms(1)] mesh.inv_reachable by auto
  from epoch_kept_or_over_run [OF this assms(2), of middle] show ?thesis
  proof
    assume "epoch_over (foldl mesh_step ?s middle) e"
    then have "epoch_over (foldl mesh_step owner (es @ middle @ later)) e"
      using epoch_over_run by simp
    with assms(3) show ?thesis by (simp add: epoch_over_def)
  qed simp
qed

definition demo_owner :: MeshEndpointOwner where
  "demo_owner = mesh_owner_fresh \<lparr>cidr_network = 0x64600000, cidr_mask = - 1048576\<rparr>"

lemma demo_owner_new: "MeshEndpointOwner_new 0x64600000 12 = Inr demo_owner"
  by (simp add: MeshEndpointOwner_new_def Ipv4Cidr_new_def MIN_ACCEPTED_PREFIX_def demo_owner_def Let_def
        mask_eq_exp_minus_1)

lemmas mesh_eval =
  demo_owner_def mesh_owner_fresh_def observe_local_ipv4_def mesh_candidates_def mesh_selection_def
  cidr_contains_def ipv4_is_unspecified_def ipv4_is_multicast_def ipv4_BROADCAST_def
  next_admission_epoch_def checked_add_def Let_def

theorem mesh_epoch_uninterrupted_witness:
  "mesh_epoch (mesh_snapshot (foldl mesh_step demo_owner ([(1, [0x64600001])] @ [(2, [0x64600001, 7])]))) = Some 1"
proof -
  have 1: "mesh_epoch (mesh_snapshot (foldl mesh_step demo_owner [(1, [0x64600001])])) = Some 1"
    by (simp add: mesh_eval)
  have 2: "mesh_epoch (mesh_snapshot (foldl mesh_step demo_owner
      ([(1, [0x64600001])] @ [(2, [0x64600001, 7])] @ [(5, [0x64600001])]))) = Some 1"
    by (simp add: mesh_eval)
  from mesh_epoch_uninterrupted [OF demo_owner_new 1 2] show ?thesis by simp
qed

subsection \<open>The accepted network\<close>

lemma drop_bit_masked: "drop_bit k (a AND push_bit k (- 1)) = drop_bit k (a :: u32)"
  by (rule bit_word_eqI) (auto simp: bit_simps dest: bit_imp_le_length)

lemma masked_push: "a AND push_bit k (- 1) = push_bit k (drop_bit k (a :: u32))"
  by (rule bit_word_eqI) (auto simp: bit_simps)

lemma masked_eq_iff:
  assumes "network AND push_bit k (- 1) = (network :: u32)"
  shows "a AND push_bit k (- 1) = network \<longleftrightarrow> drop_bit k a = drop_bit k network"
  by (metis assms drop_bit_masked masked_push)

definition in_network :: "Ipv4Addr \<Rightarrow> u8 \<Rightarrow> Ipv4Addr \<Rightarrow> bool" where
  "in_network network prefix a \<longleftrightarrow>
     drop_bit (32 - unat prefix) a = drop_bit (32 - unat prefix) network"

lemma Ipv4Cidr_new_contains:
  assumes "Ipv4Cidr_new network prefix = Inr cidr"
  shows "a AND cidr_mask cidr = cidr_network cidr \<longleftrightarrow> in_network network prefix a"
proof -
  have le: "prefix \<le> 32" and net: "network AND push_bit (unat (32 - prefix)) (- 1) = network"
    and cidr: "cidr = \<lparr>cidr_network = network, cidr_mask = push_bit (unat (32 - prefix)) (- 1)\<rparr>"
    using assms by (auto simp: Ipv4Cidr_new_def Let_def split: if_splits)
  have "unat (32 - prefix) = 32 - unat prefix"
    using le by (simp add: unat_sub)
  with masked_eq_iff [OF net, of a] cidr show ?thesis by (simp add: in_network_def)
qed

lemma accepted_run: "accepted (foldl mesh_step owner es) = accepted owner"
proof (induction es arbitrary: owner)
  case (Cons ev es)
  obtain sequence addresses where ev: "ev = (sequence, addresses)" by (cases ev)
  have "accepted (mesh_step owner ev) = accepted owner"
    using mesh_step_outcome [of owner addresses sequence] unfolding ev
    by (cases rule: mesh_outcome.cases) auto
  with Cons show ?case by simp
qed simp

lemma observe_Inr_endpoint:
  assumes "observe_local_ipv4 owner sequence addresses = (Inr s, owner')"
  shows "admitted_endpoint s = Some a \<longleftrightarrow> accepted_locals owner addresses = {a}"
proof -
  obtain state reason endpoint where
    sel: "mesh_selection (mesh_candidates (accepted owner) addresses) = (state, reason, endpoint)"
    by (cases "mesh_selection (mesh_candidates (accepted owner) addresses)") auto
  with assms have "admitted_endpoint s = endpoint"
    by (auto simp: observe_local_ipv4_def Let_def split: if_splits sum.splits)
  with mesh_selection_locals(1) [OF sel] show ?thesis by simp
qed

text \<open>The Mesh endpoint is exact. For an owner created for a network of a given prefix length,
  an observation it accepts admits an address if and only if that address is the only reported
  one that shares the network's leading bits and is neither unspecified, multicast nor broadcast;
  with none or with several such addresses no endpoint is admitted.\<close>

theorem mesh_endpoint_unique_local:
  assumes "MeshEndpointOwner_new network prefix = Inr owner"
    and "observe_local_ipv4 (foldl mesh_step owner es) sequence addresses = (Inr s, owner')"
  shows "admitted_endpoint s = Some a \<longleftrightarrow>
    {b \<in> set addresses. in_network network prefix b \<and>
       b \<noteq> 0 \<and> drop_bit 28 b \<noteq> 14 \<and> b \<noteq> - 1} = {a}"
proof -
  obtain cidr where cidr: "Ipv4Cidr_new network prefix = Inr cidr" "owner = mesh_owner_fresh cidr"
    using assms(1) by (auto simp: MeshEndpointOwner_new_def rbind_Inr_iff)
  then have "accepted owner = cidr" by (simp add: mesh_owner_fresh_def)
  then have "accepted_locals (foldl mesh_step owner es) addresses =
      {b \<in> set addresses. in_network network prefix b \<and> b \<noteq> 0 \<and> drop_bit 28 b \<noteq> 14 \<and> b \<noteq> - 1}"
    using Ipv4Cidr_new_contains [OF cidr(1)]
    by (auto simp: accepted_locals_def accepted_run cidr_contains_def ipv4_is_unspecified_def
          ipv4_is_multicast_def ipv4_BROADCAST_def)
  with observe_Inr_endpoint [OF assms(2), of a] show ?thesis by simp
qed

theorem mesh_endpoint_unique_local_witness:
  "\<exists>s owner'. observe_local_ipv4 demo_owner 1 [0x64600001, 7] = (Inr s, owner') \<and>
     admitted_endpoint s = Some 0x64600001 \<and>
     {b \<in> set [0x64600001, 7]. in_network 0x64600000 12 b \<and> b \<noteq> 0 \<and> drop_bit 28 b \<noteq> 14 \<and> b \<noteq> - 1} =
       {0x64600001}"
proof -
  obtain s owner' where obs: "observe_local_ipv4 (foldl mesh_step demo_owner []) 1 [0x64600001, 7] = (Inr s, owner')"
    and adm: "admitted_endpoint s = Some 0x64600001"
    by (simp add: mesh_eval)
  from mesh_endpoint_unique_local [OF demo_owner_new obs, where a = "0x64600001"] adm obs show ?thesis by auto
qed

end
