(* ===== verification/Mesh_Sessions.thy ===== *)
theory Mesh_Sessions
  imports Mish_Prelude "HOL-Library.Multiset"
begin

text \<open>
  The external session budget (\<open>MeshSessionOwner\<close> and \<open>MeshSessionLease\<close> in
  \<open>crates/transport/src/lib.rs\<close>). Admission runs on many threads over three atomics, so it is a
  step relation: one step is one atomic access of one thread, and \<open>compare_exchange_weak\<close> may fail
  without a reason. The lemmas show, for every interleaving, that the counter is exact, that the
  budget holds, that the decrement never wraps, and that revocation stops admission.
\<close>

definition EXTERNAL_TCP_SESSION_BUDGET :: usize where
  "EXTERNAL_TCP_SESSION_BUDGET = 512"

definition MAX_MESH_SESSIONS :: usize where
  "MAX_MESH_SESSIONS = EXTERNAL_TCP_SESSION_BUDGET"

record MeshSessionOwner =
  accepting :: bool
  active_count :: usize
  capacity_reject_count :: usize

definition product_generation :: MeshSessionOwner where
  "product_generation = \<lparr>accepting = True, active_count = 0, capacity_reject_count = 0\<rparr>"

definition revoke :: "MeshSessionOwner \<Rightarrow> MeshSessionOwner" where
  "revoke owner = owner\<lparr>accepting := False\<rparr>"

text \<open>The wrapping \<open>fetch_sub(1)\<close> and the saturating reject counter.\<close>

definition release_active :: "MeshSessionOwner \<Rightarrow> MeshSessionOwner" where
  "release_active owner =
     owner\<lparr>active_count := (active_count owner + usize_limit - 1) mod usize_limit\<rparr>"

definition count_reject :: "MeshSessionOwner \<Rightarrow> MeshSessionOwner" where
  "count_reject owner =
     (case checked_add_usize (capacity_reject_count owner) 1 of
        None \<Rightarrow> owner
      | Some n \<Rightarrow> owner\<lparr>capacity_reject_count := n\<rparr>)"

text \<open>\<open>try_admit\<close> run without interference; the lease is the flag of the result.\<close>

definition try_admit :: "MeshSessionOwner \<Rightarrow> bool \<times> MeshSessionOwner" where
  "try_admit owner =
     (if \<not> accepting owner then (False, owner)
      else if active_count owner \<ge> MAX_MESH_SESSIONS then (False, count_reject owner)
      else (True, owner\<lparr>active_count := active_count owner + 1\<rparr>))"

subsection \<open>Interleaved admission\<close>

text \<open>
  Where a thread stands: before the first \<open>accepting\<close> load, before the \<open>active\<close> load, in the
  compare-exchange loop with the value it saw, after a successful exchange, or holding the lease.
\<close>

datatype AdmitPoint = Entering | Loading | Looping usize | Claimed | Leased

record session_state =
  session_owner :: MeshSessionOwner
  admit_points :: "AdmitPoint multiset"

inductive session_step :: "session_state \<Rightarrow> session_state \<Rightarrow> bool" where
  call: "session_step \<lparr>session_owner = owner, admit_points = T\<rparr>
           \<lparr>session_owner = owner, admit_points = add_mset Entering T\<rparr>"
| enter_refused: "\<not> accepting owner \<Longrightarrow>
    session_step \<lparr>session_owner = owner, admit_points = add_mset Entering T\<rparr>
      \<lparr>session_owner = owner, admit_points = T\<rparr>"
| enter_accepted: "accepting owner \<Longrightarrow>
    session_step \<lparr>session_owner = owner, admit_points = add_mset Entering T\<rparr>
      \<lparr>session_owner = owner, admit_points = add_mset Loading T\<rparr>"
| load: "session_step \<lparr>session_owner = owner, admit_points = add_mset Loading T\<rparr>
      \<lparr>session_owner = owner, admit_points = add_mset (Looping (active_count owner)) T\<rparr>"
| reject: "current \<ge> MAX_MESH_SESSIONS \<Longrightarrow>
    session_step \<lparr>session_owner = owner, admit_points = add_mset (Looping current) T\<rparr>
      \<lparr>session_owner = count_reject owner, admit_points = T\<rparr>"
| exchange: "current < MAX_MESH_SESSIONS \<Longrightarrow> active_count owner = current \<Longrightarrow>
    session_step \<lparr>session_owner = owner, admit_points = add_mset (Looping current) T\<rparr>
      \<lparr>session_owner = owner\<lparr>active_count := current + 1\<rparr>, admit_points = add_mset Claimed T\<rparr>"
| exchange_failed: "current < MAX_MESH_SESSIONS \<Longrightarrow>
    session_step \<lparr>session_owner = owner, admit_points = add_mset (Looping current) T\<rparr>
      \<lparr>session_owner = owner, admit_points = add_mset (Looping (active_count owner)) T\<rparr>"
| lease: "accepting owner \<Longrightarrow>
    session_step \<lparr>session_owner = owner, admit_points = add_mset Claimed T\<rparr>
      \<lparr>session_owner = owner, admit_points = add_mset Leased T\<rparr>"
| withdraw: "\<not> accepting owner \<Longrightarrow>
    session_step \<lparr>session_owner = owner, admit_points = add_mset Claimed T\<rparr>
      \<lparr>session_owner = release_active owner, admit_points = T\<rparr>"
| drop: "session_step \<lparr>session_owner = owner, admit_points = add_mset Leased T\<rparr>
      \<lparr>session_owner = release_active owner, admit_points = T\<rparr>"
| revoke: "session_step \<lparr>session_owner = owner, admit_points = T\<rparr>
      \<lparr>session_owner = revoke owner, admit_points = T\<rparr>"

abbreviation session_steps :: "session_state \<Rightarrow> session_state \<Rightarrow> bool" where
  "session_steps \<equiv> session_step\<^sup>*\<^sup>*"

definition session_init :: session_state where
  "session_init = \<lparr>session_owner = product_generation, admit_points = {#}\<rparr>"

definition session_inv :: "session_state \<Rightarrow> bool" where
  "session_inv s \<longleftrightarrow>
     active_count (session_owner s) = count (admit_points s) Claimed + count (admit_points s) Leased \<and>
     active_count (session_owner s) \<le> MAX_MESH_SESSIONS"

lemma max_sessions_limit: "MAX_MESH_SESSIONS < usize_limit"
  by (simp add: MAX_MESH_SESSIONS_def EXTERNAL_TCP_SESSION_BUDGET_def)

lemma count_reject_simps [simp]:
  "active_count (count_reject owner) = active_count owner"
  "accepting (count_reject owner) = accepting owner"
  by (simp_all add: count_reject_def split: option.splits)

lemma release_active_exact:
  "0 < active_count owner \<Longrightarrow> active_count owner < usize_limit \<Longrightarrow>
     active_count (release_active owner) = active_count owner - 1"
  by (cases "active_count owner") (simp_all add: release_active_def)

lemma session_step_inv: "session_step s s' \<Longrightarrow> session_inv s \<Longrightarrow> session_inv s'"
proof (induction rule: session_step.induct)
  case (withdraw owner T)
  with max_sessions_limit show ?case by (simp add: session_inv_def release_active_exact)
next
  case (drop owner T)
  with max_sessions_limit show ?case by (simp add: session_inv_def release_active_exact)
qed (auto simp: session_inv_def revoke_def)

lemma session_steps_inv: "session_steps s s' \<Longrightarrow> session_inv s \<Longrightarrow> session_inv s'"
  by (induction rule: rtranclp_induct) (auto intro: session_step_inv)

lemma session_inv_init: "session_inv session_init"
  by (simp add: session_inv_def session_init_def product_generation_def)

lemma revoked_step:
  "session_step s s' \<Longrightarrow> \<not> accepting (session_owner s) \<Longrightarrow>
     \<not> accepting (session_owner s') \<and> count (admit_points s') Leased \<le> count (admit_points s) Leased"
  by (induction rule: session_step.induct) (auto simp: release_active_def revoke_def)

lemma revoked_steps:
  "session_steps s s' \<Longrightarrow> \<not> accepting (session_owner s) \<Longrightarrow>
     \<not> accepting (session_owner s') \<and> count (admit_points s') Leased \<le> count (admit_points s) Leased"
  by (induction rule: rtranclp_induct) (auto dest: revoked_step)

text \<open>C13. The Mesh session budget holds under every interleaving of admissions, lease drops and
  revocations: the shared counter equals the leases plus the claims in flight, never exceeds 512,
  and is positive whenever a lease is dropped or a claim withdrawn, so the decrement cannot wrap.
  After a revocation no lease is ever added, and once the admitted threads are gone the counter is
  zero.\<close>

theorem mesh_session_budget:
  assumes "session_steps session_init s"
  shows "active_count (session_owner s) =
      count (admit_points s) Claimed + count (admit_points s) Leased \<and>
    active_count (session_owner s) \<le> 512 \<and>
    (Claimed \<in># admit_points s \<or> Leased \<in># admit_points s \<longrightarrow> 0 < active_count (session_owner s)) \<and>
    (\<not> accepting (session_owner s) \<longrightarrow>
       (\<forall>s'. session_steps s s' \<longrightarrow>
          \<not> accepting (session_owner s') \<and>
          count (admit_points s') Leased \<le> count (admit_points s) Leased \<and>
          (admit_points s' = {#} \<longrightarrow> active_count (session_owner s') = 0)))"
proof -
  have inv: "session_inv s" using session_steps_inv [OF assms session_inv_init] .
  have "\<not> accepting (session_owner s') \<and> count (admit_points s') Leased \<le> count (admit_points s) Leased \<and>
      (admit_points s' = {#} \<longrightarrow> active_count (session_owner s') = 0)"
    if "\<not> accepting (session_owner s)" "session_steps s s'" for s'
    using revoked_steps [OF that(2,1)] session_steps_inv [OF that(2) inv]
    by (simp add: session_inv_def)
  then show ?thesis
    using inv by (auto simp: session_inv_def MAX_MESH_SESSIONS_def EXTERNAL_TCP_SESSION_BUDGET_def)
qed

lemma admit_path:
  assumes "try_admit owner = (True, owner')"
  shows "session_steps \<lparr>session_owner = owner, admit_points = T\<rparr>
    \<lparr>session_owner = owner', admit_points = add_mset Leased T\<rparr>"
proof -
  have a: "accepting owner" "active_count owner < MAX_MESH_SESSIONS"
    and o: "owner' = owner\<lparr>active_count := active_count owner + 1\<rparr>"
    using assms by (auto simp: try_admit_def not_le split: if_splits)
  let ?s = "\<lambda>owner p. \<lparr>session_owner = owner, admit_points = add_mset p T\<rparr>"
  have "session_step \<lparr>session_owner = owner, admit_points = T\<rparr> (?s owner Entering)" by (rule call)
  moreover have "session_step (?s owner Entering) (?s owner Loading)" by (rule enter_accepted [OF a(1)])
  moreover have "session_step (?s owner Loading) (?s owner (Looping (active_count owner)))" by (rule load)
  moreover have "session_step (?s owner (Looping (active_count owner))) (?s owner' Claimed)"
    unfolding o by (rule exchange [OF a(2) refl])
  moreover have "session_step (?s owner' Claimed) (?s owner' Leased)"
    by (rule lease) (simp add: a o)
  ultimately show ?thesis by (meson converse_rtranclp_into_rtranclp rtranclp.rtrancl_refl)
qed

theorem mesh_session_budget_witness:
  "\<exists>s. session_steps session_init s \<and> count (admit_points s) Leased = 1 \<and>
     active_count (session_owner s) = count (admit_points s) Claimed + count (admit_points s) Leased"
proof -
  have "try_admit product_generation = (True, product_generation\<lparr>active_count := 1\<rparr>)"
    by (simp add: try_admit_def product_generation_def MAX_MESH_SESSIONS_def
          EXTERNAL_TCP_SESSION_BUDGET_def)
  from admit_path [OF this, of "{#}"]
  have steps: "session_steps session_init
      \<lparr>session_owner = product_generation\<lparr>active_count := 1\<rparr>, admit_points = {#Leased#}\<rparr>"
    by (simp add: session_init_def)
  from mesh_session_budget [OF steps] steps show ?thesis by (intro exI conjI) auto
qed

end
