(* ===== verification/Mesh_Transport.thy ===== *)
theory Mesh_Transport
  imports Mesh_Endpoint Mesh_Sessions
begin

text \<open>
  The Mesh transport coordinator (\<open>crates/transport/src/runtime_owner.rs\<close>): it starts and stops
  the ingress of one admission epoch through an injected executor. The executor is a parameter, a
  record of its three operations over a world that also holds the session owners both sides share;
  nothing is assumed about it. The mutex is held for a whole operation, so operations are atomic;
  a poisoned mutex, which needs a panic inside one of them, is not modelled.
\<close>

datatype MeshVpnObservation = VpnAbsent | UniqueVpn "Ipv4Addr list" | AmbiguousVpn

datatype MeshIngressError =
    InvalidEndpoint
  | InvalidPortMapping
  | BindFailed
  | ListenerConfigurationFailed
  | ExecutorUnavailable
  | ShutdownTimedOut

record MeshPortForward =
  ingress_port :: u16
  backend_port :: u16

definition same_port :: "u16 \<Rightarrow> MeshPortForward" where
  "same_port port = \<lparr>ingress_port = port, backend_port = port\<rparr>"

datatype MeshTransportError =
    Owner MeshOwnerError
  | MeshStateUnavailable
  | IngressUnavailable
  | Ingress MeshIngressError
  | CleanupFailed

record MeshTransportSnapshot =
  ts_admission :: MeshAdmissionSnapshot
  ts_ingress_running :: bool
  ts_active_sessions :: usize
  ts_capacity_rejects :: usize

text \<open>Session owners and executors are shared (\<open>Arc\<close>), so the state holds references to them.\<close>

record 'x mesh_world =
  session_heap :: "nat \<Rightarrow> MeshSessionOwner"
  next_session :: nat
  execution :: 'x

record 'x MeshIngressExecutor =
  exec_start :: "nat \<Rightarrow> Ipv4Addr \<Rightarrow> MeshPortForward list \<Rightarrow> nat \<Rightarrow> 'x mesh_world \<Rightarrow>
    (MeshIngressError + unit) \<times> 'x mesh_world"
  exec_stop :: "nat \<Rightarrow> 'x mesh_world \<Rightarrow> (MeshIngressError + unit) \<times> 'x mesh_world"
  exec_healthy :: "nat \<Rightarrow> 'x mesh_world \<Rightarrow> bool"

record MeshTransportState =
  mt_owner :: MeshEndpointOwner
  mt_executor :: "nat option"
  mt_sessions :: "nat option"
  mt_ingress_epoch :: "u64 option"
  mt_cleanup_failed :: bool

definition MeshTransportCoordinator_new :: "Ipv4Addr \<Rightarrow> u8 \<Rightarrow> MeshOwnerError + MeshTransportState" where
  "MeshTransportCoordinator_new accepted_network accepted_prefix =
     rbind (MeshEndpointOwner_new accepted_network accepted_prefix) (\<lambda>owner.
       Inr \<lparr>mt_owner = owner, mt_executor = None, mt_sessions = None, mt_ingress_epoch = None,
            mt_cleanup_failed = False\<rparr>)"

definition revoke_session :: "nat \<Rightarrow> 'x mesh_world \<Rightarrow> 'x mesh_world" where
  "revoke_session i w = w\<lparr>session_heap := (session_heap w)(i := revoke (session_heap w i))\<rparr>"

definition new_session :: "'x mesh_world \<Rightarrow> nat \<times> 'x mesh_world" where
  "new_session w =
     (next_session w,
      w\<lparr>session_heap := (session_heap w)(next_session w := product_generation),
        next_session := Suc (next_session w)\<rparr>)"

definition stop_ingress_locked ::
    "'x MeshIngressExecutor \<Rightarrow> MeshTransportState \<Rightarrow> 'x mesh_world \<Rightarrow>
     (MeshTransportError + unit) \<times> MeshTransportState \<times> 'x mesh_world" where
  "stop_ingress_locked ops st w =
     (let sessions = mt_sessions st;
          w = (case sessions of None \<Rightarrow> w | Some i \<Rightarrow> revoke_session i w);
          executor = mt_executor st;
          st = st\<lparr>mt_ingress_epoch := None, mt_sessions := None, mt_executor := None\<rparr>;
          (execution_result, w) = (case executor of None \<Rightarrow> (Inr (), w) | Some x \<Rightarrow> exec_stop ops x w);
          active = (case sessions of None \<Rightarrow> 0 | Some i \<Rightarrow> active_count (session_heap w i))
      in if \<not> is_ok execution_result \<or> active \<noteq> 0
         then (Inl CleanupFailed, st\<lparr>mt_cleanup_failed := True, mt_sessions := sessions\<rparr>, w)
         else if mt_cleanup_failed st then (Inl CleanupFailed, st, w)
         else (Inr (), st, w))"

definition snapshot_locked ::
    "'x MeshIngressExecutor \<Rightarrow> MeshTransportState \<Rightarrow> 'x mesh_world \<Rightarrow> MeshTransportSnapshot" where
  "snapshot_locked ops st w =
     \<lparr>ts_admission = mesh_snapshot (mt_owner st),
      ts_ingress_running = \<not> mt_cleanup_failed st \<and>
        (case mt_executor st of None \<Rightarrow> False | Some x \<Rightarrow> exec_healthy ops x w),
      ts_active_sessions =
        (case mt_sessions st of None \<Rightarrow> 0 | Some i \<Rightarrow> active_count (session_heap w i)),
      ts_capacity_rejects =
        (case mt_sessions st of None \<Rightarrow> 0 | Some i \<Rightarrow> capacity_reject_count (session_heap w i))\<rparr>"

definition observe_vpn ::
    "'x MeshIngressExecutor \<Rightarrow> MeshTransportState \<Rightarrow> 'x mesh_world \<Rightarrow> u64 \<Rightarrow> MeshVpnObservation \<Rightarrow>
     (MeshTransportError + MeshTransportSnapshot) \<times> MeshTransportState \<times> 'x mesh_world" where
  "observe_vpn ops st w sequence observation =
     (let addresses = (case observation of
            VpnAbsent \<Rightarrow> [] | AmbiguousVpn \<Rightarrow> [] | UniqueVpn local_ipv4 \<Rightarrow> local_ipv4)
      in case observe_local_ipv4 (mt_owner st) sequence addresses of
           (Inl e, owner) \<Rightarrow> (Inl (Owner e), st\<lparr>mt_owner := owner\<rparr>, w)
         | (Inr admission, owner) \<Rightarrow>
             (let st = st\<lparr>mt_owner := owner\<rparr>
              in if mt_ingress_epoch st \<noteq> None \<and> mt_ingress_epoch st \<noteq> mesh_epoch admission
                 then (case stop_ingress_locked ops st w of
                         (Inl e, st, w) \<Rightarrow> (Inl e, st, w)
                       | (Inr u, st, w) \<Rightarrow> (Inr (snapshot_locked ops st w), st, w))
                 else (Inr (snapshot_locked ops st w), st, w)))"

text \<open>The tail of \<open>start_ingress\<close>: nothing runs any more; start the new generation.\<close>

definition launch_ingress ::
    "'x MeshIngressExecutor \<Rightarrow> MeshTransportState \<Rightarrow> 'x mesh_world \<Rightarrow> u64 \<Rightarrow> MeshPortForward list \<Rightarrow> nat \<Rightarrow>
     (MeshTransportError + bool) \<times> MeshTransportState \<times> 'x mesh_world" where
  "launch_ingress ops st w epoch mappings executor =
     (case admitted_endpoint (mesh_snapshot (mt_owner st)) of
        None \<Rightarrow> (Inl IngressUnavailable, st, w)
      | Some endpoint \<Rightarrow>
          (case new_session w of
             (sessions, w) \<Rightarrow>
               (case exec_start ops executor endpoint mappings sessions w of
                  (Inl e, w) \<Rightarrow> (Inl (Ingress e), st, w)
                | (Inr u, w) \<Rightarrow>
                    (Inr True,
                     st\<lparr>mt_executor := Some executor, mt_sessions := Some sessions,
                        mt_ingress_epoch := Some epoch\<rparr>, w))))"

definition start_ingress ::
    "'x MeshIngressExecutor \<Rightarrow> MeshTransportState \<Rightarrow> 'x mesh_world \<Rightarrow> u64 \<Rightarrow> MeshPortForward list \<Rightarrow> nat \<Rightarrow>
     (MeshTransportError + bool) \<times> MeshTransportState \<times> 'x mesh_world" where
  "start_ingress ops st w epoch mappings executor =
     (if mt_cleanup_failed st then (Inl CleanupFailed, st, w)
      else
        (let admission = mesh_snapshot (mt_owner st) in
         if mesh_state admission \<noteq> MeshAdmitted \<or> mesh_epoch admission \<noteq> Some epoch
         then (Inr False, st, w)
         else if mt_ingress_epoch st = Some epoch \<and>
                 (case mt_executor st of None \<Rightarrow> False | Some x \<Rightarrow> exec_healthy ops x w)
         then (Inr True, st, w)
         else if mt_ingress_epoch st = Some epoch \<or> mt_executor st \<noteq> None \<or> mt_sessions st \<noteq> None
         then (case stop_ingress_locked ops st w of
                 (Inl e, st, w) \<Rightarrow> (Inl e, st, w)
               | (Inr u, st, w) \<Rightarrow> launch_ingress ops st w epoch mappings executor)
         else launch_ingress ops st w epoch mappings executor))"

subsection \<open>The coordinator as a machine\<close>

text \<open>\<open>Environment\<close> is any change of the world between two operations: sessions come and go, the
  executor fails or recovers.\<close>

datatype 'x MeshEvent =
    ObserveVpn u64 MeshVpnObservation
  | StartIngress u64 "MeshPortForward list" nat
  | StopIngress
  | Environment "'x mesh_world \<Rightarrow> 'x mesh_world"

fun transport_step ::
    "'x MeshIngressExecutor \<Rightarrow> MeshTransportState \<times> 'x mesh_world \<Rightarrow> 'x MeshEvent \<Rightarrow>
     MeshTransportState \<times> 'x mesh_world" where
  "transport_step ops (st, w) (ObserveVpn sequence observation) =
     snd (observe_vpn ops st w sequence observation)"
| "transport_step ops (st, w) (StartIngress epoch mappings executor) =
     snd (start_ingress ops st w epoch mappings executor)"
| "transport_step ops (st, w) StopIngress = snd (stop_ingress_locked ops st w)"
| "transport_step ops (st, w) (Environment f) = (st, f w)"

text \<open>A recording executor keeps the calls that succeeded, newest first; the ingresses open after
  them are those started and not stopped since.\<close>

datatype ExecutorCall = Started nat Ipv4Addr nat | Ended nat

type_synonym 'x recorded = "'x \<times> ExecutorCall list"

definition unrecorded :: "'x recorded mesh_world \<Rightarrow> 'x mesh_world" where
  "unrecorded w = \<lparr>session_heap = session_heap w, next_session = next_session w,
                   execution = fst (execution w)\<rparr>"

definition with_record :: "ExecutorCall list \<Rightarrow> 'x mesh_world \<Rightarrow> 'x recorded mesh_world" where
  "with_record calls w = \<lparr>session_heap = session_heap w, next_session = next_session w,
                          execution = (execution w, calls)\<rparr>"

abbreviation calls_of :: "'x recorded mesh_world \<Rightarrow> ExecutorCall list" where
  "calls_of w \<equiv> snd (execution w)"

definition recording :: "'x MeshIngressExecutor \<Rightarrow> 'x recorded MeshIngressExecutor" where
  "recording ops =
     \<lparr>exec_start = (\<lambda>x endpoint mappings sessions w.
        case exec_start ops x endpoint mappings sessions (unrecorded w) of
          (Inl e, w') \<Rightarrow> (Inl e, with_record (calls_of w) w')
        | (Inr u, w') \<Rightarrow> (Inr u, with_record (Started x endpoint sessions # calls_of w) w')),
      exec_stop = (\<lambda>x w.
        case exec_stop ops x (unrecorded w) of
          (Inl e, w') \<Rightarrow> (Inl e, with_record (calls_of w) w')
        | (Inr u, w') \<Rightarrow> (Inr u, with_record (Ended x # calls_of w) w')),
      exec_healthy = (\<lambda>x w. exec_healthy ops x (unrecorded w))\<rparr>"

fun open_ingresses :: "ExecutorCall list \<Rightarrow> (nat \<times> Ipv4Addr) list" where
  "open_ingresses [] = []"
| "open_ingresses (Started x endpoint sessions # calls) = (x, endpoint) # open_ingresses calls"
| "open_ingresses (Ended x # calls) = filter (\<lambda>(y, endpoint). y \<noteq> x) (open_ingresses calls)"

text \<open>What the coordinator guarantees of its state and of the calls it made.\<close>

definition transport_inv :: "MeshTransportState \<Rightarrow> ExecutorCall list \<Rightarrow> bool" where
  "transport_inv st calls \<longleftrightarrow>
     mesh_owner_inv (mt_owner st) \<and>
     length (open_ingresses calls) \<le> 1 \<and>
     (case mt_executor st of
        None \<Rightarrow> mt_ingress_epoch st = None \<and> (\<not> mt_cleanup_failed st \<longrightarrow> open_ingresses calls = [])
      | Some x \<Rightarrow> \<not> mt_cleanup_failed st \<and> mt_ingress_epoch st \<noteq> None \<and>
          mt_ingress_epoch st = mesh_epoch (mesh_snapshot (mt_owner st)) \<and>
          (\<exists>endpoint. admitted_endpoint (mesh_snapshot (mt_owner st)) = Some endpoint \<and>
             open_ingresses calls = [(x, endpoint)]))"

fun environment_records :: "'x recorded MeshEvent \<Rightarrow> bool" where
  "environment_records (Environment f) = (\<forall>w. calls_of (f w) = calls_of w)"
| "environment_records e = True"

lemma calls_of_worlds [simp]:
  "calls_of (revoke_session i w) = calls_of w"
  "new_session w = (i, w') \<Longrightarrow> calls_of w' = calls_of w"
  by (auto simp: revoke_session_def new_session_def)

lemma recording_start:
  assumes "exec_start (recording ops) x endpoint mappings sessions w = (r, w')"
  shows "calls_of w' = (if is_ok r then Started x endpoint sessions # calls_of w else calls_of w)"
  using assms by (auto simp: recording_def with_record_def split: prod.splits sum.splits)

lemma recording_stop:
  assumes "exec_stop (recording ops) x w = (r, w')"
  shows "calls_of w' = (if is_ok r then Ended x # calls_of w else calls_of w)"
  using assms by (auto simp: recording_def with_record_def split: prod.splits sum.splits)

text \<open>After a stop the executor and the epoch are gone; either everything is closed or the
  failure is recorded for good.\<close>

lemma stop_ingress_locked_calls:
  assumes "stop_ingress_locked (recording ops) st w = (r, st', w')"
    and "length (open_ingresses (calls_of w)) \<le> 1"
    and "mt_cleanup_failed st \<or>
      (case mt_executor st of None \<Rightarrow> open_ingresses (calls_of w) = []
       | Some x \<Rightarrow> \<exists>endpoint. open_ingresses (calls_of w) = [(x, endpoint)])"
  shows "mt_owner st' = mt_owner st \<and> mt_executor st' = None \<and> mt_ingress_epoch st' = None \<and>
    length (open_ingresses (calls_of w')) \<le> 1 \<and>
    (\<not> mt_cleanup_failed st' \<longrightarrow> open_ingresses (calls_of w') = []) \<and>
    (is_ok r \<longrightarrow> \<not> mt_cleanup_failed st' \<and> mt_sessions st' = None)"
proof -
  let ?w = "case mt_sessions st of None \<Rightarrow> w | Some i \<Rightarrow> revoke_session i w"
  have cw: "calls_of ?w = calls_of w" by (simp split: option.splits)
  obtain res w2 where res: "(case mt_executor st of None \<Rightarrow> (Inr (), ?w)
      | Some x \<Rightarrow> exec_stop (recording ops) x ?w) = (res, w2)"
    by fastforce
  have calls: "length (open_ingresses (calls_of w2)) \<le> 1"
    "\<not> mt_cleanup_failed st \<Longrightarrow> is_ok res \<Longrightarrow> open_ingresses (calls_of w2) = []"
    using res assms(2,3) cw
    by (auto split: option.splits dest!: recording_stop intro: le_trans [OF length_filter_le])
  show ?thesis
    using assms(1) res calls
    by (auto simp: stop_ingress_locked_def Let_def split: if_splits)
qed

lemma stop_ingress_inv:
  assumes "transport_inv st (calls_of w)"
    and "stop_ingress_locked (recording ops) st w = (r, st', w')"
  shows "transport_inv st' (calls_of w') \<and> mt_owner st' = mt_owner st \<and> mt_executor st' = None \<and>
    (is_ok r \<longrightarrow> \<not> mt_cleanup_failed st')"
proof -
  have "length (open_ingresses (calls_of w)) \<le> 1"
    and "mt_cleanup_failed st \<or>
      (case mt_executor st of None \<Rightarrow> open_ingresses (calls_of w) = []
       | Some x \<Rightarrow> \<exists>endpoint. open_ingresses (calls_of w) = [(x, endpoint)])"
    using assms(1) by (auto simp: transport_inv_def split: option.splits)
  from stop_ingress_locked_calls [OF assms(2) this] assms(1) show ?thesis
    by (auto simp: transport_inv_def)
qed

lemma launch_ingress_inv:
  assumes "transport_inv st (calls_of w)" "mt_executor st = None" "\<not> mt_cleanup_failed st"
    and "mesh_epoch (mesh_snapshot (mt_owner st)) = Some epoch"
    and "launch_ingress (recording ops) st w epoch mappings x = (r, st', w')"
  shows "transport_inv st' (calls_of w')"
proof (cases "admitted_endpoint (mesh_snapshot (mt_owner st))")
  case None
  with assms show ?thesis by (simp add: launch_ingress_def)
next
  case (Some endpoint)
  obtain sessions w1 where w1: "new_session w = (sessions, w1)" by fastforce
  obtain res w2 where w2: "exec_start (recording ops) x endpoint mappings sessions w1 = (res, w2)"
    by fastforce
  have "open_ingresses (calls_of w) = []"
    using assms(1-3) by (simp add: transport_inv_def)
  then have calls: "open_ingresses (calls_of w2) = (if is_ok res then [(x, endpoint)] else [])"
    using recording_start [OF w2] w1 by simp
  from assms(5) Some w1 w2 calls assms(1-4) show ?thesis
    by (cases res) (auto simp: launch_ingress_def transport_inv_def)
qed

lemma start_ingress_inv:
  assumes inv: "transport_inv st (calls_of w)"
    and start: "start_ingress (recording ops) st w epoch mappings x = (r, st', w')"
  shows "transport_inv st' (calls_of w')"
proof (cases "mt_cleanup_failed st \<or> mesh_state (mesh_snapshot (mt_owner st)) \<noteq> MeshAdmitted \<or>
    mesh_epoch (mesh_snapshot (mt_owner st)) \<noteq> Some epoch \<or>
    mt_ingress_epoch st = Some epoch \<and>
      (case mt_executor st of None \<Rightarrow> False | Some x \<Rightarrow> exec_healthy (recording ops) x w)")
  case True
  then have "st' = st" "w' = w"
    using start by (auto simp: start_ingress_def Let_def split: if_splits)
  with inv show ?thesis by simp
next
  case go: False
  then have epoch: "mesh_epoch (mesh_snapshot (mt_owner st)) = Some epoch" by simp
  show ?thesis
  proof (cases "mt_ingress_epoch st = Some epoch \<or> mt_executor st \<noteq> None \<or> mt_sessions st \<noteq> None")
    case False
    with go start have "launch_ingress (recording ops) st w epoch mappings x = (r, st', w')"
      by (auto simp: start_ingress_def Let_def split: if_splits)
    with launch_ingress_inv [OF inv _ _ epoch this] go False show ?thesis by simp
  next
    case True
    obtain res st1 w1 where stop: "stop_ingress_locked (recording ops) st w = (res, st1, w1)"
      by (cases "stop_ingress_locked (recording ops) st w") auto
    note stopped = stop_ingress_inv [OF inv stop]
    from go True start stop have
      "if is_ok res then launch_ingress (recording ops) st1 w1 epoch mappings x = (r, st', w')
       else st' = st1 \<and> w' = w1"
      by (cases res) (auto simp: start_ingress_def Let_def split: if_splits)
    with stopped epoch launch_ingress_inv [of st1 w1 epoch] show ?thesis
      by (auto split: if_splits)
  qed
qed

lemma observe_vpn_inv:
  assumes inv: "transport_inv st (calls_of w)"
    and obs: "observe_vpn (recording ops) st w sequence observation = (r, st', w')"
  shows "transport_inv st' (calls_of w')"
proof -
  define addresses where "addresses = (case observation of
      VpnAbsent \<Rightarrow> [] | AmbiguousVpn \<Rightarrow> [] | UniqueVpn local_ipv4 \<Rightarrow> local_ipv4)"
  obtain res owner where o: "observe_local_ipv4 (mt_owner st) sequence addresses = (res, owner)"
    by fastforce
  have out: "mesh_outcome (mt_owner st) addresses owner"
    using mesh_step_outcome [of "mt_owner st" addresses sequence] o by simp
  have owner: "mesh_owner_inv owner"
    using mesh_outcome_inv [OF out] inv by (simp add: transport_inv_def)
  have same: "owner = mt_owner st" if "res = Inl e" for e
    using o that by (auto simp: observe_local_ipv4_def Let_def split: if_splits prod.splits sum.splits)
  have snap: "admission = mesh_snapshot owner" if "res = Inr admission" for admission
    using o that by (auto simp: observe_local_ipv4_def Let_def split: if_splits prod.splits sum.splits)
  let ?st = "st\<lparr>mt_owner := owner\<rparr>"
  show ?thesis
  proof (cases "\<exists>admission. res = Inr admission \<and> mt_ingress_epoch st \<noteq> None \<and>
      mt_ingress_epoch st \<noteq> mesh_epoch admission")
    case True
    obtain r1 st1 w1 where stop: "stop_ingress_locked (recording ops) ?st w = (r1, st1, w1)"
      by (cases "stop_ingress_locked (recording ops) ?st w") auto
    have "st' = st1" "w' = w1"
      using obs True o stop by (auto simp: observe_vpn_def Let_def addresses_def split: sum.splits)
    moreover have "length (open_ingresses (calls_of w)) \<le> 1"
      "mt_cleanup_failed ?st \<or> (case mt_executor ?st of None \<Rightarrow> open_ingresses (calls_of w) = []
       | Some x \<Rightarrow> \<exists>endpoint. open_ingresses (calls_of w) = [(x, endpoint)])"
      using inv by (auto simp: transport_inv_def split: option.splits)
    ultimately show ?thesis
      using stop_ingress_locked_calls [OF stop] owner by (simp add: transport_inv_def)
  next
    case False
    then have st': "st' = ?st" "w' = w"
      using obs o by (auto simp: observe_vpn_def Let_def addresses_def split: sum.splits if_splits)
    have "mt_ingress_epoch st = mesh_epoch (mesh_snapshot owner) \<and>
        admitted_endpoint (mesh_snapshot owner) = admitted_endpoint (mesh_snapshot (mt_owner st))"
      if x: "mt_executor st = Some x" for x
    proof -
      from inv x obtain e where e: "mt_ingress_epoch st = Some e"
        "mesh_epoch (mesh_snapshot (mt_owner st)) = Some e" "mesh_owner_inv (mt_owner st)"
        by (auto simp: transport_inv_def)
      have kept: "mesh_epoch (mesh_snapshot owner) = Some e"
        using False same snap e by (cases res) auto
      then have "\<not> epoch_over owner e" by (simp add: epoch_over_def)
      with epoch_kept_or_over [OF e(3,2) out] kept e(1) show ?thesis by simp
    qed
    with inv owner show ?thesis
      unfolding st' by (auto simp: transport_inv_def split: option.splits)
  qed
qed

lemma transport_step_inv:
  assumes "transport_inv st (calls_of w)" "environment_records e"
    and "transport_step (recording ops) (st, w) e = (st', w')"
  shows "transport_inv st' (calls_of w')"
proof (cases e)
  case (ObserveVpn sequence observation)
  with assms show ?thesis
    by (cases "observe_vpn (recording ops) st w sequence observation") (auto intro: observe_vpn_inv)
next
  case (StartIngress epoch mappings x)
  with assms show ?thesis
    by (cases "start_ingress (recording ops) st w epoch mappings x") (auto intro: start_ingress_inv)
next
  case StopIngress
  with assms show ?thesis
    by (cases "stop_ingress_locked (recording ops) st w") (auto dest: stop_ingress_inv)
next
  case (Environment f)
  with assms show ?thesis by auto
qed

lemma transport_run_inv:
  assumes "transport_inv st (calls_of w)" "list_all environment_records es"
    and "foldl (transport_step (recording ops)) (st, w) es = (st', w')"
  shows "transport_inv st' (calls_of w')"
  using assms
proof (induction es arbitrary: st w)
  case (Cons e es)
  obtain st1 w1 where step: "transport_step (recording ops) (st, w) e = (st1, w1)" by fastforce
  then have "transport_inv st1 (calls_of w1)"
    using Cons.prems by (intro transport_step_inv [OF _ _ step]) auto
  with Cons.prems step show ?case by (intro Cons.IH [of st1 w1]) auto
qed simp

lemma transport_new_inv:
  assumes "MeshTransportCoordinator_new network prefix = Inr st"
  shows "transport_inv st []"
proof -
  obtain owner where owner: "MeshEndpointOwner_new network prefix = Inr owner"
    and st: "st = \<lparr>mt_owner = owner, mt_executor = None, mt_sessions = None, mt_ingress_epoch = None,
                  mt_cleanup_failed = False\<rparr>"
    using assms by (auto simp: MeshTransportCoordinator_new_def rbind_Inr_iff)
  have "mesh_owner_inv owner"
    using new_owner_fresh [OF owner] mesh.inv_reachable [of _ "[]"] by auto
  then show ?thesis by (simp add: st transport_inv_def)
qed

text \<open>C14. At most one Mesh ingress is open, and a running one always serves the endpoint that is
  admitted now. For every executor, and for every sequence of observations, starts, stops and
  environment changes: of the ingresses successfully started at most one has not been successfully
  stopped, and when the coordinator reports a running ingress it is the one executor opened at
  exactly the currently admitted endpoint, under the current admission epoch.\<close>

theorem mesh_ingress_exact:
  assumes "MeshTransportCoordinator_new network prefix = Inr st0"
    and "calls_of w0 = []" "list_all environment_records es"
    and "foldl (transport_step (recording ops)) (st0, w0) es = (st, w)"
  shows "length (open_ingresses (calls_of w)) \<le> 1 \<and>
    (ts_ingress_running (snapshot_locked (recording ops) st w) \<longrightarrow>
       (\<exists>x endpoint epoch. open_ingresses (calls_of w) = [(x, endpoint)] \<and>
          mt_ingress_epoch st = Some epoch \<and>
          admitted_endpoint (mesh_snapshot (mt_owner st)) = Some endpoint \<and>
          mesh_epoch (mesh_snapshot (mt_owner st)) = Some epoch))"
proof -
  have "transport_inv st (calls_of w)"
    using transport_run_inv [OF _ assms(3,4)] transport_new_inv [OF assms(1)] assms(2) by simp
  then show ?thesis
    by (auto simp: transport_inv_def snapshot_locked_def split: option.splits)
qed

definition demo_executor :: "unit MeshIngressExecutor" where
  "demo_executor = \<lparr>exec_start = (\<lambda>x endpoint mappings sessions w. (Inr (), w)),
     exec_stop = (\<lambda>x w. (Inr (), w)), exec_healthy = (\<lambda>x w. True)\<rparr>"

definition demo_world :: "unit recorded mesh_world" where
  "demo_world = \<lparr>session_heap = (\<lambda>i. product_generation), next_session = 0, execution = ((), [])\<rparr>"

definition demo_transport_events :: "unit recorded MeshEvent list" where
  "demo_transport_events =
     [ObserveVpn 1 (UniqueVpn [0x64600001]), StartIngress 1 [same_port 1080] 7]"

theorem mesh_ingress_exact_witness:
  "\<exists>st0 st w. MeshTransportCoordinator_new 0x64600000 12 = Inr st0 \<and>
     foldl (transport_step (recording demo_executor)) (st0, demo_world) demo_transport_events = (st, w) \<and>
     ts_ingress_running (snapshot_locked (recording demo_executor) st w) \<and>
     (\<exists>x endpoint. open_ingresses (calls_of w) = [(x, endpoint)])"
proof -
  obtain st0 where new: "MeshTransportCoordinator_new 0x64600000 12 = Inr st0"
    and st0: "st0 = \<lparr>mt_owner = demo_owner, mt_executor = None, mt_sessions = None,
                mt_ingress_epoch = None, mt_cleanup_failed = False\<rparr>"
    using demo_owner_new by (simp add: MeshTransportCoordinator_new_def)
  obtain st w where run: "foldl (transport_step (recording demo_executor)) (st0, demo_world)
      demo_transport_events = (st, w)"
    by fastforce
  have running: "ts_ingress_running (snapshot_locked (recording demo_executor) st w)"
    using run
    by (auto simp: demo_transport_events_def st0 demo_world_def demo_executor_def recording_def
          observe_vpn_def start_ingress_def launch_ingress_def new_session_def snapshot_locked_def
          unrecorded_def with_record_def mesh_eval)
  have "calls_of demo_world = []" "list_all environment_records demo_transport_events"
    by (simp_all add: demo_world_def demo_transport_events_def)
  from mesh_ingress_exact [OF new this run] running new run show ?thesis by blast
qed

end
