(* ===== verification/Runtime_Lifecycle.thy ===== *)
theory Runtime_Lifecycle
  imports Mish_Prelude
begin

text \<open>
  The runtime lifecycle owners (\<open>crates/runtime/src/lifecycle.rs\<close>) and the proxy recovery policy
  (\<open>proxy_recovery.rs\<close>). \<open>RuntimeLifecycle\<close> owns the foreground generation: it starts, stops,
  queues a restart behind a stop, and demands a fresh generation after anything that may have left
  the present one dirty. The lemmas give its invariant, that generations never go back, and the
  exact meaning of a queued restart.
\<close>

subsection \<open>The foreground generation\<close>

datatype RuntimeLifecycleState = Stopped | Starting | Running | Stopping

datatype RuntimeStartAction = StartNow | AlreadyActive | QueuedAfterStop

datatype RuntimeStopAction = StopNow | AlreadyStopped | AlreadyStopping

record RuntimeStartCompletion =
  start_install_fresh_generation_now :: bool

record RuntimeCleanupDisposition =
  install_fresh_generation_now :: bool
  require_fresh_generation_before_next_explicit_start :: bool
  restart_now :: bool

record RuntimeLifecycle =
  lifecycle_state :: RuntimeLifecycleState
  restart_after_stop :: bool
  generation_requires_replacement :: bool
  generation :: u64

definition lifecycle_new :: RuntimeLifecycle where
  "lifecycle_new = \<lparr>lifecycle_state = Stopped, restart_after_stop = False,
                    generation_requires_replacement = False, generation = 1\<rparr>"

definition advance_generation :: "RuntimeLifecycle \<Rightarrow> bool \<times> RuntimeLifecycle" where
  "advance_generation m =
     (case checked_add (generation m) 1 of
        None \<Rightarrow> (False, m)
      | Some n \<Rightarrow> (True, m\<lparr>generation := n\<rparr>))"

definition request_start :: "RuntimeLifecycle \<Rightarrow> RuntimeStartAction \<times> RuntimeLifecycle" where
  "request_start m =
     (case lifecycle_state m of
        Stopped \<Rightarrow> (StartNow, m\<lparr>lifecycle_state := Starting\<rparr>)
      | Starting \<Rightarrow> (AlreadyActive, m)
      | Running \<Rightarrow> (AlreadyActive, m)
      | Stopping \<Rightarrow> (QueuedAfterStop, m\<lparr>restart_after_stop := True\<rparr>))"

definition take_generation_replacement_for_start :: "RuntimeLifecycle \<Rightarrow> bool \<times> RuntimeLifecycle" where
  "take_generation_replacement_for_start m =
     (if lifecycle_state m \<noteq> Starting \<or> \<not> generation_requires_replacement m then (False, m)
      else case advance_generation m of
        (False, m) \<Rightarrow> (False, m)
      | (True, m) \<Rightarrow> (True, m\<lparr>generation_requires_replacement := False\<rparr>))"

definition advance_stopped_generation :: "RuntimeLifecycle \<Rightarrow> bool \<times> RuntimeLifecycle" where
  "advance_stopped_generation m =
     (if lifecycle_state m \<noteq> Stopped \<or> generation_requires_replacement m then (False, m)
      else advance_generation m)"

definition start_submission_failed :: "RuntimeLifecycle \<Rightarrow> RuntimeLifecycle" where
  "start_submission_failed m =
     (if lifecycle_state m = Starting then m\<lparr>lifecycle_state := Stopped\<rparr> else m)"

text \<open>\<open>a && b()\<close>: the second operand runs only if the first is true.\<close>

definition advance_if :: "bool \<Rightarrow> RuntimeLifecycle \<Rightarrow> bool \<times> RuntimeLifecycle" where
  "advance_if b m = (if b then advance_generation m else (False, m))"

definition complete_start ::
    "RuntimeLifecycle \<Rightarrow> bool \<Rightarrow> bool \<Rightarrow> RuntimeStartCompletion \<times> RuntimeLifecycle" where
  "complete_start m started clean_after_failed_start =
     (if lifecycle_state m \<noteq> Starting then (\<lparr>start_install_fresh_generation_now = False\<rparr>, m)
      else if started
      then (\<lparr>start_install_fresh_generation_now = False\<rparr>, m\<lparr>lifecycle_state := Running\<rparr>)
      else
        (let (install, m) = advance_if clean_after_failed_start (m\<lparr>lifecycle_state := Stopped\<rparr>)
         in (\<lparr>start_install_fresh_generation_now = install\<rparr>,
             m\<lparr>generation_requires_replacement := \<not> install\<rparr>)))"

definition request_stop :: "RuntimeLifecycle \<Rightarrow> RuntimeStopAction \<times> RuntimeLifecycle" where
  "request_stop m =
     (case lifecycle_state m of
        Stopped \<Rightarrow> (AlreadyStopped, m)
      | Stopping \<Rightarrow> (AlreadyStopping, m\<lparr>restart_after_stop := False\<rparr>)
      | Starting \<Rightarrow> (StopNow, m\<lparr>lifecycle_state := Stopping\<rparr>)
      | Running \<Rightarrow> (StopNow, m\<lparr>lifecycle_state := Stopping\<rparr>))"

definition stop_submission_failed :: "RuntimeLifecycle \<Rightarrow> RuntimeLifecycle" where
  "stop_submission_failed m =
     (if lifecycle_state m = Stopping then m\<lparr>restart_after_stop := False\<rparr> else m)"

definition complete_stop ::
    "RuntimeLifecycle \<Rightarrow> bool \<Rightarrow> RuntimeCleanupDisposition \<times> RuntimeLifecycle" where
  "complete_stop m clean =
     (let restart_requested = restart_after_stop m;
          (advanced, m) = advance_if clean (m\<lparr>restart_after_stop := False, lifecycle_state := Stopped\<rparr>);
          disposition =
            (if advanced
             then \<lparr>install_fresh_generation_now = True,
                   require_fresh_generation_before_next_explicit_start = False,
                   restart_now = restart_requested\<rparr>
             else \<lparr>install_fresh_generation_now = False,
                   require_fresh_generation_before_next_explicit_start = True,
                   restart_now = False\<rparr>)
      in (disposition,
          m\<lparr>generation_requires_replacement :=
              require_fresh_generation_before_next_explicit_start disposition\<rparr>))"

definition can_mutate_stopped_generation :: "RuntimeLifecycle \<Rightarrow> bool" where
  "can_mutate_stopped_generation m \<longleftrightarrow>
     lifecycle_state m = Stopped \<and> \<not> generation_requires_replacement m"

definition mark_stopped_generation_dirty :: "RuntimeLifecycle \<Rightarrow> bool \<times> RuntimeLifecycle" where
  "mark_stopped_generation_dirty m =
     (if lifecycle_state m \<noteq> Stopped then (False, m)
      else (True, m\<lparr>generation_requires_replacement := True\<rparr>))"

subsection \<open>Proxy serving and its recovery policy\<close>

datatype ProxyServingState = ServingStopped | ServingStarting | ServingRunning | ServingFailed

datatype ProxyServingFailure =
    NativeRuntimeMissing
  | ExternalCredentialUnavailable
  | CellularConnectorUnavailable
  | ProxyConfigurationRejected
  | MixedListenerUnavailable
  | Socks5ListenerUnavailable
  | HttpConnectListenerUnavailable
  | ServingExecutorUnavailable
  | RuntimeStateUnavailable
  | ServingUnhealthy
  | ShutdownFailed

record ProxyServingSnapshot =
  serving_state :: ProxyServingState
  serving_failure :: "ProxyServingFailure option"

type_synonym ProxyServingLifecycle = ProxyServingSnapshot

definition serving_new :: ProxyServingLifecycle where
  "serving_new = \<lparr>serving_state = ServingStopped, serving_failure = None\<rparr>"

definition serving_request_start :: "ProxyServingLifecycle \<Rightarrow> bool \<times> ProxyServingLifecycle" where
  "serving_request_start s =
     (if serving_state s \<in> {ServingStarting, ServingRunning} then (False, s)
      else (True, \<lparr>serving_state = ServingStarting, serving_failure = None\<rparr>))"

definition mark_running :: "ProxyServingLifecycle \<Rightarrow> bool \<times> ProxyServingLifecycle" where
  "mark_running s =
     (if serving_state s \<noteq> ServingStarting then (False, s)
      else (True, \<lparr>serving_state = ServingRunning, serving_failure = None\<rparr>))"

definition mark_failed :: "ProxyServingLifecycle \<Rightarrow> ProxyServingFailure \<Rightarrow> ProxyServingLifecycle" where
  "mark_failed s f = \<lparr>serving_state = ServingFailed, serving_failure = Some f\<rparr>"

definition mark_stopped :: "ProxyServingLifecycle \<Rightarrow> ProxyServingLifecycle" where
  "mark_stopped s = \<lparr>serving_state = ServingStopped, serving_failure = None\<rparr>"

definition proxy_serving_failure_recoverable :: "ProxyServingFailure \<Rightarrow> bool" where
  "proxy_serving_failure_recoverable f \<longleftrightarrow>
     f \<in> {MixedListenerUnavailable, Socks5ListenerUnavailable, HttpConnectListenerUnavailable,
          ServingExecutorUnavailable, ServingUnhealthy}"

definition proxy_recovery_delay_ms :: "u32 \<Rightarrow> u64" where
  "proxy_recovery_delay_ms attempt =
     (if attempt = 0 then 1000
      else if attempt = 1 then 5000
      else if attempt = 2 then 15000
      else if attempt = 3 then 30000
      else 60000)"

subsection \<open>The lifecycle as a machine\<close>

datatype LifecycleEvent =
    LcRequestStart
  | LcTakeReplacement
  | LcAdvanceStopped
  | LcStartSubmissionFailed
  | LcCompleteStart bool bool
  | LcRequestStop
  | LcStopSubmissionFailed
  | LcCompleteStop bool
  | LcMarkDirty

fun lifecycle_step :: "RuntimeLifecycle \<Rightarrow> LifecycleEvent \<Rightarrow> RuntimeLifecycle" where
  "lifecycle_step m LcRequestStart = snd (request_start m)"
| "lifecycle_step m LcTakeReplacement = snd (take_generation_replacement_for_start m)"
| "lifecycle_step m LcAdvanceStopped = snd (advance_stopped_generation m)"
| "lifecycle_step m LcStartSubmissionFailed = start_submission_failed m"
| "lifecycle_step m (LcCompleteStart started clean) = snd (complete_start m started clean)"
| "lifecycle_step m LcRequestStop = snd (request_stop m)"
| "lifecycle_step m LcStopSubmissionFailed = stop_submission_failed m"
| "lifecycle_step m (LcCompleteStop clean) = snd (complete_stop m clean)"
| "lifecycle_step m LcMarkDirty = snd (mark_stopped_generation_dirty m)"

definition lifecycle_inv :: "RuntimeLifecycle \<Rightarrow> bool" where
  "lifecycle_inv m \<longleftrightarrow> generation m \<noteq> 0 \<and> (restart_after_stop m \<longrightarrow> lifecycle_state m = Stopping)"

lemma advance_generation_cases:
  obtains (exhausted) "advance_generation m = (False, m)" "generation m = - 1"
  | (advanced) n where "advance_generation m = (True, m\<lparr>generation := n\<rparr>)"
      "unat n = Suc (unat (generation m))" "generation m \<noteq> - 1"
proof (cases "checked_add (generation m) 1")
  case None
  show thesis
  proof (rule exhausted)
    show "advance_generation m = (False, m)" using None by (simp add: advance_generation_def)
    show "generation m = - 1" using None by (simp add: checked_add_1_None)
  qed
next
  case (Some n)
  show thesis
  proof (rule advanced)
    show "advance_generation m = (True, m\<lparr>generation := n\<rparr>)"
      using Some by (simp add: advance_generation_def)
    show "unat n = Suc (unat (generation m))" using Some by (simp add: checked_add_Some_iff)
    show "generation m \<noteq> - 1" using Some by (metis checked_add_1_None option.simps(3))
  qed
qed

lemma advance_generation_frame:
  assumes "advance_generation m = (b, m')"
  shows "lifecycle_state m' = lifecycle_state m" "restart_after_stop m' = restart_after_stop m"
    "generation_requires_replacement m' = generation_requires_replacement m"
    "unat (generation m) \<le> unat (generation m')" "generation m \<noteq> 0 \<Longrightarrow> generation m' \<noteq> 0"
    "b \<longleftrightarrow> generation m \<noteq> - 1" "b \<Longrightarrow> unat (generation m') = Suc (unat (generation m))"
    "\<not> b \<Longrightarrow> m' = m"
  using assms by (cases m rule: advance_generation_cases; force)+

lemma advance_if_frame:
  assumes "advance_if c m = (b, m')"
  shows "lifecycle_state m' = lifecycle_state m" "restart_after_stop m' = restart_after_stop m"
    "unat (generation m) \<le> unat (generation m')" "generation m \<noteq> 0 \<Longrightarrow> generation m' \<noteq> 0"
    "b \<longleftrightarrow> c \<and> generation m \<noteq> - 1" "b \<Longrightarrow> unat (generation m') = Suc (unat (generation m))"
  using assms advance_generation_frame [of m b m'] by (auto simp: advance_if_def split: if_splits)

lemma lifecycle_step_inv: "lifecycle_inv m \<Longrightarrow> lifecycle_inv (lifecycle_step m e)"
proof (cases e)
  case (LcCompleteStart started clean)
  obtain b m' where "advance_if clean (m\<lparr>lifecycle_state := Stopped\<rparr>) = (b, m')" by fastforce
  with LcCompleteStart advance_if_frame [OF this] show "lifecycle_inv m \<Longrightarrow> ?thesis"
    by (auto simp: complete_start_def lifecycle_inv_def)
next
  case (LcCompleteStop clean)
  obtain b m' where
    "advance_if clean (m\<lparr>restart_after_stop := False, lifecycle_state := Stopped\<rparr>) = (b, m')"
    by fastforce
  with LcCompleteStop advance_if_frame [OF this] show "lifecycle_inv m \<Longrightarrow> ?thesis"
    by (auto simp: complete_stop_def lifecycle_inv_def)
next
  case LcTakeReplacement
  obtain b m' where "advance_generation m = (b, m')" by fastforce
  with LcTakeReplacement advance_generation_frame [OF this] show "lifecycle_inv m \<Longrightarrow> ?thesis"
    by (cases b) (auto simp: take_generation_replacement_for_start_def lifecycle_inv_def)
next
  case LcAdvanceStopped
  obtain b m' where "advance_generation m = (b, m')" by fastforce
  with LcAdvanceStopped advance_generation_frame [OF this] show "lifecycle_inv m \<Longrightarrow> ?thesis"
    by (auto simp: advance_stopped_generation_def lifecycle_inv_def)
qed (auto simp: request_start_def start_submission_failed_def request_stop_def
       stop_submission_failed_def mark_stopped_generation_dirty_def lifecycle_inv_def
       split: RuntimeLifecycleState.splits)

lemma lifecycle_step_generation: "unat (generation m) \<le> unat (generation (lifecycle_step m e))"
proof (cases e)
  case (LcCompleteStart started clean)
  obtain b m' where "advance_if clean (m\<lparr>lifecycle_state := Stopped\<rparr>) = (b, m')" by fastforce
  with LcCompleteStart advance_if_frame(3) [OF this] show ?thesis by (simp add: complete_start_def)
next
  case (LcCompleteStop clean)
  obtain b m' where
    "advance_if clean (m\<lparr>restart_after_stop := False, lifecycle_state := Stopped\<rparr>) = (b, m')"
    by fastforce
  with LcCompleteStop advance_if_frame(3) [OF this] show ?thesis by (simp add: complete_stop_def)
next
  case LcTakeReplacement
  obtain b m' where "advance_generation m = (b, m')" by fastforce
  with LcTakeReplacement advance_generation_frame(4) [OF this] show ?thesis
    by (cases b) (simp_all add: take_generation_replacement_for_start_def)
next
  case LcAdvanceStopped
  obtain b m' where "advance_generation m = (b, m')" by fastforce
  with LcAdvanceStopped advance_generation_frame(4) [OF this] show ?thesis
    by (simp add: advance_stopped_generation_def)
qed (auto simp: request_start_def start_submission_failed_def request_stop_def
       stop_submission_failed_def mark_stopped_generation_dirty_def
       split: RuntimeLifecycleState.splits)

interpretation lifecycle: ranked_machine lifecycle_new lifecycle_step lifecycle_inv
    "\<lambda>m. unat (generation m)"
proof
  show "lifecycle_inv lifecycle_new" by (simp add: lifecycle_new_def lifecycle_inv_def)
qed (auto intro: lifecycle_step_inv lifecycle_step_generation)

subsection \<open>Queued restarts\<close>

text \<open>The requests that can arrive while a stop is under way, and the last one that counts.\<close>

definition stopping_request :: "LifecycleEvent \<Rightarrow> bool" where
  "stopping_request e \<longleftrightarrow> e \<in> {LcRequestStart, LcRequestStop, LcStopSubmissionFailed}"

fun restart_pending :: "bool \<Rightarrow> LifecycleEvent list \<Rightarrow> bool" where
  "restart_pending b [] = b"
| "restart_pending b (e # es) = restart_pending (e = LcRequestStart) es"

lemma stopping_requests:
  assumes "lifecycle_state m = Stopping" "list_all stopping_request es"
  shows "foldl lifecycle_step m es = m\<lparr>restart_after_stop := restart_pending (restart_after_stop m) es\<rparr>"
  using assms
  by (induction es arbitrary: m)
     (auto simp: stopping_request_def request_start_def request_stop_def stop_submission_failed_def)

text \<open>A start that is requested while the runtime is stopping is neither lost nor forced. When
  the cleanup ends, the runtime is restarted if and only if the cleanup was clean, a fresh
  generation could be allotted, and the latest request since the stop began was a start; a restart
  always comes with a strictly newer generation, and otherwise the next start must replace it.\<close>

lemma lifecycle_queued_restart:
  assumes "lifecycle_state (foldl lifecycle_step lifecycle_new es) \<in> {Starting, Running}"
    and "list_all stopping_request requests"
    and "complete_stop (foldl lifecycle_step lifecycle_new (es @ LcRequestStop # requests)) clean = (d, m)"
  shows "(restart_now d \<longleftrightarrow> clean \<and> generation (foldl lifecycle_step lifecycle_new es) \<noteq> - 1 \<and>
      requests \<noteq> [] \<and> last requests = LcRequestStart) \<and>
    (restart_now d \<longrightarrow> unat (generation m) =
      Suc (unat (generation (foldl lifecycle_step lifecycle_new es)))) \<and>
    (generation_requires_replacement m \<longleftrightarrow> \<not> install_fresh_generation_now d) \<and>
    lifecycle_state m = Stopped"
proof -
  let ?m = "foldl lifecycle_step lifecycle_new es"
  have "\<not> restart_after_stop ?m"
    using lifecycle.inv_reachable [of es] assms(1) by (auto simp: lifecycle_inv_def)
  then have stop: "lifecycle_step ?m LcRequestStop = ?m\<lparr>lifecycle_state := Stopping\<rparr>"
    using assms(1) by (auto simp: request_stop_def)
  let ?p = "restart_pending False requests"
  let ?s = "?m\<lparr>lifecycle_state := Stopping, restart_after_stop := ?p\<rparr>"
  have run: "foldl lifecycle_step lifecycle_new (es @ LcRequestStop # requests) = ?s"
    using stopping_requests [OF _ assms(2), of "?m\<lparr>lifecycle_state := Stopping\<rparr>"] stop
      \<open>\<not> restart_after_stop ?m\<close> by simp
  have pending: "restart_pending b requests \<longleftrightarrow>
      (if requests = [] then b else last requests = LcRequestStart)" for b
    by (induction requests arbitrary: b) auto
  obtain adv m' where adv:
    "advance_if clean (?s\<lparr>restart_after_stop := False, lifecycle_state := Stopped\<rparr>) = (adv, m')"
    by fastforce
  from assms(3) adv run advance_if_frame [OF adv] pending [of False] show ?thesis
    by (auto simp: complete_stop_def Let_def split: if_splits)
qed

theorem lifecycle_queued_restart_witness:
  "\<exists>d m. complete_stop (foldl lifecycle_step lifecycle_new
      ([LcRequestStart, LcCompleteStart True True] @ LcRequestStop # [LcRequestStop, LcRequestStart]))
      True = (d, m) \<and> restart_now d"
proof -
  let ?es = "[LcRequestStart, LcCompleteStart True True]"
  let ?rs = "[LcRequestStop, LcRequestStart]"
  have gen: "foldl lifecycle_step lifecycle_new ?es =
      \<lparr>lifecycle_state = Running, restart_after_stop = False, generation_requires_replacement = False,
       generation = 1\<rparr>"
    by (simp add: lifecycle_new_def request_start_def complete_start_def)
  then have 1: "lifecycle_state (foldl lifecycle_step lifecycle_new ?es) \<in> {Starting, Running}" by simp
  have 2: "list_all stopping_request ?rs" by (simp add: stopping_request_def)
  obtain d m where 3:
    "complete_stop (foldl lifecycle_step lifecycle_new (?es @ LcRequestStop # ?rs)) True = (d, m)"
    by fastforce
  from lifecycle_queued_restart [OF 1 2 3] gen 3 show ?thesis by auto
qed

end
