(* ===== verification/Product_Runtime.thy ===== *)
theory Product_Runtime
  imports Runtime_Lifecycle "HOL-Library.Multiset"
begin

text \<open>
  The product process handle (\<open>crates/runtime/src/product_runtime.rs\<close>): starting, stopping and
  replacing runtime generations. Requests come from platform threads and the work runs as
  asynchronous tasks, so the model is a step relation in which one step is one critical section
  under the state mutex (or one effect between two of them) and all tasks interleave freely. A
  generation is an object with a number; the launches of generation objects are recorded.

  Outcomes of the work inside a generation (whether it could be built, whether its components
  started, whether its cleanup was clean) are arbitrary. Observers, remote-control intents and
  temporary credentials of the same handle do not influence the lifecycle and are left out.
\<close>

subsection \<open>State and critical sections\<close>

datatype RuntimeExecutionError = ThreadUnavailable | StateUnavailable

record ProductStartInput =
  start_credential_version :: "u64 option"
  start_username :: "string option"
  start_password :: "string option"

record ProductGeneration =
  gen_number :: u64
  gen_object :: nat

record ProductRuntimeState =
  rt_lifecycle :: RuntimeLifecycle
  rt_generation :: ProductGeneration
  rt_pending_start :: "ProductStartInput option"
  rt_platform_mutation_epoch :: u64
  rt_active_platform_mutation :: "u64 option"
  rt_closed :: bool
  rt_observer_generation :: u64
  rt_next_object :: nat

text \<open>Where an asynchronous task stands. \<open>SubmitStart\<close> and \<open>SubmitStop\<close> are the callers between
  releasing the mutex and spawning the task.\<close>

datatype RuntimeTask =
    SubmitStart u64 ProductStartInput
  | SubmitStop u64
  | RunStart u64 ProductStartInput
  | Launching u64 ProductGeneration
  | FailedStart u64 ProductGeneration
  | DrainingFailedStart u64 ProductGeneration
  | RunStop u64
  | DrainingStop u64 ProductGeneration
  | Restarting ProductStartInput

definition product_new :: ProductRuntimeState where
  "product_new =
     \<lparr>rt_lifecycle = lifecycle_new,
      rt_generation = \<lparr>gen_number = generation lifecycle_new, gen_object = 0\<rparr>,
      rt_pending_start = None, rt_platform_mutation_epoch = 0,
      rt_active_platform_mutation = None, rt_closed = False,
      rt_observer_generation = generation lifecycle_new, rt_next_object = 1\<rparr>"

text \<open>A generation built for the lifecycle's present number becomes the current one.\<close>

definition install_generation :: "ProductRuntimeState \<Rightarrow> ProductRuntimeState" where
  "install_generation st =
     st\<lparr>rt_generation := \<lparr>gen_number = generation (rt_lifecycle st), gen_object = rt_next_object st\<rparr>,
        rt_observer_generation := generation (rt_lifecycle st),
        rt_next_object := Suc (rt_next_object st)\<rparr>"

definition rt_request_start ::
    "ProductRuntimeState \<Rightarrow> ProductStartInput \<Rightarrow> bool \<Rightarrow>
     (RuntimeExecutionError + RuntimeStartAction) \<times> ProductRuntimeState \<times> RuntimeTask list" where
  "rt_request_start st input built =
     (if rt_closed st \<or> rt_active_platform_mutation st \<noteq> None then (Inl StateUnavailable, st, [])
      else case request_start (rt_lifecycle st) of
        (AlreadyActive, lc) \<Rightarrow> (Inr AlreadyActive, st\<lparr>rt_lifecycle := lc\<rparr>, [])
      | (QueuedAfterStop, lc) \<Rightarrow>
          (Inr QueuedAfterStop, st\<lparr>rt_lifecycle := lc, rt_pending_start := Some input\<rparr>, [])
      | (StartNow, lc) \<Rightarrow>
          if generation_requires_replacement lc
          then (case take_generation_replacement_for_start lc of
                  (False, lc) \<Rightarrow>
                    (Inl StateUnavailable, st\<lparr>rt_lifecycle := start_submission_failed lc\<rparr>, [])
                | (True, lc) \<Rightarrow>
                    if \<not> built
                    then (Inl StateUnavailable,
                          st\<lparr>rt_lifecycle :=
                               snd (mark_stopped_generation_dirty (start_submission_failed lc))\<rparr>, [])
                    else (Inr StartNow,
                          (install_generation (st\<lparr>rt_lifecycle := lc\<rparr>))\<lparr>rt_pending_start := None\<rparr>,
                          [SubmitStart (generation lc) input]))
          else (Inr StartNow, st\<lparr>rt_lifecycle := lc, rt_pending_start := None\<rparr>,
                [SubmitStart (generation lc) input]))"

definition begin_stopped_platform_mutation :: "ProductRuntimeState \<Rightarrow> u64 option \<times> ProductRuntimeState" where
  "begin_stopped_platform_mutation st =
     (if rt_closed st \<or> rt_active_platform_mutation st \<noteq> None \<or>
         \<not> can_mutate_stopped_generation (rt_lifecycle st)
      then (None, st)
      else case checked_add (rt_platform_mutation_epoch st) 1 of
        None \<Rightarrow> (None, st\<lparr>rt_lifecycle := snd (mark_stopped_generation_dirty (rt_lifecycle st))\<rparr>)
      | Some n \<Rightarrow>
          (Some n, st\<lparr>rt_platform_mutation_epoch := n, rt_active_platform_mutation := Some n\<rparr>))"

definition complete_stopped_platform_mutation ::
    "ProductRuntimeState \<Rightarrow> u64 \<Rightarrow> bool \<Rightarrow> bool \<Rightarrow> bool \<times> ProductRuntimeState" where
  "complete_stopped_platform_mutation st lease succeeded built =
     (if rt_closed st \<or> rt_active_platform_mutation st \<noteq> Some lease then (False, st)
      else
        (let st = st\<lparr>rt_active_platform_mutation := None\<rparr>;
             dirty = (\<lambda>lc. st\<lparr>rt_lifecycle := snd (mark_stopped_generation_dirty lc)\<rparr>)
         in if \<not> succeeded \<or> \<not> can_mutate_stopped_generation (rt_lifecycle st)
            then (False, dirty (rt_lifecycle st))
            else case advance_stopped_generation (rt_lifecycle st) of
              (False, lc) \<Rightarrow> (False, dirty lc)
            | (True, lc) \<Rightarrow>
                if \<not> built then (False, dirty lc)
                else (True, install_generation (st\<lparr>rt_lifecycle := lc\<rparr>))))"

definition rt_request_stop ::
    "ProductRuntimeState \<Rightarrow> RuntimeStopAction \<times> ProductRuntimeState \<times> RuntimeTask list" where
  "rt_request_stop st =
     (if rt_closed st then (AlreadyStopped, st, [])
      else case request_stop (rt_lifecycle st) of
        (action, lc) \<Rightarrow>
          if action \<noteq> StopNow then (action, st\<lparr>rt_lifecycle := lc\<rparr>, [])
          else (action, st\<lparr>rt_lifecycle := lc\<rparr>, [SubmitStop (generation lc)]))"

definition close_product :: "ProductRuntimeState \<Rightarrow> ProductRuntimeState" where
  "close_product st = (if rt_closed st then st else st\<lparr>rt_closed := True, rt_pending_start := None\<rparr>)"

text \<open>\<open>run_start\<close>: the entry check, and the publication of a successful start.\<close>

definition run_start_enter :: "ProductRuntimeState \<Rightarrow> u64 \<Rightarrow> ProductGeneration option" where
  "run_start_enter st expected =
     (if rt_closed st \<or> lifecycle_state (rt_lifecycle st) \<noteq> Starting \<or>
         generation (rt_lifecycle st) \<noteq> expected \<or> gen_number (rt_generation st) \<noteq> expected
      then None else Some (rt_generation st))"

definition run_start_publish :: "ProductRuntimeState \<Rightarrow> u64 \<Rightarrow> ProductRuntimeState" where
  "run_start_publish st expected =
     (if \<not> rt_closed st \<and> generation (rt_lifecycle st) = expected \<and>
         lifecycle_state (rt_lifecycle st) = Starting
      then st\<lparr>rt_lifecycle := snd (complete_start (rt_lifecycle st) True True)\<rparr> else st)"

definition still_starting :: "ProductRuntimeState \<Rightarrow> u64 \<Rightarrow> ProductGeneration \<Rightarrow> bool" where
  "still_starting st expected g \<longleftrightarrow>
     \<not> rt_closed st \<and> generation (rt_lifecycle st) = expected \<and>
     lifecycle_state (rt_lifecycle st) = Starting \<and> gen_object (rt_generation st) = gen_object g"

definition complete_failed_start_after_cleanup ::
    "ProductRuntimeState \<Rightarrow> u64 \<Rightarrow> bool \<Rightarrow> bool \<Rightarrow> ProductRuntimeState" where
  "complete_failed_start_after_cleanup st expected clean built =
     (if rt_closed st \<or> generation (rt_lifecycle st) \<noteq> expected \<or>
         lifecycle_state (rt_lifecycle st) \<noteq> Starting
      then st
      else
        (let (completion, lc) = complete_start (rt_lifecycle st) False clean
         in if \<not> start_install_fresh_generation_now completion then st\<lparr>rt_lifecycle := lc\<rparr>
            else if built then install_generation (st\<lparr>rt_lifecycle := lc\<rparr>)
            else st\<lparr>rt_lifecycle := snd (mark_stopped_generation_dirty lc)\<rparr>))"

definition run_stop_enter :: "ProductRuntimeState \<Rightarrow> u64 \<Rightarrow> ProductGeneration option" where
  "run_stop_enter st expected =
     (if generation (rt_lifecycle st) \<noteq> expected \<or> lifecycle_state (rt_lifecycle st) \<noteq> Stopping
      then None else Some (rt_generation st))"

definition complete_stop_after_cleanup ::
    "ProductRuntimeState \<Rightarrow> u64 \<Rightarrow> bool \<Rightarrow> bool \<Rightarrow> ProductStartInput option \<times> ProductRuntimeState" where
  "complete_stop_after_cleanup st expected clean built =
     (if rt_closed st \<or> generation (rt_lifecycle st) \<noteq> expected \<or>
         lifecycle_state (rt_lifecycle st) \<noteq> Stopping
      then (None, st)
      else
        (let (disposition, lc) = complete_stop (rt_lifecycle st) clean;
             rebound = install_fresh_generation_now disposition \<and> built;
             pending = rt_pending_start st;
             st = (if \<not> install_fresh_generation_now disposition then st\<lparr>rt_lifecycle := lc\<rparr>
                   else if built then install_generation (st\<lparr>rt_lifecycle := lc\<rparr>)
                   else st\<lparr>rt_lifecycle := snd (mark_stopped_generation_dirty lc)\<rparr>)
         in (if restart_now disposition \<and> rebound then pending else None,
             st\<lparr>rt_pending_start := None\<rparr>)))"

text \<open>The restart at the end of \<open>run_stop\<close>: a second critical section.\<close>

definition run_stop_restart :: "ProductRuntimeState \<Rightarrow> ProductStartInput \<Rightarrow>
    ProductRuntimeState \<times> RuntimeTask list" where
  "run_stop_restart st input =
     (case request_start (rt_lifecycle st) of
        (StartNow, lc) \<Rightarrow> (st\<lparr>rt_lifecycle := lc\<rparr>, [RunStart (generation lc) input])
      | (_, lc) \<Rightarrow> (st\<lparr>rt_lifecycle := lc\<rparr>, []))"

subsection \<open>Interleaved execution\<close>

record product_system =
  sys_runtime :: ProductRuntimeState
  sys_tasks :: "RuntimeTask multiset"
  sys_launches :: "ProductGeneration list"
  sys_executor :: bool

text \<open>
  \<open>system st T L\<close> has a live executor. Spawning fails only after the executor is gone, which the
  handle does only after closing. With \<open>strict\<close> the relation keeps the executions in which a
  restart finds the stopped generation as the stop left it; without, it is the program.
\<close>

abbreviation system ::
    "ProductRuntimeState \<Rightarrow> RuntimeTask multiset \<Rightarrow> ProductGeneration list \<Rightarrow> product_system" where
  "system st T L \<equiv>
     \<lparr>sys_runtime = st, sys_tasks = T, sys_launches = L, sys_executor = True\<rparr>"

inductive product_step :: "bool \<Rightarrow> product_system \<Rightarrow> product_system \<Rightarrow> bool" for strict where
  request_start: "rt_request_start st input built = (r, st', new) \<Longrightarrow>
    product_step strict (system st T L) (system st' (mset new + T) L)"
| request_stop: "rt_request_stop st = (r, st', new) \<Longrightarrow>
    product_step strict (system st T L) (system st' (mset new + T) L)"
| begin_mutation: "begin_stopped_platform_mutation st = (r, st') \<Longrightarrow>
    product_step strict (system st T L) (system st' T L)"
| complete_mutation: "complete_stopped_platform_mutation st lease ok built = (r, st') \<Longrightarrow>
    product_step strict (system st T L) (system st' T L)"
| close: "product_step strict (system st T L) (system (close_product st) T L)"
| executor_gone: "rt_closed st \<Longrightarrow>
    product_step strict (system st T L) (system st T L\<lparr>sys_executor := False\<rparr>)"
| spawn_start: "product_step strict (system st (add_mset (SubmitStart e input) T) L)
    (system st (add_mset (RunStart e input) T) L)"
| spawn_stop: "product_step strict (system st (add_mset (SubmitStop e) T) L)
    (system st (add_mset (RunStop e) T) L)"
| start_refused: "run_start_enter st e = None \<Longrightarrow>
    product_step strict (system st (add_mset (RunStart e input) T) L) (system st T L)"
| launch: "run_start_enter st e = Some g \<Longrightarrow>
    product_step strict (system st (add_mset (RunStart e input) T) L)
      (system st (add_mset (Launching e g) T) (g # L))"
| launched: "product_step strict (system st (add_mset (Launching e g) T) L)
    (system (run_start_publish st e) T L)"
| launch_failed: "product_step strict (system st (add_mset (Launching e g) T) L)
    (system st (add_mset (FailedStart e g) T) L)"
| failed_superseded: "\<not> still_starting st e g \<Longrightarrow>
    product_step strict (system st (add_mset (FailedStart e g) T) L) (system st T L)"
| failed_drain: "still_starting st e g \<Longrightarrow>
    product_step strict (system st (add_mset (FailedStart e g) T) L)
      (system st (add_mset (DrainingFailedStart e g) T) L)"
| failed_done: "product_step strict (system st (add_mset (DrainingFailedStart e g) T) L)
    (system (complete_failed_start_after_cleanup st e clean built) T L)"
| stop_superseded: "run_stop_enter st e = None \<Longrightarrow>
    product_step strict (system st (add_mset (RunStop e) T) L) (system st T L)"
| stop_drain: "run_stop_enter st e = Some g \<Longrightarrow>
    product_step strict (system st (add_mset (RunStop e) T) L)
      (system st (add_mset (DrainingStop e g) T) L)"
| stop_done: "complete_stop_after_cleanup st e clean built = (None, st') \<Longrightarrow>
    product_step strict (system st (add_mset (DrainingStop e g) T) L) (system st' T L)"
| stop_restart: "complete_stop_after_cleanup st e clean built = (Some input, st') \<Longrightarrow>
    product_step strict (system st (add_mset (DrainingStop e g) T) L)
      (system st' (add_mset (Restarting input) T) L)"
| restart: "run_stop_restart st input = (st', new) \<Longrightarrow>
    (strict \<Longrightarrow> lifecycle_state (rt_lifecycle st) = Stopped \<Longrightarrow>
       \<not> generation_requires_replacement (rt_lifecycle st)) \<Longrightarrow>
    product_step strict (system st (add_mset (Restarting input) T) L) (system st' (mset new + T) L)"

abbreviation product_steps :: "bool \<Rightarrow> product_system \<Rightarrow> product_system \<Rightarrow> bool" where
  "product_steps strict \<equiv> (product_step strict)\<^sup>*\<^sup>*"

abbreviation product_init :: product_system where
  "product_init \<equiv> system product_new {#} []"

subsection \<open>Each generation is launched at most once\<close>

fun starts :: "RuntimeTask \<Rightarrow> u64 option" where
  "starts (SubmitStart e input) = Some e"
| "starts (RunStart e input) = Some e"
| "starts t = None"

definition pending_starts :: "u64 \<Rightarrow> RuntimeTask multiset \<Rightarrow> nat" where
  "pending_starts n T = size (filter_mset (\<lambda>t. starts t = Some n) T)"

lemma pending_starts_add [simp]:
  "pending_starts n {#} = 0"
  "pending_starts n (add_mset t T) = (if starts t = Some n then 1 else 0) + pending_starts n T"
  by (simp_all add: pending_starts_def)

text \<open>The tasks that will start a generation never expect a number from the future; the launched
  objects are distinct old ones.\<close>

definition launches_ok :: "ProductRuntimeState \<Rightarrow> RuntimeTask multiset \<Rightarrow> ProductGeneration list \<Rightarrow> bool" where
  "launches_ok st T L \<longleftrightarrow>
     gen_object (rt_generation st) < rt_next_object st \<and>
     (\<forall>g \<in> set L. gen_object g < rt_next_object st) \<and>
     distinct (map gen_object L) \<and>
     (\<forall>t e. t \<in># T \<longrightarrow> starts t = Some e \<longrightarrow> unat e \<le> unat (generation (rt_lifecycle st)))"

definition unlaunched :: "ProductRuntimeState \<Rightarrow> ProductGeneration list \<Rightarrow> bool" where
  "unlaunched st L \<longleftrightarrow> gen_object (rt_generation st) \<notin> gen_object ` set L"

text \<open>A clean stopped generation is unlaunched and nothing is about to launch it; while starting,
  at most one task is.\<close>

definition start_ok :: "ProductRuntimeState \<Rightarrow> RuntimeTask multiset \<Rightarrow> ProductGeneration list \<Rightarrow> bool" where
  "start_ok st T L \<longleftrightarrow>
     (lifecycle_state (rt_lifecycle st) = Stopped \<longrightarrow>
        \<not> generation_requires_replacement (rt_lifecycle st) \<longrightarrow>
        unlaunched st L \<and> pending_starts (generation (rt_lifecycle st)) T = 0) \<and>
     (lifecycle_state (rt_lifecycle st) = Starting \<longrightarrow>
        pending_starts (generation (rt_lifecycle st)) T \<le> 1 \<and>
        (pending_starts (generation (rt_lifecycle st)) T = 1 \<longrightarrow> unlaunched st L))"

definition launch_inv :: "ProductRuntimeState \<Rightarrow> RuntimeTask multiset \<Rightarrow> ProductGeneration list \<Rightarrow> bool" where
  "launch_inv st T L \<longleftrightarrow> launches_ok st T L \<and> (\<not> rt_closed st \<longrightarrow> start_ok st T L)"

lemma no_future_starts:
  assumes "launches_ok st T L" "unat (generation (rt_lifecycle st)) < unat n"
  shows "pending_starts n T = 0"
proof -
  have "set_mset (filter_mset (\<lambda>t. starts t = Some n) T) = {}"
    using assms by (force simp: launches_ok_def)
  then show ?thesis by (simp add: pending_starts_def del: set_mset_filter)
qed

text \<open>Installing a generation with a new number, and keeping the generation with the same number.\<close>

lemma launches_ok_install:
  assumes "launches_ok st T L" "unat (generation (rt_lifecycle st)) \<le> unat (generation lc)"
  shows "launches_ok (install_generation (st\<lparr>rt_lifecycle := lc\<rparr>)) T L"
  using assms by (fastforce simp: launches_ok_def install_generation_def)

lemma unlaunched_install:
  "launches_ok st T L \<Longrightarrow> unlaunched (install_generation (st\<lparr>rt_lifecycle := lc\<rparr>)) L"
  by (auto simp: launches_ok_def install_generation_def unlaunched_def)

lemma launch_inv_install:
  assumes "launches_ok st T L" "unat (generation (rt_lifecycle st)) < unat (generation lc)"
  shows "launch_inv (install_generation (st\<lparr>rt_lifecycle := lc\<rparr>)) T L"
proof -
  have "pending_starts (generation lc) T = 0"
    using no_future_starts [OF assms] .
  with launches_ok_install [OF assms(1), of lc] unlaunched_install [OF assms(1), of lc] assms(2)
  show ?thesis
    by (simp add: launch_inv_def start_ok_def install_generation_def)
qed

lemma launches_ok_lifecycle:
  "launches_ok st T L \<Longrightarrow> unat (generation (rt_lifecycle st)) \<le> unat (generation lc) \<Longrightarrow>
     launches_ok (st\<lparr>rt_lifecycle := lc\<rparr>) T L"
  by (fastforce simp: launches_ok_def)

lemma launch_inv_other [simp]:
  "launches_ok (st\<lparr>rt_pending_start := p\<rparr>) T L = launches_ok st T L"
  "launches_ok (st\<lparr>rt_active_platform_mutation := a\<rparr>) T L = launches_ok st T L"
  "launches_ok (st\<lparr>rt_platform_mutation_epoch := n\<rparr>) T L = launches_ok st T L"
  "launch_inv (st\<lparr>rt_pending_start := p\<rparr>) T L = launch_inv st T L"
  "launch_inv (st\<lparr>rt_active_platform_mutation := a\<rparr>) T L = launch_inv st T L"
  "launch_inv (st\<lparr>rt_platform_mutation_epoch := n\<rparr>) T L = launch_inv st T L"
  by (simp_all add: launches_ok_def launch_inv_def start_ok_def unlaunched_def)

text \<open>A stopped generation that must be replaced, and a running or stopping one, need nothing more.\<close>

lemma launch_inv_settled:
  assumes "launches_ok st T L" "unat (generation (rt_lifecycle st)) \<le> unat (generation lc)"
    and "lifecycle_state lc = Stopped \<and> generation_requires_replacement lc \<or>
      lifecycle_state lc = Running \<or> lifecycle_state lc = Stopping"
  shows "launch_inv (st\<lparr>rt_lifecycle := lc\<rparr>) T L"
  using launches_ok_lifecycle [OF assms(1,2)] assms(3) by (auto simp: launch_inv_def start_ok_def)

lemma launch_inv_task:
  assumes "launch_inv st T L" "starts t = None"
  shows "launch_inv st (add_mset t T) L"
  using assms by (auto simp: launch_inv_def launches_ok_def start_ok_def)

lemma launch_inv_drop_task:
  assumes "launch_inv st (add_mset t T) L"
  shows "launch_inv st T L"
  using assms by (auto simp: launch_inv_def launches_ok_def start_ok_def split: if_splits)

lemma launch_inv_spawn:
  assumes "launch_inv st (add_mset t T) L" "starts t' = starts t"
  shows "launch_inv st (add_mset t' T) L"
  using assms by (auto simp: launch_inv_def launches_ok_def start_ok_def split: if_splits)

lemma request_start_inv:
  assumes inv: "launch_inv st T L" and req: "rt_request_start st input built = (r, st', new)"
  shows "launch_inv st' (mset new + T) L"
proof (cases "rt_closed st \<or> rt_active_platform_mutation st \<noteq> None")
  case True
  with assms show ?thesis by (auto simp: rt_request_start_def)
next
  case False
  then have live: "\<not> rt_closed st" by simp
  let ?lc = "rt_lifecycle st" and ?go = "(rt_lifecycle st)\<lparr>lifecycle_state := Starting\<rparr>"
  have ok: "launches_ok st T L" using inv by (simp add: launch_inv_def)
  consider (stopped) "lifecycle_state ?lc = Stopped" "\<not> generation_requires_replacement ?lc"
    | (dirty) "lifecycle_state ?lc = Stopped" "generation_requires_replacement ?lc"
    | (active) "lifecycle_state ?lc \<in> {Starting, Running}"
    | (stopping) "lifecycle_state ?lc = Stopping"
    by (cases "lifecycle_state ?lc") auto
  then show ?thesis
  proof cases
    case stopped
    with req False have st': "st' = st\<lparr>rt_lifecycle := ?go, rt_pending_start := None\<rparr>"
      "new = [SubmitStart (generation ?lc) input]"
      by (auto simp: rt_request_start_def request_start_def)
    from inv stopped live show ?thesis unfolding st'
      by (auto simp: launch_inv_def start_ok_def launches_ok_def unlaunched_def)
  next
    case dirty
    obtain adv lc where adv: "advance_generation ?go = (adv, lc)" by fastforce
    note frame = advance_generation_frame [OF adv]
    show ?thesis
    proof (cases "adv \<and> built")
      case True
      let ?clean = "lc\<lparr>generation_requires_replacement := False\<rparr>"
      have st': "st' = (install_generation (st\<lparr>rt_lifecycle := ?clean\<rparr>))\<lparr>rt_pending_start := None\<rparr>"
        "new = [SubmitStart (generation lc) input]"
        using req False dirty True adv
        by (auto simp: rt_request_start_def request_start_def take_generation_replacement_for_start_def)
      have lt: "unat (generation ?lc) < unat (generation lc)" using frame(7) True by simp
      have "launch_inv (install_generation (st\<lparr>rt_lifecycle := ?clean\<rparr>)) T L"
        using launch_inv_install [OF ok, of ?clean] lt by simp
      moreover have "pending_starts (generation lc) T = 0" using no_future_starts [OF ok lt] .
      moreover have "unlaunched (install_generation (st\<lparr>rt_lifecycle := ?clean\<rparr>)) L"
        using unlaunched_install [OF ok] .
      ultimately show ?thesis
        using frame(1) unfolding st'
        by (auto simp: launch_inv_def start_ok_def launches_ok_def install_generation_def unlaunched_def)
    next
      case fail: False
      then obtain lc' where st': "st' = st\<lparr>rt_lifecycle := lc'\<rparr>" "new = []"
        "lifecycle_state lc' = Stopped" "generation_requires_replacement lc'"
        "unat (generation ?lc) \<le> unat (generation lc')"
        using req False dirty adv frame(1,3,4,8)
        by (cases adv) (auto simp: rt_request_start_def request_start_def start_submission_failed_def
              take_generation_replacement_for_start_def mark_stopped_generation_dirty_def)
      show ?thesis using launch_inv_settled [OF ok st'(5)] st' by simp
    qed
  next
    case active
    with req False have "st' = st" "new = []"
      by (auto simp: rt_request_start_def request_start_def)
    with inv show ?thesis by simp
  next
    case stopping
    with req False have "st' = st\<lparr>rt_lifecycle := ?lc\<lparr>restart_after_stop := True\<rparr>,
        rt_pending_start := Some input\<rparr>" "new = []"
      by (auto simp: rt_request_start_def request_start_def)
    with launch_inv_settled [OF ok, of "?lc\<lparr>restart_after_stop := True\<rparr>"] stopping show ?thesis
      by simp
  qed
qed

lemma request_stop_inv:
  assumes inv: "launch_inv st T L" and req: "rt_request_stop st = (r, st', new)"
  shows "launch_inv st' (mset new + T) L"
proof -
  let ?lc = "rt_lifecycle st"
  have ok: "launches_ok st T L" using inv by (simp add: launch_inv_def)
  consider (same) "st' = st" "new = []"
    | (stopping) lc where "st' = st\<lparr>rt_lifecycle := lc\<rparr>" "lifecycle_state lc = Stopping"
        "generation lc = generation ?lc" "new = [] \<or> new = [SubmitStop (generation lc)]"
    using req
    by (cases "lifecycle_state ?lc") (auto simp: rt_request_stop_def request_stop_def split: if_splits)
  then show ?thesis
  proof cases
    case same
    with inv show ?thesis by simp
  next
    case (stopping lc)
    then have "launch_inv st' T L"
      using launch_inv_settled [OF ok, of lc] by simp
    with stopping(4) show ?thesis by (auto simp: launch_inv_task)
  qed
qed

lemma mark_dirty_inv:
  assumes "launch_inv st T L"
  shows "launch_inv (st\<lparr>rt_lifecycle := snd (mark_stopped_generation_dirty (rt_lifecycle st))\<rparr>) T L"
proof (cases "lifecycle_state (rt_lifecycle st) = Stopped")
  case True
  with assms launch_inv_settled [of st T L "(rt_lifecycle st)\<lparr>generation_requires_replacement := True\<rparr>"]
  show ?thesis by (simp add: mark_stopped_generation_dirty_def launch_inv_def [of st])
next
  case False
  with assms show ?thesis by (simp add: mark_stopped_generation_dirty_def)
qed

lemma begin_mutation_inv:
  "launch_inv st T L \<Longrightarrow> begin_stopped_platform_mutation st = (r, st') \<Longrightarrow> launch_inv st' T L"
  by (auto simp: begin_stopped_platform_mutation_def split: if_splits option.splits
           intro: mark_dirty_inv)

lemma complete_mutation_inv:
  assumes inv: "launch_inv st T L"
    and complete: "complete_stopped_platform_mutation st lease succeeded built = (r, st')"
  shows "launch_inv st' T L"
proof (cases "rt_closed st \<or> rt_active_platform_mutation st \<noteq> Some lease")
  case True
  with assms show ?thesis by (auto simp: complete_stopped_platform_mutation_def)
next
  case False
  let ?st = "st\<lparr>rt_active_platform_mutation := None\<rparr>"
  have inv': "launch_inv ?st T L" and ok: "launches_ok ?st T L"
    using inv by (simp_all add: launch_inv_def [of st])
  obtain adv lc where adv: "advance_generation (rt_lifecycle st) = (adv, lc)" by fastforce
  note frame = advance_generation_frame [OF adv]
  let ?can = "succeeded \<and> can_mutate_stopped_generation (rt_lifecycle st)"
  consider (dirty) "st' = ?st\<lparr>rt_lifecycle := snd (mark_stopped_generation_dirty (rt_lifecycle ?st))\<rparr>"
    | (unbuilt) "?can" "adv" "st' = ?st\<lparr>rt_lifecycle := snd (mark_stopped_generation_dirty lc)\<rparr>"
    | (installed) "?can" "adv" "st' = install_generation (?st\<lparr>rt_lifecycle := lc\<rparr>)"
    using complete False adv frame(8)
    by (cases adv) (auto simp: complete_stopped_platform_mutation_def Let_def
          advance_stopped_generation_def can_mutate_stopped_generation_def split: if_splits)
  then show ?thesis
  proof cases
    case dirty
    with mark_dirty_inv [OF inv'] show ?thesis by simp
  next
    case unbuilt
    with frame launch_inv_settled [OF ok, of "lc\<lparr>generation_requires_replacement := True\<rparr>"]
    show ?thesis by (simp add: can_mutate_stopped_generation_def mark_stopped_generation_dirty_def)
  next
    case installed
    with frame(7) launch_inv_install [OF ok, of lc] show ?thesis by simp
  qed
qed

lemma publish_inv:
  assumes "launch_inv st T L"
  shows "launch_inv (run_start_publish st e) T L"
  using assms launch_inv_settled [of st T L "(rt_lifecycle st)\<lparr>lifecycle_state := Running\<rparr>"]
  by (auto simp: run_start_publish_def complete_start_def launch_inv_def [of st])

lemma failed_done_inv:
  assumes inv: "launch_inv st T L"
  shows "launch_inv (complete_failed_start_after_cleanup st e clean built) T L" (is "launch_inv ?st' T L")
proof (cases "rt_closed st \<or> generation (rt_lifecycle st) \<noteq> e \<or> lifecycle_state (rt_lifecycle st) \<noteq> Starting")
  case True
  with inv show ?thesis by (auto simp: complete_failed_start_after_cleanup_def)
next
  case False
  have ok: "launches_ok st T L" using inv by (simp add: launch_inv_def)
  obtain adv lc where adv: "advance_if clean ((rt_lifecycle st)\<lparr>lifecycle_state := Stopped\<rparr>) = (adv, lc)"
    by fastforce
  note frame = advance_if_frame [OF adv]
  let ?lc = "\<lambda>b. lc\<lparr>generation_requires_replacement := b\<rparr>"
  consider (installed) "adv" "?st' = install_generation (st\<lparr>rt_lifecycle := ?lc False\<rparr>)"
    | (dirty) "?st' = st\<lparr>rt_lifecycle := ?lc True\<rparr>"
    using False adv frame(1)
    by (cases adv; cases built) (auto simp: complete_failed_start_after_cleanup_def complete_start_def
          mark_stopped_generation_dirty_def)
  then show ?thesis
  proof cases
    case installed
    with frame(6) launch_inv_install [OF ok, of "?lc False"] show ?thesis by simp
  next
    case dirty
    with frame(1,3) launch_inv_settled [OF ok, of "?lc True"] show ?thesis by simp
  qed
qed

lemma stop_done_inv:
  assumes inv: "launch_inv st T L"
    and stop: "complete_stop_after_cleanup st e clean built = (restart, st')"
  shows "launch_inv st' T L"
proof (cases "rt_closed st \<or> generation (rt_lifecycle st) \<noteq> e \<or> lifecycle_state (rt_lifecycle st) \<noteq> Stopping")
  case True
  with assms show ?thesis by (auto simp: complete_stop_after_cleanup_def)
next
  case False
  have ok: "launches_ok st T L" using inv by (simp add: launch_inv_def)
  obtain adv lc where adv: "advance_if clean
      ((rt_lifecycle st)\<lparr>restart_after_stop := False, lifecycle_state := Stopped\<rparr>) = (adv, lc)"
    by fastforce
  note frame = advance_if_frame [OF adv]
  let ?lc = "\<lambda>b. lc\<lparr>generation_requires_replacement := b\<rparr>"
  consider (installed) "adv" "st' = (install_generation (st\<lparr>rt_lifecycle := ?lc False\<rparr>))\<lparr>rt_pending_start := None\<rparr>"
    | (dirty) "st' = st\<lparr>rt_lifecycle := ?lc True, rt_pending_start := None\<rparr>"
    using stop False adv frame(1)
    by (cases adv; cases built) (auto simp: complete_stop_after_cleanup_def complete_stop_def Let_def
          mark_stopped_generation_dirty_def)
  then show ?thesis
  proof cases
    case installed
    with frame(6) launch_inv_install [OF ok, of "?lc False"] show ?thesis by simp
  next
    case dirty
    with frame(1,3) launch_inv_settled [OF ok, of "?lc True"] show ?thesis by simp
  qed
qed

lemma restart_inv:
  assumes inv: "launch_inv st T L" and restart: "run_stop_restart st input = (st', new)"
    and clean: "lifecycle_state (rt_lifecycle st) = Stopped \<Longrightarrow>
      \<not> generation_requires_replacement (rt_lifecycle st)"
  shows "launch_inv st' (mset new + T) L"
proof (cases "lifecycle_state (rt_lifecycle st)")
  case Stopped
  with restart have st': "st' = st\<lparr>rt_lifecycle := (rt_lifecycle st)\<lparr>lifecycle_state := Starting\<rparr>\<rparr>"
    "new = [RunStart (generation (rt_lifecycle st)) input]"
    by (auto simp: run_stop_restart_def request_start_def)
  from inv Stopped clean [OF Stopped] show ?thesis unfolding st'
    by (auto simp: launch_inv_def start_ok_def launches_ok_def unlaunched_def)
next
  case Stopping
  with restart have "st' = st\<lparr>rt_lifecycle := (rt_lifecycle st)\<lparr>restart_after_stop := True\<rparr>\<rparr>" "new = []"
    by (auto simp: run_stop_restart_def request_start_def)
  with Stopping inv launch_inv_settled [of st T L "(rt_lifecycle st)\<lparr>restart_after_stop := True\<rparr>"]
  show ?thesis by (simp add: launch_inv_def [of st])
qed (use restart inv in \<open>auto simp: run_stop_restart_def request_start_def\<close>)

lemma launch_task_inv:
  assumes inv: "launch_inv st (add_mset (RunStart e input) T) L" and enter: "run_start_enter st e = Some g"
  shows "launch_inv st (add_mset (Launching e g) T) (g # L)"
proof -
  have g: "g = rt_generation st" "\<not> rt_closed st" "lifecycle_state (rt_lifecycle st) = Starting"
    "generation (rt_lifecycle st) = e"
    using enter by (auto simp: run_start_enter_def split: if_splits)
  with inv show ?thesis
    by (auto simp: launch_inv_def launches_ok_def start_ok_def unlaunched_def)
qed

lemma product_step_inv:
  assumes "product_step True s s'" "launch_inv (sys_runtime s) (sys_tasks s) (sys_launches s)"
  shows "launch_inv (sys_runtime s') (sys_tasks s') (sys_launches s')"
  using assms
proof (induction rule: product_step.induct)
  case (request_start st input built r st' new T L)
  then show ?case by (simp add: request_start_inv)
next
  case (request_stop st r st' new T L)
  then show ?case by (simp add: request_stop_inv)
next
  case (begin_mutation st r st' T L)
  then show ?case by (simp add: begin_mutation_inv)
next
  case (complete_mutation st lease ok built r st' T L)
  then show ?case by (simp add: complete_mutation_inv)
next
  case (close st T L)
  then show ?case by (auto simp: close_product_def launch_inv_def launches_ok_def)
next
  case (spawn_start st e input T L)
  then show ?case by (simp add: launch_inv_spawn [of _ "SubmitStart e input"])
next
  case (spawn_stop st e T L)
  then show ?case by (simp add: launch_inv_spawn [of _ "SubmitStop e"])
next
  case (launch st e g input T L)
  then show ?case by (simp add: launch_task_inv)
next
  case (launched st e g T L)
  then have "launch_inv st T L" by (simp add: launch_inv_drop_task)
  then show ?case by (simp add: publish_inv)
next
  case (launch_failed st e g T L)
  then show ?case by (simp add: launch_inv_spawn [of _ "Launching e g"])
next
  case (failed_drain st e g T L)
  then show ?case by (simp add: launch_inv_spawn [of _ "FailedStart e g"])
next
  case (failed_done st e g T L clean built)
  then have "launch_inv st T L" by (simp add: launch_inv_drop_task)
  then show ?case by (simp add: failed_done_inv)
next
  case (stop_drain st e g T L)
  then show ?case by (simp add: launch_inv_spawn [of _ "RunStop e"])
next
  case (stop_done st e clean built st' g T L)
  then have "launch_inv st T L" by (simp add: launch_inv_drop_task)
  with stop_done show ?case by (simp add: stop_done_inv)
next
  case (stop_restart st e clean built input st' g T L)
  then have "launch_inv st T L" by (simp add: launch_inv_drop_task)
  with stop_restart have "launch_inv st' T L" by (simp add: stop_done_inv)
  then show ?case by (simp add: launch_inv_task)
next
  case (restart st input st' new T L)
  then have "launch_inv st T L" by (simp add: launch_inv_drop_task)
  with restart show ?case by (simp add: restart_inv)
qed (simp_all add: launch_inv_drop_task)

lemma launch_inv_init: "launch_inv product_new {#} []"
  by (simp add: launch_inv_def launches_ok_def start_ok_def unlaunched_def product_new_def)

lemma product_steps_inv:
  "product_steps True s s' \<Longrightarrow> launch_inv (sys_runtime s) (sys_tasks s) (sys_launches s) \<Longrightarrow>
     launch_inv (sys_runtime s') (sys_tasks s') (sys_launches s')"
  by (induction rule: rtranclp_induct) (auto intro: product_step_inv)

text \<open>C15. A runtime generation is launched at most once. In every interleaving of start and stop
  requests, platform mutations, failing starts, cleanups and restarts in which a queued restart
  finds the stopped generation as the stop left it (not yet marked for replacement), no generation
  object is started a second time.\<close>

theorem generation_launched_once:
  assumes "product_steps True product_init s"
  shows "distinct (map gen_object (sys_launches s))"
  using product_steps_inv [OF assms] launch_inv_init by (simp add: launch_inv_def launches_ok_def)

text \<open>A run that ends with a clean stop and a queued restart, up to the point between the two
  critical sections of \<open>run_stop\<close>.\<close>

definition demo_runtime ::
    "RuntimeLifecycleState \<Rightarrow> bool \<Rightarrow> bool \<Rightarrow> u64 \<Rightarrow> ProductStartInput option \<Rightarrow> u64 option \<Rightarrow> ProductRuntimeState" where
  "demo_runtime state restart dirty n pending lease =
     \<lparr>rt_lifecycle = \<lparr>lifecycle_state = state, restart_after_stop = restart,
                      generation_requires_replacement = dirty, generation = n\<rparr>,
      rt_generation = \<lparr>gen_number = n, gen_object = unat (n - 1)\<rparr>,
      rt_pending_start = pending,
      rt_platform_mutation_epoch = (case lease of None \<Rightarrow> 0 | Some e \<Rightarrow> e),
      rt_active_platform_mutation = lease, rt_closed = False,
      rt_observer_generation = n, rt_next_object = unat n\<rparr>"

definition demo_start_input :: ProductStartInput where
  "demo_start_input = \<lparr>start_credential_version = Some 1, start_username = None, start_password = None\<rparr>"

abbreviation demo_generation :: "u64 \<Rightarrow> ProductGeneration" where
  "demo_generation n \<equiv> \<lparr>gen_number = n, gen_object = unat (n - 1)\<rparr>"

lemmas product_eval =
  demo_runtime_def product_new_def lifecycle_new_def install_generation_def rt_request_start_def
  rt_request_stop_def begin_stopped_platform_mutation_def run_start_enter_def run_start_publish_def
  still_starting_def complete_failed_start_after_cleanup_def run_stop_enter_def
  complete_stop_after_cleanup_def run_stop_restart_def request_start_def request_stop_def
  complete_start_def complete_stop_def advance_if_def advance_generation_def checked_add_def
  can_mutate_stopped_generation_def Let_def

lemma step_chain: "product_steps strict s s' \<Longrightarrow> product_step strict s' s'' \<Longrightarrow> product_steps strict s s''"
  by (rule rtranclp.rtrancl_into_rtrancl)

lemma demo_start:
  assumes "n \<in> {1, 2}"
  shows "product_steps strict (system (demo_runtime Stopped False False n None None) T L)
    (system (demo_runtime Starting False False n None None) (add_mset (RunStart n demo_start_input) T) L)"
proof -
  let ?st = "demo_runtime Starting False False n None None"
  have "product_step strict (system (demo_runtime Stopped False False n None None) T L)
      (system ?st (mset [SubmitStart n demo_start_input] + T) L)"
    by (rule product_step.request_start [of _ demo_start_input True "Inr StartNow"])
       (simp add: product_eval)
  moreover have "product_step strict (system ?st (mset [SubmitStart n demo_start_input] + T) L)
      (system ?st (add_mset (RunStart n demo_start_input) T) L)"
    using product_step.spawn_start [of strict ?st n demo_start_input T L] by simp
  ultimately show ?thesis by (meson r_into_rtranclp step_chain)
qed

lemma demo_launch:
  "product_step strict
    (system (demo_runtime Starting False False n None lease) (add_mset (RunStart n input) T) L)
    (system (demo_runtime Starting False False n None lease)
       (add_mset (Launching n (demo_generation n)) T) (demo_generation n # L))"
  by (rule product_step.launch) (simp add: product_eval)

lemma demo_restart_queued:
  "product_steps strict product_init
    (system (demo_runtime Stopped False False 2 None None) {#Restarting demo_start_input#} [demo_generation 1])"
proof -
  let ?L = "[demo_generation 1]" and ?i = demo_start_input
  let ?stopping = "demo_runtime Stopping False False 1 None None"
  let ?queued = "demo_runtime Stopping True False 1 (Some ?i) None"
  have "product_new = demo_runtime Stopped False False 1 None None"
    by (simp add: product_eval)
  with demo_start [of 1 strict "{#}" "[]"] demo_launch [of strict 1 None ?i "{#}" "[]"]
  have "product_steps strict product_init (system (demo_runtime Starting False False 1 None None)
      {#Launching 1 (demo_generation 1)#} ?L)"
    using step_chain by simp
  moreover have "product_step strict (system (demo_runtime Starting False False 1 None None)
      {#Launching 1 (demo_generation 1)#} ?L) (system (demo_runtime Running False False 1 None None) {#} ?L)"
    using product_step.launched [of strict "demo_runtime Starting False False 1 None None" 1
        "demo_generation 1" "{#}" ?L] by (simp add: product_eval)
  moreover have "product_step strict (system (demo_runtime Running False False 1 None None) {#} ?L)
      (system ?stopping (mset [SubmitStop 1] + {#}) ?L)"
    by (rule product_step.request_stop [of _ StopNow]) (simp add: product_eval)
  moreover have "product_step strict (system ?stopping (mset [SubmitStop 1] + {#}) ?L)
      (system ?stopping {#RunStop 1#} ?L)"
    using product_step.spawn_stop [of strict ?stopping 1 "{#}" ?L] by simp
  moreover have "product_step strict (system ?stopping {#RunStop 1#} ?L)
      (system ?stopping {#DrainingStop 1 (demo_generation 1)#} ?L)"
    by (rule product_step.stop_drain) (simp add: product_eval)
  moreover have "product_step strict (system ?stopping {#DrainingStop 1 (demo_generation 1)#} ?L)
      (system ?queued (mset [] + {#DrainingStop 1 (demo_generation 1)#}) ?L)"
    by (rule product_step.request_start [of _ ?i True "Inr QueuedAfterStop"]) (simp add: product_eval)
  moreover have "product_step strict (system ?queued (mset [] + {#DrainingStop 1 (demo_generation 1)#}) ?L)
      (system (demo_runtime Stopped False False 2 None None) {#Restarting ?i#} ?L)"
    using product_step.stop_restart [of ?queued 1 True True ?i "demo_runtime Stopped False False 2 None None"
        strict "demo_generation 1" "{#}" ?L] by (simp add: product_eval)
  ultimately show ?thesis by (meson step_chain)
qed

lemma demo_restarted:
  "product_step strict
    (system (demo_runtime Stopped False False 2 None lease) {#Restarting demo_start_input#} L)
    (system (demo_runtime Starting False False 2 None lease) {#RunStart 2 demo_start_input#} L)"
  using product_step.restart [of "demo_runtime Stopped False False 2 None lease" demo_start_input
      "demo_runtime Starting False False 2 None lease" "[RunStart 2 demo_start_input]" strict "{#}" L]
  by (simp add: product_eval)

theorem generation_launched_once_witness:
  "\<exists>s. product_steps True product_init s \<and> length (sys_launches s) = 2 \<and>
     distinct (map gen_object (sys_launches s))"
proof -
  let ?s = "system (demo_runtime Starting False False 2 None None)
      {#Launching 2 (demo_generation 2)#} [demo_generation 2, demo_generation 1]"
  have run: "product_steps True product_init ?s"
    using demo_restart_queued demo_restarted demo_launch step_chain by meson
  from generation_launched_once [OF run] run show ?thesis by (intro exI [of _ ?s]) simp
qed

lemma demo_lease:
  "product_step strict (system (demo_runtime Stopped False False 2 None None) T L)
    (system (demo_runtime Stopped False False 2 None (Some 1)) T L)"
  by (rule product_step.begin_mutation [of _ "Some 1"]) (simp add: product_eval)

text \<open>A start that fails with an unclean cleanup leaves the generation marked for replacement.\<close>

lemma demo_failed_start:
  "product_steps strict
    (system (demo_runtime Starting False False 2 None None) (add_mset (Launching 2 (demo_generation 2)) T) L)
    (system (demo_runtime Stopped False True 2 None None) T L)"
proof -
  let ?st = "demo_runtime Starting False False 2 None None" and ?g = "demo_generation 2"
  have "product_step strict (system ?st (add_mset (Launching 2 ?g) T) L)
      (system ?st (add_mset (FailedStart 2 ?g) T) L)"
    by (rule product_step.launch_failed)
  moreover have "product_step strict (system ?st (add_mset (FailedStart 2 ?g) T) L)
      (system ?st (add_mset (DrainingFailedStart 2 ?g) T) L)"
    by (rule product_step.failed_drain) (simp add: product_eval)
  moreover have "product_step strict (system ?st (add_mset (DrainingFailedStart 2 ?g) T) L)
      (system (demo_runtime Stopped False True 2 None None) T L)"
    using product_step.failed_done [of strict ?st 2 ?g T L False True] by (simp add: product_eval)
  ultimately show ?thesis by (meson r_into_rtranclp step_chain)
qed

lemma demo_dirty_restart:
  "product_steps False
    (system (demo_runtime Stopped False True 2 None None) {#Restarting demo_start_input#} L)
    (system (demo_runtime Starting False True 2 None None) {#Launching 2 (demo_generation 2)#}
      (demo_generation 2 # L))"
proof -
  let ?st = "demo_runtime Starting False True 2 None None"
  have "product_step False (system (demo_runtime Stopped False True 2 None None) {#Restarting demo_start_input#} L)
      (system ?st {#RunStart 2 demo_start_input#} L)"
    using product_step.restart [of "demo_runtime Stopped False True 2 None None" demo_start_input ?st
        "[RunStart 2 demo_start_input]" False "{#}" L] by (simp add: product_eval)
  moreover have "product_step False (system ?st {#RunStart 2 demo_start_input#} L)
      (system ?st {#Launching 2 (demo_generation 2)#} (demo_generation 2 # L))"
    by (rule product_step.launch) (simp add: product_eval)
  ultimately show ?thesis by (meson r_into_rtranclp step_chain)
qed

text \<open>C16. The restart after a stop repeats none of the checks an explicit start makes. There is an
  execution that launches a generation while a stopped-only platform mutation holds its lease, and
  one in which a generation object is launched twice while the lifecycle marks the generation for
  replacement.\<close>

theorem restart_skips_start_checks:
  "(\<exists>s. product_steps False product_init s \<and>
      lifecycle_state (rt_lifecycle (sys_runtime s)) = Starting \<and>
      rt_active_platform_mutation (sys_runtime s) = Some 1 \<and>
      rt_generation (sys_runtime s) \<in> set (sys_launches s)) \<and>
   (\<exists>s. product_steps False product_init s \<and>
      generation_requires_replacement (rt_lifecycle (sys_runtime s)) \<and>
      \<not> distinct (map gen_object (sys_launches s)))"
proof
  let ?R = "{#Restarting demo_start_input#}" and ?g = "demo_generation 2"
  let ?leased = "demo_runtime Starting False False 2 None (Some 1)"
  let ?s = "system ?leased {#Launching 2 ?g#} [?g, demo_generation 1]"
  have "product_steps False product_init ?s"
    using demo_restart_queued demo_lease demo_restarted demo_launch step_chain by meson
  then show "\<exists>s. product_steps False product_init s \<and>
      lifecycle_state (rt_lifecycle (sys_runtime s)) = Starting \<and>
      rt_active_platform_mutation (sys_runtime s) = Some 1 \<and>
      rt_generation (sys_runtime s) \<in> set (sys_launches s)"
    by (intro exI [of _ ?s]) (simp add: demo_runtime_def)
  let ?t = "system (demo_runtime Starting False True 2 None None) {#Launching 2 ?g#}
      [?g, ?g, demo_generation 1]"
  have "product_steps False product_init
      (system (demo_runtime Starting False False 2 None None)
        (add_mset (RunStart 2 demo_start_input) ?R) [demo_generation 1])"
    by (rule rtranclp_trans [OF demo_restart_queued demo_start]) simp
  then have "product_steps False product_init
      (system (demo_runtime Starting False False 2 None None) (add_mset (Launching 2 ?g) ?R)
        [?g, demo_generation 1])"
    using demo_launch step_chain by meson
  then have "product_steps False product_init ?t"
    using demo_failed_start demo_dirty_restart by (meson rtranclp_trans)
  then show "\<exists>s. product_steps False product_init s \<and>
      generation_requires_replacement (rt_lifecycle (sys_runtime s)) \<and>
      \<not> distinct (map gen_object (sys_launches s))"
    by (intro exI [of _ ?t]) (simp add: demo_runtime_def)
qed

end
