(* ===== verification/Platform_Facts.thy ===== *)
theory Platform_Facts
  imports Cellular_Egress "HOL-Library.AList"
begin

text \<open>
  The platform facts a product process keeps between generations (\<open>ProductPlatformFacts\<close> in
  \<open>crates/runtime/src/product_runtime.rs\<close>) and their replay into the cellular owner of a fresh
  generation. The hash map is an association list with at most one entry per network. The lemmas
  relate the replayed owner to the one that saw every event: a restart keeps the admitted network.
\<close>

record StoredCellularObservation =
  stored_sequence :: u64
  stored_observation :: NetworkObservation
  stored_interface_name :: "string option"

record ProductPlatformFacts =
  facts_cellular :: "(NetworkHandle \<times> StoredCellularObservation) list"
  last_cellular_sequence :: "u64 option"
  last_cellular_loss :: "(u64 \<times> NetworkHandle) option"

definition facts_new :: ProductPlatformFacts where
  "facts_new = \<lparr>facts_cellular = [], last_cellular_sequence = None, last_cellular_loss = None\<rparr>"

definition stale_fact :: "ProductPlatformFacts \<Rightarrow> u64 \<Rightarrow> bool" where
  "stale_fact f sequence =
     (case last_cellular_sequence f of None \<Rightarrow> False | Some newest \<Rightarrow> sequence \<le> newest)"

definition record_cellular_observation ::
    "ProductPlatformFacts \<Rightarrow> u64 \<Rightarrow> NetworkObservation \<Rightarrow> NetworkHandle \<Rightarrow> string option \<Rightarrow>
     ProductPlatformFacts" where
  "record_cellular_observation f sequence obs observed_handle interface_name =
     (if stale_fact f sequence then f
      else \<lparr>facts_cellular = AList.update observed_handle
              \<lparr>stored_sequence = sequence, stored_observation = obs,
               stored_interface_name = interface_name\<rparr> (facts_cellular f),
            last_cellular_sequence = Some sequence, last_cellular_loss = None\<rparr>)"

definition record_cellular_loss ::
    "ProductPlatformFacts \<Rightarrow> u64 \<Rightarrow> NetworkHandle \<Rightarrow> ProductPlatformFacts" where
  "record_cellular_loss f sequence observed_handle =
     (if stale_fact f sequence then f
      else \<lparr>facts_cellular = AList.delete observed_handle (facts_cellular f),
            last_cellular_sequence = Some sequence,
            last_cellular_loss = Some (sequence, observed_handle)\<rparr>)"

definition clear_cellular :: "ProductPlatformFacts \<Rightarrow> ProductPlatformFacts" where
  "clear_cellular f = \<lparr>facts_cellular = [], last_cellular_sequence = None, last_cellular_loss = None\<rparr>"

definition cellular_replay :: "ProductPlatformFacts \<Rightarrow> StoredCellularObservation list" where
  "cellular_replay f = sort_key stored_sequence (map snd (facts_cellular f))"

text \<open>The cellular part of \<open>replay_platform_facts\<close>: the events the fresh owner is given. A stored loss with the
  sequence 0, for which the code reports a failed replay, cannot arise: \<open>network_lost\<close> refuses that number.\<close>

definition replay_events :: "ProductPlatformFacts \<Rightarrow> CellularEvent list" where
  "replay_events f =
     (let cellular = cellular_replay f
      in map (\<lambda>s. Observe (stored_observation s)) cellular @
         (if cellular = [] then
            (case last_cellular_loss f of
               None \<Rightarrow> []
             | Some (sequence, handle) \<Rightarrow>
                 (case ObservationSequence_new sequence of
                    None \<Rightarrow> [] | Some q \<Rightarrow> [Lost q handle]))
          else []))"

text \<open>The process records every platform event before it forwards it to the running generation.\<close>

fun facts_step :: "ProductPlatformFacts \<Rightarrow> CellularEvent \<Rightarrow> ProductPlatformFacts" where
  "facts_step f (Observe obs) =
     record_cellular_observation f (obs_sequence obs) obs (obs_handle obs) None"
| "facts_step f (Lost sequence handle) = record_cellular_loss f sequence handle"

subsection \<open>What the facts retain\<close>

definition stored_for :: "ProductPlatformFacts \<Rightarrow> NetworkHandle \<Rightarrow> StoredCellularObservation option" where
  "stored_for f h = map_of (facts_cellular f) h"

definition qualifies :: "StoredCellularObservation \<Rightarrow> bool" where
  "qualifies s \<longleftrightarrow> admits (Observe (stored_observation s)) (obs_handle (stored_observation s))"

definition facts_inv :: "ProductPlatformFacts \<Rightarrow> bool" where
  "facts_inv f \<longleftrightarrow>
     distinct (map fst (facts_cellular f)) \<and>
     (\<forall>h s. stored_for f h = Some s \<longrightarrow>
        obs_handle (stored_observation s) = h \<and> obs_sequence (stored_observation s) = stored_sequence s \<and>
        stale_fact f (stored_sequence s)) \<and>
     (\<forall>h s h' s'. stored_for f h = Some s \<longrightarrow> stored_for f h' = Some s' \<longrightarrow>
        stored_sequence s = stored_sequence s' \<longrightarrow> h = h')"

text \<open>The owner's admitted network is stored, qualifies, and is the newest that qualifies.\<close>

definition newest_qualifying :: "ProductPlatformFacts \<Rightarrow> NetworkHandle \<Rightarrow> bool" where
  "newest_qualifying f h \<longleftrightarrow>
     (\<exists>s. stored_for f h = Some s \<and> qualifies s \<and>
        (\<forall>h' s'. stored_for f h' = Some s' \<longrightarrow> qualifies s' \<longrightarrow> stored_sequence s' \<le> stored_sequence s))"

definition facts_match :: "CellularEgress \<Rightarrow> ProductPlatformFacts \<Rightarrow> bool" where
  "facts_match c f \<longleftrightarrow>
     last_cellular_sequence f = last_sequence (admission c) \<and>
     (\<forall>h. admitted_network (admission c) = Some h \<longrightarrow> newest_qualifying f h)"

lemma stored_for_record:
  "\<not> stale_fact f q \<Longrightarrow> stored_for (record_cellular_observation f q obs h i) h' =
     (if h' = h then Some \<lparr>stored_sequence = q, stored_observation = obs, stored_interface_name = i\<rparr>
      else stored_for f h')"
  by (simp add: record_cellular_observation_def stored_for_def update_conv')

lemma stored_for_loss:
  "\<not> stale_fact f q \<Longrightarrow> stored_for (record_cellular_loss f q h) h' =
     (if h' = h then None else stored_for f h')"
  by (simp add: record_cellular_loss_def stored_for_def delete_conv')

lemma facts_step_stale: "stale_fact f (event_sequence e) \<Longrightarrow> facts_step f e = f"
  by (cases e) (simp_all add: record_cellular_observation_def record_cellular_loss_def)

lemma facts_step_sequence:
  "\<not> stale_fact f (event_sequence e) \<Longrightarrow> last_cellular_sequence (facts_step f e) = Some (event_sequence e)"
  by (cases e) (simp_all add: record_cellular_observation_def record_cellular_loss_def)

lemma facts_step_inv: "facts_inv f \<Longrightarrow> facts_inv (facts_step f e)"
proof (cases "stale_fact f (event_sequence e)")
  case True
  then show "facts_inv f \<Longrightarrow> ?thesis" by (simp add: facts_step_stale)
next
  case fresh: False
  assume inv: "facts_inv f"
  have older: "stored_sequence s < event_sequence e" if "stored_for f h = Some s" for h s
    using inv fresh that by (fastforce simp: facts_inv_def stale_fact_def split: option.splits)
  have stale': "stale_fact (facts_step f e) q \<longleftrightarrow> q \<le> event_sequence e" for q
    using facts_step_sequence [OF fresh] by (simp add: stale_fact_def)
  show ?thesis
  proof (cases e)
    case (Observe obs)
    note st = stored_for_record [of f "obs_sequence obs" obs "obs_handle obs" None]
    have "distinct (map fst (facts_cellular (facts_step f e)))"
      using inv fresh Observe
      by (simp add: facts_inv_def record_cellular_observation_def distinct_update)
    with inv older fresh show ?thesis
      unfolding facts_inv_def stale'
      by (auto simp: Observe st less_imp_le split: if_splits dest: older)
  next
    case (Lost q h)
    note st = stored_for_loss [of f q h]
    have "distinct (map fst (facts_cellular (facts_step f e)))"
      using inv fresh Lost by (simp add: facts_inv_def record_cellular_loss_def distinct_delete)
    with inv older fresh show ?thesis
      unfolding facts_inv_def stale'
      by (auto simp: Lost st less_imp_le split: if_splits)
  qed
qed

interpretation facts: guarded_machine facts_new facts_step facts_inv
proof
  show "facts_inv facts_new" by (simp add: facts_inv_def facts_new_def stored_for_def)
qed (rule facts_step_inv)

lemma newest_qualifying_record:
  assumes "facts_inv f" "\<not> stale_fact f (obs_sequence obs)" "admits (Observe obs) (obs_handle obs)"
  shows "newest_qualifying (facts_step f (Observe obs)) (obs_handle obs)"
proof -
  have "stored_sequence s \<le> obs_sequence obs" if "stored_for f h = Some s" for h s
    using assms(1,2) that by (fastforce simp: facts_inv_def stale_fact_def split: option.splits)
  with assms(2,3) show ?thesis
    by (auto simp: newest_qualifying_def qualifies_def stored_for_record)
qed

lemma newest_qualifying_kept:
  assumes "newest_qualifying f h" "\<not> stale_fact f (event_sequence e)" "\<not> displaces e h" "\<not> admits e h"
  shows "newest_qualifying (facts_step f e) h"
proof (cases e)
  case (Observe obs)
  with assms(3,4) have other: "obs_handle obs \<noteq> h" "\<not> admits (Observe obs) (obs_handle obs)"
    by (auto split: if_splits)
  with assms(1,2) Observe show ?thesis
    unfolding newest_qualifying_def by (fastforce simp: qualifies_def stored_for_record)
next
  case (Lost q h')
  with assms(1-3) show ?thesis
    unfolding newest_qualifying_def by (fastforce simp: stored_for_loss)
qed

lemma facts_match_step:
  assumes "facts_inv f" "cellular_inv c" "facts_match c f"
  shows "facts_match (cellular_step c e) (facts_step f e)"
proof (cases "is_stale c (event_sequence e)")
  case True
  then have "stale_fact f (event_sequence e)"
    using assms(3) by (simp add: is_stale_def stale_fact_def facts_match_def)
  with True assms(3) show ?thesis by (simp add: stale_step facts_step_stale)
next
  case fresh: False
  then have fresh': "\<not> stale_fact f (event_sequence e)"
    using assms(3) by (simp add: is_stale_def stale_fact_def facts_match_def)
  have "newest_qualifying (facts_step f e) h"
    if adm: "admitted_network (admission (cellular_step c e)) = Some h" for h
  proof (cases "admits e h")
    case True
    then obtain obs where "e = Observe obs" "obs_handle obs = h" by (cases e) auto
    with True fresh' assms(1) show ?thesis using newest_qualifying_record [of f obs] by simp
  next
    case False
    with adm have "admitted_network (admission c) = Some h" "\<not> displaces e h"
      using fresh_step_admitted [OF assms(2) fresh, of h] by simp_all
    with assms(3) False fresh' show ?thesis
      by (intro newest_qualifying_kept) (simp_all add: facts_match_def)
  qed
  then show ?thesis
    using fresh_step_sequence [OF fresh] facts_step_sequence [OF fresh'] by (simp add: facts_match_def)
qed

lemma facts_match_run: "facts_match (cellular_run es) (foldl facts_step facts_new es)"
proof (induction es rule: rev_induct)
  case Nil
  show ?case by (simp add: facts_match_def cellular_new_def facts_new_def)
next
  case (snoc e es)
  then show ?case
    using facts_match_step [OF facts.inv_reachable cellular.inv_reachable] by simp
qed

subsection \<open>Replay\<close>

lemma applied_log_fresh:
  "sorted_wrt (<) (map event_sequence es) \<Longrightarrow> (\<forall>e \<in> set es. \<not> is_stale c (event_sequence e)) \<Longrightarrow>
     applied_log c es = es"
proof (induction es arbitrary: c)
  case (Cons e es)
  have "\<not> is_stale (cellular_step c e) (event_sequence d)" if "d \<in> set es" for d
    using Cons.prems that fresh_step_sequence [of c e] by (auto simp: is_stale_def not_le)
  with Cons show ?case by simp
qed simp

lemma stored_for_iff:
  "facts_inv f \<Longrightarrow> stored_for f h = Some s \<longleftrightarrow> (h, s) \<in> set (facts_cellular f)"
  by (simp add: facts_inv_def stored_for_def map_of_eq_Some_iff)

lemma stored_sequence_inj:
  "facts_inv f \<Longrightarrow> stored_for f h = Some s \<Longrightarrow> stored_for f h' = Some s' \<Longrightarrow>
     stored_sequence s = stored_sequence s' \<Longrightarrow> h = h'"
  unfolding facts_inv_def by blast

lemma set_cellular_replay:
  assumes "facts_inv f"
  shows "s \<in> set (cellular_replay f) \<longleftrightarrow> (\<exists>h. stored_for f h = Some s)"
  by (force simp: cellular_replay_def stored_for_iff [OF assms])

lemma distinct_stored_sequences:
  assumes "facts_inv f"
  shows "distinct (map stored_sequence (map snd (facts_cellular f)))"
proof -
  have "inj_on (stored_sequence \<circ> snd) (set (facts_cellular f))"
  proof (rule inj_onI)
    fix x y assume xy: "x \<in> set (facts_cellular f)" "y \<in> set (facts_cellular f)"
      "(stored_sequence \<circ> snd) x = (stored_sequence \<circ> snd) y"
    have x: "stored_for f (fst x) = Some (snd x)" and y: "stored_for f (fst y) = Some (snd y)"
      using xy by (simp_all add: stored_for_iff [OF assms])
    have "fst x = fst y" using stored_sequence_inj [OF assms x y] xy(3) by simp
    moreover from this have "snd x = snd y" using x y by simp
    ultimately show "x = y" by (rule prod_eqI)
  qed
  moreover have "distinct (facts_cellular f)"
    using assms by (simp add: facts_inv_def distinct_map)
  ultimately show ?thesis by (simp add: distinct_map)
qed

lemma cellular_replay_sorted:
  assumes "facts_inv f"
  shows "sorted_wrt (<) (map stored_sequence (cellular_replay f))"
proof -
  have "distinct (map stored_sequence (cellular_replay f))"
    using distinct_stored_sequences [OF assms] unfolding cellular_replay_def
    by (simp only: distinct_map distinct_sort set_sort)
  then show ?thesis by (simp add: cellular_replay_def strict_sorted_iff)
qed

lemma replay_log_admits:
  assumes inv: "facts_inv f" and newest: "newest_qualifying f h"
  shows "log_admits (map (\<lambda>s. Observe (stored_observation s)) (cellular_replay f)) h"
proof -
  from newest obtain s where s: "stored_for f h = Some s" "qualifies s"
    "\<And>h' s'. stored_for f h' = Some s' \<Longrightarrow> qualifies s' \<Longrightarrow> stored_sequence s' \<le> stored_sequence s"
    by (auto simp: newest_qualifying_def)
  have h: "obs_handle (stored_observation s) = h" using inv s(1) by (simp add: facts_inv_def)
  from s(1) inv obtain pre post where l: "cellular_replay f = pre @ s # post"
    by (metis set_cellular_replay split_list)
  have "\<not> displaces (Observe (stored_observation d)) h" if d: "d \<in> set post" for d
  proof -
    have lt: "stored_sequence s < stored_sequence d"
      using cellular_replay_sorted [OF inv] d by (auto simp: l sorted_wrt_append)
    obtain h' where h': "stored_for f h' = Some d"
      using d inv l by (metis set_cellular_replay in_set_conv_decomp list.set_intros(2) Un_iff set_append)
    with s(3) lt have "\<not> qualifies d" by (force simp: not_le [symmetric])
    moreover have "obs_handle (stored_observation d) = h'" using inv h' by (simp add: facts_inv_def)
    moreover have "h' \<noteq> h" using h' s(1) lt by auto
    ultimately show ?thesis by (simp add: qualifies_def)
  qed
  with s(2) h show ?thesis
    unfolding log_admits_def l
    by (intro exI [of _ "map (\<lambda>s. Observe (stored_observation s)) pre"] exI conjI) (auto simp: qualifies_def)
qed

text \<open>C17. Replacing a generation does not lose the network. Whatever platform events were seen, if
  the owner that saw all of them has a network admitted, then a fresh owner that is given only the
  retained facts admits the same network.\<close>

theorem replay_keeps_admitted_network:
  assumes "admitted_network (admission (cellular_run es)) = Some h"
  shows "admitted_network (admission (cellular_run
    (replay_events (foldl facts_step facts_new es)))) = Some h"
proof -
  let ?f = "foldl facts_step facts_new es"
  let ?l = "map (\<lambda>s. Observe (stored_observation s)) (cellular_replay ?f)"
  have inv: "facts_inv ?f" by (rule facts.inv_reachable)
  have newest: "newest_qualifying ?f h" using facts_match_run [of es] assms by (simp add: facts_match_def)
  have log: "log_admits ?l h" by (rule replay_log_admits [OF inv newest])
  then have "?l \<noteq> []" by (auto simp: log_admits_def)
  then have ev: "replay_events ?f = ?l" by (simp add: replay_events_def Let_def)
  have seqs: "map event_sequence ?l = map stored_sequence (cellular_replay ?f)"
    using inv set_cellular_replay [OF inv] by (auto simp: facts_inv_def)
  have "applied_log cellular_new ?l = ?l"
  proof (rule applied_log_fresh)
    show "sorted_wrt (<) (map event_sequence ?l)"
      unfolding seqs by (rule cellular_replay_sorted [OF inv])
  qed (simp add: is_stale_def cellular_new_def)
  with log ev show ?thesis by (simp add: admitted_log_iff)
qed

theorem replay_keeps_admitted_network_witness:
  "admitted_network (admission (cellular_run (replay_events (foldl facts_step facts_new
     [Observe (demo_observation 4 9), Observe (demo_observation 6 8), Lost 7 9])))) = Some 8"
proof -
  have "admitted_network (admission (cellular_run
      [Observe (demo_observation 4 9), Observe (demo_observation 6 8), Lost 7 9])) = Some 8"
    by (simp add: demo_observation_def cellular_new_def observe_def lost_def rejection_reason_def Let_def
          is_stale_def)
  from replay_keeps_admitted_network [OF this] show ?thesis .
qed

end
