(* ===== verification/Proto_Wire.thy ===== *)
theory Proto_Wire
  imports Mish_Prelude
begin

text \<open>
  The protobuf subset of the credential records (\<open>crates/credentials/src/proto.rs\<close>). A writer
  returns the bytes it appends; a reader is the unread rest of its input, and \<open>None\<close> is the
  \<open>ProtoError\<close>. The lemmas are the round trips of varints, tags and byte fields, and that every
  read consumes input, which bounds the decoding loops.
\<close>

definition WIRE_VARINT :: u8 where "WIRE_VARINT = 0"
definition WIRE_FIXED64 :: u8 where "WIRE_FIXED64 = 1"
definition WIRE_LENGTH_DELIMITED :: u8 where "WIRE_LENGTH_DELIMITED = 2"
definition WIRE_FIXED32 :: u8 where "WIRE_FIXED32 = 5"

lemmas wire_types = WIRE_VARINT_def WIRE_FIXED64_def WIRE_LENGTH_DELIMITED_def WIRE_FIXED32_def

lemma shift_less: "0x80 \<le> remaining \<Longrightarrow> unat (drop_bit 7 remaining) < unat (remaining :: u64)"
  by (simp add: word_le_nat_alt drop_bit_eq_div unat_div)

function write_varint :: "u64 \<Rightarrow> u8 list" where
  "write_varint remaining =
     (if remaining \<ge> 0x80
      then (ucast (remaining AND 0x7f) OR 0x80) # write_varint (drop_bit 7 remaining)
      else [ucast remaining])"
  by pat_completeness auto
termination by (relation "measure unat") (auto simp: shift_less)

declare write_varint.simps [simp del]

definition write_varint_field :: "u32 \<Rightarrow> u64 \<Rightarrow> u8 list" where
  "write_varint_field field_number v =
     write_varint (ucast (push_bit 3 field_number OR ucast WIRE_VARINT)) @ write_varint v"

definition write_bytes_field :: "u32 \<Rightarrow> u8 list \<Rightarrow> u8 list" where
  "write_bytes_field field_number v =
     write_varint (ucast (push_bit 3 field_number OR ucast WIRE_LENGTH_DELIMITED)) @
     write_varint (of_nat (length v)) @ v"

record ProtoTag =
  field_number :: u32
  wire_type :: u8

type_synonym ProtoReader = "u8 list"

text \<open>The loop of \<open>read_varint\<close> from a given index, with the bits collected so far.\<close>

fun read_varint_from :: "nat \<Rightarrow> u64 \<Rightarrow> ProtoReader \<Rightarrow> (u64 \<times> ProtoReader) option" where
  "read_varint_from index result [] = None"
| "read_varint_from index result (byte # rest) =
     (if index \<ge> 10 then None
      else if index = 9 \<and> byte AND 0xfe \<noteq> 0 then None
      else
        (let result = result OR push_bit (index * 7) (ucast (byte AND 0x7f))
         in if byte AND 0x80 = 0 then Some (result, rest)
            else read_varint_from (Suc index) result rest))"

definition read_varint :: "ProtoReader \<Rightarrow> (u64 \<times> ProtoReader) option" where
  "read_varint r = read_varint_from 0 0 r"

definition read_tag :: "ProtoReader \<Rightarrow> (ProtoTag \<times> ProtoReader) option" where
  "read_tag r =
     (case read_varint r of
        None \<Rightarrow> None
      | Some (raw, r) \<Rightarrow>
          if raw = 0 \<or> raw > 0xFFFFFFFF then None
          else
            (let number = ucast (drop_bit 3 raw); wire = ucast (raw AND 0x07)
             in if number = 0 then None
                else Some (\<lparr>field_number = number, wire_type = wire\<rparr>, r)))"

definition read_bytes :: "ProtoReader \<Rightarrow> (u8 list \<times> ProtoReader) option" where
  "read_bytes r =
     (case read_varint r of
        None \<Rightarrow> None
      | Some (len, r) \<Rightarrow>
          if unat len \<le> length r then Some (take (unat len) r, drop (unat len) r) else None)"

definition advance :: "nat \<Rightarrow> ProtoReader \<Rightarrow> ProtoReader option" where
  "advance count r = (if count \<le> length r then Some (drop count r) else None)"

definition skip_field :: "u8 \<Rightarrow> ProtoReader \<Rightarrow> ProtoReader option" where
  "skip_field wire r =
     (if wire = WIRE_VARINT then map_option snd (read_varint r)
      else if wire = WIRE_FIXED64 then advance 8 r
      else if wire = WIRE_LENGTH_DELIMITED then
        (case read_varint r of None \<Rightarrow> None | Some (len, r) \<Rightarrow> advance (unat len) r)
      else if wire = WIRE_FIXED32 then advance 4 r
      else None)"

subsection \<open>Progress\<close>

lemma read_varint_from_length:
  "read_varint_from index result r = Some (v, r') \<Longrightarrow> length r' < length r"
  by (induction index result r rule: read_varint_from.induct)
     (auto simp: Let_def split: if_splits)

lemma read_varint_length: "read_varint r = Some (v, r') \<Longrightarrow> length r' < length r"
  by (simp add: read_varint_def read_varint_from_length)

lemma read_tag_length: "read_tag r = Some (t, r') \<Longrightarrow> length r' < length r"
  by (auto simp: read_tag_def Let_def split: option.splits if_splits dest: read_varint_length)

lemma read_bytes_length: "read_bytes r = Some (bs, r') \<Longrightarrow> length r' < length r"
  by (auto simp: read_bytes_def split: option.splits if_splits dest!: read_varint_length)

lemma skip_field_length: "skip_field wire r = Some r' \<Longrightarrow> length r' \<le> length r"
  by (auto simp: skip_field_def advance_def split: option.splits if_splits dest!: read_varint_length)

lemmas proto_lengths = read_varint_length read_tag_length read_bytes_length skip_field_length

subsection \<open>Round trips\<close>

lemma mask7: "0x7f = (mask 7 :: u64)" "0x7f = (mask 7 :: u8)"
  by (simp_all add: mask_eq_exp_minus_1)

text \<open>A continued byte carries the low seven bits and the flag.\<close>

lemma continued_byte:
  "(ucast ((v :: u64) AND 0x7f) OR 0x80) AND 0x80 \<noteq> (0 :: u8)"
  "ucast ((ucast ((v :: u64) AND 0x7f) OR 0x80) AND (0x7f :: u8)) = v AND 0x7f"
proof -
  have "(ucast (v AND 0x7f) OR 0x80) AND 0x80 = (0x80 :: u8)"
    by (simp add: bit.conj_disj_distrib2)
  then show "(ucast (v AND 0x7f) OR 0x80) AND 0x80 \<noteq> (0 :: u8)" by simp
  have "ucast (v AND 0x7f) AND 0x7f = (ucast (v AND 0x7f) :: u8)"
    unfolding mask7 by (rule bit_word_eqI) (auto simp: bit_simps)
  then have "(ucast (v AND 0x7f) OR 0x80) AND 0x7f = (ucast (v AND 0x7f) :: u8)"
    by (simp add: bit.conj_disj_distrib2)
  moreover have "ucast (ucast (v AND 0x7f) :: u8) = v AND 0x7f"
    unfolding mask7 by (rule bit_word_eqI) (auto simp: bit_simps)
  ultimately show "ucast ((ucast (v AND 0x7f) OR 0x80) AND (0x7f :: u8)) = v AND 0x7f" by simp
qed

lemma last_byte:
  assumes "v < (0x80 :: u64)"
  shows "ucast v AND (0x80 :: u8) = 0" "ucast (ucast v AND (0x7f :: u8)) = v"
proof -
  have v: "take_bit 7 v = v"
    using assms by (simp add: word_less_nat_alt word_unat_eq_iff take_bit_eq_mod unat_mod)
  have "ucast (take_bit 7 v) AND (push_bit 7 1 :: u8) = 0"
    by (rule bit_word_eqI) (auto simp: bit_simps simp del: push_bit_of_1)
  then show "ucast v AND (0x80 :: u8) = 0" by (simp add: v)
  have "ucast (ucast (take_bit 7 v) AND (0x7f :: u8)) = take_bit 7 v"
    unfolding mask7 by (rule bit_word_eqI) (auto simp: bit_simps)
  then show "ucast (ucast v AND (0x7f :: u8)) = v" by (simp add: v)
qed

lemma join_bits: "push_bit n ((v :: u64) AND 0x7f) OR push_bit (n + 7) (drop_bit 7 v) = push_bit n v"
proof (rule bit_word_eqI)
  fix k assume "k < LENGTH(64)"
  then show "bit (push_bit n (v AND 0x7f) OR push_bit (n + 7) (drop_bit 7 v)) k = bit (push_bit n v) k"
    unfolding mask7 by (cases "n + 7 \<le> k") (auto simp: bit_simps not_le)
qed

lemma drop_bit_0_less: "drop_bit (Suc 0) (v :: u64) = 0 \<Longrightarrow> v < 2"
proof -
  assume "drop_bit (Suc 0) v = 0"
  then have "drop_bit (Suc 0) (unat v) = 0" unfolding unat_drop_bit_eq [symmetric] by simp
  then show ?thesis by (simp add: word_less_nat_alt drop_bit_eq_div)
qed

lemma read_varint_from_write:
  assumes "index \<le> 9" "drop_bit (64 - index * 7) v = 0"
  shows "read_varint_from index result (write_varint v @ rest) =
    Some (result OR push_bit (index * 7) v, rest)"
  using assms
proof (induction v arbitrary: index result rule: write_varint.induct)
  case (1 v)
  have ninth: "v < 2" if "index = 9" using 1(3) that by (intro drop_bit_0_less) simp
  show ?case
  proof (cases "0x80 \<le> v")
    case True
    then have "index \<noteq> 9" using ninth by (auto simp: word_less_nat_alt word_le_nat_alt)
    then have index: "index < 9" using 1(2) by simp
    have "drop_bit (64 - Suc index * 7) (drop_bit 7 v) = 0"
      using 1(3) index by (simp add: algebra_simps)
    note ih = 1(1) [OF True _ this, of "result OR push_bit (index * 7) (v AND 0x7f)"]
    have "read_varint_from index result (write_varint v @ rest) =
        read_varint_from (Suc index) (result OR push_bit (index * 7) (v AND 0x7f))
          (write_varint (drop_bit 7 v) @ rest)"
      using True index by (simp add: write_varint.simps [of v] continued_byte Let_def)
    also have "\<dots> = Some ((result OR push_bit (index * 7) (v AND 0x7f)) OR
        push_bit (Suc index * 7) (drop_bit 7 v), rest)"
      using ih index by simp
    also have "(result OR push_bit (index * 7) (v AND 0x7f)) OR push_bit (Suc index * 7) (drop_bit 7 v) =
        result OR push_bit (index * 7) v"
      using join_bits [of "index * 7" v] by (simp only: or.assoc mult_Suc add.commute)
    finally show ?thesis .
  next
    case False
    then have small: "v < 0x80" by simp
    have "ucast v AND (0xfe :: u8) = 0" if "index = 9"
    proof -
      have "v = 0 \<or> v = 1" using ninth [OF that] by (simp add: word_less_nat_alt word_unat_eq_iff) linarith
      then show ?thesis by auto
    qed
    with 1(2) last_byte [OF small] False show ?thesis
      by (simp add: write_varint.simps [of v] Let_def)
  qed
qed

lemma read_varint_write [simp]: "read_varint (write_varint v @ rest) = Some (v, rest)"
proof -
  have "drop_bit 64 v = 0" by (rule bit_word_eqI) (simp add: bit_simps)
  then show ?thesis using read_varint_from_write [of 0 v 0 rest] by (simp add: read_varint_def)
qed

lemma write_varint_length: "length (write_varint v) \<ge> 1"
  by (simp add: write_varint.simps [of v])

lemma write_varint_nonempty [simp]: "write_varint v \<noteq> []"
  by (simp add: write_varint.simps [of v])

lemma read_tag_write:
  assumes "n \<in> {1, 2, 3, 4, 5, 6}" "w \<in> {0, 2}"
  shows "read_tag (write_varint (ucast (push_bit 3 (n :: u32) OR ucast (w :: u8))) @ rest) =
    Some (\<lparr>field_number = n, wire_type = w\<rparr>, rest)"
  using assms by (auto simp: read_tag_def)

lemma read_tag_varint_field:
  "n \<in> {1, 2, 3, 4, 5, 6} \<Longrightarrow> read_tag (write_varint_field n v @ rest) =
     Some (\<lparr>field_number = n, wire_type = WIRE_VARINT\<rparr>, write_varint v @ rest)"
  using read_tag_write [of n WIRE_VARINT "write_varint v @ rest"]
  by (simp add: write_varint_field_def WIRE_VARINT_def)

lemma read_tag_bytes_field:
  "n \<in> {1, 2, 3, 4, 5, 6} \<Longrightarrow> read_tag (write_bytes_field n bs @ rest) =
     Some (\<lparr>field_number = n, wire_type = WIRE_LENGTH_DELIMITED\<rparr>,
       write_varint (of_nat (length bs)) @ bs @ rest)"
  using read_tag_write [of n WIRE_LENGTH_DELIMITED "write_varint (of_nat (length bs)) @ bs @ rest"]
  by (simp add: write_bytes_field_def WIRE_LENGTH_DELIMITED_def)

lemma read_bytes_write:
  assumes "length bs < 2 ^ 64"
  shows "read_bytes (write_varint (of_nat (length bs)) @ bs @ rest) = Some (bs, rest)"
proof -
  have "unat (of_nat (length bs) :: u64) = length bs"
    using assms by (simp add: unat_of_nat)
  then show ?thesis by (simp add: read_bytes_def)
qed

lemma field_nonempty [simp]: "write_varint_field n v \<noteq> []" "write_bytes_field n bs \<noteq> []"
  by (simp_all add: write_varint_field_def write_bytes_field_def)

lemma write_varint_bound: "unat v < 2 ^ (7 * k) \<Longrightarrow> 0 < k \<Longrightarrow> length (write_varint v) \<le> k"
proof (induction v arbitrary: k rule: write_varint.induct)
  case (1 v)
  show ?case
  proof (cases "0x80 \<le> v")
    case True
    have k: "k \<noteq> 1" using True 1(2) by (auto simp: word_le_nat_alt)
    then obtain j where j: "k = Suc j" "0 < j" using 1(3) by (cases k) auto
    have "unat (drop_bit 7 v) < 2 ^ (7 * j)"
      using 1(2) by (simp add: j(1) drop_bit_eq_div unat_div power_add div_less_iff_less_mult mult.commute)
    from 1(1) [OF True this j(2)] True j(1) show ?thesis by (simp add: write_varint.simps [of v])
  next
    case False
    with 1(3) show ?thesis by (simp add: write_varint.simps [of v])
  qed
qed

lemma write_varint_max: "length (write_varint v) \<le> 10"
  using unat_bound [of v] by (intro write_varint_bound) simp_all

lemma write_varint_field_max:
  "length (write_varint_field n v) \<le> 20"
  using write_varint_max [of v] write_varint_max [of "ucast (push_bit 3 n OR ucast WIRE_VARINT)"]
  by (simp add: write_varint_field_def)

end
