(* ===== verification/Temporary_Credential.thy ===== *)
theory Temporary_Credential
  imports Proto_Wire Rust_Str
begin

text \<open>
  The temporary credential lease and its durable records
  (\<open>crates/credentials/src/temporary.rs\<close>). The lemmas show which clock readings admit, that every
  lease the code can produce is well formed, and that both record formats are canonical codecs.
\<close>

subsection \<open>The lease\<close>

definition TEMPORARY_CREDENTIAL_TTL_SECONDS :: u64 where
  "TEMPORARY_CREDENTIAL_TTL_SECONDS = 24 * 60 * 60"

datatype TemporaryCredentialStatus = LeaseActive | LeaseExpired | LeaseRevoked

datatype TemporaryCredentialError =
    MissingTrustedClock
  | InvalidActivationTime
  | InvalidGeneration
  | DeadlineOverflow
  | MalformedState
  | NonCanonicalState
  | InvalidCredentialMaterial

record TemporaryCredentialLease =
  lease_generation :: u64
  activated_at_unix_seconds :: u64
  expires_at_unix_seconds :: u64
  last_observed_unix_seconds :: u64
  lease_status :: TemporaryCredentialStatus

definition activate :: "u64 \<Rightarrow> u64 option \<Rightarrow> TemporaryCredentialError + TemporaryCredentialLease" where
  "activate generation trusted_unix_seconds =
     (if generation = 0 then Inl InvalidGeneration
      else rbind (ok_or trusted_unix_seconds MissingTrustedClock) (\<lambda>now.
        if now = 0 then Inl InvalidActivationTime
        else rbind (ok_or (checked_add now TEMPORARY_CREDENTIAL_TTL_SECONDS) DeadlineOverflow) (\<lambda>expires_at.
          Inr \<lparr>lease_generation = generation, activated_at_unix_seconds = now,
               expires_at_unix_seconds = expires_at, last_observed_unix_seconds = now,
               lease_status = LeaseActive\<rparr>)))"

definition lease_revoke :: "TemporaryCredentialLease \<Rightarrow> TemporaryCredentialLease" where
  "lease_revoke lease = lease\<lparr>lease_status := LeaseRevoked\<rparr>"

definition lease_observe ::
    "TemporaryCredentialLease \<Rightarrow> u64 option \<Rightarrow> TemporaryCredentialLease \<times> bool" where
  "lease_observe lease trusted_unix_seconds =
     (if lease_status lease \<noteq> LeaseActive then (lease, False)
      else case trusted_unix_seconds of
        None \<Rightarrow> (lease_revoke lease, False)
      | Some now \<Rightarrow>
          if now < activated_at_unix_seconds lease \<or> now < last_observed_unix_seconds lease
          then (lease_revoke lease, False)
          else if now \<ge> expires_at_unix_seconds lease
          then (lease\<lparr>last_observed_unix_seconds := now, lease_status := LeaseExpired\<rparr>, False)
          else (lease\<lparr>last_observed_unix_seconds := now\<rparr>, True))"

subsection \<open>Durable lease metadata\<close>

definition status_code :: "TemporaryCredentialStatus \<Rightarrow> u64" where
  "status_code s = (case s of LeaseActive \<Rightarrow> 1 | LeaseExpired \<Rightarrow> 2 | LeaseRevoked \<Rightarrow> 3)"

definition encode_temporary_lease :: "TemporaryCredentialLease \<Rightarrow> u8 list" where
  "encode_temporary_lease lease =
     write_varint_field 1 (lease_generation lease) @
     write_varint_field 2 (activated_at_unix_seconds lease) @
     write_varint_field 3 (expires_at_unix_seconds lease) @
     write_varint_field 4 (last_observed_unix_seconds lease) @
     write_varint_field 5 (status_code (lease_status lease))"

text \<open>The decoding loop over the five slots.\<close>

function lease_fields :: "u64 option list \<Rightarrow> ProtoReader \<Rightarrow> TemporaryCredentialError + u64 option list" where
  "lease_fields slots r =
     (if r = [] then Inr slots
      else case read_tag r of
        None \<Rightarrow> Inl MalformedState
      | Some (tag, r') \<Rightarrow>
          if \<not> (1 \<le> field_number tag \<and> field_number tag \<le> 5) \<or> wire_type tag \<noteq> WIRE_VARINT
          then Inl MalformedState
          else if slots ! (unat (field_number tag) - 1) \<noteq> None then Inl MalformedState
          else case read_varint r' of
            None \<Rightarrow> Inl MalformedState
          | Some (v, r'') \<Rightarrow> lease_fields (slots[unat (field_number tag) - 1 := Some v]) r'')"
  by pat_completeness auto
termination
  by (relation "measure (\<lambda>(slots, r). length r)") (auto dest!: proto_lengths)

declare lease_fields.simps [simp del]

definition decode_status :: "u64 \<Rightarrow> u64 \<Rightarrow> u64 \<Rightarrow> TemporaryCredentialStatus option" where
  "decode_status code observed end_at =
     (if code = 1 \<and> observed < end_at then Some LeaseActive
      else if code = 2 \<and> observed \<ge> end_at then Some LeaseExpired
      else if code = 3 then Some LeaseRevoked
      else None)"

definition lease_from_fields ::
    "u64 \<Rightarrow> u64 \<Rightarrow> u64 \<Rightarrow> u64 \<Rightarrow> u64 \<Rightarrow> u8 list \<Rightarrow> TemporaryCredentialError + TemporaryCredentialLease" where
  "lease_from_fields generation start end_at observed status input =
     (if generation = 0 \<or> start = 0 \<or>
         checked_add start TEMPORARY_CREDENTIAL_TTL_SECONDS \<noteq> Some end_at \<or> observed < start
      then Inl MalformedState
      else rbind (ok_or (decode_status status observed end_at) MalformedState) (\<lambda>status.
        let state = \<lparr>lease_generation = generation, activated_at_unix_seconds = start,
                     expires_at_unix_seconds = end_at, last_observed_unix_seconds = observed,
                     lease_status = status\<rparr>
        in if encode_temporary_lease state \<noteq> input then Inl NonCanonicalState else Inr state))"

definition decode_temporary_lease ::
    "u8 list \<Rightarrow> TemporaryCredentialError + TemporaryCredentialLease" where
  "decode_temporary_lease input =
     rbind (lease_fields [None, None, None, None, None] input) (\<lambda>slots.
       rbind (ok_or (slots ! 0) MalformedState) (\<lambda>generation.
       rbind (ok_or (slots ! 1) MalformedState) (\<lambda>start.
       rbind (ok_or (slots ! 2) MalformedState) (\<lambda>end_at.
       rbind (ok_or (slots ! 3) MalformedState) (\<lambda>observed.
       rbind (ok_or (slots ! 4) MalformedState) (\<lambda>status.
         lease_from_fields generation start end_at observed status input))))))"

subsection \<open>The sensitive record\<close>

record TemporaryCredentialRecord =
  record_lease :: TemporaryCredentialLease
  record_username :: string
  record_password :: string

definition credential_material_ok :: "string \<Rightarrow> string \<Rightarrow> bool" where
  "credential_material_ok username password \<longleftrightarrow>
     \<not> (trim username = [] \<or> trim password = [] \<or> length username > 255 \<or> length password > 255 \<or>
        0 \<in> set (as_bytes username) \<or> 0 \<in> set (as_bytes password))"

definition issue ::
    "u64 \<Rightarrow> u64 option \<Rightarrow> string \<Rightarrow> string \<Rightarrow> TemporaryCredentialError + TemporaryCredentialRecord" where
  "issue generation trusted_unix_seconds username password =
     (if \<not> credential_material_ok username password then Inl InvalidCredentialMaterial
      else rbind (activate generation trusted_unix_seconds) (\<lambda>lease.
        Inr \<lparr>record_lease = lease, record_username = username, record_password = password\<rparr>))"

definition record_observe ::
    "TemporaryCredentialRecord \<Rightarrow> u64 option \<Rightarrow> TemporaryCredentialRecord \<times> bool" where
  "record_observe rec trusted_unix_seconds =
     (case lease_observe (record_lease rec) trusted_unix_seconds of
        (lease, admitted) \<Rightarrow> (rec\<lparr>record_lease := lease\<rparr>, admitted))"

definition record_revoke :: "TemporaryCredentialRecord \<Rightarrow> TemporaryCredentialRecord" where
  "record_revoke rec = rec\<lparr>record_lease := lease_revoke (record_lease rec)\<rparr>"

definition encode_temporary_record :: "TemporaryCredentialRecord \<Rightarrow> u8 list" where
  "encode_temporary_record rec =
     write_varint_field 1 1 @
     write_bytes_field 2 (encode_temporary_lease (record_lease rec)) @
     write_bytes_field 3 (as_bytes (record_username rec)) @
     write_bytes_field 4 (as_bytes (record_password rec))"

record record_fields =
  rf_schema :: "u64 option"
  rf_lease :: "TemporaryCredentialLease option"
  rf_username :: "string option"
  rf_password :: "string option"

function read_record_fields ::
    "record_fields \<Rightarrow> ProtoReader \<Rightarrow> TemporaryCredentialError + record_fields" where
  "read_record_fields f r =
     (if r = [] then Inr f
      else case read_tag r of
        None \<Rightarrow> Inl MalformedState
      | Some (tag, r') \<Rightarrow>
          if field_number tag = 1 \<and> wire_type tag = WIRE_VARINT \<and> rf_schema f = None then
            (case read_varint r' of
               None \<Rightarrow> Inl MalformedState
             | Some (v, r'') \<Rightarrow> read_record_fields (f\<lparr>rf_schema := Some v\<rparr>) r'')
          else if field_number tag = 2 \<and> wire_type tag = WIRE_LENGTH_DELIMITED \<and> rf_lease f = None then
            (case read_bytes r' of
               None \<Rightarrow> Inl MalformedState
             | Some (bs, r'') \<Rightarrow>
                 (case decode_temporary_lease bs of
                    Inl e \<Rightarrow> Inl e
                  | Inr lease \<Rightarrow> read_record_fields (f\<lparr>rf_lease := Some lease\<rparr>) r''))
          else if field_number tag = 3 \<and> wire_type tag = WIRE_LENGTH_DELIMITED \<and> rf_username f = None then
            (case read_bytes r' of
               None \<Rightarrow> Inl MalformedState
             | Some (bs, r'') \<Rightarrow>
                 (case from_utf8 bs of
                    None \<Rightarrow> Inl InvalidCredentialMaterial
                  | Some s \<Rightarrow> read_record_fields (f\<lparr>rf_username := Some s\<rparr>) r''))
          else if field_number tag = 4 \<and> wire_type tag = WIRE_LENGTH_DELIMITED \<and> rf_password f = None then
            (case read_bytes r' of
               None \<Rightarrow> Inl MalformedState
             | Some (bs, r'') \<Rightarrow>
                 (case from_utf8 bs of
                    None \<Rightarrow> Inl InvalidCredentialMaterial
                  | Some s \<Rightarrow> read_record_fields (f\<lparr>rf_password := Some s\<rparr>) r''))
          else Inl MalformedState)"
  by pat_completeness auto
termination
  by (relation "measure (\<lambda>(f, r). length r)") (auto dest!: proto_lengths)

declare read_record_fields.simps [simp del]

definition decode_temporary_record ::
    "u8 list \<Rightarrow> TemporaryCredentialError + TemporaryCredentialRecord" where
  "decode_temporary_record bytes =
     rbind (read_record_fields \<lparr>rf_schema = None, rf_lease = None, rf_username = None, rf_password = None\<rparr> bytes)
       (\<lambda>f.
         if rf_schema f \<noteq> Some 1 then Inl MalformedState
         else rbind (ok_or (rf_lease f) MalformedState) (\<lambda>lease.
              rbind (ok_or (rf_username f) MalformedState) (\<lambda>username.
              rbind (ok_or (rf_password f) MalformedState) (\<lambda>password.
                if \<not> credential_material_ok username password then Inl InvalidCredentialMaterial
                else
                  (let rec = \<lparr>record_lease = lease, record_username = username,
                              record_password = password\<rparr>
                   in if encode_temporary_record rec \<noteq> bytes then Inl NonCanonicalState
                      else Inr rec)))))"

subsection \<open>Well-formed leases\<close>

definition lease_ok :: "TemporaryCredentialLease \<Rightarrow> bool" where
  "lease_ok lease \<longleftrightarrow>
     lease_generation lease \<noteq> 0 \<and> activated_at_unix_seconds lease \<noteq> 0 \<and>
     checked_add (activated_at_unix_seconds lease) TEMPORARY_CREDENTIAL_TTL_SECONDS =
       Some (expires_at_unix_seconds lease) \<and>
     activated_at_unix_seconds lease \<le> last_observed_unix_seconds lease \<and>
     (lease_status lease = LeaseActive \<longrightarrow>
        last_observed_unix_seconds lease < expires_at_unix_seconds lease) \<and>
     (lease_status lease = LeaseExpired \<longrightarrow>
        expires_at_unix_seconds lease \<le> last_observed_unix_seconds lease)"

lemma ttl_positive: "0 < TEMPORARY_CREDENTIAL_TTL_SECONDS"
  by (simp add: TEMPORARY_CREDENTIAL_TTL_SECONDS_def)

lemma activate_ok: "activate g t = Inr lease \<Longrightarrow> lease_ok lease"
  by (auto simp: activate_def lease_ok_def rbind_Inr_iff ttl_positive split: if_splits
           dest: checked_add_Some_less)

lemma lease_revoke_ok: "lease_ok lease \<Longrightarrow> lease_ok (lease_revoke lease)"
  by (simp add: lease_ok_def lease_revoke_def)

lemma lease_observe_ok: "lease_ok lease \<Longrightarrow> lease_ok (fst (lease_observe lease t))"
  by (auto simp: lease_observe_def lease_ok_def lease_revoke_def not_less split: option.splits)

text \<open>Decoding what was encoded.\<close>

lemma lease_fields_step:
  assumes "n \<in> {1, 2, 3, 4, 5}" "slots ! (unat n - 1) = None"
  shows "lease_fields slots (write_varint_field n v @ rest) =
    lease_fields (slots[unat n - 1 := Some v]) rest"
proof -
  have tag: "read_tag (write_varint_field n v @ rest) =
      Some (\<lparr>field_number = n, wire_type = WIRE_VARINT\<rparr>, write_varint v @ rest)"
    using assms(1) by (intro read_tag_varint_field) auto
  have "1 \<le> n" "n \<le> 5" using assms(1) by auto
  with assms(2) tag show ?thesis
    by (subst lease_fields.simps) simp
qed

lemma lease_fields_last:
  "n \<in> {1, 2, 3, 4, 5} \<Longrightarrow> slots ! (unat n - 1) = None \<Longrightarrow>
     lease_fields slots (write_varint_field n v) = Inr (slots[unat n - 1 := Some v])"
  using lease_fields_step [of n slots v "[]"] by (simp add: lease_fields.simps [of _ "[]"])

lemma lease_fields_encode:
  "lease_fields [None, None, None, None, None] (encode_temporary_lease lease) =
     Inr [Some (lease_generation lease), Some (activated_at_unix_seconds lease),
          Some (expires_at_unix_seconds lease), Some (last_observed_unix_seconds lease),
          Some (status_code (lease_status lease))]"
  by (simp add: encode_temporary_lease_def lease_fields_step lease_fields_last)

lemma decode_status_code:
  "lease_ok lease \<Longrightarrow> decode_status (status_code (lease_status lease))
     (last_observed_unix_seconds lease) (expires_at_unix_seconds lease) = Some (lease_status lease)"
  by (cases "lease_status lease") (auto simp: decode_status_def status_code_def lease_ok_def)

lemma decode_encode_lease: "lease_ok lease \<Longrightarrow> decode_temporary_lease (encode_temporary_lease lease) = Inr lease"
  using decode_status_code [of lease]
  by (cases lease)
     (simp add: decode_temporary_lease_def lease_from_fields_def lease_fields_encode lease_ok_def
        not_less Let_def)

lemma lease_from_fields_Inr:
  assumes "lease_from_fields generation start end_at observed status input = Inr lease"
  shows "lease_ok lease" "encode_temporary_lease lease = input"
  using assms
  by (auto simp: lease_from_fields_def rbind_Inr_iff Let_def decode_status_def lease_ok_def not_less
           split: if_splits)

lemma decode_lease_Inr:
  assumes "decode_temporary_lease input = Inr lease"
  shows "lease_ok lease" "encode_temporary_lease lease = input"
  using assms lease_from_fields_Inr [of _ _ _ _ _ input lease]
  by (auto simp: decode_temporary_lease_def rbind_Inr_iff)

interpretation lease_codec: canonical_codec lease_ok encode_temporary_lease decode_temporary_lease
  by unfold_locales (simp_all add: decode_encode_lease decode_lease_Inr)

subsection \<open>The record codec\<close>

definition record_ok :: "TemporaryCredentialRecord \<Rightarrow> bool" where
  "record_ok rec \<longleftrightarrow>
     lease_ok (record_lease rec) \<and> is_str (record_username rec) \<and> is_str (record_password rec) \<and>
     credential_material_ok (record_username rec) (record_password rec)"

lemma encode_lease_length: "length (encode_temporary_lease lease) < 2 ^ 64"
proof -
  have "length (encode_temporary_lease lease) \<le> 20 + 20 + 20 + 20 + 20"
    unfolding encode_temporary_lease_def length_append add.assoc
    by (intro add_mono write_varint_field_max)
  then show ?thesis by simp
qed

lemma record_fields_schema:
  "rf_schema f = None \<Longrightarrow> read_record_fields f (write_varint_field 1 v @ rest) =
     read_record_fields (f\<lparr>rf_schema := Some v\<rparr>) rest"
  by (subst read_record_fields.simps) (simp add: read_tag_varint_field)

lemma record_fields_lease:
  "rf_lease f = None \<Longrightarrow> length bs < 2 ^ 64 \<Longrightarrow> decode_temporary_lease bs = Inr lease \<Longrightarrow>
     read_record_fields f (write_bytes_field 2 bs @ rest) =
     read_record_fields (f\<lparr>rf_lease := Some lease\<rparr>) rest"
  by (subst read_record_fields.simps) (simp add: read_tag_bytes_field read_bytes_write wire_types)

lemma record_fields_username:
  "rf_username f = None \<Longrightarrow> length bs < 2 ^ 64 \<Longrightarrow> from_utf8 bs = Some s \<Longrightarrow>
     read_record_fields f (write_bytes_field 3 bs @ rest) =
     read_record_fields (f\<lparr>rf_username := Some s\<rparr>) rest"
  by (subst read_record_fields.simps) (simp add: read_tag_bytes_field read_bytes_write wire_types)

lemma record_fields_password:
  "rf_password f = None \<Longrightarrow> length bs < 2 ^ 64 \<Longrightarrow> from_utf8 bs = Some s \<Longrightarrow>
     read_record_fields f (write_bytes_field 4 bs) = Inr (f\<lparr>rf_password := Some s\<rparr>)"
  using read_tag_bytes_field [of 4 bs "[]"] read_bytes_write [of bs "[]"]
  by (subst read_record_fields.simps) (simp add: wire_types read_record_fields.simps [of _ "[]"])

lemma decode_encode_record:
  assumes "record_ok rec"
  shows "decode_temporary_record (encode_temporary_record rec) = Inr rec"
proof -
  have len: "length (as_bytes (record_username rec)) < 2 ^ 64" "length (as_bytes (record_password rec)) < 2 ^ 64"
    using assms by (simp_all add: record_ok_def credential_material_ok_def)
  have str: "from_utf8 (as_bytes (record_username rec)) = Some (record_username rec)"
    "from_utf8 (as_bytes (record_password rec)) = Some (record_password rec)"
    using assms by (simp_all add: record_ok_def from_utf8_as_bytes)
  have lease: "decode_temporary_lease (encode_temporary_lease (record_lease rec)) = Inr (record_lease rec)"
    using assms by (simp add: record_ok_def decode_encode_lease)
  have "read_record_fields \<lparr>rf_schema = None, rf_lease = None, rf_username = None, rf_password = None\<rparr>
      (encode_temporary_record rec) =
    Inr \<lparr>rf_schema = Some 1, rf_lease = Some (record_lease rec),
         rf_username = Some (record_username rec), rf_password = Some (record_password rec)\<rparr>"
    unfolding encode_temporary_record_def
    by (simp only: record_fields_schema record_fields_lease [OF _ encode_lease_length lease]
          record_fields_username [OF _ len(1) str(1)] record_fields_password [OF _ len(2) str(2)]
          record_fields.simps record_fields.update_convs)
  with assms show ?thesis
    by (cases rec) (simp add: decode_temporary_record_def record_ok_def Let_def)
qed

definition fields_ok :: "record_fields \<Rightarrow> bool" where
  "fields_ok f \<longleftrightarrow>
     (\<forall>l. rf_lease f = Some l \<longrightarrow> lease_ok l) \<and>
     (\<forall>s. rf_username f = Some s \<longrightarrow> is_str s) \<and> (\<forall>s. rf_password f = Some s \<longrightarrow> is_str s)"

lemma fields_ok_updates:
  "fields_ok f \<Longrightarrow> fields_ok (f\<lparr>rf_schema := v\<rparr>)"
  "fields_ok f \<Longrightarrow> decode_temporary_lease bs = Inr lease \<Longrightarrow> fields_ok (f\<lparr>rf_lease := Some lease\<rparr>)"
  "fields_ok f \<Longrightarrow> from_utf8 bs = Some s \<Longrightarrow> fields_ok (f\<lparr>rf_username := Some s\<rparr>)"
  "fields_ok f \<Longrightarrow> from_utf8 bs = Some s \<Longrightarrow> fields_ok (f\<lparr>rf_password := Some s\<rparr>)"
  by (auto simp: fields_ok_def from_utf8_Some_iff dest: decode_lease_Inr)

lemma read_record_fields_Inr_step:
  assumes "read_record_fields f r = Inr f'" "r \<noteq> []"
  shows "\<exists>f1 r1. read_record_fields f1 r1 = Inr f' \<and> length r1 < length r \<and> (fields_ok f \<longrightarrow> fields_ok f1)"
proof -
  obtain tag r' where tag: "read_tag r = Some (tag, r')"
    using assms by (subst (asm) read_record_fields.simps) (auto split: option.splits)
  have next_field: ?thesis
    if "read_record_fields f1 r1 = Inr f'" "length r1 < length r'" "fields_ok f \<Longrightarrow> fields_ok f1" for f1 r1
    using that read_tag_length [OF tag] by (meson less_trans)
  note step = assms [unfolded read_record_fields.simps [of f r] tag option.case prod.case]
  show ?thesis
  proof (cases "field_number tag = 1 \<and> wire_type tag = WIRE_VARINT \<and> rf_schema f = None")
    case True
    with step obtain v r1 where "read_varint r' = Some (v, r1)"
      "read_record_fields (f\<lparr>rf_schema := Some v\<rparr>) r1 = Inr f'"
      by (auto split: option.splits)
    then show ?thesis using next_field fields_ok_updates(1) read_varint_length by blast
  next
    case not1: False
    show ?thesis
    proof (cases "field_number tag = 2 \<and> wire_type tag = WIRE_LENGTH_DELIMITED \<and> rf_lease f = None")
      case True
      with step not1 obtain bs r1 l where "read_bytes r' = Some (bs, r1)"
        "decode_temporary_lease bs = Inr l" "read_record_fields (f\<lparr>rf_lease := Some l\<rparr>) r1 = Inr f'"
        by (auto split: option.splits sum.splits)
      then show ?thesis using next_field fields_ok_updates(2) read_bytes_length by blast
    next
      case not2: False
      with step not1 obtain bs r1 s where s: "read_bytes r' = Some (bs, r1)" "from_utf8 bs = Some s"
        "read_record_fields (f\<lparr>rf_username := Some s\<rparr>) r1 = Inr f' \<or>
         read_record_fields (f\<lparr>rf_password := Some s\<rparr>) r1 = Inr f'"
        by (auto split: option.splits if_splits)
      from s(3) show ?thesis
      proof
        assume "read_record_fields (f\<lparr>rf_username := Some s\<rparr>) r1 = Inr f'"
        with s show ?thesis using next_field fields_ok_updates(3) read_bytes_length by blast
      next
        assume "read_record_fields (f\<lparr>rf_password := Some s\<rparr>) r1 = Inr f'"
        with s show ?thesis using next_field fields_ok_updates(4) read_bytes_length by blast
      qed
    qed
  qed
qed

lemma read_record_fields_ok:
  "read_record_fields f r = Inr f' \<Longrightarrow> fields_ok f \<Longrightarrow> fields_ok f'"
proof (induction r arbitrary: f rule: length_induct)
  case (1 r)
  show ?case
  proof (cases "r = []")
    case True
    with 1(2,3) show ?thesis by (simp add: read_record_fields.simps [of f "[]"])
  next
    case False
    with read_record_fields_Inr_step [OF 1(2)] 1(1,3) show ?thesis by blast
  qed
qed

lemma decode_record_Inr:
  assumes "decode_temporary_record bytes = Inr rec"
  shows "record_ok rec" "encode_temporary_record rec = bytes"
proof -
  from assms obtain f where
    f: "read_record_fields \<lparr>rf_schema = None, rf_lease = None, rf_username = None, rf_password = None\<rparr> bytes = Inr f"
    and rec: "rf_lease f = Some (record_lease rec)" "rf_username f = Some (record_username rec)"
      "rf_password f = Some (record_password rec)" "encode_temporary_record rec = bytes"
      "credential_material_ok (record_username rec) (record_password rec)"
    by (auto simp: decode_temporary_record_def rbind_Inr_iff Let_def split: if_splits)
  have "fields_ok f" using read_record_fields_ok [OF f] by (simp add: fields_ok_def)
  with rec show "record_ok rec" by (simp add: fields_ok_def record_ok_def)
  show "encode_temporary_record rec = bytes" by (rule rec(4))
qed

interpretation record_codec: canonical_codec record_ok encode_temporary_record decode_temporary_record
  by unfold_locales (simp_all add: decode_encode_record decode_record_Inr)

subsection \<open>Admission\<close>

datatype LeaseEvent = Tick "u64 option" | RevokeLease

fun lease_step :: "TemporaryCredentialLease \<Rightarrow> LeaseEvent \<Rightarrow> TemporaryCredentialLease" where
  "lease_step lease (Tick t) = fst (lease_observe lease t)"
| "lease_step lease RevokeLease = lease_revoke lease"

lemma lease_step_ok: "lease_ok lease \<Longrightarrow> lease_ok (lease_step lease e)"
  by (cases e) (auto intro: lease_observe_ok lease_revoke_ok)

lemma inactive_step: "lease_status lease \<noteq> LeaseActive \<Longrightarrow> lease_status (lease_step lease e) \<noteq> LeaseActive"
  by (cases e) (auto simp: lease_observe_def lease_revoke_def)

lemma inactive_run:
  "lease_status lease \<noteq> LeaseActive \<Longrightarrow> lease_status (foldl lease_step lease es) \<noteq> LeaseActive"
  by (induction es arbitrary: lease) (simp_all add: inactive_step del: lease_step.simps)

lemma inactive_never_admits:
  "lease_status lease \<noteq> LeaseActive \<Longrightarrow> \<not> snd (lease_observe (foldl lease_step lease es) t)"
  using inactive_run [of lease es] by (simp add: lease_observe_def)

lemma admission_iff:
  assumes "lease_ok lease" "lease_status lease = LeaseActive"
  shows "snd (lease_observe (foldl lease_step lease es) t) \<longleftrightarrow>
    (\<exists>ns n. es = map (\<lambda>n. Tick (Some n)) ns \<and> t = Some n \<and>
       sorted (last_observed_unix_seconds lease # ns @ [n]) \<and> n < expires_at_unix_seconds lease)"
  using assms
proof (induction es arbitrary: lease)
  case Nil
  then have "activated_at_unix_seconds lease \<le> last_observed_unix_seconds lease"
    by (simp add: lease_ok_def)
  then show ?case
    using Nil.prems by (cases t) (auto simp: lease_observe_def not_less not_le)
next
  case (Cons e es)
  have act: "activated_at_unix_seconds lease \<le> last_observed_unix_seconds lease"
    using Cons.prems by (simp add: lease_ok_def)
  show ?case
  proof (cases "\<exists>m. e = Tick (Some m) \<and> last_observed_unix_seconds lease \<le> m \<and> m < expires_at_unix_seconds lease")
    case True
    then obtain m where m: "e = Tick (Some m)" "last_observed_unix_seconds lease \<le> m"
      "m < expires_at_unix_seconds lease" by blast
    let ?l = "lease\<lparr>last_observed_unix_seconds := m\<rparr>"
    have step: "lease_step lease e = ?l"
      using m act Cons.prems(2) by (auto simp: lease_observe_def)
    have "lease_ok ?l" using lease_step_ok [OF Cons.prems(1), of e] step by simp
    note ih = Cons.IH [OF this]
    have "(\<exists>ns n. e # es = map (\<lambda>n. Tick (Some n)) ns \<and> t = Some n \<and>
         sorted (last_observed_unix_seconds lease # ns @ [n]) \<and> n < expires_at_unix_seconds lease) \<longleftrightarrow>
       (\<exists>ns n. es = map (\<lambda>n. Tick (Some n)) ns \<and> t = Some n \<and>
         sorted (m # ns @ [n]) \<and> n < expires_at_unix_seconds lease)" (is "?longer \<longleftrightarrow> ?shorter")
    proof
      assume ?longer
      then show ?shorter using m(1) by (auto simp: Cons_eq_map_conv)
    next
      assume ?shorter
      then obtain ns n where "es = map (\<lambda>n. Tick (Some n)) ns" "t = Some n"
        "sorted (m # ns @ [n])" "n < expires_at_unix_seconds lease" by blast
      with m(1,2) show ?longer by (intro exI [of _ "m # ns"] exI [of _ n]) auto
    qed
    with ih Cons.prems(2) step show ?thesis by simp
  next
    case False
    then have "lease_status (lease_step lease e) \<noteq> LeaseActive"
      using Cons.prems(2) by (cases e) (auto simp: lease_observe_def lease_revoke_def split: option.splits if_splits)
    then have "\<not> snd (lease_observe (foldl lease_step lease (e # es)) t)"
      using inactive_never_admits by simp
    moreover have "m < expires_at_unix_seconds lease"
      if "sorted (last_observed_unix_seconds lease # (m # ns) @ [n])" "n < expires_at_unix_seconds lease" for m ns n
      using that by auto
    ultimately show ?thesis using False by (auto simp: Cons_eq_map_conv)
  qed
qed

text \<open>C18. A temporary credential admits exactly within its 24 hours on a clock that never steps
  back. After a lease was activated at \<open>t0\<close>, and after any readings of the trusted clock and
  revocations, the next reading admits if and only if nothing was revoked, every reading was
  available, the readings from \<open>t0\<close> on never decreased, and the latest one is less than 24 hours
  after \<open>t0\<close>. One missing reading, one rollback or one late reading ends the grant for good.\<close>

theorem temporary_lease_admits_iff:
  assumes "activate generation (Some t0) = Inr lease"
  shows "snd (lease_observe (foldl lease_step lease es) t) \<longleftrightarrow>
    (\<exists>ns n. es = map (\<lambda>n. Tick (Some n)) ns \<and> t = Some n \<and> sorted (t0 # ns @ [n]) \<and>
       unat n < unat t0 + 24 * 60 * 60)"
proof -
  have l: "last_observed_unix_seconds lease = t0" "lease_status lease = LeaseActive"
    and e: "checked_add t0 TEMPORARY_CREDENTIAL_TTL_SECONDS = Some (expires_at_unix_seconds lease)"
    using assms by (auto simp: activate_def rbind_Inr_iff split: if_splits)
  have "unat (expires_at_unix_seconds lease) = unat t0 + 24 * 60 * 60"
    using checked_add_Some_unat [OF e] by (simp add: TEMPORARY_CREDENTIAL_TTL_SECONDS_def)
  then have "n < expires_at_unix_seconds lease \<longleftrightarrow> unat n < unat t0 + 24 * 60 * 60" for n
    by (simp add: word_less_nat_alt)
  with admission_iff [OF activate_ok [OF assms] l(2), of es t] l(1) show ?thesis by simp
qed

theorem temporary_lease_admits_iff_witness:
  "\<exists>lease. activate 7 (Some 1000) = Inr lease \<and>
     snd (lease_observe (foldl lease_step lease [Tick (Some 1000), Tick (Some 87000)]) (Some 87399)) \<and>
     \<not> snd (lease_observe (foldl lease_step lease [Tick (Some 87000)]) (Some 87400))"
proof -
  obtain lease where lease: "activate 7 (Some 1000) = Inr lease"
    by (simp add: activate_def checked_add_def TEMPORARY_CREDENTIAL_TTL_SECONDS_def)
  have "\<exists>ns n. [Tick (Some 1000), Tick (Some 87000)] = map (\<lambda>n. Tick (Some n)) ns \<and> Some 87399 = Some n \<and>
      sorted ((1000 :: u64) # ns @ [n]) \<and> unat n < unat (1000 :: u64) + 24 * 60 * 60"
    by (intro exI [of _ "[1000, 87000]"] exI [of _ 87399]) simp
  with temporary_lease_admits_iff [OF lease, of "[Tick (Some 1000), Tick (Some 87000)]" "Some 87399"]
    temporary_lease_admits_iff [OF lease, of "[Tick (Some 87000)]" "Some 87400"] lease
  show ?thesis by auto
qed

text \<open>C19. The sensitive temporary-credential record has one encoding per record and the decoder
  accepts nothing else: a byte string decodes to a record exactly if it is that record's encoding
  and the record is well formed (a consistent lease and credential strings of valid UTF-8, not
  blank, at most 255 bytes, without a zero byte).\<close>

theorem temporary_record_decodes_iff:
  "decode_temporary_record bytes = Inr rec \<longleftrightarrow> record_ok rec \<and> bytes = encode_temporary_record rec"
  by (rule record_codec.decode_iff)

text \<open>Everything the lifecycle produces is well formed, so it survives a restart.\<close>

lemma issue_ok:
  assumes "issue generation t username password = Inr rec" "is_str username" "is_str password"
  shows "record_ok rec"
  using assms activate_ok [of generation t]
  by (auto simp: issue_def rbind_Inr_iff record_ok_def split: if_splits)

fun record_step :: "TemporaryCredentialRecord \<Rightarrow> LeaseEvent \<Rightarrow> TemporaryCredentialRecord" where
  "record_step rec (Tick t) = fst (record_observe rec t)"
| "record_step rec RevokeLease = record_revoke rec"

lemma record_step_ok: "record_ok rec \<Longrightarrow> record_ok (record_step rec e)"
  by (cases e)
     (auto simp: record_ok_def record_observe_def record_revoke_def split: prod.splits
        intro: lease_revoke_ok dest: lease_observe_ok, metis fst_conv lease_observe_ok)

lemma record_run_ok: "record_ok rec \<Longrightarrow> record_ok (foldl record_step rec es)"
  by (induction es arbitrary: rec) (auto intro: record_step_ok)

text \<open>A temporary credential survives persistence at any point of its life: a record issued for
  valid strings, after any clock readings and revocations, decodes from its encoding to exactly the
  same record, with the same deadline, last observed time and status.\<close>

lemma temporary_record_persists:
  assumes "issue generation t username password = Inr rec" "is_str username" "is_str password"
  shows "decode_temporary_record (encode_temporary_record (foldl record_step rec es)) =
    Inr (foldl record_step rec es)"
  using record_run_ok [OF issue_ok [OF assms]] by (rule record_codec.decode_encode)

theorem temporary_record_persists_witness:
  "\<exists>rec. issue 7 (Some 1000) ''user'' ''pass'' = Inr rec \<and>
     decode_temporary_record (encode_temporary_record (foldl record_step rec [Tick (Some 2000), RevokeLease])) =
       Inr (foldl record_step rec [Tick (Some 2000), RevokeLease])"
proof -
  have str: "is_str ''user''" "is_str ''pass''"
    by (simp_all add: is_str_def byte_of_def)
  obtain rec where rec: "issue 7 (Some 1000) ''user'' ''pass'' = Inr rec"
    by (simp add: issue_def activate_def checked_add_def TEMPORARY_CREDENTIAL_TTL_SECONDS_def
          credential_material_ok_def trim_def trim_start.simps trim_end.simps white_prefix_def
          white_suffix_def white_space_def byte_of_def)
  from temporary_record_persists [OF rec str] rec show ?thesis by blast
qed

end
