(* ===== verification/External_Credential.thy ===== *)
theory External_Credential
  imports Proto_Wire Rust_Str
begin

text \<open>
  The external proxy credential (\<open>crates/credentials/src/lib.rs\<close>), its durable state
  (\<open>persistence.rs\<close>) and the provisioning envelope that hands it to a client
  (\<open>provisioning.rs\<close>). The platform's HMAC is outside the sources: its outputs are arguments. The
  lemmas cover the version discipline, domain separation of the derivation inputs, the state codec,
  the choice made from what storage holds, and the provisioning round trip.
\<close>

subsection \<open>Credential state\<close>

definition DERIVATION_OUTPUT_BYTES :: usize where "DERIVATION_OUTPUT_BYTES = 32"
definition INITIAL_VERSION :: u64 where "INITIAL_VERSION = 1"
definition USERNAME_CONTEXT_DOMAIN :: "u8 list" where
  "USERNAME_CONTEXT_DOMAIN = as_bytes ''mish/external-proxy/username/v1''"
definition PASSWORD_CONTEXT_DOMAIN :: "u8 list" where
  "PASSWORD_CONTEXT_DOMAIN = as_bytes ''mish/external-proxy/password/v1''"
definition HEX :: string where "HEX = ''0123456789abcdef''"

datatype ExternalCredentialStatus = Active | Revoked

datatype ExternalCredentialPurpose = Username | Password

datatype ExternalCredentialError =
    InvalidVersion
  | VersionExhausted
  | CredentialRevoked
  | InvalidDerivationOutput
  | MalformedState
  | NonCanonicalState
  | MixedPersistenceSchemas
  | IncompleteLegacyState
  | InvalidLegacyVersion
  | MissingRootForState
  | RootWithoutState
  | InvalidProvisioningEnvelope

record ExternalCredentialState =
  cred_version :: u64
  cred_status :: ExternalCredentialStatus

record ExternalCredentialMaterial =
  material_username :: string
  material_password :: string

definition ExternalCredentialState_new ::
    "u64 \<Rightarrow> ExternalCredentialStatus \<Rightarrow> ExternalCredentialError + ExternalCredentialState" where
  "ExternalCredentialState_new version status =
     (if version = 0 then Inl InvalidVersion else Inr \<lparr>cred_version = version, cred_status = status\<rparr>)"

definition credential_initial :: ExternalCredentialState where
  "credential_initial = \<lparr>cred_version = INITIAL_VERSION, cred_status = Active\<rparr>"

definition credential_id :: "ExternalCredentialState \<Rightarrow> string" where
  "credential_id s = ''external-proxy-v'' @ show_u64 (cred_version s)"

definition rotate :: "ExternalCredentialState \<Rightarrow> ExternalCredentialError + ExternalCredentialState" where
  "rotate s =
     rbind (ok_or (checked_add (cred_version s) 1) VersionExhausted) (\<lambda>version.
       Inr \<lparr>cred_version = version, cred_status = Active\<rparr>)"

definition credential_revoke :: "ExternalCredentialState \<Rightarrow> ExternalCredentialState" where
  "credential_revoke s = \<lparr>cred_version = cred_version s, cred_status = Revoked\<rparr>"

definition require_active :: "ExternalCredentialState \<Rightarrow> ExternalCredentialError + unit" where
  "require_active s = (case cred_status s of Active \<Rightarrow> Inr () | Revoked \<Rightarrow> Inl CredentialRevoked)"

definition u64_to_be_bytes :: "u64 \<Rightarrow> u8 list" where
  "u64_to_be_bytes v = map (\<lambda>i. ucast (drop_bit (8 * i) v)) [7, 6, 5, 4, 3, 2, 1, 0]"

definition derivation_context ::
    "ExternalCredentialState \<Rightarrow> ExternalCredentialPurpose \<Rightarrow> ExternalCredentialError + u8 list" where
  "derivation_context s purpose =
     rbind (require_active s) (\<lambda>u.
       Inr ((case purpose of Username \<Rightarrow> USERNAME_CONTEXT_DOMAIN | Password \<Rightarrow> PASSWORD_CONTEXT_DOMAIN) @
            u64_to_be_bytes (cred_version s)))"

definition encode_hex :: "u8 list \<Rightarrow> string" where
  "encode_hex bytes =
     concat (map (\<lambda>b. [HEX ! unat (drop_bit 4 b), HEX ! unat (b AND 0x0f)]) bytes)"

definition materialize ::
    "ExternalCredentialState \<Rightarrow> u8 list \<Rightarrow> u8 list \<Rightarrow> ExternalCredentialError + ExternalCredentialMaterial" where
  "materialize s username_mac password_mac =
     rbind (require_active s) (\<lambda>u.
       if length username_mac \<noteq> DERIVATION_OUTPUT_BYTES \<or> length password_mac \<noteq> DERIVATION_OUTPUT_BYTES
       then Inl InvalidDerivationOutput
       else Inr \<lparr>material_username = ''mish-'' @ encode_hex (take 16 username_mac),
                 material_password = encode_hex password_mac\<rparr>)"

subsection \<open>Durable state\<close>

datatype ExternalCredentialPersistenceAction =
  UseCurrent | PersistCanonical | CreateRootAndPersistCanonical

record ExternalCredentialPersistenceResolution =
  res_state :: ExternalCredentialState
  res_canonical_state :: "u8 list"
  res_action :: ExternalCredentialPersistenceAction

definition encode_state :: "ExternalCredentialState \<Rightarrow> u8 list" where
  "encode_state s =
     write_varint_field 1 (cred_version s) @
     (if cred_status s = Revoked then write_varint_field 2 1 else [])"

record state_fields =
  sf_version :: "u64 option"
  sf_revoked :: bool
  sf_revoked_seen :: bool

function read_state_fields :: "state_fields \<Rightarrow> ProtoReader \<Rightarrow> ExternalCredentialError + state_fields" where
  "read_state_fields f r =
     (if r = [] then Inr f
      else case read_tag r of
        None \<Rightarrow> Inl MalformedState
      | Some (tag, r') \<Rightarrow>
          if field_number tag = 1 then
            (if wire_type tag \<noteq> WIRE_VARINT \<or> sf_version f \<noteq> None then Inl MalformedState
             else case read_varint r' of
               None \<Rightarrow> Inl MalformedState
             | Some (v, r'') \<Rightarrow> read_state_fields (f\<lparr>sf_version := Some v\<rparr>) r'')
          else if field_number tag = 2 then
            (if wire_type tag \<noteq> WIRE_VARINT \<or> sf_revoked_seen f then Inl MalformedState
             else case read_varint r' of
               None \<Rightarrow> Inl MalformedState
             | Some (v, r'') \<Rightarrow>
                 if v = 0 then read_state_fields (f\<lparr>sf_revoked_seen := True, sf_revoked := False\<rparr>) r''
                 else if v = 1 then read_state_fields (f\<lparr>sf_revoked_seen := True, sf_revoked := True\<rparr>) r''
                 else Inl MalformedState)
          else case skip_field (wire_type tag) r' of
            None \<Rightarrow> Inl MalformedState
          | Some r'' \<Rightarrow> read_state_fields f r'')"
  by pat_completeness auto
termination
  by (relation "measure (\<lambda>(f, r). length r)") (auto dest!: proto_lengths)

declare read_state_fields.simps [simp del]

definition decode_state :: "u8 list \<Rightarrow> ExternalCredentialError + ExternalCredentialState" where
  "decode_state encoded =
     rbind (read_state_fields \<lparr>sf_version = None, sf_revoked = False, sf_revoked_seen = False\<rparr> encoded) (\<lambda>f.
     rbind (ok_or (sf_version f) MalformedState) (\<lambda>version.
       ExternalCredentialState_new version (if sf_revoked f then Revoked else Active)))"

definition resolve_persistence ::
    "u8 list option \<Rightarrow> string option \<Rightarrow> bool option \<Rightarrow> bool \<Rightarrow>
     ExternalCredentialError + ExternalCredentialPersistenceResolution" where
  "resolve_persistence canonical_state legacy_version legacy_revoked root_exists =
     (case canonical_state of
        Some encoded \<Rightarrow>
          if legacy_version \<noteq> None \<or> legacy_revoked \<noteq> None then Inl MixedPersistenceSchemas
          else if \<not> root_exists then Inl MissingRootForState
          else rbind (decode_state encoded) (\<lambda>state.
            if encode_state state \<noteq> encoded then Inl NonCanonicalState
            else Inr \<lparr>res_state = state, res_canonical_state = encode_state state, res_action = UseCurrent\<rparr>)
      | None \<Rightarrow>
          if (legacy_version \<noteq> None) \<noteq> (legacy_revoked \<noteq> None) then Inl IncompleteLegacyState
          else case (legacy_version, legacy_revoked) of
            (Some raw_version, Some revoked) \<Rightarrow>
              if \<not> root_exists then Inl MissingRootForState
              else rbind (ok_or (parse_u64 raw_version) InvalidLegacyVersion) (\<lambda>version.
                   rbind (map_err (\<lambda>e. InvalidLegacyVersion)
                     (ExternalCredentialState_new version (if revoked then Revoked else Active))) (\<lambda>state.
                       Inr \<lparr>res_state = state, res_canonical_state = encode_state state,
                            res_action = PersistCanonical\<rparr>))
          | _ \<Rightarrow>
              if root_exists then Inl RootWithoutState
              else Inr \<lparr>res_state = credential_initial, res_canonical_state = encode_state credential_initial,
                        res_action = CreateRootAndPersistCanonical\<rparr>)"

subsection \<open>Provisioning\<close>

definition PROVISIONING_SCHEMA_VERSION :: u32 where "PROVISIONING_SCHEMA_VERSION = 1"
definition PROVISIONING_CHALLENGE_BYTES :: usize where "PROVISIONING_CHALLENGE_BYTES = 32"

record ExternalProxyProvisioningEnvelope =
  env_credential_version :: u64
  env_credential_id :: string
  env_challenge :: "u8 list"
  env_username :: string
  env_password :: string

definition valid_lower_hex :: "string \<Rightarrow> usize \<Rightarrow> bool" where
  "valid_lower_hex v expected_len \<longleftrightarrow>
     length v = expected_len \<and>
     list_all (\<lambda>c. is_ascii_digit c \<or> (0x61 \<le> byte_of c \<and> byte_of c \<le> 0x66)) v"

definition valid_username :: "string \<Rightarrow> bool" where
  "valid_username username \<longleftrightarrow>
     take 5 username = ''mish-'' \<and> valid_lower_hex (drop 5 username) 32"

definition validate_material ::
    "ExternalCredentialState \<Rightarrow> u8 list \<Rightarrow> string \<Rightarrow> string \<Rightarrow> ExternalCredentialError + unit" where
  "validate_material s challenge username password =
     (if cred_status s \<noteq> Active \<or> length challenge \<noteq> PROVISIONING_CHALLENGE_BYTES \<or>
         \<not> valid_username username \<or> \<not> valid_lower_hex password 64
      then Inl InvalidProvisioningEnvelope else Inr ())"

definition encode_provisioning_envelope ::
    "ExternalCredentialState \<Rightarrow> u8 list \<Rightarrow> string \<Rightarrow> string \<Rightarrow> ExternalCredentialError + u8 list" where
  "encode_provisioning_envelope s challenge username password =
     rbind (validate_material s challenge username password) (\<lambda>u.
       Inr (write_varint_field 1 (ucast PROVISIONING_SCHEMA_VERSION) @
            write_varint_field 2 (cred_version s) @
            write_bytes_field 3 (as_bytes (credential_id s)) @
            write_bytes_field 4 challenge @
            write_bytes_field 5 (as_bytes username) @
            write_bytes_field 6 (as_bytes password)))"

definition read_utf8 :: "ProtoReader \<Rightarrow> (string \<times> ProtoReader) option" where
  "read_utf8 r =
     (case read_bytes r of
        None \<Rightarrow> None
      | Some (bs, r) \<Rightarrow> (case from_utf8 bs of None \<Rightarrow> None | Some s \<Rightarrow> Some (s, r)))"

record envelope_fields =
  ef_schema :: "u64 option"
  ef_version :: "u64 option"
  ef_id :: "string option"
  ef_challenge :: "u8 list option"
  ef_username :: "string option"
  ef_password :: "string option"

text \<open>One iteration of the decoding loop: the fields after the tag, and the unread rest. \<open>None\<close> is
  the single error of this decoder.\<close>

definition envelope_field ::
    "envelope_fields \<Rightarrow> ProtoTag \<Rightarrow> ProtoReader \<Rightarrow> (envelope_fields \<times> ProtoReader) option" where
  "envelope_field f tag r =
     (if field_number tag = 1 then
        (if wire_type tag \<noteq> WIRE_VARINT \<or> ef_schema f \<noteq> None then None
         else map_option (\<lambda>(v, r). (f\<lparr>ef_schema := Some v\<rparr>, r)) (read_varint r))
      else if field_number tag = 2 then
        (if wire_type tag \<noteq> WIRE_VARINT \<or> ef_version f \<noteq> None then None
         else map_option (\<lambda>(v, r). (f\<lparr>ef_version := Some v\<rparr>, r)) (read_varint r))
      else if field_number tag = 3 then
        (if wire_type tag \<noteq> WIRE_LENGTH_DELIMITED \<or> ef_id f \<noteq> None then None
         else map_option (\<lambda>(s, r). (f\<lparr>ef_id := Some s\<rparr>, r)) (read_utf8 r))
      else if field_number tag = 4 then
        (if wire_type tag \<noteq> WIRE_LENGTH_DELIMITED \<or> ef_challenge f \<noteq> None then None
         else map_option (\<lambda>(bs, r). (f\<lparr>ef_challenge := Some bs\<rparr>, r)) (read_bytes r))
      else if field_number tag = 5 then
        (if wire_type tag \<noteq> WIRE_LENGTH_DELIMITED \<or> ef_username f \<noteq> None then None
         else map_option (\<lambda>(s, r). (f\<lparr>ef_username := Some s\<rparr>, r)) (read_utf8 r))
      else if field_number tag = 6 then
        (if wire_type tag \<noteq> WIRE_LENGTH_DELIMITED \<or> ef_password f \<noteq> None then None
         else map_option (\<lambda>(s, r). (f\<lparr>ef_password := Some s\<rparr>, r)) (read_utf8 r))
      else map_option (\<lambda>r. (f, r)) (skip_field (wire_type tag) r))"

lemma read_utf8_length: "read_utf8 r = Some (s, r') \<Longrightarrow> length r' < length r"
  by (auto simp: read_utf8_def split: option.splits dest: read_bytes_length)

lemma envelope_field_length: "envelope_field f tag r = Some (f', r') \<Longrightarrow> length r' \<le> length r"
  by (auto simp: envelope_field_def split: if_splits
           dest: read_utf8_length read_varint_length read_bytes_length skip_field_length)

function read_envelope_fields ::
    "envelope_fields \<Rightarrow> ProtoReader \<Rightarrow> ExternalCredentialError + envelope_fields" where
  "read_envelope_fields f r =
     (if r = [] then Inr f
      else case read_tag r of
        None \<Rightarrow> Inl InvalidProvisioningEnvelope
      | Some (tag, r') \<Rightarrow>
          (case envelope_field f tag r' of
             None \<Rightarrow> Inl InvalidProvisioningEnvelope
           | Some (f', r'') \<Rightarrow> read_envelope_fields f' r''))"
  by pat_completeness auto
termination
  by (relation "measure (\<lambda>(f, r). length r)") (auto dest!: read_tag_length envelope_field_length)

declare read_envelope_fields.simps [simp del]

definition decode_provisioning_envelope ::
    "u8 list \<Rightarrow> ExternalCredentialError + ExternalProxyProvisioningEnvelope" where
  "decode_provisioning_envelope encoded =
     rbind (read_envelope_fields \<lparr>ef_schema = None, ef_version = None, ef_id = None, ef_challenge = None,
              ef_username = None, ef_password = None\<rparr> encoded) (\<lambda>f.
       if ef_schema f \<noteq> Some (ucast PROVISIONING_SCHEMA_VERSION) then Inl InvalidProvisioningEnvelope
       else rbind (ok_or (ef_version f) InvalidProvisioningEnvelope) (\<lambda>version.
            rbind (map_err (\<lambda>e. InvalidProvisioningEnvelope) (ExternalCredentialState_new version Active)) (\<lambda>state.
            rbind (ok_or (ef_id f) InvalidProvisioningEnvelope) (\<lambda>ident.
            rbind (ok_or (ef_challenge f) InvalidProvisioningEnvelope) (\<lambda>challenge.
            rbind (ok_or (ef_username f) InvalidProvisioningEnvelope) (\<lambda>username.
            rbind (ok_or (ef_password f) InvalidProvisioningEnvelope) (\<lambda>password.
              if ident \<noteq> credential_id state then Inl InvalidProvisioningEnvelope
              else rbind (validate_material state challenge username password) (\<lambda>u.
                Inr \<lparr>env_credential_version = version, env_credential_id = ident,
                     env_challenge = challenge, env_username = username, env_password = password\<rparr>))))))))"

subsection \<open>Versions\<close>

datatype credential_op = Rotate | Revoke

text \<open>One administrative operation; a rotation that fails leaves the state as it was.\<close>

primrec credential_step :: "ExternalCredentialState \<Rightarrow> credential_op \<Rightarrow> ExternalCredentialState" where
  "credential_step s Rotate = (case rotate s of Inl e \<Rightarrow> s | Inr s' \<Rightarrow> s')"
| "credential_step s Revoke = credential_revoke s"

definition credential_ok :: "ExternalCredentialState \<Rightarrow> bool" where
  "credential_ok s \<longleftrightarrow> cred_version s \<noteq> 0"

lemma rotate_Inr:
  "rotate s = Inr s' \<longleftrightarrow> unat (cred_version s') = unat (cred_version s) + 1 \<and> cred_status s' = Active"
  by (cases s') (auto simp: rotate_def rbind_Inr_iff checked_add_Some_iff)

lemma credential_step_cases:
  "credential_step s e = s \<or> credential_step s e = credential_revoke s \<or>
   unat (cred_version (credential_step s e)) = unat (cred_version s) + 1"
  by (cases e) (auto simp: rotate_Inr split: sum.splits)

lemma credential_step_ok: "credential_ok s \<Longrightarrow> credential_ok (credential_step s e)"
  using credential_step_cases [of s e]
  by (auto simp: credential_ok_def credential_revoke_def unat_eq_0)

interpretation credential: ranked_machine credential_initial credential_step credential_ok
  "\<lambda>s. unat (cred_version s)"
proof unfold_locales
  show "credential_ok credential_initial"
    by (simp add: credential_ok_def credential_initial_def INITIAL_VERSION_def)
  fix s e assume "credential_ok s"
  show "unat (cred_version s) \<le> unat (cred_version (credential_step s e))"
    using credential_step_cases [of s e] by (auto simp: credential_revoke_def)
qed (rule credential_step_ok)

text \<open>A state that is newer than version \<open>v\<close>, or is the revoked version \<open>v\<close> itself.\<close>

definition past :: "u64 \<Rightarrow> ExternalCredentialState \<Rightarrow> bool" where
  "past v s \<longleftrightarrow> unat v < unat (cred_version s) \<or> (cred_version s = v \<and> cred_status s = Revoked)"

lemma past_run: "past v s \<Longrightarrow> past v (foldl credential_step s es)"
proof (induction es arbitrary: s)
  case (Cons e es)
  have "past v (credential_step s e)"
    using Cons.prems credential_step_cases [of s e] by (auto simp: past_def credential_revoke_def)
  then show ?case using Cons.IH by simp
qed simp

lemma u64_to_be_bytes_inj: "u64_to_be_bytes v = u64_to_be_bytes w \<longleftrightarrow> v = w"
proof
  assume eq: "u64_to_be_bytes v = u64_to_be_bytes w"
  have byte: "(ucast (drop_bit (8 * i) v) :: u8) = ucast (drop_bit (8 * i) w)" if "i < 8" for i
  proof -
    have "i \<in> set [7, 6, 5, 4, 3, 2, 1, 0]" using that by auto
    with eq show ?thesis unfolding u64_to_be_bytes_def map_eq_conv by blast
  qed
  show "v = w"
  proof (rule bit_word_eqI)
    fix n assume n: "n < LENGTH(64)"
    have "bit (ucast (drop_bit (8 * (n div 8)) v) :: u8) (n mod 8) =
        bit (ucast (drop_bit (8 * (n div 8)) w) :: u8) (n mod 8)"
      using byte [of "n div 8"] n by simp
    moreover have "8 * (n div 8) + n mod 8 = n" by simp
    ultimately show "bit v n = bit w n" by (simp add: bit_simps del: mult_div_mod_eq)
  qed
qed simp

lemma domains: "length USERNAME_CONTEXT_DOMAIN = 31" "length PASSWORD_CONTEXT_DOMAIN = 31"
  "USERNAME_CONTEXT_DOMAIN \<noteq> PASSWORD_CONTEXT_DOMAIN"
  unfolding USERNAME_CONTEXT_DOMAIN_def PASSWORD_CONTEXT_DOMAIN_def as_bytes_inj by simp_all

lemma derivation_context_eq_iff:
  assumes "derivation_context s p = Inr c" "derivation_context t q = Inr d"
  shows "c = d \<longleftrightarrow> cred_version s = cred_version t \<and> p = q"
  using assms domains
  by (cases p; cases q) (auto simp: derivation_context_def rbind_Inr_iff u64_to_be_bytes_inj)

lemma derivation_context_active: "derivation_context s p = Inr c \<Longrightarrow> cred_status s = Active"
  by (auto simp: derivation_context_def require_active_def rbind_Inr_iff
           split: ExternalCredentialStatus.splits)

text \<open>C20. Revocation is final: whatever rotations and revocations follow the revocation of a
  credential, no input handed to the platform key afterwards, for either purpose, equals any input
  that was derivable in the state that is revoked; so the revoked user name and password are never derived again. While
  the credential stays revoked there is no derivation input at all.\<close>

theorem revoked_never_rederived:
  assumes "derivation_context s p = Inr c"
  shows "derivation_context (foldl credential_step (credential_revoke s) es) q \<noteq> Inr c \<and>
    (cred_status (foldl credential_step (credential_revoke s) es) = Revoked \<longrightarrow>
       derivation_context (foldl credential_step (credential_revoke s) es) q = Inl CredentialRevoked)"
proof
  let ?t = "foldl credential_step (credential_revoke s) es"
  have past: "past (cred_version s) ?t"
    by (rule past_run) (simp add: past_def credential_revoke_def)
  show "derivation_context ?t q \<noteq> Inr c"
  proof
    assume later: "derivation_context ?t q = Inr c"
    then have "cred_version s = cred_version ?t"
      using derivation_context_eq_iff [OF assms later] by simp
    with past derivation_context_active [OF later] show False by (simp add: past_def)
  qed
qed (simp add: derivation_context_def require_active_def)

theorem revoked_never_rederived_witness:
  "derivation_context (foldl credential_step (credential_revoke credential_initial) [Rotate]) Username \<noteq>
     derivation_context credential_initial Username"
proof -
  have "derivation_context credential_initial Username = Inr (USERNAME_CONTEXT_DOMAIN @ u64_to_be_bytes 1)"
    by (simp add: derivation_context_def require_active_def credential_initial_def INITIAL_VERSION_def)
  from revoked_never_rederived [OF this] this show ?thesis by metis
qed

subsection \<open>The state codec\<close>

lemma state_fields_version:
  "sf_version f = None \<Longrightarrow> read_state_fields f (write_varint_field 1 v @ rest) =
     read_state_fields (f\<lparr>sf_version := Some v\<rparr>) rest"
  by (subst read_state_fields.simps) (simp add: read_tag_varint_field)

lemma state_fields_revoked:
  "\<not> sf_revoked_seen f \<Longrightarrow> read_state_fields f (write_varint_field 2 1 @ rest) =
     read_state_fields (f\<lparr>sf_revoked_seen := True, sf_revoked := True\<rparr>) rest"
  by (subst read_state_fields.simps) (simp add: read_tag_varint_field)

lemma state_fields_end [simp]: "read_state_fields f [] = Inr f"
  by (simp add: read_state_fields.simps)

lemma decode_encode_state: "credential_ok s \<Longrightarrow> decode_state (encode_state s) = Inr s"
  using state_fields_version [of _ "cred_version s" "[]"] state_fields_revoked [of _ "[]"]
  by (cases s; cases "cred_status s")
     (simp_all add: decode_state_def encode_state_def state_fields_version credential_ok_def
        ExternalCredentialState_new_def)

lemma decode_state_ok: "decode_state bs = Inr s \<Longrightarrow> credential_ok s"
  by (auto simp: decode_state_def rbind_Inr_iff ExternalCredentialState_new_def credential_ok_def
           split: if_splits)

interpretation state_codec: codec credential_ok encode_state decode_state
  by unfold_locales (simp_all add: decode_encode_state decode_state_ok)

lemma resolve_current:
  "resolve_persistence (Some encoded) lv lr root = Inr res \<longleftrightarrow>
     lv = None \<and> lr = None \<and> root \<and> credential_ok (res_state res) \<and>
     encoded = encode_state (res_state res) \<and> res_canonical_state res = encoded \<and>
     res_action res = UseCurrent"
  by (cases res) (auto simp: resolve_persistence_def rbind_Inr_iff decode_encode_state decode_state_ok)

lemma resolve_legacy:
  "resolve_persistence None (Some raw) (Some revoked) root = Inr res \<longleftrightarrow>
     root \<and> parse_u64 raw = Some (cred_version (res_state res)) \<and> credential_ok (res_state res) \<and>
     revoked = (cred_status (res_state res) = Revoked) \<and>
     res_canonical_state res = encode_state (res_state res) \<and> res_action res = PersistCanonical"
proof (cases res)
  case (fields st canonical action)
  then show ?thesis
    by (cases st; cases "cred_status st")
       (auto simp: resolve_persistence_def rbind_Inr_iff ExternalCredentialState_new_def credential_ok_def)
qed

lemma resolve_fresh:
  "resolve_persistence None None None root = Inr res \<longleftrightarrow>
     \<not> root \<and> res_state res = credential_initial \<and>
     res_canonical_state res = encode_state credential_initial \<and>
     res_action res = CreateRootAndPersistCanonical"
  by (cases res) (auto simp: resolve_persistence_def)

lemma resolve_incomplete:
  "resolve_persistence None (Some raw) None root = Inl IncompleteLegacyState"
  "resolve_persistence None None (Some revoked) root = Inl IncompleteLegacyState"
  by (simp_all add: resolve_persistence_def)

lemma initial_ok: "credential_ok credential_initial"
  by (rule credential.inv_init)

text \<open>C21. What start-up accepts as durable credential state, and what it does with it. The stored
  bytes are used as they are only when they are the canonical encoding of a valid state, no legacy
  value is present and the root key exists. A complete legacy pair with the root key is migrated to
  the version and status it names. A fresh credential is created only when there is no state and no
  root key. Every other combination is refused.\<close>

theorem persistence_resolves_iff:
  "resolve_persistence canonical lv lr root = Inr res \<longleftrightarrow>
     credential_ok (res_state res) \<and> res_canonical_state res = encode_state (res_state res) \<and>
     (case res_action res of
        UseCurrent \<Rightarrow> canonical = Some (encode_state (res_state res)) \<and> lv = None \<and> lr = None \<and> root
      | PersistCanonical \<Rightarrow>
          canonical = None \<and> root \<and> lr = Some (cred_status (res_state res) = Revoked) \<and>
          Option.bind lv parse_u64 = Some (cred_version (res_state res))
      | CreateRootAndPersistCanonical \<Rightarrow>
          canonical = None \<and> lv = None \<and> lr = None \<and> \<not> root \<and> res_state res = credential_initial)"
  by (cases canonical; cases lv; cases lr; cases "res_action res")
     (auto simp: resolve_current resolve_legacy resolve_fresh resolve_incomplete initial_ok)

text \<open>Durable state survives restarts: from any state start-up resolved, after any rotations and
  revocations, storing the encoded state and starting again gives exactly that state, with nothing
  left to migrate; and the version in use has not gone back.\<close>

theorem credential_survives_restart:
  fixes es :: "credential_op list"
  assumes "resolve_persistence canonical lv lr root = Inr res"
  defines "s \<equiv> foldl credential_step (res_state res) es"
  shows "resolve_persistence (Some (encode_state s)) None None True =
      Inr \<lparr>res_state = s, res_canonical_state = encode_state s, res_action = UseCurrent\<rparr> \<and>
    cred_version (res_state res) \<le> cred_version s"
proof -
  have ok: "credential_ok (res_state res)"
    using assms(1)
    by (cases canonical; cases lv; cases lr)
       (auto simp: resolve_current resolve_legacy resolve_fresh resolve_incomplete initial_ok)
  from credential.inv_run [OF this, of es] credential.rank_run [OF ok, of es] show ?thesis
    by (simp add: resolve_current s_def word_le_nat_alt)
qed

theorem credential_survives_restart_witness:
  "resolve_persistence (Some (encode_state \<lparr>cred_version = 8, cred_status = Active\<rparr>)) None None True =
     Inr \<lparr>res_state = \<lparr>cred_version = 8, cred_status = Active\<rparr>,
          res_canonical_state = encode_state \<lparr>cred_version = 8, cred_status = Active\<rparr>, res_action = UseCurrent\<rparr>"
proof -
  have "parse_u64 ''7'' = Some 7"
    by (simp add: parse_u64_def parse_unsigned_def digit_value_def to_ascii_lowercase_def byte_of_def)
  then have "resolve_persistence None (Some ''7'') (Some True) True =
      Inr \<lparr>res_state = \<lparr>cred_version = 7, cred_status = Revoked\<rparr>,
           res_canonical_state = encode_state \<lparr>cred_version = 7, cred_status = Revoked\<rparr>,
           res_action = PersistCanonical\<rparr>"
    by (simp add: resolve_legacy credential_ok_def)
  from credential_survives_restart [OF this, where es = "[Rotate]"] show ?thesis
    by (simp add: rotate_def checked_add_def)
qed

subsection \<open>Provisioning round trip\<close>

lemma lower_hex_ascii: "valid_lower_hex s n \<Longrightarrow> \<forall>b \<in> set (as_bytes s). b < 0x80"
  by (fastforce simp: valid_lower_hex_def as_bytes_def is_ascii_digit_def list_all_iff
        word_less_nat_alt word_le_nat_alt)

lemma lower_hex_is_str: "valid_lower_hex s n \<Longrightarrow> is_str s"
  unfolding is_str_def by (intro ascii_valid_utf8 lower_hex_ascii)

lemma username_is_str:
  assumes "valid_username u"
  shows "is_str u" "length u = 37"
proof -
  obtain t where u: "u = ''mish-'' @ t" and t: "valid_lower_hex t 32"
    using assms by (metis append_take_drop_id valid_username_def)
  have "\<forall>b \<in> set (as_bytes ''mish-''). b < 0x80" by (simp add: byte_of_def)
  with lower_hex_ascii [OF t] show "is_str u"
    unfolding is_str_def u as_bytes_simps by (intro ascii_valid_utf8) auto
  show "length u = 37" using t by (simp add: u valid_lower_hex_def)
qed

lemma digit_char_ascii: "d < 10 \<Longrightarrow> byte_of (digit_char d) < 0x80"
  by (simp add: word_less_nat_alt unat_byte_of digit_char_def)

lemma show_nat_ascii: "\<forall>b \<in> set (as_bytes (show_nat n)). b < 0x80"
proof (induction n rule: show_nat.induct)
  case (1 n)
  then show ?case by (subst show_nat.simps) (auto simp: digit_char_ascii)
qed

lemma credential_id_str: "is_str (credential_id s)" "length (credential_id s) < 2 ^ 64"
proof -
  have "\<forall>b \<in> set (as_bytes ''external-proxy-v''). b < 0x80" by (simp add: byte_of_def)
  with show_nat_ascii [of "unat (cred_version s)"] show "is_str (credential_id s)"
    unfolding is_str_def credential_id_def show_u64_def as_bytes_simps by (intro ascii_valid_utf8) auto
  have "length (show_nat (unat (cred_version s))) \<le> 20"
    using unat_bound [of "cred_version s"] by (intro show_nat_length) simp_all
  then show "length (credential_id s) < 2 ^ 64"
    by (simp add: credential_id_def show_u64_def)
qed

lemma read_utf8_write:
  "is_str s \<Longrightarrow> length s < 2 ^ 64 \<Longrightarrow>
     read_utf8 (write_varint (of_nat (length s)) @ as_bytes s @ rest) = Some (s, rest)"
  using read_bytes_write [of "as_bytes s" rest] by (simp add: read_utf8_def from_utf8_as_bytes)

lemma envelope_fields_step:
  assumes "n \<in> {1, 2, 3, 4, 5, 6}"
    and "envelope_field f \<lparr>field_number = n, wire_type = WIRE_VARINT\<rparr> (write_varint v @ rest) = Some (f', rest)"
  shows "read_envelope_fields f (write_varint_field n v @ rest) = read_envelope_fields f' rest"
  using assms(2) by (subst read_envelope_fields.simps) (simp add: read_tag_varint_field [OF assms(1)])

lemma envelope_fields_bytes_step:
  assumes "n \<in> {1, 2, 3, 4, 5, 6}"
    and "envelope_field f \<lparr>field_number = n, wire_type = WIRE_LENGTH_DELIMITED\<rparr>
      (write_varint (of_nat (length bs)) @ bs @ rest) = Some (f', rest)"
  shows "read_envelope_fields f (write_bytes_field n bs @ rest) = read_envelope_fields f' rest"
  using assms(2) by (subst read_envelope_fields.simps) (simp add: read_tag_bytes_field [OF assms(1)])

lemma envelope_fields_end [simp]: "read_envelope_fields f [] = Inr f"
  by (simp add: read_envelope_fields.simps)

lemma envelope_schema:
  "ef_schema f = None \<Longrightarrow> read_envelope_fields f (write_varint_field 1 v @ rest) =
     read_envelope_fields (f\<lparr>ef_schema := Some v\<rparr>) rest"
  by (rule envelope_fields_step) (simp_all add: envelope_field_def)

lemma envelope_version:
  "ef_version f = None \<Longrightarrow> read_envelope_fields f (write_varint_field 2 v @ rest) =
     read_envelope_fields (f\<lparr>ef_version := Some v\<rparr>) rest"
  by (rule envelope_fields_step) (simp_all add: envelope_field_def)

lemma envelope_challenge:
  "ef_challenge f = None \<Longrightarrow> length bs < 2 ^ 64 \<Longrightarrow>
     read_envelope_fields f (write_bytes_field 4 bs @ rest) =
     read_envelope_fields (f\<lparr>ef_challenge := Some bs\<rparr>) rest"
  by (rule envelope_fields_bytes_step) (simp_all add: envelope_field_def read_bytes_write)

lemma envelope_strings:
  assumes "is_str s" "length s < 2 ^ 64"
  shows "ef_id f = None \<Longrightarrow> read_envelope_fields f (write_bytes_field 3 (as_bytes s) @ rest) =
      read_envelope_fields (f\<lparr>ef_id := Some s\<rparr>) rest"
    and "ef_username f = None \<Longrightarrow> read_envelope_fields f (write_bytes_field 5 (as_bytes s) @ rest) =
      read_envelope_fields (f\<lparr>ef_username := Some s\<rparr>) rest"
    and "ef_password f = None \<Longrightarrow> read_envelope_fields f (write_bytes_field 6 (as_bytes s) @ rest) =
      read_envelope_fields (f\<lparr>ef_password := Some s\<rparr>) rest"
  by (rule envelope_fields_bytes_step; simp add: envelope_field_def read_utf8_write [OF assms])+

lemma validate_material_ok:
  assumes "validate_material s challenge username password = Inr ()"
  shows "cred_status s = Active" "length challenge < 2 ^ 64"
    "is_str username" "length username < 2 ^ 64" "is_str password" "length password < 2 ^ 64"
  using assms username_is_str [of username] lower_hex_is_str [of password 64]
  by (auto simp: validate_material_def PROVISIONING_CHALLENGE_BYTES_def valid_lower_hex_def split: if_splits)

lemma decode_encode_envelope:
  assumes "encode_provisioning_envelope s challenge username password = Inr bytes" "credential_ok s"
  shows "decode_provisioning_envelope bytes =
    Inr \<lparr>env_credential_version = cred_version s, env_credential_id = credential_id s,
         env_challenge = challenge, env_username = username, env_password = password\<rparr>"
proof -
  have valid: "validate_material s challenge username password = Inr ()"
    and bytes: "bytes = write_varint_field 1 (ucast PROVISIONING_SCHEMA_VERSION) @
      write_varint_field 2 (cred_version s) @ write_bytes_field 3 (as_bytes (credential_id s)) @
      write_bytes_field 4 challenge @ write_bytes_field 5 (as_bytes username) @
      write_bytes_field 6 (as_bytes password) @ []"
    using assms(1) by (auto simp: encode_provisioning_envelope_def rbind_Inr_iff)
  note ok = validate_material_ok [OF valid]
  have fields: "read_envelope_fields \<lparr>ef_schema = None, ef_version = None, ef_id = None,
      ef_challenge = None, ef_username = None, ef_password = None\<rparr> bytes =
    Inr \<lparr>ef_schema = Some (ucast PROVISIONING_SCHEMA_VERSION), ef_version = Some (cred_version s),
      ef_id = Some (credential_id s), ef_challenge = Some challenge, ef_username = Some username,
      ef_password = Some password\<rparr>"
    unfolding bytes
    by (simp only: envelope_schema envelope_version envelope_strings [OF credential_id_str]
          envelope_challenge [OF _ ok(2)] envelope_strings [OF ok(3,4)] envelope_strings [OF ok(5,6)]
          envelope_fields.simps envelope_fields.update_convs envelope_fields_end)
  have active: "\<lparr>cred_version = cred_version s, cred_status = Active\<rparr> = s"
    using ok(1) by (cases s) simp
  show ?thesis
    using valid assms(2)
    by (simp add: decode_provisioning_envelope_def fields ExternalCredentialState_new_def
          credential_ok_def active)
qed

text \<open>Hexadecimal text has two valid digits per byte.\<close>

lemma hex_digit: "i < 16 \<Longrightarrow> is_ascii_digit (HEX ! i) \<or> (0x61 \<le> byte_of (HEX ! i) \<and> byte_of (HEX ! i) \<le> 0x66)"
proof -
  have "list_all (\<lambda>c. is_ascii_digit c \<or> (0x61 \<le> byte_of c \<and> byte_of c \<le> 0x66)) HEX" by code_simp
  moreover assume "i < 16"
  moreover have "length HEX = 16" by (simp add: HEX_def)
  ultimately show ?thesis by (simp add: list_all_length)
qed

lemma nibbles: "unat (drop_bit 4 (b :: u8)) < 16" "unat (b AND 0x0f) < 16"
proof -
  show "unat (drop_bit 4 b) < 16"
    using unat_bound [of b] by (simp add: drop_bit_eq_div unat_div)
  have "b AND 0x0f = take_bit 4 b" by (simp add: take_bit_eq_mask mask_eq_exp_minus_1)
  then show "unat (b AND 0x0f) < 16" by (simp add: take_bit_eq_mod unat_mod)
qed

lemma encode_hex_valid: "length bs * 2 = n \<Longrightarrow> valid_lower_hex (encode_hex bs) n"
  unfolding valid_lower_hex_def encode_hex_def
  by (induction bs arbitrary: n) (use hex_digit nibbles in auto)

text \<open>C22. Provisioning works end to end: the user name and password of an active credential,
  materialized from two 32-byte key outputs, are accepted by the envelope encoder for any 32-byte
  challenge, and decoding the envelope gives back exactly the version, the identifier, the challenge,
  the user name and the password.\<close>

theorem provisioning_round_trip:
  assumes "credential_ok s" "materialize s username_mac password_mac = Inr m"
    and "length challenge = PROVISIONING_CHALLENGE_BYTES"
  shows "\<exists>bytes.
    encode_provisioning_envelope s challenge (material_username m) (material_password m) = Inr bytes \<and>
    decode_provisioning_envelope bytes =
      Inr \<lparr>env_credential_version = cred_version s, env_credential_id = credential_id s,
           env_challenge = challenge, env_username = material_username m,
           env_password = material_password m\<rparr>"
proof -
  from assms(2) have active: "cred_status s = Active"
    and len: "length username_mac = 32" "length password_mac = 32"
    and m: "m = \<lparr>material_username = ''mish-'' @ encode_hex (take 16 username_mac),
      material_password = encode_hex password_mac\<rparr>"
    by (auto simp: materialize_def rbind_Inr_iff require_active_def DERIVATION_OUTPUT_BYTES_def
             split: if_splits ExternalCredentialStatus.splits)
  have "valid_username (material_username m)" "valid_lower_hex (material_password m) 64"
    using len by (simp_all add: m valid_username_def encode_hex_valid)
  with active assms(3) obtain bytes where
    "encode_provisioning_envelope s challenge (material_username m) (material_password m) = Inr bytes"
    by (simp add: encode_provisioning_envelope_def validate_material_def)
  with decode_encode_envelope [OF this assms(1)] show ?thesis by blast
qed

theorem provisioning_round_trip_witness:
  "\<exists>m bytes.
     materialize credential_initial (replicate 32 0x5a) (replicate 32 0xc3) = Inr m \<and>
     material_username m = ''mish-5a5a5a5a5a5a5a5a5a5a5a5a5a5a5a5a'' \<and>
     encode_provisioning_envelope credential_initial (replicate 32 7)
       (material_username m) (material_password m) = Inr bytes \<and>
     is_ok (decode_provisioning_envelope bytes)"
proof -
  have hex: "encode_hex (replicate 16 0x5a) = ''5a5a5a5a5a5a5a5a5a5a5a5a5a5a5a5a''"
  proof -
    have "replicate 16 s = [s, s, s, s, s, s, s, s, s, s, s, s, s, s, s, s]" for s :: string
      by (simp add: eval_nat_numeral)
    then show ?thesis by (simp add: encode_hex_def HEX_def)
  qed
  let ?m = "\<lparr>material_username = ''mish-'' @ encode_hex (replicate 16 0x5a),
    material_password = encode_hex (replicate 32 0xc3)\<rparr>"
  have m: "materialize credential_initial (replicate 32 0x5a) (replicate 32 0xc3) = Inr ?m"
    by (simp only: materialize_def credential_initial_def require_active_def DERIVATION_OUTPUT_BYTES_def
          rbind.simps length_replicate take_replicate ExternalCredentialState.simps
          ExternalCredentialStatus.case) simp
  have len: "length (replicate 32 (7 :: u8)) = PROVISIONING_CHALLENGE_BYTES"
    by (simp add: PROVISIONING_CHALLENGE_BYTES_def)
  from provisioning_round_trip [OF initial_ok m len] obtain bytes where
    "encode_provisioning_envelope credential_initial (replicate 32 7)
       (material_username ?m) (material_password ?m) = Inr bytes"
    "is_ok (decode_provisioning_envelope bytes)"
    by (auto simp only: is_ok.simps)
  with m show ?thesis
    by (intro exI [of _ ?m] exI [of _ bytes]) (simp only: ExternalCredentialMaterial.simps hex append.simps simp_thms)
qed

end
