(* ===== verification/Rust_Io.thy ===== *)
theory Rust_Io
  imports Mish_Prelude
begin

text \<open>
  Byte streams as the proxy uses them (\<open>std::io::Read\<close>, \<open>std::io::Write\<close>, and the \<open>ReplayIo\<close>
  wrapper of \<open>crates/proxy/src/mixed.rs\<close>). What the peer sends is a script of read results: a chunk
  may be split by a small buffer, an empty chunk is the end of input reported by a zero-length read,
  and a read may fail, also with \<open>Interrupted\<close>. What is written is recorded; writing may fail after
  some bytes. The lemmas relate the code's read loops to the items of the script, so that results do
  not depend on how the bytes were cut into chunks.
\<close>

text \<open>\<open>Elapsed\<close> is a read under a deadline that has passed.\<close>

datatype IoError = Interrupted | UnexpectedEof | Elapsed | OtherIo string

datatype RxEvent = Chunk "u8 list" | RxError IoError

record Stream =
  rx :: "RxEvent list"
  tx :: "u8 list"
  tx_limit :: "(usize \<times> IoError) option"
  replay :: "u8 option"
  write_shut :: bool

subsection \<open>Reading\<close>

fun read_script :: "usize \<Rightarrow> RxEvent list \<Rightarrow> (IoError + u8 list) \<times> RxEvent list" where
  "read_script n [] = (Inr [], [])"
| "read_script n (Chunk c # r) = (Inr (take n c), if length c \<le> n then r else Chunk (drop n c) # r)"
| "read_script n (RxError e # r) = (Inl e, r)"

text \<open>One \<open>read\<close> with a buffer of \<open>n\<close> bytes; a replayed byte is delivered first.\<close>

definition read_stream :: "usize \<Rightarrow> Stream \<Rightarrow> (IoError + u8 list) \<times> Stream" where
  "read_stream n s =
     (if n = 0 then (Inr [], s)
      else case replay s of
        Some b \<Rightarrow> (Inr [b], s\<lparr>replay := None\<rparr>)
      | None \<Rightarrow> (case read_script n (rx s) of (res, r) \<Rightarrow> (res, s\<lparr>rx := r\<rparr>)))"

primrec event_size :: "RxEvent \<Rightarrow> nat" where
  "event_size (Chunk c) = Suc (length c)"
| "event_size (RxError e) = 1"

definition stream_size :: "Stream \<Rightarrow> nat" where
  "stream_size s = sum_list (map event_size (rx s)) + (case replay s of None \<Rightarrow> 0 | Some b \<Rightarrow> 1)"

lemma read_script_size:
  assumes "read_script n r = (res, r')" "0 < n"
  shows "res = Inr [] \<or> sum_list (map event_size r') < sum_list (map event_size r)"
  using assms by (induction n r rule: read_script.induct) (auto split: if_splits)

lemma read_stream_size:
  assumes "read_stream n s = (res, s')" "0 < n"
  shows "res = Inr [] \<or> stream_size s' < stream_size s"
  using assms read_script_size [of n "rx s" res]
  by (auto simp: read_stream_def stream_size_def split: option.splits prod.splits if_splits)

lemma read_stream_progress:
  "read_stream n s = (Inl e, s') \<Longrightarrow> 0 < n \<Longrightarrow> stream_size s' < stream_size s"
  "read_stream n s = (Inr (b # bs), s') \<Longrightarrow> 0 < n \<Longrightarrow> stream_size s' < stream_size s"
  using read_stream_size [of n s _ s'] by blast+

text \<open>\<open>Read::read_exact\<close>: reads until the buffer is full, retrying interrupted reads.\<close>

function read_exact :: "usize \<Rightarrow> Stream \<Rightarrow> (IoError + u8 list) \<times> Stream" where
  "read_exact n s =
     (if n = 0 then (Inr [], s)
      else case read_stream n s of
        (Inl Interrupted, s') \<Rightarrow> read_exact n s'
      | (Inl e, s') \<Rightarrow> (Inl e, s')
      | (Inr [], s') \<Rightarrow> (Inl UnexpectedEof, s')
      | (Inr (b # bs), s') \<Rightarrow>
          (case read_exact (n - length (b # bs)) s' of
             (Inl e, s'') \<Rightarrow> (Inl e, s'')
           | (Inr rest, s'') \<Rightarrow> (Inr ((b # bs) @ rest), s'')))"
  by pat_completeness auto
termination
  by (relation "measure (\<lambda>(n, s). stream_size s)")
     (auto dest: read_stream_progress [OF sym])

declare read_exact.simps [simp del]

subsection \<open>Writing\<close>

text \<open>\<open>Write::write_all\<close>: interrupted writes are retried; another failure leaves the bytes that
  went out before it.\<close>

definition write_all :: "u8 list \<Rightarrow> Stream \<Rightarrow> (IoError + unit) \<times> Stream" where
  "write_all bs s =
     (case tx_limit s of
        None \<Rightarrow> (Inr (), s\<lparr>tx := tx s @ bs\<rparr>)
      | Some (n, e) \<Rightarrow>
          if length bs \<le> n then (Inr (), s\<lparr>tx := tx s @ bs, tx_limit := Some (n - length bs, e)\<rparr>)
          else if e = Interrupted then (Inr (), s\<lparr>tx := tx s @ bs, tx_limit := None\<rparr>)
          else (Inl e, s\<lparr>tx := tx s @ take n bs, tx_limit := Some (0, e)\<rparr>))"

definition shutdown_write :: "Stream \<Rightarrow> Stream" where
  "shutdown_write s = s\<lparr>write_shut := True\<rparr>"

subsection \<open>Fallible stream code\<close>

type_synonym ('e, 'a) io = "Stream \<Rightarrow> ('e + 'a) \<times> Stream"

definition sreturn :: "'a \<Rightarrow> ('e, 'a) io" where
  "sreturn x s = (Inr x, s)"

definition sfail :: "'e \<Rightarrow> ('e, 'a) io" where
  "sfail e s = (Inl e, s)"

text \<open>The question-mark operator on a stream operation, and its error conversion.\<close>

definition sbind :: "('e, 'a) io \<Rightarrow> ('a \<Rightarrow> ('e, 'b) io) \<Rightarrow> ('e, 'b) io" where
  "sbind m k s = (case m s of (Inl e, s') \<Rightarrow> (Inl e, s') | (Inr x, s') \<Rightarrow> k x s')"

definition smap_err :: "('e \<Rightarrow> 'f) \<Rightarrow> ('e, 'a) io \<Rightarrow> ('f, 'a) io" where
  "smap_err f m s = (case m s of (r, s') \<Rightarrow> (map_err f r, s'))"

text \<open>\<open>let _ = ...\<close>: the result is ignored, the effect stays.\<close>

definition signore :: "('e, 'a) io \<Rightarrow> ('f, unit) io" where
  "signore m s = (Inr (), snd (m s))"

lemma sbind_simps [simp]:
  "m s = (Inl e, s') \<Longrightarrow> sbind m k s = (Inl e, s')"
  "m s = (Inr x, s') \<Longrightarrow> sbind m k s = k x s'"
  by (simp_all add: sbind_def)

lemma sbind_Inr_iff:
  "sbind m k s = (Inr y, s'') \<longleftrightarrow> (\<exists>x s'. m s = (Inr x, s') \<and> k x s' = (Inr y, s''))"
  by (auto simp: sbind_def split: prod.splits sum.splits)

lemma smap_err_Inr_iff [simp]: "smap_err f m s = (Inr x, s') \<longleftrightarrow> m s = (Inr x, s')"
  by (auto simp: smap_err_def split: prod.splits)

lemma sreturn_Inr_iff [simp]: "sreturn x s = (r, s') \<longleftrightarrow> r = Inr x \<and> s' = s"
  by (auto simp: sreturn_def)

lemma sfail_iff [simp]: "sfail e s = (r, s') \<longleftrightarrow> r = Inl e \<and> s' = s"
  by (auto simp: sfail_def)

subsection \<open>Items\<close>

text \<open>What a script means to code that retries interrupted reads: its data bytes, the hard failures
  and the ends of input, in order; after the last item the input has ended.\<close>

datatype item = Data u8 | Hard IoError | Eof

fun event_items :: "RxEvent \<Rightarrow> item list" where
  "event_items (Chunk []) = [Eof]"
| "event_items (Chunk (b # bs)) = map Data (b # bs)"
| "event_items (RxError Interrupted) = []"
| "event_items (RxError e) = [Hard e]"

definition items :: "Stream \<Rightarrow> item list" where
  "items s = (case replay s of None \<Rightarrow> [] | Some b \<Rightarrow> [Data b]) @ concat (map event_items (rx s))"

text \<open>What a stream shows to the code: its items and its writing side.\<close>

definition view :: "Stream \<Rightarrow> item list \<times> u8 list \<times> (usize \<times> IoError) option \<times> bool" where
  "view s = (items s, tx s, tx_limit s, write_shut s)"

fun take_exact :: "nat \<Rightarrow> item list \<Rightarrow> (IoError + u8 list) \<times> item list" where
  "take_exact 0 is = (Inr [], is)"
| "take_exact (Suc n) [] = (Inl UnexpectedEof, [])"
| "take_exact (Suc n) (Eof # is) = (Inl UnexpectedEof, is)"
| "take_exact (Suc n) (Hard e # is) = (Inl e, is)"
| "take_exact (Suc n) (Data b # is) =
     (case take_exact n is of (Inl e, r) \<Rightarrow> (Inl e, r) | (Inr bs, r) \<Rightarrow> (Inr (b # bs), r))"

lemma take_exact_append:
  "length bs \<le> n \<Longrightarrow> take_exact n (map Data bs @ is) =
     (case take_exact (n - length bs) is of (Inl e, r) \<Rightarrow> (Inl e, r) | (Inr rest, r) \<Rightarrow> (Inr (bs @ rest), r))"
proof (induction bs arbitrary: n)
  case Nil
  show ?case by (auto split: prod.splits sum.splits)
next
  case (Cons b bs)
  then obtain m where "n = Suc m" "length bs \<le> m" by (cases n) auto
  with Cons.IH [of m] show ?case by (auto split: prod.splits sum.splits)
qed

lemma take_exact_data [simp]: "length bs = n \<Longrightarrow> take_exact n (map Data bs @ is) = (Inr bs, is)"
  by (simp add: take_exact_append)

lemma take_exact_Inr:
  "take_exact n is = (Inr bs, r) \<Longrightarrow> is = map Data bs @ r \<and> length bs = n"
  by (induction n "is" arbitrary: bs rule: take_exact.induct) (auto split: prod.splits sum.splits)

text \<open>One read shows the next item, or an interruption, or several data bytes.\<close>

lemma chunk_items: "bs \<noteq> [] \<Longrightarrow> event_items (Chunk bs) = map Data bs"
  by (cases bs) simp_all

lemma read_script_cases:
  assumes "0 < n"
  obtains r' where "read_script n r = (Inl Interrupted, r')"
      "concat (map event_items r') = concat (map event_items r)"
  | e r' where "read_script n r = (Inl e, r')" "e \<noteq> Interrupted"
      "concat (map event_items r) = Hard e # concat (map event_items r')"
  | "read_script n r = (Inr [], [])" "r = []"
  | r' where "read_script n r = (Inr [], r')"
      "concat (map event_items r) = Eof # concat (map event_items r')"
  | b bs r' where "read_script n r = (Inr (b # bs), r')" "length (b # bs) \<le> n"
      "concat (map event_items r) = map Data (b # bs) @ concat (map event_items r')"
proof (cases r)
  case Nil
  then show ?thesis using that(3) by simp
next
  case (Cons e r')
  show ?thesis
  proof (cases e)
    case (RxError err)
    then show ?thesis using Cons that(1,2) by (cases err) auto
  next
    case (Chunk c)
    show ?thesis
    proof (cases c)
      case Nil
      then show ?thesis using Cons Chunk that(4) by auto
    next
      case c: (Cons b bs)
      have first: "take n c = b # take (n - 1) bs" using assms c by (cases n) auto
      have "concat (map event_items r) = map Data (take n c) @
          concat (map event_items (if length c \<le> n then r' else Chunk (drop n c) # r'))"
      proof (cases "length c \<le> n")
        case True
        then show ?thesis using Cons Chunk c by simp
      next
        case False
        have "map Data c = map Data (take n c) @ map Data (drop n c)"
          unfolding map_append [symmetric] by simp
        then show ?thesis using Cons Chunk c False by (simp add: chunk_items del: event_items.simps(2))
      qed
      moreover have "read_script n r =
          (Inr (take n c), if length c \<le> n then r' else Chunk (drop n c) # r')"
        using Cons Chunk by simp
      ultimately show ?thesis using that(5) first assms by (metis length_take min.cobounded2)
    qed
  qed
qed

lemma read_stream_cases:
  assumes "0 < n"
  obtains s' where "read_stream n s = (Inl Interrupted, s')" "view s' = view s"
  | e s' where "read_stream n s = (Inl e, s')" "e \<noteq> Interrupted"
      "items s = Hard e # items s'" "snd (view s') = snd (view s)"
  | s' where "read_stream n s = (Inr [], s')" "items s = []" "view s' = view s"
  | s' where "read_stream n s = (Inr [], s')" "items s = Eof # items s'" "snd (view s') = snd (view s)"
  | b bs s' where "read_stream n s = (Inr (b # bs), s')" "length (b # bs) \<le> n"
      "items s = map Data (b # bs) @ items s'" "snd (view s') = snd (view s)"
proof (cases "replay s")
  case (Some b)
  then show ?thesis
    using assms that(5) [of b "[]" "s\<lparr>replay := None\<rparr>"]
    by (simp add: read_stream_def items_def view_def)
next
  case None
  then have read: "read_stream n s = (fst (read_script n (rx s)), s\<lparr>rx := snd (read_script n (rx s))\<rparr>)"
    using assms by (simp add: read_stream_def split: prod.splits)
  have items: "items s = concat (map event_items (rx s))"
    "items (s\<lparr>rx := r\<rparr>) = concat (map event_items r)" for r
    using None by (simp_all add: items_def)
  have out: "snd (view (s\<lparr>rx := r\<rparr>)) = snd (view s)" for r
    by (simp add: view_def)
  have same: "view (s\<lparr>rx := r\<rparr>) = view s" if "concat (map event_items r) = concat (map event_items (rx s))" for r
    using that items by (simp add: view_def)
  from assms show ?thesis
  proof (cases rule: read_script_cases [of n "rx s"])
    case (1 r')
    then show ?thesis using that(1) read same by simp
  next
    case (2 e r')
    then show ?thesis using that(2) read items out by simp
  next
    case 3
    then show ?thesis using that(3) read items same by simp
  next
    case (4 r')
    then show ?thesis using that(4) read items out by simp
  next
    case (5 b bs r')
    then show ?thesis using that(5) read items out by simp
  qed
qed

lemma read_exact_items:
  "fst (read_exact n s) = fst (take_exact n (items s)) \<and>
   view (snd (read_exact n s)) = (snd (take_exact n (items s)), snd (view s))"
proof (induction n s rule: read_exact.induct)
  case (1 n s)
  show ?case
  proof (cases "n = 0")
    case True
    then show ?thesis by (subst (1 2) read_exact.simps) (simp add: view_def)
  next
    case False
    then have "0 < n" by simp
    then show ?thesis
    proof (cases rule: read_stream_cases [of n s])
      case (1 s')
      then have "items s' = items s" by (simp add: view_def)
      with 1 "1.IH"(1) [OF False] False show ?thesis
        by (subst (1 2) read_exact.simps) simp
    next
      case (2 e s')
      with False show ?thesis
        by (subst (1 2) read_exact.simps) (cases e; cases n; simp add: view_def)
    next
      case (3 s')
      with False show ?thesis
        by (subst (1 2) read_exact.simps) (cases n; simp add: view_def)
    next
      case (4 s')
      with False show ?thesis
        by (subst (1 2) read_exact.simps) (cases n; simp add: view_def)
    next
      case (5 b bs s')
      have ih: "fst (read_exact (n - length (b # bs)) s') = fst (take_exact (n - length (b # bs)) (items s'))"
        "view (snd (read_exact (n - length (b # bs)) s')) =
           (snd (take_exact (n - length (b # bs)) (items s')), snd (view s'))"
        using "1.IH"(2) [OF False 5(1) [symmetric] refl refl] by blast+
      have "read_exact n s = (case read_exact (n - length (b # bs)) s' of
             (Inl e, s'') \<Rightarrow> (Inl e, s'')
           | (Inr rest, s'') \<Rightarrow> (Inr ((b # bs) @ rest), s''))"
        using False 5(1) by (subst read_exact.simps) simp
      moreover have "take_exact n (items s) = (case take_exact (n - length (b # bs)) (items s') of
             (Inl e, r) \<Rightarrow> (Inl e, r) | (Inr rest, r) \<Rightarrow> (Inr ((b # bs) @ rest), r))"
        unfolding 5(3) using 5(2) by (rule take_exact_append)
      ultimately show ?thesis using ih 5(4)
        by (auto split: prod.splits sum.splits)
    qed
  qed
qed

lemma read_exact_data:
  assumes "items s = map Data bs @ is" "length bs = n"
  obtains s' where "read_exact n s = (Inr bs, s')" "items s' = is" "snd (view s') = snd (view s)"
  using read_exact_items [of n s] assms by (cases "read_exact n s") (auto simp: view_def)

lemma read_exact_Inr:
  assumes "read_exact n s = (Inr bs, s')"
  shows "items s = map Data bs @ items s'" "length bs = n" "snd (view s') = snd (view s)"
  using read_exact_items [of n s] assms take_exact_Inr [of n "items s" bs "items s'"]
  by (auto simp: view_def prod_eq_iff)

subsection \<open>Independence of chunking\<close>

text \<open>Stream code is uniform when what it returns and what it leaves depend only on the view.\<close>

definition uniform :: "('e, 'a) io \<Rightarrow> bool" where
  "uniform m \<longleftrightarrow>
     (\<forall>s t. view s = view t \<longrightarrow> fst (m s) = fst (m t) \<and> view (snd (m s)) = view (snd (m t)))"

named_theorems uniform_rules

lemma uniform_read_exact [uniform_rules]: "uniform (read_exact n)"
  unfolding uniform_def using read_exact_items [of n] by (auto simp: view_def)

lemma uniform_write_all [uniform_rules]: "uniform (write_all bs)"
  by (auto simp: uniform_def write_all_def view_def items_def split: option.splits)

lemma uniform_sreturn [uniform_rules]: "uniform (sreturn x)"
  by (simp add: uniform_def sreturn_def)

lemma uniform_sfail [uniform_rules]: "uniform (sfail e)"
  by (simp add: uniform_def sfail_def)

lemma uniformI:
  "(\<And>s t. view s = view t \<Longrightarrow> fst (m s) = fst (m t) \<and> view (snd (m s)) = view (snd (m t))) \<Longrightarrow> uniform m"
  unfolding uniform_def by blast

lemma uniformD:
  assumes "uniform m" "view s = view t"
  shows "fst (m s) = fst (m t)" "view (snd (m s)) = view (snd (m t))"
  using assms unfolding uniform_def by blast+

lemma uniform_signore [uniform_rules]:
  assumes "uniform m"
  shows "uniform (signore m)"
proof (rule uniformI)
  fix s t assume "view s = view t"
  from uniformD [OF assms this]
  show "fst (signore m s) = fst (signore m t) \<and> view (snd (signore m s)) = view (snd (signore m t))"
    by (simp add: signore_def)
qed

lemma uniform_smap_err [uniform_rules]:
  assumes "uniform m"
  shows "uniform (smap_err f m)"
proof (rule uniformI)
  fix s t assume "view s = view t"
  from uniformD [OF assms this]
  show "fst (smap_err f m s) = fst (smap_err f m t) \<and> view (snd (smap_err f m s)) = view (snd (smap_err f m t))"
    by (simp add: smap_err_def split_beta)
qed

lemma uniform_sbind [uniform_rules]:
  assumes "uniform m" "\<And>x. uniform (k x)"
  shows "uniform (sbind m k)"
proof (rule uniformI)
  fix s t assume same: "view s = view t"
  show "fst (sbind m k s) = fst (sbind m k t) \<and> view (snd (sbind m k s)) = view (snd (sbind m k t))"
  proof (cases "fst (m s)")
    case (Inl e)
    then show ?thesis using uniformD [OF assms(1) same] by (simp add: sbind_def split_beta)
  next
    case (Inr x)
    then show ?thesis
      using uniformD [OF assms(1) same] uniformD [OF assms(2), of "snd (m s)" "snd (m t)" x]
      by (simp add: sbind_def split_beta)
  qed
qed

lemma uniform_if [uniform_rules]:
  "(b \<Longrightarrow> uniform m) \<Longrightarrow> (\<not> b \<Longrightarrow> uniform m') \<Longrightarrow> uniform (if b then m else m')"
  by simp

end
