(* ===== verification/Rust_Addr.thy ===== *)
theory Rust_Addr
  imports Rust_Net Rust_Str
begin

text \<open>
  Textual addresses (\<open>core::net::parser\<close> of the Rust standard library), as the proxy and the
  address probes parse them. A parser takes the unread input and returns the value with the rest, or
  \<open>None\<close> without having consumed anything.
\<close>

type_synonym 'a addr_parser = "string \<Rightarrow> ('a \<times> string) option"

definition read_given_char :: "char \<Rightarrow> unit addr_parser" where
  "read_given_char c s = (case s of d # r \<Rightarrow> if d = c then Some ((), r) else None | [] \<Rightarrow> None)"

text \<open>\<open>read_number\<close>: digits of the radix, at most \<open>max_digits\<close>, the value below \<open>limit\<close>, without a
  leading zero unless it is allowed.\<close>

fun number_loop :: "nat \<Rightarrow> nat \<Rightarrow> nat \<Rightarrow> nat \<Rightarrow> nat \<Rightarrow> string \<Rightarrow> (nat \<times> nat \<times> string) option" where
  "number_loop radix max_digits limit count acc [] = Some (acc, count, [])"
| "number_loop radix max_digits limit count acc (c # r) =
     (case digit_value radix c of
        None \<Rightarrow> Some (acc, count, c # r)
      | Some d \<Rightarrow>
          if limit \<le> acc * radix + d \<or> max_digits < Suc count then None
          else number_loop radix max_digits limit (Suc count) (acc * radix + d) r)"

definition read_number :: "nat \<Rightarrow> nat \<Rightarrow> bool \<Rightarrow> nat \<Rightarrow> nat addr_parser" where
  "read_number radix max_digits allow_zero_prefix limit s =
     (case number_loop radix max_digits limit 0 0 s of
        None \<Rightarrow> None
      | Some (v, count, r) \<Rightarrow>
          if count = 0 \<or> \<not> allow_zero_prefix \<and> take 1 s = ''0'' \<and> 1 < count then None
          else Some (v, r))"

text \<open>\<open>read_separator\<close>: the separator is expected before every element but the first.\<close>

definition read_separator :: "char \<Rightarrow> nat \<Rightarrow> 'a addr_parser \<Rightarrow> 'a addr_parser" where
  "read_separator sep index inner s =
     (if index = 0 then inner s
      else case read_given_char sep s of None \<Rightarrow> None | Some (u, r) \<Rightarrow> inner r)"

fun read_octets :: "nat \<Rightarrow> nat \<Rightarrow> u8 list addr_parser" where
  "read_octets index 0 s = Some ([], s)"
| "read_octets index (Suc n) s =
     (case read_separator (CHR ''.'') index (read_number 10 3 False 256) s of
        None \<Rightarrow> None
      | Some (v, r) \<Rightarrow>
          (case read_octets (Suc index) n r of
             None \<Rightarrow> None
           | Some (vs, r) \<Rightarrow> Some (of_nat v # vs, r)))"

definition read_ipv4_addr :: "Ipv4Addr addr_parser" where
  "read_ipv4_addr s =
     (case read_octets 0 4 s of
        Some ([a, b, c, d], r) \<Rightarrow> Some (ipv4_from_octets a b c d, r)
      | _ \<Rightarrow> None)"

text \<open>\<open>read_groups\<close>: up to \<open>limit\<close> groups of 16 bits, possibly ending in a dotted quad; the flag
  says whether it did.\<close>

function read_groups :: "nat \<Rightarrow> nat \<Rightarrow> u16 list \<Rightarrow> string \<Rightarrow> u16 list \<times> bool \<times> string" where
  "read_groups limit i groups s =
     (if limit \<le> i then (groups, False, s)
      else case (if i < limit - 1 then read_separator (CHR '':'') i read_ipv4_addr s else None) of
        Some (v4, r) \<Rightarrow> (groups @ [ucast (drop_bit 16 v4), ucast v4], True, r)
      | None \<Rightarrow>
          (case read_separator (CHR '':'') i (read_number 16 4 True 65536) s of
             None \<Rightarrow> (groups, False, s)
           | Some (g, r) \<Rightarrow> read_groups limit (Suc i) (groups @ [of_nat g]) r))"
  by pat_completeness auto
termination by (relation "measure (\<lambda>(limit, i, groups, s). limit - i)") auto

declare read_groups.simps [simp del]

definition ipv6_from_groups :: "u16 list \<Rightarrow> Ipv6Addr" where
  "ipv6_from_groups gs = foldl (\<lambda>a g. push_bit 16 a OR ucast g) 0 gs"

definition read_ipv6_addr :: "Ipv6Addr addr_parser" where
  "read_ipv6_addr s =
     (case read_groups 8 0 [] s of (head, head_ipv4, r) \<Rightarrow>
        if length head = 8 then Some (ipv6_from_groups head, r)
        else if head_ipv4 then None
        else case read_given_char (CHR '':'') r of
          None \<Rightarrow> None
        | Some (u, r) \<Rightarrow>
            (case read_given_char (CHR '':'') r of
               None \<Rightarrow> None
             | Some (u, r) \<Rightarrow>
                 (case read_groups (8 - (length head + 1)) 0 [] r of (tail, tail_ipv4, r) \<Rightarrow>
                    Some (ipv6_from_groups
                      (head @ replicate (8 - length head - length tail) 0 @ tail), r))))"

definition read_ip_addr :: "IpAddr addr_parser" where
  "read_ip_addr s =
     (case read_ipv4_addr s of
        Some (a, r) \<Rightarrow> Some (V4 a, r)
      | None \<Rightarrow> map_option (\<lambda>(a, r). (V6 a, r)) (read_ipv6_addr s))"

text \<open>\<open>parse\<close> needs the whole input.\<close>

definition parse_all :: "'a addr_parser \<Rightarrow> string \<Rightarrow> 'a option" where
  "parse_all p s = (case p s of Some (x, []) \<Rightarrow> Some x | _ \<Rightarrow> None)"

definition parse_ipv4 :: "string \<Rightarrow> Ipv4Addr option" where
  "parse_ipv4 s = (if 15 < length s then None else parse_all read_ipv4_addr s)"

definition parse_ipv6 :: "string \<Rightarrow> Ipv6Addr option" where
  "parse_ipv6 s = parse_all read_ipv6_addr s"

definition parse_ip :: "string \<Rightarrow> IpAddr option" where
  "parse_ip s = parse_all read_ip_addr s"

end
