(* ===== verification/Proxy_Auth.thy ===== *)
theory Proxy_Auth
  imports Rust_Net Rust_Str
begin

text \<open>
  The policy of the proxy: listeners and serving plan (\<open>crates/proxy/src/lib.rs\<close>), targets
  (\<open>target.rs\<close>), authentication (\<open>auth.rs\<close>) and the Basic authorization value
  (\<open>http_connect.rs\<close>, lines 124-154). The trait \<open>ProxyAuthenticator\<close> is a record of functions; its
  contract is the locale \<open>proxy_authenticator\<close>. The availability callback of the temporary grant is
  outside the sources: its answer at the moment of the check is a field of the record.
\<close>

subsection \<open>Listeners and plan\<close>

definition MIXED_PORT :: u16 where "MIXED_PORT = 1080"
definition SOCKS5_PORT :: u16 where "SOCKS5_PORT = 1081"
definition HTTP_CONNECT_PORT :: u16 where "HTTP_CONNECT_PORT = 3128"

datatype ProxyProtocol = Mixed | Socks5 | Http

record ProxyListener =
  listener_protocol :: ProxyProtocol
  listener_port :: u16

definition canonical_listeners :: "ProxyListener list" where
  "canonical_listeners =
     [\<lparr>listener_protocol = Mixed, listener_port = MIXED_PORT\<rparr>,
      \<lparr>listener_protocol = Socks5, listener_port = SOCKS5_PORT\<rparr>,
      \<lparr>listener_protocol = Http, listener_port = HTTP_CONNECT_PORT\<rparr>]"

datatype ProxyPolicyError =
    WildcardListenAddress
  | EmptyUsername
  | EmptyPassword
  | DuplicateCredentialUsername
  | InvalidTemporarySocks5Credential

record ProxyCredentialMaterial =
  proxy_username :: string
  proxy_password :: string

definition ProxyCredentialMaterial_new ::
    "string \<Rightarrow> string \<Rightarrow> ProxyPolicyError + ProxyCredentialMaterial" where
  "ProxyCredentialMaterial_new username password =
     (if trim username = [] then Inl EmptyUsername
      else if trim password = [] then Inl EmptyPassword
      else Inr \<lparr>proxy_username = username, proxy_password = password\<rparr>)"

primrec ip_is_unspecified :: "IpAddr \<Rightarrow> bool" where
  "ip_is_unspecified (V4 a) = (a = 0)"
| "ip_is_unspecified (V6 a) = (a = 0)"

record ProxyServingPlan =
  plan_listen_address :: IpAddr
  plan_credentials :: ProxyCredentialMaterial

definition ProxyServingPlan_canonical ::
    "IpAddr \<Rightarrow> ProxyCredentialMaterial \<Rightarrow> ProxyPolicyError + ProxyServingPlan" where
  "ProxyServingPlan_canonical listen_address credentials =
     (if ip_is_unspecified listen_address then Inl WildcardListenAddress
      else Inr \<lparr>plan_listen_address = listen_address, plan_credentials = credentials\<rparr>)"

subsection \<open>Targets\<close>

definition MAX_DOMAIN_BYTES :: usize where "MAX_DOMAIN_BYTES = 255"

datatype ProxyTargetError = EmptyDomain | DomainTooLong | InvalidTargetDomain | ZeroPort

datatype ProxyTargetHost = HostV4 Ipv4Addr | HostV6 Ipv6Addr | Domain string

record ProxyConnectTarget =
  target_host :: ProxyTargetHost
  target_port :: u16

definition ProxyConnectTarget_new :: "ProxyTargetHost \<Rightarrow> u16 \<Rightarrow> ProxyTargetError + ProxyConnectTarget" where
  "ProxyConnectTarget_new host port =
     (if port = 0 then Inl ZeroPort else Inr \<lparr>target_host = host, target_port = port\<rparr>)"

definition target_ipv4 :: "Ipv4Addr \<Rightarrow> u16 \<Rightarrow> ProxyTargetError + ProxyConnectTarget" where
  "target_ipv4 address port = ProxyConnectTarget_new (HostV4 address) port"

definition target_ipv6 :: "Ipv6Addr \<Rightarrow> u16 \<Rightarrow> ProxyTargetError + ProxyConnectTarget" where
  "target_ipv6 address port = ProxyConnectTarget_new (HostV6 address) port"

definition host_domain :: "string \<Rightarrow> ProxyTargetError + ProxyTargetHost" where
  "host_domain domain =
     (if domain = [] then Inl EmptyDomain
      else if length domain > MAX_DOMAIN_BYTES then Inl DomainTooLong
      else if list_ex (\<lambda>b. b = 0 \<or> is_ascii_control b) (as_bytes domain) then Inl InvalidTargetDomain
      else Inr (Domain domain))"

definition target_domain :: "string \<Rightarrow> u16 \<Rightarrow> ProxyTargetError + ProxyConnectTarget" where
  "target_domain domain port = rbind (host_domain domain) (\<lambda>host. ProxyConnectTarget_new host port)"

primrec host_numeric :: "ProxyTargetHost \<Rightarrow> IpAddr option" where
  "host_numeric (HostV4 a) = Some (V4 a)"
| "host_numeric (HostV6 a) = Some (V6 a)"
| "host_numeric (Domain d) = None"

subsection \<open>The Basic authorization value\<close>

definition BASIC_PREFIX :: string where "BASIC_PREFIX = ''Basic ''"
definition BASE64 :: string where
  "BASE64 = ''ABCDEFGHIJKLMNOPQRSTUVWXYZabcdefghijklmnopqrstuvwxyz0123456789+/''"

text \<open>One chunk of one, two or three bytes; missing bytes count as zero and are padded.\<close>

definition base64_chunk :: "u8 list \<Rightarrow> string" where
  "base64_chunk chunk =
     (let first = chunk ! 0;
          second = (if 1 < length chunk then chunk ! 1 else 0);
          third = (if 2 < length chunk then chunk ! 2 else 0)
      in [BASE64 ! unat (drop_bit 2 first),
          BASE64 ! unat (push_bit 4 (first AND 0x03) OR drop_bit 4 second),
          if 1 < length chunk then BASE64 ! unat (push_bit 2 (second AND 0x0f) OR drop_bit 6 third)
          else CHR ''='',
          if 2 < length chunk then BASE64 ! unat (third AND 0x3f) else CHR ''=''])"

fun encode_base64 :: "u8 list \<Rightarrow> string" where
  "encode_base64 [] = []"
| "encode_base64 [a] = base64_chunk [a]"
| "encode_base64 [a, b] = base64_chunk [a, b]"
| "encode_base64 (a # b # c # rest) = base64_chunk [a, b, c] @ encode_base64 rest"

definition expected_basic_authorization :: "ProxyCredentialMaterial \<Rightarrow> string" where
  "expected_basic_authorization m =
     BASIC_PREFIX @ encode_base64 (as_bytes (proxy_username m) @ [0x3A] @ as_bytes (proxy_password m))"

subsection \<open>Authentication\<close>

datatype ProxyPrincipal = Primary | Temporary

record ProxyAuthenticator =
  matches_http_basic :: "string \<Rightarrow> bool"
  matches_username_password :: "u8 list \<Rightarrow> u8 list \<Rightarrow> bool"
  classify_http_basic :: "string \<Rightarrow> ProxyPrincipal option"
  classify_username_password :: "u8 list \<Rightarrow> u8 list \<Rightarrow> ProxyPrincipal option"
  temporary_session_available :: bool
  socks_compatible :: bool

text \<open>The loop of \<open>constant_time_eq\<close> over the indices below the longer length.\<close>

definition constant_time_eq :: "u8 list \<Rightarrow> u8 list \<Rightarrow> bool" where
  "constant_time_eq expected supplied =
     (let max_len = max (length expected) (length supplied);
          byte = (\<lambda>bs i. if i < length bs then bs ! i else 0);
          difference = foldl (\<lambda>d index. d OR unat (byte expected index XOR byte supplied index))
            (length expected XOR length supplied) [0..<max_len]
      in difference = 0)"

definition valid_socks_pair :: "ProxyCredentialMaterial \<Rightarrow> bool" where
  "valid_socks_pair pair \<longleftrightarrow>
     1 \<le> length (proxy_username pair) \<and> length (proxy_username pair) \<le> 255 \<and>
     1 \<le> length (proxy_password pair) \<and> length (proxy_password pair) \<le> 255"

definition material_matches_basic :: "ProxyCredentialMaterial \<Rightarrow> string \<Rightarrow> bool" where
  "material_matches_basic m supplied =
     constant_time_eq (as_bytes (expected_basic_authorization m)) (as_bytes supplied)"

definition material_matches_pair :: "ProxyCredentialMaterial \<Rightarrow> u8 list \<Rightarrow> u8 list \<Rightarrow> bool" where
  "material_matches_pair m username password \<longleftrightarrow>
     constant_time_eq (as_bytes (proxy_username m)) username \<and>
     constant_time_eq (as_bytes (proxy_password m)) password"

text \<open>The material itself authenticates with the trait's default methods.\<close>

definition material_authenticator :: "ProxyCredentialMaterial \<Rightarrow> ProxyAuthenticator" where
  "material_authenticator m =
     \<lparr>matches_http_basic = material_matches_basic m,
      matches_username_password = material_matches_pair m,
      classify_http_basic = (\<lambda>v. if material_matches_basic m v then Some Primary else None),
      classify_username_password = (\<lambda>u p. if material_matches_pair m u p then Some Primary else None),
      temporary_session_available = False,
      socks_compatible = valid_socks_pair m\<rparr>"

record ProxyCredentialAdmission =
  adm_primary :: ProxyCredentialMaterial
  adm_temporary :: "ProxyCredentialMaterial option"
  adm_temporary_available :: "bool option"

definition primary_only :: "ProxyCredentialMaterial \<Rightarrow> ProxyCredentialAdmission" where
  "primary_only m = \<lparr>adm_primary = m, adm_temporary = None, adm_temporary_available = None\<rparr>"

definition with_temporary ::
    "ProxyCredentialMaterial \<Rightarrow> ProxyCredentialMaterial \<Rightarrow> bool \<Rightarrow> ProxyPolicyError + ProxyCredentialAdmission" where
  "with_temporary m temporary available =
     (if proxy_username m = proxy_username temporary then Inl DuplicateCredentialUsername
      else if \<not> valid_socks_pair temporary then Inl InvalidTemporarySocks5Credential
      else Inr \<lparr>adm_primary = m, adm_temporary = Some temporary, adm_temporary_available = Some available\<rparr>)"

definition is_some_and :: "'a option \<Rightarrow> ('a \<Rightarrow> bool) \<Rightarrow> bool" where
  "is_some_and x p = (case x of None \<Rightarrow> False | Some y \<Rightarrow> p y)"

definition adm_session_available :: "ProxyCredentialAdmission \<Rightarrow> bool" where
  "adm_session_available a \<longleftrightarrow>
     adm_temporary a \<noteq> None \<and> is_some_and (adm_temporary_available a) (\<lambda>available. available)"

definition adm_matches :: "(ProxyCredentialMaterial \<Rightarrow> bool) \<Rightarrow> ProxyCredentialAdmission \<Rightarrow> bool" where
  "adm_matches matches a =
     (let primary_ok = matches (adm_primary a);
          temporary_matches = is_some_and (adm_temporary a) matches;
          temporary_ok = temporary_matches \<and> is_some_and (adm_temporary_available a) (\<lambda>available. available)
      in primary_ok \<or> temporary_ok)"

definition adm_classify ::
    "(ProxyCredentialMaterial \<Rightarrow> bool) \<Rightarrow> ProxyCredentialAdmission \<Rightarrow> ProxyPrincipal option" where
  "adm_classify matches a =
     (if matches (adm_primary a) then Some Primary
      else if is_some_and (adm_temporary a) matches \<and> adm_session_available a then Some Temporary
      else None)"

definition admission_authenticator :: "ProxyCredentialAdmission \<Rightarrow> ProxyAuthenticator" where
  "admission_authenticator a =
     \<lparr>matches_http_basic = (\<lambda>v. adm_matches (\<lambda>m. material_matches_basic m v) a),
      matches_username_password = (\<lambda>u p. adm_matches (\<lambda>m. material_matches_pair m u p) a),
      classify_http_basic = (\<lambda>v. adm_classify (\<lambda>m. material_matches_basic m v) a),
      classify_username_password = (\<lambda>u p. adm_classify (\<lambda>m. material_matches_pair m u p) a),
      temporary_session_available = adm_session_available a,
      socks_compatible =
        (valid_socks_pair (adm_primary a) \<and>
         (case adm_temporary a of None \<Rightarrow> True | Some t \<Rightarrow> valid_socks_pair t))\<rparr>"

subsection \<open>Constant-time comparison\<close>

lemma or_zero_iff: "(a OR b :: nat) = 0 \<longleftrightarrow> a = 0 \<and> b = 0"
  by (metis bit_or_iff or.right_neutral bit_eq_iff bit_0_eq bot_apply bot_bool_def)

lemma xor_zero_iff: "(a XOR b :: nat) = 0 \<longleftrightarrow> a = b"
  by (simp add: bit_eq_iff bit_xor_iff)

lemma foldl_or_zero:
  "foldl (\<lambda>d i. d OR f i) (a :: nat) is = 0 \<longleftrightarrow> a = 0 \<and> (\<forall>i \<in> set is. f i = 0)"
  by (induction "is" arbitrary: a) (auto simp: or_zero_iff)

lemma word_xor_zero_iff: "unat (a XOR b :: 'w::len word) = 0 \<longleftrightarrow> a = b"
proof -
  have "a XOR b = 0 \<longleftrightarrow> a = b" by (simp add: bit_eq_iff bit_xor_iff)
  then show ?thesis by (metis unat_0 word_unat_eq_iff)
qed

lemma constant_time_eq_iff [simp]: "constant_time_eq expected supplied \<longleftrightarrow> expected = supplied"
  by (auto simp: constant_time_eq_def Let_def foldl_or_zero xor_zero_iff word_xor_zero_iff
           intro: nth_equalityI)

subsection \<open>Base64 can be read back\<close>

text \<open>A reference decoder for the padded alphabet; it is the specification of the encoder.\<close>

definition base64_value :: "char \<Rightarrow> u8" where
  "base64_value c = of_nat (case find_sub [c] BASE64 of None \<Rightarrow> 64 | Some i \<Rightarrow> i)"

fun decode_base64 :: "string \<Rightarrow> u8 list" where
  "decode_base64 (a # b # c # d # rest) =
     (let a = base64_value a; b = base64_value b;
          first = push_bit 2 a OR drop_bit 4 b
      in if c = CHR ''='' then [first]
         else
           (let c = base64_value c; second = push_bit 4 b OR drop_bit 2 c
            in if d = CHR ''='' then [first, second]
               else first # second # (push_bit 6 c OR base64_value d) # decode_base64 rest))"
| "decode_base64 s = []"

lemma base64_value_nth: "n < 64 \<Longrightarrow> base64_value (BASE64 ! n) = of_nat n"
proof -
  have "list_all (\<lambda>n. base64_value (BASE64 ! n) = of_nat n) [0..<64]" by code_simp
  then show "n < 64 \<Longrightarrow> ?thesis" by (simp add: list_all_iff)
qed

lemma base64_no_pad: "n < 64 \<Longrightarrow> BASE64 ! n \<noteq> CHR ''=''"
proof -
  have "list_all (\<lambda>n. BASE64 ! n \<noteq> CHR ''='') [0..<64]" by code_simp
  then show "n < 64 \<Longrightarrow> ?thesis" by (simp add: list_all_iff)
qed

lemma sextet_bound:
  assumes "\<And>n. 6 \<le> n \<Longrightarrow> \<not> bit (w :: u8) n"
  shows "unat w < 64"
proof -
  have "w = take_bit 6 w"
    by (rule bit_word_eqI) (use assms not_le in \<open>auto simp: bit_take_bit_iff\<close>)
  then have "unat w = take_bit 6 (unat w)" by (metis unsigned_take_bit_eq)
  then show ?thesis using take_bit_nat_less_exp [of 6 "unat w"] by simp
qed

lemma masks: "(0x03 :: u8) = mask 2" "(0x0f :: u8) = mask 4" "(0x3f :: u8) = mask 6"
  by (simp_all add: mask_eq_exp_minus_1)

lemma sextets:
  fixes a b c :: u8
  shows "unat (drop_bit 2 a) < 64" "unat (push_bit 4 (a AND 0x03) OR drop_bit 4 b) < 64"
    "unat (push_bit 2 (b AND 0x0f) OR drop_bit 6 c) < 64" "unat (c AND 0x3f) < 64"
  unfolding masks by (rule sextet_bound; auto simp: bit_simps dest: bit_imp_le_length)+

lemma u8_eqI: "(\<And>n. n \<in> {0, 1, 2, 3, 4, 5, 6, 7} \<Longrightarrow> bit a n = bit b n) \<Longrightarrow> a = (b :: u8)"
proof (rule bit_word_eqI)
  assume *: "\<And>n. n \<in> {0, 1, 2, 3, 4, 5, 6, 7} \<Longrightarrow> bit a n = bit b n"
  fix n assume "n < LENGTH(8)"
  then show "bit a n = bit b n" by (intro *) auto
qed

lemma regroup:
  fixes a b c :: u8
  shows "push_bit 2 (drop_bit 2 a) OR drop_bit 4 (push_bit 4 (a AND 0x03) OR drop_bit 4 b) = a"
    "push_bit 4 (push_bit 4 (a AND 0x03) OR drop_bit 4 b) OR drop_bit 2 (push_bit 2 (b AND 0x0f) OR drop_bit 6 c) = b"
    "push_bit 6 (push_bit 2 (b AND 0x0f) OR drop_bit 6 c) OR (c AND 0x3f) = c"
  unfolding masks by (rule u8_eqI; auto simp: bit_simps; simp add: numeral_2_eq_2 numeral_3_eq_3)+

lemma decode_chunk:
  assumes "unat (w :: u8) < 64" "unat (x :: u8) < 64"
  shows "decode_base64 [BASE64 ! unat w, BASE64 ! unat x, CHR ''='', CHR ''=''] = [push_bit 2 w OR drop_bit 4 x]"
    and "unat (y :: u8) < 64 \<Longrightarrow> decode_base64 [BASE64 ! unat w, BASE64 ! unat x, BASE64 ! unat y, CHR ''=''] =
      [push_bit 2 w OR drop_bit 4 x, push_bit 4 x OR drop_bit 2 y]"
    and "unat (y :: u8) < 64 \<Longrightarrow> unat (z :: u8) < 64 \<Longrightarrow>
      decode_base64 ([BASE64 ! unat w, BASE64 ! unat x, BASE64 ! unat y, BASE64 ! unat z] @ rest) =
      (push_bit 2 w OR drop_bit 4 x) # (push_bit 4 x OR drop_bit 2 y) # (push_bit 6 y OR z) # decode_base64 rest"
  using assms by (simp_all add: base64_value_nth base64_no_pad Let_def)

lemma base64_chunks:
  "base64_chunk [a] =
     [BASE64 ! unat (drop_bit 2 a), BASE64 ! unat (push_bit 4 (a AND 0x03) OR drop_bit 4 0), CHR ''='', CHR ''='']"
  "base64_chunk [a, b] =
     [BASE64 ! unat (drop_bit 2 a), BASE64 ! unat (push_bit 4 (a AND 0x03) OR drop_bit 4 b),
      BASE64 ! unat (push_bit 2 (b AND 0x0f) OR drop_bit 6 0), CHR ''='']"
  "base64_chunk [a, b, c] =
     [BASE64 ! unat (drop_bit 2 a), BASE64 ! unat (push_bit 4 (a AND 0x03) OR drop_bit 4 b),
      BASE64 ! unat (push_bit 2 (b AND 0x0f) OR drop_bit 6 c), BASE64 ! unat (c AND 0x3f)]"
  by (simp_all add: base64_chunk_def Let_def)

lemma decode_encode_base64 [simp]: "decode_base64 (encode_base64 bs) = bs"
proof (induction bs rule: encode_base64.induct)
  case (2 a)
  show ?case
    by (simp only: encode_base64.simps base64_chunks decode_chunk sextets regroup)
next
  case (3 a b)
  show ?case
    by (simp only: encode_base64.simps base64_chunks decode_chunk sextets regroup)
next
  case (4 a b c rest)
  then show ?case
    by (simp only: encode_base64.simps base64_chunks decode_chunk sextets regroup)
qed simp

lemma encode_base64_inj [simp]: "encode_base64 bs = encode_base64 cs \<longleftrightarrow> bs = cs"
  by (metis decode_encode_base64)

subsection \<open>The authenticator contract\<close>

text \<open>What the protocol code relies on: matching is classification, and a connection is classified
  as temporary only while the temporary grant is available.\<close>

locale proxy_authenticator =
  fixes auth :: ProxyAuthenticator
  assumes basic_classified: "matches_http_basic auth v \<longleftrightarrow> classify_http_basic auth v \<noteq> None"
    and pair_classified: "matches_username_password auth u p \<longleftrightarrow> classify_username_password auth u p \<noteq> None"
    and temporary_live:
      "classify_http_basic auth v = Some Temporary \<or> classify_username_password auth u p = Some Temporary \<Longrightarrow>
         temporary_session_available auth"
begin

lemma unavailable_is_primary:
  assumes "\<not> temporary_session_available auth"
  shows "matches_http_basic auth v \<Longrightarrow> classify_http_basic auth v = Some Primary"
    and "matches_username_password auth u p \<Longrightarrow> classify_username_password auth u p = Some Primary"
  using assms basic_classified [of v] pair_classified [of u p] temporary_live [of v] temporary_live [of _ u p]
  by (metis ProxyPrincipal.exhaust option.exhaust)+

end

interpretation material_auth: proxy_authenticator "material_authenticator m" for m
  by unfold_locales (auto simp: material_authenticator_def split: if_splits)

lemma adm_matches_iff_classify: "adm_matches f a \<longleftrightarrow> adm_classify f a \<noteq> None"
  by (auto simp: adm_matches_def adm_classify_def adm_session_available_def is_some_and_def Let_def
           split: option.splits)

lemma adm_classify_Temporary: "adm_classify f a = Some Temporary \<Longrightarrow> adm_session_available a"
  by (simp add: adm_classify_def split: if_splits)

interpretation admission_auth: proxy_authenticator "admission_authenticator a" for a
  by unfold_locales
     (auto simp: admission_authenticator_def adm_matches_iff_classify dest: adm_classify_Temporary)

lemma material_matches [simp]:
  "material_matches_basic m v \<longleftrightarrow> v = expected_basic_authorization m"
  "material_matches_pair m u p \<longleftrightarrow> u = as_bytes (proxy_username m) \<and> p = as_bytes (proxy_password m)"
  by (auto simp: material_matches_basic_def material_matches_pair_def)



lemma expected_basic_eq:
  "expected_basic_authorization m = expected_basic_authorization n \<longleftrightarrow>
     proxy_username m @ '':'' @ proxy_password m = proxy_username n @ '':'' @ proxy_password n"
proof -
  have colon: "[0x3A] = as_bytes '':''" by (simp add: byte_of_def)
  show ?thesis
    unfolding expected_basic_authorization_def colon as_bytes_simps(3) [symmetric]
    by (simp only: append_same_eq same_append_eq encode_base64_inj as_bytes_inj)
qed

lemma basic_value_inj:
  assumes "CHR '':'' \<notin> set (proxy_username m)" "CHR '':'' \<notin> set (proxy_username n)"
  shows "expected_basic_authorization m = expected_basic_authorization n \<longleftrightarrow> m = n"
proof
  assume "expected_basic_authorization m = expected_basic_authorization n"
  then have eq: "proxy_username m @ CHR '':'' # proxy_password m = proxy_username n @ CHR '':'' # proxy_password n"
    by (simp add: expected_basic_eq)
  let ?s = "proxy_username m @ CHR '':'' # proxy_password m"
  have "split_once (CHR '':'') ?s = Some (proxy_username m, proxy_password m)"
    "split_once (CHR '':'') ?s = Some (proxy_username n, proxy_password n)"
    using assms eq unfolding split_once_Some_iff by auto
  then show "m = n" by (cases m; cases n) simp
qed simp

text \<open>The Basic authorization value identifies the credential: for user names without a colon,
  as the protocol requires, two credentials have the same value only if they are the same pair. The
  encoder can be read back by a reference decoder on every input.\<close>

lemma basic_value_identifies:
  assumes "CHR '':'' \<notin> set (proxy_username m)" "CHR '':'' \<notin> set (proxy_username n)"
  shows "expected_basic_authorization m = expected_basic_authorization n \<longleftrightarrow> m = n"
  using assms by (rule basic_value_inj)

theorem basic_value_identifies_witness:
  "expected_basic_authorization \<lparr>proxy_username = ''user'', proxy_password = ''a:b''\<rparr> \<noteq>
   expected_basic_authorization \<lparr>proxy_username = ''user'', proxy_password = ''a:c''\<rparr>"
  using basic_value_identifies [of "\<lparr>proxy_username = ''user'', proxy_password = ''a:b''\<rparr>"
    "\<lparr>proxy_username = ''user'', proxy_password = ''a:c''\<rparr>"] by simp

end
