(* ===== verification/Proxy_Http.thy ===== *)
theory Proxy_Http
  imports Proxy_Auth Rust_Addr Rust_Io
begin

text \<open>
  The HTTP CONNECT side of the proxy: the request parser (\<open>crates/proxy/src/http_connect.rs\<close>) and the
  loop that feeds it from a stream (\<open>accept_http_connect_stream\<close> of \<open>mixed.rs\<close>). The lemmas show that
  the loop reads exactly one header, however it arrives, and that it is bounded.
\<close>

definition MAX_HTTP_CONNECT_HEADER_BYTES :: usize where "MAX_HTTP_CONNECT_HEADER_BYTES = 16 * 1024"

datatype HttpConnectError =
    HeaderTooLarge
  | IncompleteHeader
  | MalformedHeader
  | MalformedRequestLine
  | MethodNotAllowed
  | UnsupportedHttpVersion
  | ProxyAuthenticationRequired
  | DuplicateProxyAuthorization
  | ProxyAuthenticationFailed
  | InvalidTarget
  | HttpTarget ProxyTargetError

definition CRLF :: string where "CRLF = [CHR 0x0D, CHR 0x0A]"

definition HEADER_END :: "u8 list" where "HEADER_END = [0x0D, 0x0A, 0x0D, 0x0A]"

definition parse_port :: "string \<Rightarrow> HttpConnectError + u16" where
  "parse_port raw =
     (case parse_u16 raw of None \<Rightarrow> Inl InvalidTarget
      | Some port \<Rightarrow> if port \<noteq> 0 then Inr port else Inl InvalidTarget)"

definition parse_connect_authority :: "string \<Rightarrow> HttpConnectError + ProxyConnectTarget" where
  "parse_connect_authority authority =
     (if authority = [] \<or> list_ex is_ascii_control (as_bytes authority) then Inl InvalidTarget
      else case strip_prefix ''['' authority of
        Some bracketed \<Rightarrow>
          rbind (ok_or (split_once (CHR '']'') bracketed) InvalidTarget) (\<lambda>(host, rest).
          rbind (ok_or (strip_prefix '':'' rest) InvalidTarget) (\<lambda>port.
            if host = [] \<or> port = [] \<or> CHR '':'' \<in> set port then Inl InvalidTarget
            else rbind (ok_or (parse_ipv6 host) InvalidTarget) (\<lambda>address.
                 rbind (parse_port port) (\<lambda>port. map_err HttpTarget (target_ipv6 address port)))))
      | None \<Rightarrow>
          rbind (ok_or (rsplit_once (CHR '':'') authority) InvalidTarget) (\<lambda>(host, port).
            if host = [] \<or> port = [] \<or> CHR '':'' \<in> set host \<or>
               list_ex (\<lambda>c. c \<in> set ''/@#?'') host then Inl InvalidTarget
            else rbind (parse_port port) (\<lambda>port.
              case parse_ipv4 host of
                Some address \<Rightarrow> map_err HttpTarget (target_ipv4 address port)
              | None \<Rightarrow>
                  if parse_ip host \<noteq> None then Inl InvalidTarget
                  else map_err HttpTarget (target_domain host port))))"

text \<open>The loop over the header lines; the accumulator is \<open>proxy_authorization\<close>.\<close>

fun header_lines :: "string option \<Rightarrow> string list \<Rightarrow> HttpConnectError + string option" where
  "header_lines proxy_authorization [] = Inr proxy_authorization"
| "header_lines proxy_authorization (line # rest) =
     (if line = [] then Inl MalformedHeader
      else case split_once (CHR '':'') line of
        None \<Rightarrow> Inl MalformedHeader
      | Some (name, v) \<Rightarrow>
          if name = [] \<or> list_ex is_ascii_whitespace (as_bytes name) then Inl MalformedHeader
          else if eq_ignore_ascii_case name ''Proxy-Authorization'' then
            (if proxy_authorization \<noteq> None then Inl DuplicateProxyAuthorization
             else header_lines (Some (trim v)) rest)
          else header_lines proxy_authorization rest)"

definition parse_request_line :: "string \<Rightarrow> HttpConnectError + string" where
  "parse_request_line request_line =
     (case split_ascii_whitespace request_line of
        [method, authority, version] \<Rightarrow>
          if method \<noteq> ''CONNECT'' then Inl MethodNotAllowed
          else if version \<noteq> ''HTTP/1.1'' \<and> version \<noteq> ''HTTP/1.0'' then Inl UnsupportedHttpVersion
          else Inr authority
      | _ \<Rightarrow> Inl MalformedRequestLine)"

definition parse_http_connect_request ::
    "u8 list \<Rightarrow> ProxyAuthenticator \<Rightarrow> HttpConnectError + ProxyConnectTarget" where
  "parse_http_connect_request request credentials =
     (if length request > MAX_HTTP_CONNECT_HEADER_BYTES then Inl HeaderTooLarge
      else if \<not> ends_with request HEADER_END then Inl IncompleteHeader
      else rbind (ok_or (from_utf8 request) MalformedHeader) (\<lambda>text.
        case split_str CRLF (take (length text - 4) text) of
          [] \<Rightarrow> Inl MalformedRequestLine
        | request_line # lines \<Rightarrow>
            rbind (parse_request_line request_line) (\<lambda>authority.
            rbind (header_lines None lines) (\<lambda>proxy_authorization.
            rbind (ok_or proxy_authorization ProxyAuthenticationRequired) (\<lambda>supplied.
              if \<not> matches_http_basic credentials supplied then Inl ProxyAuthenticationFailed
              else parse_connect_authority authority)))))"

subsection \<open>Reading one header from a stream\<close>

datatype HttpConnectStreamError = HttpIo IoError | HttpProtocol HttpConnectError

function accept_http_loop ::
    "u8 list \<Rightarrow> ProxyAuthenticator \<Rightarrow> Stream \<Rightarrow> (HttpConnectStreamError + ProxyConnectTarget) \<times> Stream" where
  "accept_http_loop request credentials s =
     (case read_stream 1 s of
        (Inl Interrupted, s') \<Rightarrow> accept_http_loop request credentials s'
      | (Inl e, s') \<Rightarrow> (Inl (HttpIo e), s')
      | (Inr [], s') \<Rightarrow> (Inl (HttpProtocol IncompleteHeader), s')
      | (Inr (b # bs), s') \<Rightarrow>
          (case parse_http_connect_request (request @ [b]) credentials of
             Inl IncompleteHeader \<Rightarrow> accept_http_loop (request @ [b]) credentials s'
           | Inl e \<Rightarrow> (Inl (HttpProtocol e), s')
           | Inr target \<Rightarrow> (Inr target, s')))"
  by pat_completeness auto
termination
  by (relation "measure (\<lambda>(request, credentials, s). stream_size s)")
     (auto dest: read_stream_progress [OF sym])

declare accept_http_loop.simps [simp del]

definition accept_http_connect_stream ::
    "ProxyAuthenticator \<Rightarrow> (HttpConnectStreamError, ProxyConnectTarget) io" where
  "accept_http_connect_stream credentials s = accept_http_loop [] credentials s"

subsection \<open>The parser\<close>

lemma parse_port_nonzero: "parse_port raw \<noteq> Inl IncompleteHeader"
  by (simp add: parse_port_def split: option.splits)

text \<open>Only an unfinished header is reported as incomplete.\<close>

lemma rbind_Inl_iff: "rbind r k = Inl e \<longleftrightarrow> r = Inl e \<or> (\<exists>x. r = Inr x \<and> k x = Inl e)"
  by (cases r) auto

lemma map_err_Inl_iff [simp]: "map_err f r = Inl e \<longleftrightarrow> (\<exists>d. r = Inl d \<and> e = f d)"
  by (cases r) auto

lemma authority_not_incomplete: "parse_connect_authority a \<noteq> Inl IncompleteHeader"
  by (auto simp: parse_connect_authority_def rbind_Inl_iff parse_port_nonzero split: option.splits if_splits)

lemma header_lines_not_incomplete: "header_lines acc lines \<noteq> Inl IncompleteHeader"
  by (induction acc lines rule: header_lines.induct) (auto split: option.splits)

lemma request_line_not_incomplete: "parse_request_line l \<noteq> Inl IncompleteHeader"
  by (auto simp: parse_request_line_def split: list.splits)

lemma parse_incomplete_iff:
  "parse_http_connect_request request credentials = Inl IncompleteHeader \<longleftrightarrow>
     length request \<le> MAX_HTTP_CONNECT_HEADER_BYTES \<and> \<not> ends_with request HEADER_END"
  by (auto simp: parse_http_connect_request_def rbind_Inl_iff authority_not_incomplete
        header_lines_not_incomplete request_line_not_incomplete not_less split: list.splits)

text \<open>What a successful parse has checked.\<close>

definition authenticated_header :: "u8 list \<Rightarrow> ProxyAuthenticator \<Rightarrow> bool" where
  "authenticated_header request credentials \<longleftrightarrow>
     (\<exists>text line lines authority v.
        request = as_bytes text \<and> split_str CRLF (take (length text - 4) text) = line # lines \<and>
        parse_request_line line = Inr authority \<and> header_lines None lines = Inr (Some v) \<and>
        matches_http_basic credentials v)"

lemma parse_Inr:
  assumes "parse_http_connect_request request credentials = Inr target"
  shows "length request \<le> MAX_HTTP_CONNECT_HEADER_BYTES" "ends_with request HEADER_END"
    "authenticated_header request credentials"
proof -
  show "length request \<le> MAX_HTTP_CONNECT_HEADER_BYTES" "ends_with request HEADER_END"
    using assms by (auto simp: parse_http_connect_request_def split: if_splits)
  with assms obtain decoded where decoded: "from_utf8 request = Some decoded"
    and k: "(case split_str CRLF (take (length decoded - 4) decoded) of
          [] \<Rightarrow> Inl MalformedRequestLine
        | request_line # lines \<Rightarrow>
            rbind (parse_request_line request_line) (\<lambda>authority.
            rbind (header_lines None lines) (\<lambda>proxy_authorization.
            rbind (ok_or proxy_authorization ProxyAuthenticationRequired) (\<lambda>supplied.
              if \<not> matches_http_basic credentials supplied then Inl ProxyAuthenticationFailed
              else parse_connect_authority authority)))) = Inr target"
    by (auto simp: parse_http_connect_request_def rbind_Inr_iff)
  then show "authenticated_header request credentials"
    by (cases "split_str CRLF (take (length decoded - 4) decoded)")
       (auto simp: authenticated_header_def rbind_Inr_iff from_utf8_Some_iff split: if_splits)
qed

subsection \<open>The loop on items\<close>

fun http_items ::
    "u8 list \<Rightarrow> ProxyAuthenticator \<Rightarrow> item list \<Rightarrow> (HttpConnectStreamError + ProxyConnectTarget) \<times> item list" where
  "http_items request credentials [] = (Inl (HttpProtocol IncompleteHeader), [])"
| "http_items request credentials (Eof # is) = (Inl (HttpProtocol IncompleteHeader), is)"
| "http_items request credentials (Hard e # is) = (Inl (HttpIo e), is)"
| "http_items request credentials (Data b # is) =
     (case parse_http_connect_request (request @ [b]) credentials of
        Inl IncompleteHeader \<Rightarrow> http_items (request @ [b]) credentials is
      | Inl e \<Rightarrow> (Inl (HttpProtocol e), is)
      | Inr target \<Rightarrow> (Inr target, is))"

lemma accept_http_items:
  "fst (accept_http_loop request credentials s) = fst (http_items request credentials (items s)) \<and>
   view (snd (accept_http_loop request credentials s)) =
     (snd (http_items request credentials (items s)), snd (view s))"
proof (induction request credentials s rule: accept_http_loop.induct)
  case (1 request credentials s)
  have "(0 :: nat) < 1" by simp
  then show ?case
  proof (cases rule: read_stream_cases [of 1 s])
    case (1 s')
    then have "items s' = items s" "view s' = view s" by (simp_all add: view_def)
    with 1 "1.IH"(1) show ?thesis by (subst (1 2) accept_http_loop.simps) simp
  next
    case (2 e s')
    then show ?thesis by (subst (1 2) accept_http_loop.simps) (cases e; simp add: view_def)
  next
    case (3 s')
    then show ?thesis by (subst (1 2) accept_http_loop.simps) (simp add: view_def)
  next
    case (4 s')
    then show ?thesis by (subst (1 2) accept_http_loop.simps) (simp add: view_def)
  next
    case (5 b bs s')
    then have bs: "bs = []" by simp
    show ?thesis
    proof (cases "parse_http_connect_request (request @ [b]) credentials")
      case (Inr target)
      with 5 bs show ?thesis by (subst (1 2) accept_http_loop.simps) (simp add: view_def)
    next
      case (Inl e)
      show ?thesis
      proof (cases "e = IncompleteHeader")
        case True
        with 5 bs Inl "1.IH"(2) [OF 5(1) [symmetric] refl _ Inl] show ?thesis
          by (subst (1 2) accept_http_loop.simps) simp
      next
        case False
        with 5 bs Inl show ?thesis
          by (subst (1 2) accept_http_loop.simps) (cases e; simp add: view_def)
      qed
    qed
  qed
qed

lemma uniform_accept_http [uniform_rules]: "uniform (accept_http_connect_stream credentials)"
proof (rule uniformI)
  fix s t assume "view s = view t"
  then have "items s = items t" "snd (view s) = snd (view t)" by (simp_all add: view_def)
  then show "fst (accept_http_connect_stream credentials s) = fst (accept_http_connect_stream credentials t) \<and>
      view (snd (accept_http_connect_stream credentials s)) = view (snd (accept_http_connect_stream credentials t))"
    using accept_http_items [of "[]" credentials s] accept_http_items [of "[]" credentials t]
    by (simp add: accept_http_connect_stream_def)
qed

text \<open>No shorter prefix of the header is itself a finished header.\<close>

definition first_header :: "u8 list \<Rightarrow> bool" where
  "first_header hdr \<longleftrightarrow>
     ends_with hdr HEADER_END \<and> (\<forall>k < length hdr. \<not> ends_with (take k hdr) HEADER_END)"

lemma http_items_Inr:
  assumes "http_items request credentials is = (Inr target, rest)"
  shows "\<exists>bs. is = map Data bs @ rest \<and> bs \<noteq> [] \<and>
    parse_http_connect_request (request @ bs) credentials = Inr target \<and>
    (\<forall>k < length bs. 0 < k \<longrightarrow> \<not> ends_with (request @ take k bs) HEADER_END)"
  using assms
proof (induction request credentials "is" rule: http_items.induct)
  case (4 request credentials b "is")
  show ?case
  proof (cases "parse_http_connect_request (request @ [b]) credentials")
    case (Inr t)
    with 4 show ?thesis by (intro exI [of _ "[b]"]) simp
  next
    case (Inl e)
    with 4 have e: "e = IncompleteHeader" by (cases e) simp_all
    with 4 Inl obtain bs where bs: "is = map Data bs @ rest" "bs \<noteq> []"
      "parse_http_connect_request (request @ b # bs) credentials = Inr target"
      "\<forall>k < length bs. 0 < k \<longrightarrow> \<not> ends_with (request @ b # take k bs) HEADER_END"
      by auto
    have "\<not> ends_with (request @ [b]) HEADER_END"
      using Inl e by (simp add: parse_incomplete_iff)
    then have "\<forall>k < length (b # bs). 0 < k \<longrightarrow> \<not> ends_with (request @ take k (b # bs)) HEADER_END"
      using bs(4) by (auto simp: take_Cons split: nat.splits)
    with bs show ?thesis by (intro exI [of _ "b # bs"]) simp
  qed
qed simp_all

lemma http_items_header:
  assumes "parse_http_connect_request (request @ bs) credentials = Inr target" "bs \<noteq> []"
    and "\<forall>k < length bs. 0 < k \<longrightarrow> \<not> ends_with (request @ take k bs) HEADER_END"
  shows "http_items request credentials (map Data bs @ rest) = (Inr target, rest)"
  using assms
proof (induction bs arbitrary: request)
  case (Cons b bs)
  show ?case
  proof (cases "bs = []")
    case True
    with Cons.prems(1) show ?thesis by simp
  next
    case False
    have "\<not> ends_with (request @ [b]) HEADER_END"
      using Cons.prems(3) [rule_format, of 1] False by simp
    moreover have "length (request @ [b]) \<le> MAX_HTTP_CONNECT_HEADER_BYTES"
      using parse_Inr(1) [OF Cons.prems(1)] by simp
    ultimately have "parse_http_connect_request (request @ [b]) credentials = Inl IncompleteHeader"
      by (simp add: parse_incomplete_iff)
    moreover have "\<forall>k < length bs. 0 < k \<longrightarrow> \<not> ends_with ((request @ [b]) @ take k bs) HEADER_END"
      using Cons.prems(3) by (auto dest: spec [of _ "Suc _"])
    ultimately show ?thesis using Cons.IH [of "request @ [b]"] Cons.prems(1) False by simp
  qed
qed simp

lemma http_items_bound:
  assumes "length request \<le> MAX_HTTP_CONNECT_HEADER_BYTES"
  shows "\<exists>used. is = used @ snd (http_items request credentials is) \<and>
    length request + length used \<le> MAX_HTTP_CONNECT_HEADER_BYTES + 1"
  using assms
proof (induction request credentials "is" rule: http_items.induct)
  case (4 request credentials b "is")
  show ?case
  proof (cases "parse_http_connect_request (request @ [b]) credentials = Inl IncompleteHeader")
    case True
    then have "length (request @ [b]) \<le> MAX_HTTP_CONNECT_HEADER_BYTES"
      by (simp add: parse_incomplete_iff)
    with 4 True obtain used where "is = used @ snd (http_items (request @ [b]) credentials is)"
      "length (request @ [b]) + length used \<le> MAX_HTTP_CONNECT_HEADER_BYTES + 1"
      by blast
    with True show ?thesis by (intro exI [of _ "Data b # used"]) simp
  next
    case False
    then have "snd (http_items request credentials (Data b # is)) = is"
      by (auto split: sum.splits HttpConnectError.splits)
    with 4 show ?thesis by (intro exI [of _ "[Data b]"]) simp
  qed
qed auto

lemma http_accept_sound:
  assumes "fst (accept_http_connect_stream credentials s) = Inr target"
  shows "\<exists>hdr rest. items s = map Data hdr @ rest \<and> first_header hdr \<and>
      parse_http_connect_request hdr credentials = Inr target"
proof -
  note loop = accept_http_items [of "[]" credentials s, folded accept_http_connect_stream_def]
  from assms loop have "http_items [] credentials (items s) =
      (Inr target, snd (http_items [] credentials (items s)))"
    by (simp add: prod_eq_iff)
  from http_items_Inr [OF this] obtain bs where
    bs: "items s = map Data bs @ snd (http_items [] credentials (items s))"
      "parse_http_connect_request bs credentials = Inr target"
      "\<forall>k < length bs. 0 < k \<longrightarrow> \<not> ends_with (take k bs) HEADER_END"
    by auto
  have "\<not> ends_with (take 0 bs) HEADER_END" by (simp add: ends_with_def HEADER_END_def)
  with bs(3) have "first_header bs"
    using parse_Inr(2) [OF bs(2)] unfolding first_header_def by (metis gr0I)
  with bs show ?thesis by blast
qed

lemma http_accept_complete:
  assumes "items s = map Data hdr @ rest" "first_header hdr"
    "parse_http_connect_request hdr credentials = Inr target"
  shows "fst (accept_http_connect_stream credentials s) = Inr target"
    "view (snd (accept_http_connect_stream credentials s)) = (rest, snd (view s))"
proof -
  have "hdr \<noteq> []" using assms(2) by (auto simp: first_header_def ends_with_def HEADER_END_def)
  with assms(2,3) have "http_items [] credentials (map Data hdr @ rest) = (Inr target, rest)"
    by (intro http_items_header) (auto simp: first_header_def)
  then show "fst (accept_http_connect_stream credentials s) = Inr target"
    "view (snd (accept_http_connect_stream credentials s)) = (rest, snd (view s))"
    using accept_http_items [of "[]" credentials s, folded accept_http_connect_stream_def] assms(1)
    by simp_all
qed

text \<open>C25. The HTTP side reads exactly one header, however it is cut into chunks and however often a
  read is interrupted. It accepts a target if and only if the input starts with a first header (up to
  and including the first empty line) that parses to the target, and then every later byte is still
  unread for the tunnel and nothing was written. In every case, also on endless input without an
  empty line, it stops after at most 16385 items of input.\<close>

theorem http_reads_one_header:
  "(fst (accept_http_connect_stream credentials s) = Inr target \<longleftrightarrow>
      (\<exists>hdr rest. items s = map Data hdr @ rest \<and> first_header hdr \<and>
         parse_http_connect_request hdr credentials = Inr target)) \<and>
   (\<forall>hdr rest. items s = map Data hdr @ rest \<and> first_header hdr \<and>
      parse_http_connect_request hdr credentials = Inr target \<longrightarrow>
      view (snd (accept_http_connect_stream credentials s)) = (rest, snd (view s))) \<and>
   (\<exists>used. items s = used @ items (snd (accept_http_connect_stream credentials s)) \<and>
      length used \<le> 16385)"
proof -
  note loop = accept_http_items [of "[]" credentials s, folded accept_http_connect_stream_def]
  obtain used where "items s = used @ snd (http_items [] credentials (items s))"
    "length used \<le> 16385"
    using http_items_bound [of "[]" "items s" credentials] by (auto simp: MAX_HTTP_CONNECT_HEADER_BYTES_def)
  then have "\<exists>used. items s = used @ items (snd (accept_http_connect_stream credentials s)) \<and>
      length used \<le> 16385"
    using loop by (auto simp: view_def)
  moreover have "view (snd (accept_http_connect_stream credentials s)) = (rest, snd (view s))"
    "fst (accept_http_connect_stream credentials s) = Inr target"
    if "items s = map Data hdr @ rest" "first_header hdr"
      "parse_http_connect_request hdr credentials = Inr target" for hdr rest
    using http_accept_complete [OF that] by simp_all
  ultimately show ?thesis using http_accept_sound [of credentials s target] by blast
qed

subsection \<open>A concrete request\<close>

definition demo_material :: ProxyCredentialMaterial where
  "demo_material = \<lparr>proxy_username = ''u'', proxy_password = ''p''\<rparr>"

definition demo_lines :: "string list" where
  "demo_lines = [''CONNECT x:1 HTTP/1.1'', ''Proxy-Authorization: Basic dTpw'']"

definition demo_request :: string where
  "demo_request = concat (map (\<lambda>l. l @ CRLF) demo_lines) @ CRLF"

definition demo_target :: ProxyConnectTarget where
  "demo_target = \<lparr>target_host = Domain ''x'', target_port = 1\<rparr>"

lemma demo_basic: "expected_basic_authorization demo_material = ''Basic dTpw''"
  by code_simp

lemma demo_split: "split_str CRLF (take (length demo_request - 4) demo_request) = demo_lines"
  by code_simp

lemma demo_request_line: "parse_request_line ''CONNECT x:1 HTTP/1.1'' = Inr ''x:1''"
  by code_simp

lemma demo_header: "header_lines None [''Proxy-Authorization: Basic dTpw''] = Inr (Some ''Basic dTpw'')"
  by code_simp

lemma demo_str: "is_str demo_request" "ends_with (as_bytes demo_request) HEADER_END"
  "\<forall>k < length demo_request. \<not> ends_with (take k (as_bytes demo_request)) HEADER_END"
proof -
  have "list_all (\<lambda>k. \<not> ends_with (take k (as_bytes demo_request)) HEADER_END) [0..<length demo_request]"
    by code_simp
  then show "\<forall>k < length demo_request. \<not> ends_with (take k (as_bytes demo_request)) HEADER_END"
    by (simp add: list_all_iff)
qed code_simp+

lemma demo_authority: "parse_connect_authority ''x:1'' = Inr demo_target"
proof -
  have "parse_u16 ''1'' = Some 1"
    by (simp add: parse_u16_def parse_unsigned_def digit_value_def to_ascii_lowercase_def byte_of_def)
  then have "parse_port ''1'' = Inr 1" by (simp add: parse_port_def)
  moreover have "rsplit_once (CHR '':'') ''x:1'' = Some (''x'', ''1'')" by code_simp
  moreover have "strip_prefix ''['' ''x:1'' = None" by code_simp
  moreover have "parse_ip ''x'' = None" "parse_ipv4 ''x'' = None"
  proof -
    have "digit_value r (CHR ''x'') = None" if "r \<le> 16" for r
      using that by (simp add: digit_value_def to_ascii_lowercase_def byte_of_def)
    then have number: "read_number 10 3 False 256 ''x'' = None" "read_number 16 4 True 65536 ''x'' = None"
      by (simp_all add: read_number_def)
    then have "read_octets 0 (Suc 3) ''x'' = None"
      unfolding read_octets.simps read_separator_def by simp
    then have v4: "read_ipv4_addr ''x'' = None"
      by (simp add: read_ipv4_addr_def)
    then have "read_groups 8 0 [] ''x'' = ([], False, ''x'')"
      using number by (subst read_groups.simps) (simp add: read_separator_def)
    with v4 show "parse_ip ''x'' = None" "parse_ipv4 ''x'' = None"
      by (simp_all add: parse_ip_def parse_ipv4_def parse_all_def read_ip_addr_def read_ipv6_addr_def
            read_given_char_def)
  qed
  ultimately show ?thesis
    by (simp add: parse_connect_authority_def is_ascii_control_def byte_of_def target_domain_def
          host_domain_def MAX_DOMAIN_BYTES_def ProxyConnectTarget_new_def demo_target_def)
qed

lemma demo_parse:
  "parse_http_connect_request (as_bytes demo_request) (material_authenticator demo_material) = Inr demo_target"
proof -
  have "length demo_request = 57" by code_simp
  then show ?thesis
    using demo_str demo_basic demo_split demo_request_line demo_header demo_authority
    by (simp add: parse_http_connect_request_def MAX_HTTP_CONNECT_HEADER_BYTES_def from_utf8_as_bytes
          demo_lines_def material_authenticator_def)
qed

lemma demo_first_header: "first_header (as_bytes demo_request)"
  using demo_str by (simp add: first_header_def)

definition demo_stream :: "u8 list \<Rightarrow> u8 list \<Rightarrow> Stream" where
  "demo_stream a b =
     \<lparr>rx = [Chunk a, RxError Interrupted, Chunk b], tx = [], tx_limit = None, replay = None, write_shut = False\<rparr>"

lemma demo_stream_items: "a \<noteq> [] \<Longrightarrow> b \<noteq> [] \<Longrightarrow> items (demo_stream a b) = map Data (a @ b)"
  by (simp add: items_def demo_stream_def chunk_items)

theorem http_reads_one_header_witness:
  "fst (accept_http_connect_stream (material_authenticator demo_material)
      (demo_stream (as_bytes demo_request) [1, 2, 3])) = Inr demo_target \<and>
   items (snd (accept_http_connect_stream (material_authenticator demo_material)
      (demo_stream (as_bytes demo_request) [1, 2, 3]))) = [Data 1, Data 2, Data 3]"
proof -
  let ?s = "demo_stream (as_bytes demo_request) [1, 2, 3]"
  have "as_bytes demo_request \<noteq> []" by code_simp
  then have "items ?s = map Data (as_bytes demo_request) @ [Data 1, Data 2, Data 3]"
    by (simp add: demo_stream_items)
  with demo_parse demo_first_header have header:
    "items ?s = map Data (as_bytes demo_request) @ [Data 1, Data 2, Data 3] \<and>
     first_header (as_bytes demo_request) \<and>
     parse_http_connect_request (as_bytes demo_request) (material_authenticator demo_material) = Inr demo_target"
    by blast
  note one = http_reads_one_header [of "material_authenticator demo_material" ?s demo_target]
  have "fst (accept_http_connect_stream (material_authenticator demo_material) ?s) = Inr demo_target"
    using one [THEN conjunct1, THEN iffD2] header by blast
  moreover have "view (snd (accept_http_connect_stream (material_authenticator demo_material) ?s)) =
      ([Data 1, Data 2, Data 3], snd (view ?s))"
    using one [THEN conjunct2, THEN conjunct1] header by blast
  ultimately show ?thesis by (simp add: view_def)
qed

end
