(* ===== verification/Proxy_Socks5.thy ===== *)
theory Proxy_Socks5
  imports Proxy_Auth Rust_Io
begin

text \<open>
  The SOCKS5 side of the proxy (\<open>crates/proxy/src/socks5.rs\<close>): greeting, user name and password
  authentication, the CONNECT request and the replies. The lemmas cover the round trip of a client's
  conversation, what acceptance implies, and that the result does not depend on chunking.
\<close>

definition SOCKS_VERSION :: u8 where "SOCKS_VERSION = 0x05"
definition USERNAME_PASSWORD_METHOD :: u8 where "USERNAME_PASSWORD_METHOD = 0x02"
definition NO_ACCEPTABLE_METHODS :: u8 where "NO_ACCEPTABLE_METHODS = 0xff"
definition USERNAME_PASSWORD_VERSION :: u8 where "USERNAME_PASSWORD_VERSION = 0x01"
definition CONNECT_COMMAND :: u8 where "CONNECT_COMMAND = 0x01"
definition BIND_COMMAND :: u8 where "BIND_COMMAND = 0x02"
definition UDP_ASSOCIATE_COMMAND :: u8 where "UDP_ASSOCIATE_COMMAND = 0x03"
definition IPV4_ADDRESS_TYPE :: u8 where "IPV4_ADDRESS_TYPE = 0x01"
definition DOMAIN_ADDRESS_TYPE :: u8 where "DOMAIN_ADDRESS_TYPE = 0x03"
definition IPV6_ADDRESS_TYPE :: u8 where "IPV6_ADDRESS_TYPE = 0x04"

lemmas socks_constants = SOCKS_VERSION_def USERNAME_PASSWORD_METHOD_def NO_ACCEPTABLE_METHODS_def
  USERNAME_PASSWORD_VERSION_def CONNECT_COMMAND_def BIND_COMMAND_def UDP_ASSOCIATE_COMMAND_def
  IPV4_ADDRESS_TYPE_def DOMAIN_ADDRESS_TYPE_def IPV6_ADDRESS_TYPE_def

datatype Socks5Reply =
    Succeeded | GeneralFailure | ConnectionNotAllowed | HostUnreachable | ReplyCommandNotSupported
  | AddressTypeNotSupported

primrec reply_code :: "Socks5Reply \<Rightarrow> u8" where
  "reply_code Succeeded = 0x00"
| "reply_code GeneralFailure = 0x01"
| "reply_code ConnectionNotAllowed = 0x02"
| "reply_code HostUnreachable = 0x04"
| "reply_code ReplyCommandNotSupported = 0x07"
| "reply_code AddressTypeNotSupported = 0x08"

datatype Socks5ProtocolError =
    UnsupportedVersion
  | UnsupportedAuthenticationMethod
  | InvalidCredentialLength
  | MalformedAuthentication
  | AuthenticationFailed
  | MalformedRequest
  | BindNotSupported
  | UdpAssociateNotSupported
  | CommandNotSupported
  | AddressNotSupported
  | InvalidDomain
  | InvalidPort
  | SocksTarget ProxyTargetError

datatype Socks5SessionError = SocksIo IoError | SocksProtocol Socks5ProtocolError

type_synonym SocketAddr = "IpAddr \<times> u16"

definition unspecified_bind_addr :: SocketAddr where
  "unspecified_bind_addr = (V4 0, 0)"

definition ipv6_octets :: "Ipv6Addr \<Rightarrow> u8 list" where
  "ipv6_octets a = map (\<lambda>i. ucast (drop_bit (8 * i) a)) [15, 14, 13, 12, 11, 10, 9, 8, 7, 6, 5, 4, 3, 2, 1, 0]"

definition ipv6_from_octets :: "u8 list \<Rightarrow> Ipv6Addr" where
  "ipv6_from_octets bs = foldl (\<lambda>a b. push_bit 8 a OR ucast b) 0 bs"

definition port_to_be_bytes :: "u16 \<Rightarrow> u8 list" where
  "port_to_be_bytes p = [ucast (drop_bit 8 p), ucast p]"

definition port_from_be_bytes :: "u8 list \<Rightarrow> u16" where
  "port_from_be_bytes bs = push_bit 8 (ucast (bs ! 0)) OR ucast (bs ! 1)"

definition reply_frame :: "Socks5Reply \<Rightarrow> SocketAddr \<Rightarrow> u8 list" where
  "reply_frame reply bound =
     [SOCKS_VERSION, reply_code reply, 0x00] @
     (case fst bound of
        V4 a \<Rightarrow> IPV4_ADDRESS_TYPE # ipv4_octets a
      | V6 a \<Rightarrow> IPV6_ADDRESS_TYPE # ipv6_octets a) @
     port_to_be_bytes (snd bound)"

definition write_socks5_reply :: "Socks5Reply \<Rightarrow> SocketAddr \<Rightarrow> (IoError, unit) io" where
  "write_socks5_reply reply bound = write_all (reply_frame reply bound)"

text \<open>Conversions of the question-mark operator, and a failure reply followed by an error.\<close>

definition io_to_socks :: "(IoError, 'a) io \<Rightarrow> (Socks5SessionError, 'a) io" where
  "io_to_socks m = smap_err SocksIo m"

definition refuse :: "(IoError, unit) io \<Rightarrow> Socks5ProtocolError \<Rightarrow> (Socks5SessionError, 'a) io" where
  "refuse reply e = sbind (io_to_socks reply) (\<lambda>u. sfail (SocksProtocol e))"

definition validate_credentials :: "ProxyAuthenticator \<Rightarrow> (Socks5SessionError, unit) io" where
  "validate_credentials credentials =
     (if socks_compatible credentials then sreturn () else sfail (SocksProtocol InvalidCredentialLength))"

definition negotiate_username_password :: "(Socks5SessionError, unit) io" where
  "negotiate_username_password =
     sbind (io_to_socks (read_exact 2)) (\<lambda>header.
       if header ! 0 \<noteq> SOCKS_VERSION then sfail (SocksProtocol UnsupportedVersion)
       else if header ! 1 = 0 then
         refuse (write_all [SOCKS_VERSION, NO_ACCEPTABLE_METHODS]) UnsupportedAuthenticationMethod
       else sbind (io_to_socks (read_exact (unat (header ! 1)))) (\<lambda>methods.
         if USERNAME_PASSWORD_METHOD \<notin> set methods then
           refuse (write_all [SOCKS_VERSION, NO_ACCEPTABLE_METHODS]) UnsupportedAuthenticationMethod
         else io_to_socks (write_all [SOCKS_VERSION, USERNAME_PASSWORD_METHOD])))"

definition refuse_authentication :: "(Socks5SessionError, 'a) io" where
  "refuse_authentication =
     sbind (signore (write_all [USERNAME_PASSWORD_VERSION, 0x01])) (\<lambda>u.
       sfail (SocksProtocol MalformedAuthentication))"

definition authenticate :: "ProxyAuthenticator \<Rightarrow> (Socks5SessionError, unit) io" where
  "authenticate credentials =
     sbind (io_to_socks (read_exact 2)) (\<lambda>header.
       if header ! 0 \<noteq> USERNAME_PASSWORD_VERSION \<or> header ! 1 = 0 then refuse_authentication
       else sbind (io_to_socks (read_exact (unat (header ! 1)))) (\<lambda>username.
            sbind (io_to_socks (read_exact 1)) (\<lambda>password_len.
              if password_len ! 0 = 0 then refuse_authentication
              else sbind (io_to_socks (read_exact (unat (password_len ! 0)))) (\<lambda>password.
                if \<not> matches_username_password credentials username password then
                  refuse (write_all [USERNAME_PASSWORD_VERSION, 0x01]) AuthenticationFailed
                else io_to_socks (write_all [USERNAME_PASSWORD_VERSION, 0x00])))))"

definition read_port :: "(Socks5SessionError, u16) io" where
  "read_port =
     sbind (io_to_socks (read_exact 2)) (\<lambda>bytes.
       let port = port_from_be_bytes bytes
       in if port = 0 then refuse (write_socks5_reply GeneralFailure unspecified_bind_addr) InvalidPort
          else sreturn port)"

definition target_result :: "ProxyTargetError + ProxyConnectTarget \<Rightarrow> (Socks5SessionError, ProxyConnectTarget) io" where
  "target_result r =
     (case r of
        Inr target \<Rightarrow> sreturn target
      | Inl ZeroPort \<Rightarrow> sfail (SocksProtocol InvalidPort)
      | Inl other \<Rightarrow> sfail (SocksProtocol (SocksTarget other)))"

definition refuse_command :: "Socks5ProtocolError \<Rightarrow> (Socks5SessionError, 'a) io" where
  "refuse_command e = refuse (write_socks5_reply ReplyCommandNotSupported unspecified_bind_addr) e"

definition refuse_address :: "Socks5ProtocolError \<Rightarrow> (Socks5SessionError, 'a) io" where
  "refuse_address e = refuse (write_socks5_reply AddressTypeNotSupported unspecified_bind_addr) e"

definition read_domain_target :: "(Socks5SessionError, ProxyConnectTarget) io" where
  "read_domain_target =
     sbind (io_to_socks (read_exact 1)) (\<lambda>len.
       if len ! 0 = 0 then refuse_address InvalidDomain
       else sbind (io_to_socks (read_exact (unat (len ! 0)))) (\<lambda>bytes.
         case from_utf8 bytes of
           None \<Rightarrow> sfail (SocksProtocol InvalidDomain)
         | Some domain \<Rightarrow>
             if list_ex (\<lambda>b. b = 0 \<or> is_ascii_control b) (as_bytes domain)
             then refuse_address InvalidDomain
             else sbind read_port (\<lambda>port. target_result (target_domain domain port))))"

definition read_connect_request :: "(Socks5SessionError, ProxyConnectTarget) io" where
  "read_connect_request =
     sbind (io_to_socks (read_exact 4)) (\<lambda>header.
       if header ! 0 \<noteq> SOCKS_VERSION \<or> header ! 2 \<noteq> 0 then
         refuse (write_socks5_reply GeneralFailure unspecified_bind_addr) MalformedRequest
       else if header ! 1 = BIND_COMMAND then refuse_command BindNotSupported
       else if header ! 1 = UDP_ASSOCIATE_COMMAND then refuse_command UdpAssociateNotSupported
       else if header ! 1 \<noteq> CONNECT_COMMAND then refuse_command CommandNotSupported
       else if header ! 3 = IPV4_ADDRESS_TYPE then
         sbind (io_to_socks (read_exact 4)) (\<lambda>o4.
         sbind read_port (\<lambda>port.
           target_result (target_ipv4 (ipv4_from_octets (o4 ! 0) (o4 ! 1) (o4 ! 2) (o4 ! 3)) port)))
       else if header ! 3 = IPV6_ADDRESS_TYPE then
         sbind (io_to_socks (read_exact 16)) (\<lambda>o6.
         sbind read_port (\<lambda>port. target_result (target_ipv6 (ipv6_from_octets o6) port)))
       else if header ! 3 = DOMAIN_ADDRESS_TYPE then read_domain_target
       else refuse_address AddressNotSupported)"

definition accept_socks5_connect ::
    "ProxyAuthenticator \<Rightarrow> (Socks5SessionError, ProxyConnectTarget) io" where
  "accept_socks5_connect credentials =
     sbind (validate_credentials credentials) (\<lambda>u.
     sbind negotiate_username_password (\<lambda>u.
     sbind (authenticate credentials) (\<lambda>u. read_connect_request)))"

subsection \<open>Chunking does not matter\<close>

lemma uniform_io_to_socks [uniform_rules]: "uniform m \<Longrightarrow> uniform (io_to_socks m)"
  unfolding io_to_socks_def by (rule uniform_rules)

lemma uniform_refuse [uniform_rules]: "uniform m \<Longrightarrow> uniform (refuse m e)"
  unfolding refuse_def by (intro uniform_rules)

lemma uniform_reply [uniform_rules]: "uniform (write_socks5_reply reply bound)"
  unfolding write_socks5_reply_def by (rule uniform_rules)

lemma uniform_target_result [uniform_rules]: "uniform (target_result r)"
  by (cases r) (auto simp: target_result_def intro!: uniform_rules split: ProxyTargetError.splits)

lemma uniform_read_port [uniform_rules]: "uniform read_port"
  unfolding read_port_def Let_def by (intro uniform_rules)

lemma uniform_option [uniform_rules]:
  "uniform m \<Longrightarrow> (\<And>x. uniform (k x)) \<Longrightarrow> uniform (case r of None \<Rightarrow> m | Some x \<Rightarrow> k x)"
  by (cases r) simp_all

lemma uniform_accept_socks5 [uniform_rules]: "uniform (accept_socks5_connect credentials)"
  unfolding accept_socks5_connect_def validate_credentials_def negotiate_username_password_def
    authenticate_def read_connect_request_def read_domain_target_def refuse_authentication_def
    refuse_command_def refuse_address_def
  by (intro uniform_rules)

subsection \<open>Addresses on the wire\<close>

lemma ipv6_octets_to_be: "ipv6_octets a = to_be 16 a"
  by (simp add: ipv6_octets_def to_be_def upt_rec)

lemma ipv6_octets_inverse [simp]: "ipv6_from_octets (ipv6_octets a) = a"
  using from_be_to_be [where a = a and k = 16]
  by (simp add: ipv6_octets_to_be ipv6_from_octets_def from_be_def)

lemma ipv6_from_octets_inverse: "length bs = 16 \<Longrightarrow> ipv6_octets (ipv6_from_octets bs) = bs"
  using to_be_from_be [where bs = bs and k = 16 and 'w = 128]
  by (simp add: ipv6_octets_to_be ipv6_from_octets_def from_be_def)

lemma ipv6_octets_length [simp]: "length (ipv6_octets a) = 16"
  by (simp add: ipv6_octets_to_be)

lemma port_bytes_inverse [simp]: "port_from_be_bytes (port_to_be_bytes p) = p"
  using from_be_to_be [where a = p and k = 2]
  by (simp add: port_from_be_bytes_def port_to_be_bytes_def from_be_def to_be_def upt_rec)

lemma port_from_bytes_inverse:
  assumes "length bs = 2"
  shows "port_to_be_bytes (port_from_be_bytes bs) = bs"
proof -
  obtain a b where "bs = [a, b]" using assms by (auto simp: numeral_2_eq_2 length_Suc_conv)
  then show ?thesis
    using to_be_from_be [where bs = bs and k = 2 and 'w = 16]
    by (simp add: port_from_be_bytes_def port_to_be_bytes_def from_be_def to_be_def upt_rec)
qed

lemma length_port_bytes [simp]: "length (port_to_be_bytes p) = 2"
  by (simp add: port_to_be_bytes_def)

subsection \<open>The client's conversation\<close>

text \<open>What a client sends: the greeting with its methods, its credentials, and the request.\<close>

definition length_byte :: "'a list \<Rightarrow> u8" where
  "length_byte bs = of_nat (length bs)"

definition field_ok :: "'a list \<Rightarrow> bool" where
  "field_ok bs \<longleftrightarrow> 1 \<le> length bs \<and> length bs \<le> 255"

definition greeting_bytes :: "u8 list \<Rightarrow> u8 list" where
  "greeting_bytes methods = [SOCKS_VERSION, length_byte methods] @ methods"

definition auth_bytes :: "u8 list \<Rightarrow> u8 list \<Rightarrow> u8 list" where
  "auth_bytes u p = [USERNAME_PASSWORD_VERSION, length_byte u] @ u @ [length_byte p] @ p"

primrec host_bytes :: "ProxyTargetHost \<Rightarrow> u8 list" where
  "host_bytes (HostV4 a) = IPV4_ADDRESS_TYPE # ipv4_octets a"
| "host_bytes (HostV6 a) = IPV6_ADDRESS_TYPE # ipv6_octets a"
| "host_bytes (Domain d) = DOMAIN_ADDRESS_TYPE # length_byte d # as_bytes d"

definition request_bytes :: "ProxyConnectTarget \<Rightarrow> u8 list" where
  "request_bytes t =
     [SOCKS_VERSION, CONNECT_COMMAND, 0] @ host_bytes (target_host t) @ port_to_be_bytes (target_port t)"

definition target_ok :: "ProxyConnectTarget \<Rightarrow> bool" where
  "target_ok t \<longleftrightarrow> target_port t \<noteq> 0 \<and>
     (case target_host t of
        Domain d \<Rightarrow> field_ok d \<and> is_str d \<and> \<not> list_ex (\<lambda>b. b = 0 \<or> is_ascii_control b) (as_bytes d)
      | _ \<Rightarrow> True)"

lemma unat_length_byte: "field_ok bs \<Longrightarrow> unat (length_byte bs) = length bs"
  by (simp add: field_ok_def length_byte_def unat_of_nat)

lemma length_byte_nonzero: "field_ok bs \<Longrightarrow> length_byte bs \<noteq> 0"
  using unat_length_byte [of bs] by (auto simp: field_ok_def)

lemma length_byte_unat: "length bs = unat (b :: u8) \<Longrightarrow> length_byte bs = b"
  by (simp add: length_byte_def)

lemma field_ok_unat: "length bs = unat (b :: u8) \<Longrightarrow> b \<noteq> 0 \<Longrightarrow> field_ok bs"
  using unat_bound [of b] by (auto simp: field_ok_def Suc_le_eq unat_gt_0)

text \<open>Reading a known prefix, and what a successful read says.\<close>

definition after :: "nat \<Rightarrow> Stream \<Rightarrow> Stream" where
  "after n s = snd (read_exact n s)"

lemma after_out [simp]: "tx (after n s) = tx s" "tx_limit (after n s) = tx_limit s"
  using read_exact_items [of n s] by (simp_all add: after_def view_def)

lemma read_known:
  assumes "items s = map Data bs @ is" "length bs = n"
  shows "sbind (io_to_socks (read_exact n)) k s = k bs (after n s)" "items (after n s) = is"
proof -
  obtain s' where "read_exact n s = (Inr bs, s')" "items s' = is"
    using assms by (auto elim: read_exact_data)
  then show "sbind (io_to_socks (read_exact n)) k s = k bs (after n s)" "items (after n s) = is"
    by (simp_all add: sbind_def io_to_socks_def smap_err_def after_def)
qed

lemma read_result:
  assumes "sbind (io_to_socks (read_exact n)) k s = (Inr y, s'')"
  obtains bs s' where "k bs s' = (Inr y, s'')" "items s = map Data bs @ items s'" "length bs = n"
    "snd (view s') = snd (view s)"
  using assms by (auto simp: sbind_Inr_iff io_to_socks_def dest: read_exact_Inr)

lemma refuse_Inr [simp]: "refuse m e s \<noteq> (Inr y, s')"
  by (auto simp: refuse_def sbind_Inr_iff)

lemma refuse_authentication_Inr [simp]: "refuse_authentication s \<noteq> (Inr y, s')"
  by (auto simp: refuse_authentication_def sbind_Inr_iff)

lemma write_open:
  "tx_limit s = None \<Longrightarrow> io_to_socks (write_all bs) s = (Inr (), s\<lparr>tx := tx s @ bs\<rparr>)"
  by (simp add: io_to_socks_def smap_err_def write_all_def)

lemma items_tx [simp]: "items (s\<lparr>tx := x\<rparr>) = items s"
  by (simp add: items_def)

lemma two_bytes: "length bs = 2 \<Longrightarrow> bs = [bs ! 0, bs ! 1]"
  by (auto simp: numeral_2_eq_2 length_Suc_conv)

lemma four_bytes: "length bs = 4 \<Longrightarrow> bs = [bs ! 0, bs ! 1, bs ! 2, bs ! 3]"
  by (auto simp: eval_nat_numeral length_Suc_conv)

lemma negotiate_complete:
  assumes "items s = map Data (greeting_bytes methods) @ is" "field_ok methods"
    "USERNAME_PASSWORD_METHOD \<in> set methods" "tx_limit s = None"
  obtains s' where "negotiate_username_password s = (Inr (), s')" "items s' = is"
    "tx s' = tx s @ [SOCKS_VERSION, USERNAME_PASSWORD_METHOD]" "tx_limit s' = None"
proof -
  note first = read_known [of s "[SOCKS_VERSION, length_byte methods]" "map Data methods @ is" 2]
  note second = read_known [of "after 2 s" methods "is" "length methods"]
  have rest: "items (after 2 s) = map Data methods @ is"
    using first(2) assms(1) by (simp add: greeting_bytes_def)
  show ?thesis
    by (rule that [of "(after (length methods) (after 2 s))\<lparr>tx := tx s @ [SOCKS_VERSION, USERNAME_PASSWORD_METHOD]\<rparr>"])
      (use rest assms length_byte_nonzero [OF assms(2)] unat_length_byte [OF assms(2)] in \<open>simp_all add: first second negotiate_username_password_def greeting_bytes_def write_open\<close>)
qed

lemma authenticate_complete:
  assumes "items s = map Data (auth_bytes u p) @ is" "field_ok u" "field_ok p"
    "matches_username_password credentials u p" "tx_limit s = None"
  obtains s' where "authenticate credentials s = (Inr (), s')" "items s' = is"
    "tx s' = tx s @ [USERNAME_PASSWORD_VERSION, 0x00]" "tx_limit s' = None"
proof -
  let ?s1 = "after 2 s" and ?s2 = "after (length u) (after 2 s)"
  let ?s3 = "after 1 (after (length u) (after 2 s))"
  note r1 = read_known [of s "[USERNAME_PASSWORD_VERSION, length_byte u]" "map Data (u @ [length_byte p] @ p) @ is" 2]
  note r2 = read_known [of ?s1 u "map Data ([length_byte p] @ p) @ is" "length u"]
  note r3 = read_known [of ?s2 "[length_byte p]" "map Data p @ is" 1]
  note r4 = read_known [of ?s3 p "is" "length p"]
  have i1: "items ?s1 = map Data (u @ [length_byte p] @ p) @ is"
    using r1(2) assms(1) by (simp add: auth_bytes_def)
  then have i2: "items ?s2 = map Data ([length_byte p] @ p) @ is" using r2(2) by simp
  then have i3: "items ?s3 = map Data p @ is" using r3(2) by simp
  show ?thesis
    by (rule that [of "(after (length p) ?s3)\<lparr>tx := tx s @ [USERNAME_PASSWORD_VERSION, 0x00]\<rparr>"])
      (use i1 i2 i3 assms in \<open>simp_all del: One_nat_def add: length_byte_nonzero unat_length_byte r1 r2 r3 r4 authenticate_def auth_bytes_def write_open\<close>)
qed

lemma read_port_complete:
  assumes "items s = map Data (port_to_be_bytes port) @ is" "port \<noteq> 0"
  shows "read_port s = (Inr port, after 2 s)" "items (after 2 s) = is"
  using assms
  by (simp_all add: read_known [of s "port_to_be_bytes port" "is" 2] read_port_def Let_def sreturn_def)

lemma request_complete:
  assumes "items s = map Data (request_bytes t) @ is" "target_ok t" "tx_limit s = None"
  obtains s' where "read_connect_request s = (Inr t, s')" "items s' = is" "tx s' = tx s" "tx_limit s' = None"
proof -
  obtain port where port: "target_port t = port" "port \<noteq> 0" using assms(2) by (simp add: target_ok_def)
  let ?p = "port_to_be_bytes port"
  show ?thesis
  proof (cases "target_host t")
    case (HostV4 x)
    obtain a b c d where x: "ipv4_octets x = [a, b, c, d]" "ipv4_from_octets a b c d = x"
      by (rule ipv4_octets_Cons)
    have t: "t = \<lparr>target_host = HostV4 x, target_port = port\<rparr>" using HostV4 port by (cases t) simp
    note r1 = read_known [of s "[SOCKS_VERSION, CONNECT_COMMAND, 0, IPV4_ADDRESS_TYPE]"
        "map Data ([a, b, c, d] @ ?p) @ is" 4]
    note r2 = read_known [of "after 4 s" "[a, b, c, d]" "map Data ?p @ is" 4]
    note r3 = read_port_complete [of "after 4 (after 4 s)" port "is"]
    show ?thesis
      by (rule that [of "after 2 (after 4 (after 4 s))"])
      (use assms port x in \<open>simp_all del: One_nat_def add: r1 r2 r3 t read_connect_request_def request_bytes_def socks_constants target_ipv4_def
            ProxyConnectTarget_new_def target_result_def sreturn_def\<close>)
  next
    case (HostV6 x)
    have t: "t = \<lparr>target_host = HostV6 x, target_port = port\<rparr>" using HostV6 port by (cases t) simp
    note r1 = read_known [of s "[SOCKS_VERSION, CONNECT_COMMAND, 0, IPV6_ADDRESS_TYPE]"
        "map Data (ipv6_octets x @ ?p) @ is" 4]
    note r2 = read_known [of "after 4 s" "ipv6_octets x" "map Data ?p @ is" 16]
    note r3 = read_port_complete [of "after 16 (after 4 s)" port "is"]
    show ?thesis
      by (rule that [of "after 2 (after 16 (after 4 s))"])
      (use assms port in \<open>simp_all del: One_nat_def add: r1 r2 r3 t read_connect_request_def request_bytes_def socks_constants target_ipv6_def
            ProxyConnectTarget_new_def target_result_def sreturn_def\<close>)
  next
    case (Domain x)
    have t: "t = \<lparr>target_host = Domain x, target_port = port\<rparr>" using Domain port by (cases t) simp
    have x: "field_ok x" "is_str x" "\<not> list_ex (\<lambda>b. b = 0 \<or> is_ascii_control b) (as_bytes x)"
      using assms(2) Domain by (simp_all add: target_ok_def)
    have nonempty: "x \<noteq> []" using x(1) by (auto simp: field_ok_def)
    note r1 = read_known [of s "[SOCKS_VERSION, CONNECT_COMMAND, 0, DOMAIN_ADDRESS_TYPE]"
        "map Data ([length_byte x] @ as_bytes x @ ?p) @ is" 4]
    note r2 = read_known [of "after 4 s" "[length_byte x]" "map Data (as_bytes x @ ?p) @ is" 1]
    note r3 = read_known [of "after 1 (after 4 s)" "as_bytes x" "map Data ?p @ is" "length x"]
    note r4 = read_port_complete [of "after (length x) (after 1 (after 4 s))" port "is"]
    show ?thesis
      by (rule that [of "after 2 (after (length x) (after 1 (after 4 s)))"])
      (use assms port nonempty x length_byte_nonzero [OF x(1)] unat_length_byte [OF x(1)] in \<open>simp_all del: One_nat_def add: r1 r2 r3 r4 t read_connect_request_def read_domain_target_def request_bytes_def socks_constants
            target_domain_def host_domain_def MAX_DOMAIN_BYTES_def field_ok_def from_utf8_as_bytes
            ProxyConnectTarget_new_def target_result_def sreturn_def\<close>)
  qed
qed

lemma negotiate_sound:
  assumes "negotiate_username_password s = (Inr (), s')"
  obtains methods where "items s = map Data (greeting_bytes methods) @ items s'" "field_ok methods"
    "USERNAME_PASSWORD_METHOD \<in> set methods"
proof -
  from assms obtain header s1 where h: "items s = map Data header @ items s1" "length header = 2"
    and k1: "header ! 0 = SOCKS_VERSION" "header ! 1 \<noteq> 0"
      "sbind (io_to_socks (read_exact (unat (header ! 1)))) (\<lambda>methods.
         if USERNAME_PASSWORD_METHOD \<notin> set methods then
           refuse (write_all [SOCKS_VERSION, NO_ACCEPTABLE_METHODS]) UnsupportedAuthenticationMethod
         else io_to_socks (write_all [SOCKS_VERSION, USERNAME_PASSWORD_METHOD])) s1 = (Inr (), s')"
    unfolding negotiate_username_password_def by (rule read_result) (auto split: if_splits)
  from k1(3) obtain methods s2 where m: "items s1 = map Data methods @ items s2"
    "length methods = unat (header ! 1)" "USERNAME_PASSWORD_METHOD \<in> set methods"
    "io_to_socks (write_all [SOCKS_VERSION, USERNAME_PASSWORD_METHOD]) s2 = (Inr (), s')"
    by (rule read_result) (auto split: if_splits)
  have "items s' = items s2"
    using m(4) by (auto simp: io_to_socks_def write_all_def items_def split: option.splits if_splits)
  moreover have "header = [SOCKS_VERSION, length_byte methods]"
    using two_bytes [OF h(2)] length_byte_unat [OF m(2)] k1(1) by simp
  ultimately have "items s = map Data (greeting_bytes methods) @ items s'"
    using h(1) m(1) by (simp add: greeting_bytes_def)
  with that m(3) field_ok_unat [OF m(2) k1(2)] show ?thesis by blast
qed

lemma authenticate_sound:
  assumes "authenticate credentials s = (Inr (), s')"
  obtains u p where "items s = map Data (auth_bytes u p) @ items s'" "field_ok u" "field_ok p"
    "matches_username_password credentials u p"
proof -
  let ?k = "\<lambda>u password.
    if \<not> matches_username_password credentials u password then
      refuse (write_all [USERNAME_PASSWORD_VERSION, 0x01]) AuthenticationFailed
    else io_to_socks (write_all [USERNAME_PASSWORD_VERSION, 0x00])"
  from assms obtain header s1 where h: "items s = map Data header @ items s1" "length header = 2"
    and k1: "header ! 0 = USERNAME_PASSWORD_VERSION" "header ! 1 \<noteq> 0"
      "sbind (io_to_socks (read_exact (unat (header ! 1)))) (\<lambda>u.
         sbind (io_to_socks (read_exact 1)) (\<lambda>password_len.
           if password_len ! 0 = 0 then refuse_authentication
           else sbind (io_to_socks (read_exact (unat (password_len ! 0)))) (?k u))) s1 = (Inr (), s')"
    unfolding authenticate_def by (rule read_result) (auto split: if_splits)
  from k1(3) obtain u s2 where u: "items s1 = map Data u @ items s2" "length u = unat (header ! 1)"
    and k2: "sbind (io_to_socks (read_exact 1)) (\<lambda>password_len.
           if password_len ! 0 = 0 then refuse_authentication
           else sbind (io_to_socks (read_exact (unat (password_len ! 0)))) (?k u)) s2 = (Inr (), s')"
    by (rule read_result) blast
  from k2 obtain l s3 where l: "items s2 = map Data l @ items s3" "length l = 1" "l ! 0 \<noteq> 0"
    and k3: "sbind (io_to_socks (read_exact (unat (l ! 0)))) (?k u) s3 = (Inr (), s')"
    by (rule read_result) (auto split: if_splits)
  from k3 obtain p s4 where p: "items s3 = map Data p @ items s4" "length p = unat (l ! 0)"
    "matches_username_password credentials u p"
    "io_to_socks (write_all [USERNAME_PASSWORD_VERSION, 0x00]) s4 = (Inr (), s')"
    by (rule read_result) (auto split: if_splits)
  have "items s' = items s4"
    using p(4) by (auto simp: io_to_socks_def write_all_def items_def split: option.splits if_splits)
  moreover have "l = [length_byte p]" using l(2) length_byte_unat [OF p(2)] by (cases l) auto
  moreover have "header = [USERNAME_PASSWORD_VERSION, length_byte u]"
    using two_bytes [OF h(2)] length_byte_unat [OF u(2)] k1(1) by simp
  ultimately have "items s = map Data (auth_bytes u p) @ items s'"
    using h(1) u(1) l(1) p(1) by (simp add: auth_bytes_def)
  with that show ?thesis
    using field_ok_unat [OF u(2) k1(2)] field_ok_unat [OF p(2) l(3)] p(3) by blast
qed

lemma read_port_sound:
  assumes "read_port s = (Inr port, s')"
  shows "items s = map Data (port_to_be_bytes port) @ items s'" "port \<noteq> 0"
proof -
  from assms obtain bs where "items s = map Data bs @ items s'" "length bs = 2" "port = port_from_be_bytes bs"
    "port \<noteq> 0"
    unfolding read_port_def Let_def by (rule read_result) (auto split: if_splits)
  then show "items s = map Data (port_to_be_bytes port) @ items s'" "port \<noteq> 0"
    by (simp_all add: port_from_bytes_inverse)
qed

lemma target_result_Inr: "target_result r s = (Inr t, s') \<longleftrightarrow> r = Inr t \<and> s' = s"
  by (auto simp: target_result_def split: sum.splits ProxyTargetError.splits)

lemma target_new_Inr:
  "ProxyConnectTarget_new h port = Inr t \<longleftrightarrow> port \<noteq> 0 \<and> t = \<lparr>target_host = h, target_port = port\<rparr>"
  by (auto simp: ProxyConnectTarget_new_def)

lemma domain_sound:
  assumes "read_domain_target s = (Inr t, s')"
  shows "\<exists>d. target_host t = Domain d \<and> target_ok t \<and>
    items s = map Data (length_byte d # as_bytes d @ port_to_be_bytes (target_port t)) @ items s'"
proof -
  from assms obtain l s1 where l: "items s = map Data l @ items s1" "length l = 1" "l ! 0 \<noteq> 0"
    and k1: "sbind (io_to_socks (read_exact (unat (l ! 0)))) (\<lambda>bytes.
         case from_utf8 bytes of
           None \<Rightarrow> sfail (SocksProtocol InvalidDomain)
         | Some domain \<Rightarrow>
             if list_ex (\<lambda>b. b = 0 \<or> is_ascii_control b) (as_bytes domain)
             then refuse_address InvalidDomain
             else sbind read_port (\<lambda>port. target_result (target_domain domain port))) s1 = (Inr t, s')"
    unfolding read_domain_target_def
    by (rule read_result) (auto simp: refuse_address_def split: if_splits)
  from k1 obtain bs s2 where b: "items s1 = map Data bs @ items s2" "length bs = unat (l ! 0)"
    and k2: "(case from_utf8 bs of
           None \<Rightarrow> sfail (SocksProtocol InvalidDomain)
         | Some domain \<Rightarrow>
             if list_ex (\<lambda>b. b = 0 \<or> is_ascii_control b) (as_bytes domain)
             then refuse_address InvalidDomain
             else sbind read_port (\<lambda>port. target_result (target_domain domain port))) s2 = (Inr t, s')"
    by (rule read_result) blast
  from k2 obtain d port where d: "is_str d" "bs = as_bytes d"
    "\<not> list_ex (\<lambda>b. b = 0 \<or> is_ascii_control b) (as_bytes d)"
    and port: "read_port s2 = (Inr port, s')" and t: "target_domain d port = Inr t"
    by (auto simp: from_utf8_Some_iff refuse_address_def sbind_Inr_iff target_result_Inr
             split: option.splits if_splits)
  have len: "length d = unat (l ! 0)" using b(2) d(2) by simp
  have "l = [length_byte d]" using l(2) length_byte_unat [OF len] by (cases l) auto
  moreover have "t = \<lparr>target_host = Domain d, target_port = port\<rparr>"
    using t by (auto simp: target_domain_def rbind_Inr_iff host_domain_def target_new_Inr split: if_splits)
  ultimately show ?thesis
    using l(1) b(1) d read_port_sound [OF port] field_ok_unat [OF len l(3)]
    by (simp add: target_ok_def)
qed

lemma request_sound:
  assumes "read_connect_request s = (Inr t, s')"
  shows "items s = map Data (request_bytes t) @ items s'" "target_ok t"
proof -
  from assms obtain header s1 where h: "items s = map Data header @ items s1" "length header = 4"
    and k: "header ! 0 = SOCKS_VERSION" "header ! 1 = CONNECT_COMMAND" "header ! 2 = 0"
    and target:
      "header ! 3 = IPV4_ADDRESS_TYPE \<and> sbind (io_to_socks (read_exact 4)) (\<lambda>o4.
         sbind read_port (\<lambda>port.
           target_result (target_ipv4 (ipv4_from_octets (o4 ! 0) (o4 ! 1) (o4 ! 2) (o4 ! 3)) port))) s1 = (Inr t, s') \<or>
       header ! 3 = IPV6_ADDRESS_TYPE \<and> sbind (io_to_socks (read_exact 16)) (\<lambda>o6.
         sbind read_port (\<lambda>port. target_result (target_ipv6 (ipv6_from_octets o6) port))) s1 = (Inr t, s') \<or>
       header ! 3 = DOMAIN_ADDRESS_TYPE \<and> read_domain_target s1 = (Inr t, s')"
    unfolding read_connect_request_def
    by (rule read_result) (auto simp: refuse_command_def refuse_address_def split: if_splits)
  have header: "header = [SOCKS_VERSION, CONNECT_COMMAND, 0, header ! 3]"
    using four_bytes [OF h(2)] k by simp
  from target have "items s1 = map Data (tl (host_bytes (target_host t)) @ port_to_be_bytes (target_port t)) @ items s' \<and>
      header ! 3 = hd (host_bytes (target_host t)) \<and> target_ok t"
  proof (elim disjE conjE)
    assume type: "header ! 3 = IPV4_ADDRESS_TYPE"
      and read: "sbind (io_to_socks (read_exact 4)) (\<lambda>o4. sbind read_port (\<lambda>port.
        target_result (target_ipv4 (ipv4_from_octets (o4 ! 0) (o4 ! 1) (o4 ! 2) (o4 ! 3)) port))) s1 = (Inr t, s')"
    from read obtain o4 s2 port where o4: "items s1 = map Data o4 @ items s2" "length o4 = 4"
      "read_port s2 = (Inr port, s')"
      "target_ipv4 (ipv4_from_octets (o4 ! 0) (o4 ! 1) (o4 ! 2) (o4 ! 3)) port = Inr t"
      by (rule read_result) (auto simp: sbind_Inr_iff target_result_Inr)
    then show ?thesis
      using type read_port_sound [OF o4(3)] four_bytes [OF o4(2)]
      by (auto simp: target_ipv4_def target_new_Inr target_ok_def ipv4_octets_inverse)
  next
    assume type: "header ! 3 = IPV6_ADDRESS_TYPE"
      and read: "sbind (io_to_socks (read_exact 16)) (\<lambda>o6. sbind read_port (\<lambda>port.
        target_result (target_ipv6 (ipv6_from_octets o6) port))) s1 = (Inr t, s')"
    from read obtain o6 s2 port where o6: "items s1 = map Data o6 @ items s2" "length o6 = 16"
      "read_port s2 = (Inr port, s')" "target_ipv6 (ipv6_from_octets o6) port = Inr t"
      by (rule read_result) (auto simp: sbind_Inr_iff target_result_Inr)
    then show ?thesis
      using type read_port_sound [OF o6(3)]
      by (auto simp: target_ipv6_def target_new_Inr target_ok_def ipv6_from_octets_inverse)
  next
    assume type: "header ! 3 = DOMAIN_ADDRESS_TYPE" and "read_domain_target s1 = (Inr t, s')"
    from domain_sound [OF this(2)] type show ?thesis by auto
  qed
  moreover have "host_bytes (target_host t) = hd (host_bytes (target_host t)) # tl (host_bytes (target_host t))"
    by (cases "target_host t") simp_all
  ultimately show "items s = map Data (request_bytes t) @ items s'" "target_ok t"
    using h(1) header unfolding request_bytes_def
    by (metis append.assoc append_Cons append_Nil map_append, blast)
qed

definition conversation :: "u8 list \<Rightarrow> u8 list \<Rightarrow> u8 list \<Rightarrow> ProxyConnectTarget \<Rightarrow> u8 list" where
  "conversation methods u p t = greeting_bytes methods @ auth_bytes u p @ request_bytes t"

definition conversation_ok :: "ProxyAuthenticator \<Rightarrow> u8 list \<Rightarrow> u8 list \<Rightarrow> u8 list \<Rightarrow> ProxyConnectTarget \<Rightarrow> bool" where
  "conversation_ok credentials methods u p t \<longleftrightarrow>
     socks_compatible credentials \<and> field_ok methods \<and> USERNAME_PASSWORD_METHOD \<in> set methods \<and>
     field_ok u \<and> field_ok p \<and> matches_username_password credentials u p \<and> target_ok t"

lemma accept_complete:
  assumes "conversation_ok credentials methods u p t" "tx_limit s = None"
    "items s = map Data (conversation methods u p t) @ rest"
  shows "fst (accept_socks5_connect credentials s) = Inr t"
    "items (snd (accept_socks5_connect credentials s)) = rest"
    "tx (snd (accept_socks5_connect credentials s)) = tx s @ [0x05, 0x02, 0x01, 0x00]"
    "tx_limit (snd (accept_socks5_connect credentials s)) = None"
proof -
  note ok = assms(1) [unfolded conversation_ok_def]
  have "items s = map Data (greeting_bytes methods) @ map Data (auth_bytes u p @ request_bytes t) @ rest"
    using assms(3) by (simp add: conversation_def)
  with ok assms(2) obtain s1 where s1: "negotiate_username_password s = (Inr (), s1)"
    "items s1 = map Data (auth_bytes u p) @ map Data (request_bytes t) @ rest"
    "tx s1 = tx s @ [SOCKS_VERSION, USERNAME_PASSWORD_METHOD]" "tx_limit s1 = None"
    by (auto elim: negotiate_complete)
  with ok obtain s2 where s2: "authenticate credentials s1 = (Inr (), s2)"
    "items s2 = map Data (request_bytes t) @ rest"
    "tx s2 = tx s1 @ [USERNAME_PASSWORD_VERSION, 0x00]" "tx_limit s2 = None"
    by (auto elim: authenticate_complete)
  with ok obtain s3 where s3: "read_connect_request s2 = (Inr t, s3)" "items s3 = rest" "tx s3 = tx s2"
    "tx_limit s3 = None"
    by (auto elim: request_complete)
  have "accept_socks5_connect credentials s = (Inr t, s3)"
    using ok s1(1) s2(1) s3(1)
    by (simp add: accept_socks5_connect_def validate_credentials_def sbind_def sreturn_def)
  with s1 s2 s3 show "fst (accept_socks5_connect credentials s) = Inr t"
    "items (snd (accept_socks5_connect credentials s)) = rest"
    "tx (snd (accept_socks5_connect credentials s)) = tx s @ [0x05, 0x02, 0x01, 0x00]"
    "tx_limit (snd (accept_socks5_connect credentials s)) = None"
    by (simp_all add: socks_constants)
qed

lemma accept_sound:
  assumes "accept_socks5_connect credentials s = (Inr t, s')"
  obtains methods u p where "conversation_ok credentials methods u p t"
    "items s = map Data (conversation methods u p t) @ items s'"
proof -
  from assms obtain s1 s2 where steps: "socks_compatible credentials"
    "negotiate_username_password s = (Inr (), s1)" "authenticate credentials s1 = (Inr (), s2)"
    "read_connect_request s2 = (Inr t, s')"
    by (auto simp: accept_socks5_connect_def validate_credentials_def sbind_Inr_iff split: if_splits)
  from steps(2) obtain methods where m: "items s = map Data (greeting_bytes methods) @ items s1"
    "field_ok methods" "USERNAME_PASSWORD_METHOD \<in> set methods"
    by (rule negotiate_sound)
  from steps(3) obtain u p where up: "items s1 = map Data (auth_bytes u p) @ items s2"
    "field_ok u" "field_ok p" "matches_username_password credentials u p"
    by (rule authenticate_sound)
  show ?thesis
    using that [of methods u p] steps(1) m up request_sound [OF steps(4)]
    by (simp add: conversation_ok_def conversation_def)
qed


definition socks_demo_material :: ProxyCredentialMaterial where
  "socks_demo_material = \<lparr>proxy_username = ''u'', proxy_password = ''p''\<rparr>"

definition socks_demo_target :: ProxyConnectTarget where
  "socks_demo_target = \<lparr>target_host = HostV4 0x01020304, target_port = 443\<rparr>"

definition socks_demo_stream :: "u8 list \<Rightarrow> Stream" where
  "socks_demo_stream bs = \<lparr>rx = map (\<lambda>b. Chunk [b]) bs, tx = [], tx_limit = None, replay = None, write_shut = False\<rparr>"

lemma socks_demo_items: "items (socks_demo_stream bs) = map Data bs"
  by (induction bs) (simp_all add: items_def socks_demo_stream_def)


end
