(* ===== verification/Proxy_Session.thy ===== *)
theory Proxy_Session
  imports Proxy_Http Proxy_Socks5
begin

text \<open>
  Protocol detection (\<open>crates/proxy/src/mixed.rs\<close>) and the setup of one proxy session
  (\<open>crates/proxy/src/session.rs\<close>). The outbound connector is an implementation outside this crate: it
  is a parameter that maps a target and the state of the world to an upstream or an error and the new
  state. The relay that copies bytes afterwards is I/O and is not modelled.
\<close>

subsection \<open>Protocol detection\<close>

definition SOCKS5_DISCRIMINATOR :: u8 where "SOCKS5_DISCRIMINATOR = 0x05"
definition HTTP_CONNECT_DISCRIMINATOR :: u8 where "HTTP_CONNECT_DISCRIMINATOR = 0x43"

datatype MixedConnectError =
    EmptyStream
  | UnsupportedProtocol
  | MixedIo IoError
  | MixedHttp HttpConnectStreamError
  | MixedSocks5 Socks5SessionError

function read_discriminator :: "Stream \<Rightarrow> (MixedConnectError + u8) \<times> Stream" where
  "read_discriminator s =
     (case read_stream 1 s of
        (Inr [], s') \<Rightarrow> (Inl EmptyStream, s')
      | (Inr (b # bs), s') \<Rightarrow> (Inr b, s')
      | (Inl Interrupted, s') \<Rightarrow> read_discriminator s'
      | (Inl e, s') \<Rightarrow> (Inl (MixedIo e), s'))"
  by pat_completeness auto
termination
  by (relation "measure stream_size") (auto dest: read_stream_progress [OF sym])

declare read_discriminator.simps [simp del]

text \<open>The wrapper replays the byte into the selected parser; afterwards the inner stream is used
  directly, so an unread replay byte is gone with the wrapper.\<close>

definition ReplayIo_new :: "u8 \<Rightarrow> Stream \<Rightarrow> Stream" where
  "ReplayIo_new first inner = inner\<lparr>replay := Some first\<rparr>"

definition through_replay :: "u8 \<Rightarrow> ('e, 'a) io \<Rightarrow> ('e, 'a) io" where
  "through_replay first m s =
     (case m (ReplayIo_new first s) of (r, s') \<Rightarrow> (r, s'\<lparr>replay := None\<rparr>))"

definition accept_mixed_connect ::
    "ProxyAuthenticator \<Rightarrow> (MixedConnectError, ProxyProtocol \<times> ProxyConnectTarget) io" where
  "accept_mixed_connect credentials =
     sbind read_discriminator (\<lambda>first.
       if first = SOCKS5_DISCRIMINATOR then
         sbind (smap_err MixedSocks5 (through_replay first (accept_socks5_connect credentials))) (\<lambda>target.
           sreturn (Socks5, target))
       else if first = HTTP_CONNECT_DISCRIMINATOR then
         sbind (smap_err MixedHttp (through_replay first (accept_http_connect_stream credentials))) (\<lambda>target.
           sreturn (Http, target))
       else sfail UnsupportedProtocol)"

subsection \<open>One session\<close>

datatype ProxyOutboundConnectError = Unavailable | Rejected | Failed

datatype ProxySessionError =
    SessionIo IoError
  | SessionHttp HttpConnectStreamError
  | SessionMixed MixedConnectError
  | SessionSocks5 Socks5SessionError
  | SessionOutbound ProxyOutboundConnectError

text \<open>An upstream socket: its local address, when the system reports one.\<close>

record Upstream =
  upstream_id :: nat
  local_addr :: "SocketAddr option"

type_synonym 'w connector =
  "ProxyConnectTarget \<Rightarrow> 'w \<Rightarrow> (ProxyOutboundConnectError + Upstream) \<times> 'w"

definition outbound_reply :: "ProxyOutboundConnectError \<Rightarrow> Socks5Reply" where
  "outbound_reply e =
     (case e of Unavailable \<Rightarrow> HostUnreachable | Rejected \<Rightarrow> ConnectionNotAllowed | Failed \<Rightarrow> GeneralFailure)"

text \<open>A response is its status line and headers, each followed by a line end, and an empty line.\<close>

definition response :: "string list \<Rightarrow> u8 list" where
  "response lines = as_bytes (concat (map (\<lambda>l. l @ CRLF) lines) @ CRLF)"

definition close_response :: "string \<Rightarrow> u8 list" where
  "close_response status = response [status, ''Connection: close'']"

definition write_connect_success :: "ProxyProtocol \<Rightarrow> Upstream \<Rightarrow> (IoError, unit) io" where
  "write_connect_success protocol upstream =
     (case protocol of
        Socks5 \<Rightarrow> write_socks5_reply Succeeded
          (case local_addr upstream of None \<Rightarrow> unspecified_bind_addr | Some a \<Rightarrow> a)
      | Http \<Rightarrow> write_all (response [''HTTP/1.1 200 Connection Established''])
      | Mixed \<Rightarrow> sfail (OtherIo ''mixed protocol must resolve before connect response''))"

definition write_outbound_failure :: "ProxyProtocol \<Rightarrow> ProxyOutboundConnectError \<Rightarrow> (IoError, unit) io" where
  "write_outbound_failure protocol e =
     (case protocol of
        Socks5 \<Rightarrow> write_socks5_reply (outbound_reply e) unspecified_bind_addr
      | Http \<Rightarrow> write_all
          (case e of
             Unavailable \<Rightarrow> close_response ''HTTP/1.1 503 Service Unavailable''
           | Rejected \<Rightarrow> close_response ''HTTP/1.1 403 Forbidden''
           | Failed \<Rightarrow> close_response ''HTTP/1.1 502 Bad Gateway'')
      | Mixed \<Rightarrow> sfail (OtherIo ''mixed protocol must resolve before outbound failure response''))"

definition http_failure_response :: "HttpConnectError \<Rightarrow> u8 list" where
  "http_failure_response e =
     (if e \<in> {ProxyAuthenticationRequired, ProxyAuthenticationFailed} then
        response [''HTTP/1.1 407 Proxy Authentication Required'',
                  ''Proxy-Authenticate: Basic realm='' @ [CHR 0x22] @ ''Mish'' @ [CHR 0x22],
                  ''Connection: close'']
      else if e = MethodNotAllowed then close_response ''HTTP/1.1 405 Method Not Allowed''
      else if e = UnsupportedHttpVersion then close_response ''HTTP/1.1 505 HTTP Version Not Supported''
      else if e = HeaderTooLarge then close_response ''HTTP/1.1 431 Request Header Fields Too Large''
      else close_response ''HTTP/1.1 400 Bad Request'')"

definition write_http_protocol_failure :: "HttpConnectStreamError \<Rightarrow> (IoError, unit) io" where
  "write_http_protocol_failure e =
     (case e of HttpIo io \<Rightarrow> sreturn () | HttpProtocol e \<Rightarrow> write_all (http_failure_response e))"

definition accept_target ::
    "ProxyProtocol \<Rightarrow> ProxyAuthenticator \<Rightarrow> (ProxySessionError, ProxyProtocol \<times> ProxyConnectTarget) io" where
  "accept_target protocol credentials s =
     (case protocol of
        Mixed \<Rightarrow>
          (case accept_mixed_connect credentials s of
             (Inr r, s') \<Rightarrow> (Inr r, s')
           | (Inl (MixedHttp http), s') \<Rightarrow>
               sbind (smap_err SessionIo (write_http_protocol_failure http))
                 (\<lambda>u. sfail (SessionMixed (MixedHttp http))) s'
           | (Inl e, s') \<Rightarrow> (Inl (SessionMixed e), s'))
      | Socks5 \<Rightarrow>
          (case accept_socks5_connect credentials s of
             (Inr target, s') \<Rightarrow> (Inr (Socks5, target), s')
           | (Inl e, s') \<Rightarrow> (Inl (SessionSocks5 e), s'))
      | Http \<Rightarrow>
          (case accept_http_connect_stream credentials s of
             (Inr target, s') \<Rightarrow> (Inr (Http, target), s')
           | (Inl e, s') \<Rightarrow>
               sbind (smap_err SessionIo (write_http_protocol_failure e)) (\<lambda>u. sfail (SessionHttp e)) s'))"

definition prepare_proxy_session_inner ::
    "ProxyProtocol \<Rightarrow> ProxyAuthenticator \<Rightarrow> 'w connector \<Rightarrow> Stream \<Rightarrow> 'w \<Rightarrow>
     (ProxySessionError + Upstream) \<times> Stream \<times> 'w" where
  "prepare_proxy_session_inner protocol credentials connector client w =
     (case accept_target protocol credentials client of
        (Inl e, client) \<Rightarrow> (Inl e, client, w)
      | (Inr (wire_protocol, target), client) \<Rightarrow>
          (case connector target w of
             (Inl e, w) \<Rightarrow>
               (case write_outbound_failure wire_protocol e client of
                  (Inl io, client) \<Rightarrow> (Inl (SessionIo io), client, w)
                | (Inr u, client) \<Rightarrow> (Inl (SessionOutbound e), client, w))
           | (Inr upstream, w) \<Rightarrow>
               (case write_connect_success wire_protocol upstream client of
                  (Inl io, client) \<Rightarrow> (Inl (SessionIo io), client, w)
                | (Inr u, client) \<Rightarrow> (Inr upstream, client, w))))"

definition prepare_proxy_session ::
    "ProxyProtocol \<Rightarrow> ProxyAuthenticator \<Rightarrow> 'w connector \<Rightarrow> Stream \<Rightarrow> 'w \<Rightarrow>
     (ProxySessionError + Upstream) \<times> Stream \<times> 'w" where
  "prepare_proxy_session protocol credentials connector client w =
     (case prepare_proxy_session_inner protocol credentials connector client w of
        (Inr upstream, client, w) \<Rightarrow> (Inr upstream, client, w)
      | (Inl e, client, w) \<Rightarrow> (Inl e, shutdown_write client, w))"

subsection \<open>Detection is transparent\<close>

lemma read_discriminator_items:
  "fst (read_discriminator s) = (case items s of
      Data b # is \<Rightarrow> Inr b | Hard e # is \<Rightarrow> Inl (MixedIo e) | _ \<Rightarrow> Inl EmptyStream) \<and>
   view (snd (read_discriminator s)) = (tl (items s), snd (view s)) \<and>
   (items s \<noteq> [] \<longrightarrow> replay (snd (read_discriminator s)) = None)"
proof (induction s rule: read_discriminator.induct)
  case (1 s)
  have "(0 :: nat) < 1" by simp
  then show ?case
  proof (cases rule: read_stream_cases [of 1 s])
    case (1 s')
    then have "items s' = items s" "view s' = view s" by (simp_all add: view_def)
    with 1 "1.IH" show ?thesis by (subst (1 2 3) read_discriminator.simps) simp
  next
    case (2 e s')
    then have "replay s' = None"
      by (auto simp: read_stream_def split: option.splits prod.splits)
    with 2 show ?thesis by (subst (1 2 3) read_discriminator.simps) (cases e; simp add: view_def)
  next
    case (3 s')
    then show ?thesis by (subst (1 2 3) read_discriminator.simps) (simp add: view_def)
  next
    case (4 s')
    then have "replay s' = None"
      by (auto simp: read_stream_def split: option.splits prod.splits)
    with 4 show ?thesis by (subst (1 2 3) read_discriminator.simps) (simp add: view_def)
  next
    case (5 b bs s')
    then have "replay s' = None" "bs = []"
      by (auto simp: read_stream_def split: option.splits prod.splits)
    with 5 show ?thesis by (subst (1 2 3) read_discriminator.simps) (simp add: view_def)
  qed
qed

text \<open>No operation revives a replay byte, and reading consumes it.\<close>

definition keeps :: "('e, 'a) io \<Rightarrow> bool" where
  "keeps m \<longleftrightarrow> (\<forall>s. replay s = None \<longrightarrow> replay (snd (m s)) = None)"

definition clears :: "('e, 'a) io \<Rightarrow> bool" where
  "clears m \<longleftrightarrow> (\<forall>s x s'. m s = (Inr x, s') \<longrightarrow> replay s' = None)"

named_theorems keeps_rules

lemma read_stream_replay: "0 < n \<Longrightarrow> replay (snd (read_stream n s)) = None"
  by (simp add: read_stream_def split: option.splits prod.splits)

lemma read_exact_replay: "replay (snd (read_exact n s)) = (if n = 0 then replay s else None)"
proof (induction n s rule: read_exact.induct)
  case (1 n s)
  show ?case
  proof (cases "n = 0")
    case True
    then show ?thesis by (subst read_exact.simps) simp
  next
    case False
    obtain r s' where r: "read_stream n s = (r, s')" by (cases "read_stream n s")
    have s': "replay s' = None" using read_stream_replay [of n s] r False by simp
    show ?thesis
    proof (cases r)
      case (Inl e)
      then show ?thesis
        using False r s' "1.IH"(1) [OF False, of "Inl e" s'] by (subst read_exact.simps) (cases e; simp)
    next
      case (Inr bs)
      show ?thesis
      proof (cases bs)
        case Nil
        then show ?thesis using False r s' Inr by (subst read_exact.simps) simp
      next
        case (Cons b cs)
        then show ?thesis
          using False r s' Inr "1.IH"(2) [OF False, of "Inr bs" s' bs b cs]
          by (subst read_exact.simps) (auto split: prod.splits sum.splits)
      qed
    qed
  qed
qed

lemma keeps_basic [keeps_rules]:
  "keeps (read_exact n)" "keeps (sreturn x)" "keeps (sfail e)" "keeps (write_all bs)"
  by (auto simp: keeps_def read_exact_replay sreturn_def sfail_def write_all_def split: option.splits)

lemma keepsD: "keeps m \<Longrightarrow> m s = (r, s') \<Longrightarrow> replay s = None \<Longrightarrow> replay s' = None"
  unfolding keeps_def by (drule spec [of _ s]) simp

lemma keepsI: "(\<And>s r s'. m s = (r, s') \<Longrightarrow> replay s = None \<Longrightarrow> replay s' = None) \<Longrightarrow> keeps m"
  unfolding keeps_def by (metis prod.collapse)

lemma clearsD: "clears m \<Longrightarrow> m s = (Inr x, s') \<Longrightarrow> replay s' = None"
  unfolding clears_def by blast

lemma keeps_sbind [keeps_rules]:
  assumes "keeps m" "\<And>x. keeps (k x)"
  shows "keeps (sbind m k)"
proof (rule keepsI)
  fix s r s'' assume run: "sbind m k s = (r, s'')" and none: "replay s = None"
  obtain q s' where m: "m s = (q, s')" by (cases "m s")
  with assms(1) none have s': "replay s' = None" by (auto dest: keepsD)
  show "replay s'' = None"
  proof (cases q)
    case (Inl e)
    with run m s' show ?thesis by simp
  next
    case (Inr x)
    with run m have "k x s' = (r, s'')" by simp
    with assms(2) s' show ?thesis by (auto dest: keepsD)
  qed
qed

lemma keeps_maps [keeps_rules]: "keeps m \<Longrightarrow> keeps (smap_err f m)" "keeps m \<Longrightarrow> keeps (signore m)"
  unfolding keeps_def smap_err_def signore_def by (simp_all add: split_beta)

lemma keeps_if [keeps_rules]: "keeps m \<Longrightarrow> keeps m' \<Longrightarrow> keeps (if b then m else m')"
  by simp

lemma keeps_option [keeps_rules]: "keeps m \<Longrightarrow> (\<And>x. keeps (k x)) \<Longrightarrow> keeps (case r of None \<Rightarrow> m | Some x \<Rightarrow> k x)"
  by (cases r) simp_all

lemma keeps_target [keeps_rules]: "keeps (target_result r)"
  by (cases r) (auto simp: target_result_def intro!: keeps_rules split: ProxyTargetError.splits)

lemma keeps_request: "keeps read_connect_request" "keeps (authenticate credentials)"
  unfolding read_connect_request_def read_domain_target_def read_port_def Let_def authenticate_def
    refuse_authentication_def refuse_command_def refuse_address_def refuse_def io_to_socks_def
    write_socks5_reply_def
  by (intro keeps_rules)+

lemma clears_negotiate: "clears negotiate_username_password"
  unfolding clears_def
proof (intro allI impI)
  fix s x s' assume n: "negotiate_username_password s = (Inr x, s')"
  let ?k = "\<lambda>header. if header ! 0 \<noteq> SOCKS_VERSION then sfail (SocksProtocol UnsupportedVersion)
       else if header ! 1 = 0 then
         refuse (write_all [SOCKS_VERSION, NO_ACCEPTABLE_METHODS]) UnsupportedAuthenticationMethod
       else sbind (io_to_socks (read_exact (unat (header ! 1)))) (\<lambda>methods.
         if USERNAME_PASSWORD_METHOD \<notin> set methods then
           refuse (write_all [SOCKS_VERSION, NO_ACCEPTABLE_METHODS]) UnsupportedAuthenticationMethod
         else io_to_socks (write_all [SOCKS_VERSION, USERNAME_PASSWORD_METHOD]))"
  from n obtain header s1 where "read_exact 2 s = (Inr header, s1)" "?k header s1 = (Inr x, s')"
    by (auto simp: negotiate_username_password_def sbind_Inr_iff io_to_socks_def)
  moreover from this(1) have "replay s1 = None" using read_exact_replay [of 2 s] by simp
  moreover have "keeps (?k header)" for header
    unfolding refuse_def io_to_socks_def by (intro keeps_rules)
  ultimately show "replay s' = None" by (blast dest: keepsD)
qed

lemma clears_socks5: "clears (accept_socks5_connect credentials)"
  unfolding clears_def
proof (intro allI impI)
  fix s x s' assume "accept_socks5_connect credentials s = (Inr x, s')"
  then obtain s1 s2 where "negotiate_username_password s = (Inr (), s1)"
    "authenticate credentials s1 = (Inr (), s2)" "read_connect_request s2 = (Inr x, s')"
    by (auto simp: accept_socks5_connect_def validate_credentials_def sbind_Inr_iff split: if_splits)
  then show "replay s' = None"
    using clears_negotiate keeps_request(1) keeps_request(2) [of credentials]
    by (meson clearsD keepsD)
qed

lemma clears_http: "clears (accept_http_connect_stream credentials)"
proof -
  have "replay (snd (accept_http_loop request credentials s)) = None" for request s
  proof (induction request credentials s rule: accept_http_loop.induct)
    case (1 request credentials s)
    obtain r s' where r: "read_stream 1 s = (r, s')" by (cases "read_stream 1 s")
    have s': "replay s' = None" using read_stream_replay [of 1 s] r by simp
    show ?case
    proof (cases r)
      case (Inl e)
      with r s' "1.IH"(1) [of "Inl e" s'] show ?thesis
        by (subst accept_http_loop.simps) (cases e; simp)
    next
      case (Inr bs)
      with r s' "1.IH"(2) [of "Inr bs" s' bs] show ?thesis
        by (subst accept_http_loop.simps)
           (auto split: list.splits sum.splits HttpConnectError.splits)
    qed
  qed
  then show ?thesis unfolding clears_def accept_http_connect_stream_def by (metis snd_conv)
qed

text \<open>Through the replay wrapper a uniform parser does what it does on the whole stream.\<close>

lemma through_replay_same:
  assumes "uniform m" "clears m" "items s = Data b # items s1" "snd (view s1) = snd (view s)" "replay s1 = None"
  shows "fst (through_replay b m s1) = fst (m s)"
    "snd (view (snd (through_replay b m s1))) = snd (view (snd (m s)))"
    "is_ok (fst (m s)) \<Longrightarrow> view (snd (through_replay b m s1)) = view (snd (m s))"
proof -
  obtain r s' where r: "m (ReplayIo_new b s1) = (r, s')" by (cases "m (ReplayIo_new b s1)")
  have "view (ReplayIo_new b s1) = view s"
    using assms(3,4,5) by (simp add: view_def items_def ReplayIo_new_def)
  from uniformD [OF assms(1) this] r have m: "fst (m s) = r" "view (snd (m s)) = view s'" by simp_all
  have out: "through_replay b m s1 = (r, s'\<lparr>replay := None\<rparr>)" using r by (simp add: through_replay_def)
  show "fst (through_replay b m s1) = fst (m s)" using out m by simp
  show "snd (view (snd (through_replay b m s1))) = snd (view (snd (m s)))"
    using out m(2) by (simp add: view_def)
  assume "is_ok (fst (m s))"
  then have "replay s' = None" using assms(2) r m(1) unfolding clears_def is_ok_iff by auto
  then have "s'\<lparr>replay := None\<rparr> = s'" by (cases s') simp
  then show "view (snd (through_replay b m s1)) = view (snd (m s))" using out m by simp
qed

lemma read_discriminator_data:
  assumes "items s = Data b # is"
  obtains s1 where "read_discriminator s = (Inr b, s1)" "items s1 = is" "snd (view s1) = snd (view s)"
    "replay s1 = None"
  using read_discriminator_items [of s] assms by (cases "read_discriminator s") (auto simp: view_def)

lemma through_replay_wrap:
  assumes "uniform m" "clears m" "items s = Data b # items s1" "snd (view s1) = snd (view s)" "replay s1 = None"
  shows "fst (sbind (smap_err f (through_replay b m)) (\<lambda>t. sreturn (g, t)) s1) = map_sum f (Pair g) (fst (m s)) \<and>
      snd (view (snd (sbind (smap_err f (through_replay b m)) (\<lambda>t. sreturn (g, t)) s1))) = snd (view (snd (m s))) \<and>
      (is_ok (fst (m s)) \<longrightarrow>
        items (snd (sbind (smap_err f (through_replay b m)) (\<lambda>t. sreturn (g, t)) s1)) = items (snd (m s)))"
proof (cases "fst (m s)")
  case (Inl e)
  with through_replay_same [OF assms] show ?thesis
    by (simp add: sbind_def smap_err_def split_beta)
next
  case (Inr x)
  with through_replay_same [OF assms] show ?thesis
    by (simp add: sbind_def smap_err_def split_beta sreturn_def view_def)
qed

lemma mixed_dispatch:
  assumes "items s = Data b # is"
  shows "b = SOCKS5_DISCRIMINATOR \<Longrightarrow>
      fst (accept_mixed_connect credentials s) = map_sum MixedSocks5 (Pair Socks5) (fst (accept_socks5_connect credentials s)) \<and>
      snd (view (snd (accept_mixed_connect credentials s))) = snd (view (snd (accept_socks5_connect credentials s))) \<and>
      (is_ok (fst (accept_socks5_connect credentials s)) \<longrightarrow>
        items (snd (accept_mixed_connect credentials s)) = items (snd (accept_socks5_connect credentials s)))"
    and "b = HTTP_CONNECT_DISCRIMINATOR \<Longrightarrow>
      fst (accept_mixed_connect credentials s) = map_sum MixedHttp (Pair Http) (fst (accept_http_connect_stream credentials s)) \<and>
      snd (view (snd (accept_mixed_connect credentials s))) = snd (view (snd (accept_http_connect_stream credentials s))) \<and>
      (is_ok (fst (accept_http_connect_stream credentials s)) \<longrightarrow>
        items (snd (accept_mixed_connect credentials s)) = items (snd (accept_http_connect_stream credentials s)))"
    and "b \<noteq> SOCKS5_DISCRIMINATOR \<Longrightarrow> b \<noteq> HTTP_CONNECT_DISCRIMINATOR \<Longrightarrow>
      fst (accept_mixed_connect credentials s) = Inl UnsupportedProtocol \<and>
      view (snd (accept_mixed_connect credentials s)) = (is, snd (view s))"
proof -
  obtain s1 where s1: "read_discriminator s = (Inr b, s1)" "items s1 = is" "snd (view s1) = snd (view s)"
    "replay s1 = None"
    using assms by (rule read_discriminator_data)
  have items: "items s = Data b # items s1" using assms s1(2) by simp
  show "b = SOCKS5_DISCRIMINATOR \<Longrightarrow>
      fst (accept_mixed_connect credentials s) = map_sum MixedSocks5 (Pair Socks5) (fst (accept_socks5_connect credentials s)) \<and>
      snd (view (snd (accept_mixed_connect credentials s))) = snd (view (snd (accept_socks5_connect credentials s))) \<and>
      (is_ok (fst (accept_socks5_connect credentials s)) \<longrightarrow>
        items (snd (accept_mixed_connect credentials s)) = items (snd (accept_socks5_connect credentials s)))"
    using s1(1) through_replay_wrap [OF uniform_accept_socks5 clears_socks5 items s1(3,4), of MixedSocks5 credentials Socks5]
    by (simp add: accept_mixed_connect_def)
  show "b = HTTP_CONNECT_DISCRIMINATOR \<Longrightarrow>
      fst (accept_mixed_connect credentials s) = map_sum MixedHttp (Pair Http) (fst (accept_http_connect_stream credentials s)) \<and>
      snd (view (snd (accept_mixed_connect credentials s))) = snd (view (snd (accept_http_connect_stream credentials s))) \<and>
      (is_ok (fst (accept_http_connect_stream credentials s)) \<longrightarrow>
        items (snd (accept_mixed_connect credentials s)) = items (snd (accept_http_connect_stream credentials s)))"
    using s1(1) through_replay_wrap [OF uniform_accept_http clears_http items s1(3,4), of MixedHttp credentials Http]
    by (simp add: accept_mixed_connect_def SOCKS5_DISCRIMINATOR_def HTTP_CONNECT_DISCRIMINATOR_def)
  show "b \<noteq> SOCKS5_DISCRIMINATOR \<Longrightarrow> b \<noteq> HTTP_CONNECT_DISCRIMINATOR \<Longrightarrow>
      fst (accept_mixed_connect credentials s) = Inl UnsupportedProtocol \<and>
      view (snd (accept_mixed_connect credentials s)) = (is, snd (view s))"
    using s1 by (simp add: accept_mixed_connect_def sfail_def view_def)
qed

text \<open>C26. Protocol detection is transparent: on the shared port a client that starts with the SOCKS
  version byte is served exactly as on the SOCKS5 port, and one that starts with the letter C exactly
  as on the HTTP port: the same result, the same bytes written, and on success the same unread input.
  Any other first byte is refused with nothing else read and nothing written.\<close>

theorem mixed_port_equivalent:
  assumes "items s = Data b # is"
  shows "fst (accept_mixed_connect credentials s) =
      (if b = 0x05 then map_sum MixedSocks5 (Pair Socks5) (fst (accept_socks5_connect credentials s))
       else if b = 0x43 then map_sum MixedHttp (Pair Http) (fst (accept_http_connect_stream credentials s))
       else Inl UnsupportedProtocol) \<and>
    tx (snd (accept_mixed_connect credentials s)) =
      (if b = 0x05 then tx (snd (accept_socks5_connect credentials s))
       else if b = 0x43 then tx (snd (accept_http_connect_stream credentials s)) else tx s) \<and>
    (is_ok (fst (accept_mixed_connect credentials s)) \<longrightarrow>
       items (snd (accept_mixed_connect credentials s)) =
         (if b = 0x05 then items (snd (accept_socks5_connect credentials s))
          else items (snd (accept_http_connect_stream credentials s)))) \<and>
    (b \<noteq> 0x05 \<and> b \<noteq> 0x43 \<longrightarrow> items (snd (accept_mixed_connect credentials s)) = is)"
proof -
  have ok: "is_ok (map_sum f g r) = is_ok r" for f :: "'x \<Rightarrow> 'y" and g :: "'a \<Rightarrow> 'b" and r
    by (cases r) simp_all
  consider "b = SOCKS5_DISCRIMINATOR" | "b = HTTP_CONNECT_DISCRIMINATOR"
    | "b \<noteq> SOCKS5_DISCRIMINATOR" "b \<noteq> HTTP_CONNECT_DISCRIMINATOR" by blast
  then show ?thesis
  proof cases
    case 1
    then show ?thesis using mixed_dispatch(1) [OF assms 1, of credentials]
      by (simp add: view_def SOCKS5_DISCRIMINATOR_def ok)
  next
    case 2
    then show ?thesis using mixed_dispatch(2) [OF assms 2, of credentials]
      by (simp add: view_def HTTP_CONNECT_DISCRIMINATOR_def ok)
  next
    case 3
    then show ?thesis using mixed_dispatch(3) [OF assms 3, of credentials]
      by (simp add: view_def SOCKS5_DISCRIMINATOR_def HTTP_CONNECT_DISCRIMINATOR_def)
  qed
qed

theorem mixed_port_equivalent_witness:
  "fst (accept_mixed_connect (material_authenticator socks_demo_material) (socks_demo_stream [0x16, 3, 1])) =
     Inl UnsupportedProtocol \<and>
   items (snd (accept_mixed_connect (material_authenticator socks_demo_material) (socks_demo_stream [0x16, 3, 1]))) =
     [Data 3, Data 1]"
proof -
  have "items (socks_demo_stream [0x16, 3, 1]) = Data 0x16 # [Data 3, Data 1]"
    by (simp add: socks_demo_items)
  from mixed_port_equivalent [OF this, of "material_authenticator socks_demo_material"]
  show ?thesis by simp
qed

subsection \<open>Sessions\<close>

text \<open>The client has proved itself on the wire for this target.\<close>

definition authorised :: "ProxyAuthenticator \<Rightarrow> Stream \<Rightarrow> ProxyProtocol \<Rightarrow> ProxyConnectTarget \<Rightarrow> bool" where
  "authorised credentials s wire t =
     (case wire of
        Http \<Rightarrow> \<exists>hdr rest. items s = map Data hdr @ rest \<and> first_header hdr \<and>
          authenticated_header hdr credentials \<and> parse_http_connect_request hdr credentials = Inr t
      | Socks5 \<Rightarrow> \<exists>methods u p rest. conversation_ok credentials methods u p t \<and>
          items s = map Data (conversation methods u p t) @ rest
      | Mixed \<Rightarrow> False)"

lemma socks5_authorised:
  "fst (accept_socks5_connect credentials s) = Inr t \<Longrightarrow> authorised credentials s Socks5 t"
proof -
  assume "fst (accept_socks5_connect credentials s) = Inr t"
  then obtain s' where "accept_socks5_connect credentials s = (Inr t, s')"
    by (cases "accept_socks5_connect credentials s") auto
  then obtain methods u p where "conversation_ok credentials methods u p t"
    "items s = map Data (conversation methods u p t) @ items s'"
    by (rule accept_sound)
  then show "authorised credentials s Socks5 t" by (auto simp: authorised_def)
qed

lemma http_authorised:
  "fst (accept_http_connect_stream credentials s) = Inr t \<Longrightarrow> authorised credentials s Http t"
  using http_accept_sound [of credentials s t] parse_Inr(3) [of _ credentials t]
  by (auto simp: authorised_def)

lemma map_sum_Pair_Inr: "map_sum f (Pair g) r = Inr (wire, t) \<longleftrightarrow> r = Inr t \<and> g = wire"
  by (cases r) auto

lemma mixed_authorised:
  assumes "fst (accept_mixed_connect credentials s) = Inr (wire, t)"
  shows "authorised credentials s wire t"
proof -
  have "fst (read_discriminator s) \<noteq> Inl e" for e
    using assms by (cases "read_discriminator s") (auto simp: accept_mixed_connect_def)
  then obtain b "is" where items: "items s = Data b # is"
    using read_discriminator_items [of s] by (auto split: list.splits item.splits)
  show ?thesis
  proof (cases "b = SOCKS5_DISCRIMINATOR")
    case True
    with mixed_dispatch(1) [OF items True, of credentials] assms
    have "fst (accept_socks5_connect credentials s) = Inr t \<and> Socks5 = wire"
      by (metis map_sum_Pair_Inr)
    then show ?thesis by (auto intro: socks5_authorised)
  next
    case not_socks: False
    show ?thesis
    proof (cases "b = HTTP_CONNECT_DISCRIMINATOR")
      case True
      with mixed_dispatch(2) [OF items True, of credentials] assms
      have "fst (accept_http_connect_stream credentials s) = Inr t \<and> Http = wire"
        by (metis map_sum_Pair_Inr)
      then show ?thesis by (auto intro: http_authorised)
    next
      case False
      with mixed_dispatch(3) [OF items not_socks, of credentials] assms show ?thesis by simp
    qed
  qed
qed

lemma accept_target_authorised:
  assumes "accept_target protocol credentials s = (Inr (wire, t), s')"
  shows "authorised credentials s wire t"
proof (cases protocol)
  case Mixed
  then have "fst (accept_mixed_connect credentials s) = Inr (wire, t)"
    using assms
    by (auto simp: accept_target_def sbind_Inr_iff split: prod.splits sum.splits MixedConnectError.splits)
  then show ?thesis by (rule mixed_authorised)
next
  case Socks5
  then show ?thesis
    using assms socks5_authorised [of credentials s t]
    by (auto simp: accept_target_def split: prod.splits sum.splits)
next
  case Http
  then show ?thesis
    using assms http_authorised [of credentials s t]
    by (auto simp: accept_target_def sbind_Inr_iff split: prod.splits sum.splits)
qed

text \<open>C23. No traffic for strangers: for every listener, every client behaviour and every outbound
  connector, setting up a session touches the outside world only by one connection attempt, and only
  to a target that the client requested with credentials the authenticator accepted. A session is
  established only over an upstream this attempt returned; in every other case the client's
  connection is shut down for writing.\<close>

theorem session_connects_authorised:
  assumes "prepare_proxy_session protocol credentials connector s w = (r, s', w')"
  shows "(w' = w \<and> \<not> is_ok r \<or>
      (\<exists>wire t. authorised credentials s wire t \<and> w' = snd (connector t w) \<and>
         (\<forall>up. r = Inr up \<longrightarrow> fst (connector t w) = Inr up))) \<and>
    (\<not> is_ok r \<longrightarrow> write_shut s')"
proof (cases "accept_target protocol credentials s")
  case (Pair a s1)
  show ?thesis
  proof (cases a)
    case (Inl e)
    with assms Pair show ?thesis
      by (auto simp: prepare_proxy_session_def prepare_proxy_session_inner_def shutdown_write_def)
  next
    case (Inr wt)
    obtain wire t where wt: "wt = (wire, t)" by (cases wt)
    have auth: "authorised credentials s wire t"
      using Pair Inr wt by (auto intro: accept_target_authorised)
    moreover have "w' = snd (connector t w) \<and> (\<forall>up. r = Inr up \<longrightarrow> fst (connector t w) = Inr up) \<and>
        (\<not> is_ok r \<longrightarrow> write_shut s')"
      using assms Pair Inr wt
      by (auto simp: prepare_proxy_session_def prepare_proxy_session_inner_def shutdown_write_def
               split: prod.splits sum.splits)
    ultimately show ?thesis by blast
  qed
qed

text \<open>The world of the witness counts the attempts.\<close>

definition counting_connector :: "nat connector" where
  "counting_connector t n = (Inr \<lparr>upstream_id = n, local_addr = None\<rparr>, Suc n)"

theorem session_connects_authorised_witness:
  "\<not> is_ok (fst (prepare_proxy_session Mixed (material_authenticator socks_demo_material)
     counting_connector (socks_demo_stream [0x16, 3]) 0)) \<and>
   write_shut (fst (snd (prepare_proxy_session Mixed (material_authenticator socks_demo_material)
     counting_connector (socks_demo_stream [0x16, 3]) 0)))"
proof -
  let ?auth = "material_authenticator socks_demo_material" and ?s = "socks_demo_stream [0x16, 3]"
  have "fst (accept_mixed_connect ?auth ?s) = Inl UnsupportedProtocol"
  proof -
    have "items ?s = Data 0x16 # [Data 3]" by (simp add: socks_demo_items)
    from mixed_dispatch(3) [OF this, of ?auth] show ?thesis
      by (simp add: SOCKS5_DISCRIMINATOR_def HTTP_CONNECT_DISCRIMINATOR_def)
  qed
  then have "\<not> is_ok (fst (prepare_proxy_session Mixed ?auth counting_connector ?s 0))"
    by (auto simp: prepare_proxy_session_def prepare_proxy_session_inner_def accept_target_def
             split: prod.splits sum.splits)
  moreover obtain r s' w' where run:
    "prepare_proxy_session Mixed ?auth counting_connector ?s 0 = (r, s', w')"
    by (cases "prepare_proxy_session Mixed ?auth counting_connector ?s 0") auto
  ultimately show ?thesis using session_connects_authorised [OF run] by simp
qed

end
