(* ===== verification/Configuration.thy ===== *)
theory Configuration
  imports Rust_Addr Mesh_Endpoint
begin

text \<open>
  The desired configuration (\<open>crates/configuration/src/lib.rs\<close>): the accepted mesh range, the
  readiness probe target and the control endpoint, with the deployment's own values
  (\<open>config/deployment\<close>). The lemmas connect the validated values to the components that use them.
\<close>

definition MIN_MESH_ACCEPTED_PREFIX :: u8 where "MIN_MESH_ACCEPTED_PREFIX = 8"
definition READINESS_PROBE_PORT :: u16 where "READINESS_PROBE_PORT = 443"
definition CONTROL_PORT :: u16 where "CONTROL_PORT = 443"
definition CONTROL_DEVICE_PATH :: string where "CONTROL_DEVICE_PATH = ''/v1/device/connect''"

definition DEPLOYMENT_MESH_ACCEPTED_CIDR_RAW :: string where
  "DEPLOYMENT_MESH_ACCEPTED_CIDR_RAW = ''100.96.0.0/12'' @ [CHR 0x0A]"
definition DEPLOYMENT_READINESS_PROBE_HOST_RAW :: string where
  "DEPLOYMENT_READINESS_PROBE_HOST_RAW = ''example.com'' @ [CHR 0x0A]"
definition DEPLOYMENT_CONTROL_HOST_RAW :: string where
  "DEPLOYMENT_CONTROL_HOST_RAW = ''mish.alegria.by'' @ [CHR 0x0A]"

datatype DesiredConfigurationError =
    InvalidMeshAcceptedCidr
  | UnsafeMeshAcceptedCidr
  | NonCanonicalMeshAcceptedCidr
  | InvalidReadinessProbeTarget
  | InvalidControlTarget

subsection \<open>The mesh range\<close>

record MeshAcceptedCidr =
  accepted_network :: Ipv4Addr
  accepted_prefix :: u8

definition MeshAcceptedCidr_parse :: "string \<Rightarrow> DesiredConfigurationError + MeshAcceptedCidr" where
  "MeshAcceptedCidr_parse raw =
     (if raw = [] \<or> trim raw \<noteq> raw then Inl InvalidMeshAcceptedCidr
      else rbind (ok_or (split_once (CHR ''/'') raw) InvalidMeshAcceptedCidr) (\<lambda>(network, prefix).
        if CHR ''/'' \<in> set prefix then Inl InvalidMeshAcceptedCidr
        else rbind (ok_or (parse_ipv4 network) InvalidMeshAcceptedCidr) (\<lambda>network.
             rbind (ok_or (parse_u8 prefix) InvalidMeshAcceptedCidr) (\<lambda>prefix.
               if \<not> (MIN_MESH_ACCEPTED_PREFIX \<le> prefix \<and> prefix \<le> 32) \<or> ipv4_is_unspecified network \<or>
                  ipv4_is_multicast network \<or> network = ipv4_BROADCAST
               then Inl UnsafeMeshAcceptedCidr
               else
                 (let mask = push_bit (32 - unat prefix) (- 1)
                  in if network AND mask \<noteq> network then Inl NonCanonicalMeshAcceptedCidr
                     else Inr \<lparr>accepted_network = network, accepted_prefix = prefix\<rparr>)))))"

definition MeshAcceptedCidr_deployment :: "DesiredConfigurationError + MeshAcceptedCidr" where
  "MeshAcceptedCidr_deployment = MeshAcceptedCidr_parse (trim DEPLOYMENT_MESH_ACCEPTED_CIDR_RAW)"

subsection \<open>Host names\<close>

definition host_byte :: "u8 \<Rightarrow> bool" where
  "host_byte b \<longleftrightarrow> (0x61 \<le> b \<and> b \<le> 0x7A) \<or> (0x30 \<le> b \<and> b \<le> 0x39) \<or> b = 0x2D"

definition host_label :: "string \<Rightarrow> bool" where
  "host_label label \<longleftrightarrow>
     \<not> (label = [] \<or> 63 < length label \<or> hd label = CHR ''-'' \<or> last label = CHR ''-'' \<or>
        \<not> list_all host_byte (as_bytes label))"

text \<open>The checks both targets share: the guard and the loop over the labels.\<close>

definition host_ok :: "string \<Rightarrow> u16 \<Rightarrow> bool" where
  "host_ok raw port \<longleftrightarrow>
     \<not> (raw = [] \<or> trim raw \<noteq> raw \<or> 253 < length raw \<or> port = 0 \<or> parse_ip raw \<noteq> None \<or>
        CHR ''.'' \<notin> set raw) \<and>
     list_all host_label (split_when (\<lambda>c. c = CHR ''.'') raw)"

record ReadinessProbeTarget =
  probe_hostname :: string
  probe_port :: u16

definition ReadinessProbeTarget_parse ::
    "string \<Rightarrow> u16 \<Rightarrow> DesiredConfigurationError + ReadinessProbeTarget" where
  "ReadinessProbeTarget_parse raw port =
     (if host_ok raw port then Inr \<lparr>probe_hostname = raw, probe_port = port\<rparr>
      else Inl InvalidReadinessProbeTarget)"

definition ReadinessProbeTarget_deployment :: "DesiredConfigurationError + ReadinessProbeTarget" where
  "ReadinessProbeTarget_deployment =
     ReadinessProbeTarget_parse (trim DEPLOYMENT_READINESS_PROBE_HOST_RAW) READINESS_PROBE_PORT"

record ControlEndpoint =
  control_hostname :: string
  control_port :: u16
  control_path :: string

definition ControlEndpoint_parse ::
    "string \<Rightarrow> u16 \<Rightarrow> string \<Rightarrow> DesiredConfigurationError + ControlEndpoint" where
  "ControlEndpoint_parse hostname port path =
     (if path = CONTROL_DEVICE_PATH \<and> host_ok hostname port
      then Inr \<lparr>control_hostname = hostname, control_port = port, control_path = path\<rparr>
      else Inl InvalidControlTarget)"

definition ControlEndpoint_deployment :: "DesiredConfigurationError + ControlEndpoint" where
  "ControlEndpoint_deployment =
     ControlEndpoint_parse (trim DEPLOYMENT_CONTROL_HOST_RAW) CONTROL_PORT CONTROL_DEVICE_PATH"

end
