(* ===== verification/Probe_Wire.thy ===== *)
theory Probe_Wire
  imports Configuration Proxy_Session Readiness
begin

text \<open>
  The readiness probe on the wire (\<open>crates/runtime/src/readiness_network.rs\<close>): the CONNECT request it
  sends to the device's own proxy and the way it reads the answer. The socket, the deadline and the
  TLS handshake are effects: the stream is the script of \<open>Rust_Io\<close> and the handshake a parameter. The
  lemmas connect the probe with the proxy's parser and with the responses the proxy writes.
\<close>

definition MAX_CONNECT_HEADER_BYTES :: usize where "MAX_CONNECT_HEADER_BYTES = 8192"

definition probe_authority :: "ReadinessProbeTarget \<Rightarrow> string" where
  "probe_authority t = probe_hostname t @ '':'' @ show_nat (unat (probe_port t))"

definition probe_request :: "ReadinessProbeTarget \<Rightarrow> ProxyCredentialMaterial \<Rightarrow> string" where
  "probe_request t m =
     ''CONNECT '' @ probe_authority t @ '' HTTP/1.1'' @ CRLF @
     ''Host: '' @ probe_authority t @ CRLF @
     ''Proxy-Authorization: '' @ expected_basic_authorization m @ CRLF @
     ''Proxy-Connection: keep-alive'' @ CRLF @ CRLF"

text \<open>The read loop: chunks of at most 512 bytes, a bounded total, one header.\<close>

function read_connect_header :: "u8 list \<Rightarrow> Stream \<Rightarrow> (ProbeOutcome + u8 list) \<times> Stream" where
  "read_connect_header resp s =
     (if MAX_CONNECT_HEADER_BYTES \<le> length resp then (Inl TransportFailed, s)
      else
        (let chunk_len = min (MAX_CONNECT_HEADER_BYTES - length resp) 512
         in case read_stream chunk_len s of
              (Inl Elapsed, s') \<Rightarrow> (Inl Timeout, s')
            | (Inl e, s') \<Rightarrow> (Inl TransportFailed, s')
            | (Inr [], s') \<Rightarrow> (Inl TransportFailed, s')
            | (Inr (b # bs), s') \<Rightarrow>
                (let resp = resp @ b # bs
                 in case find_sub HEADER_END resp of
                      Some e \<Rightarrow> (Inr (take (e + 4) resp), s')
                    | None \<Rightarrow> read_connect_header resp s')))"
  by pat_completeness auto
termination
proof (relation "measure (\<lambda>(resp, s). stream_size s)", goal_cases)
  case 1
  then show ?case by simp
next
  case (2 resp s chunk_len r s' bs b cs resp')
  then have "0 < chunk_len" by (simp add: MAX_CONNECT_HEADER_BYTES_def)
  with 2 show ?case by (auto dest: read_stream_progress(2) [OF sym])
qed

declare read_connect_header.simps [simp del]

definition classify_connect_header :: "u8 list \<Rightarrow> ProbeOutcome" where
  "classify_connect_header header =
     (case find_sub [0x0D, 0x0A] header of
        None \<Rightarrow> TransportFailed
      | Some line_end \<Rightarrow>
          (case from_utf8 (take line_end header) of
             None \<Rightarrow> TransportFailed
           | Some status_line \<Rightarrow>
               (case split_whitespace status_line of
                  protocol # raw # rest \<Rightarrow>
                    (case parse_u16 raw of
                       None \<Rightarrow> TransportFailed
                     | Some status \<Rightarrow>
                         if protocol \<notin> {''HTTP/1.0'', ''HTTP/1.1''} then TransportFailed
                         else if status = 407 then AuthenticationFailed
                         else if 200 \<le> status \<and> status \<le> 299 then Succeeded
                         else TransportFailed)
                | _ \<Rightarrow> TransportFailed)))"

text \<open>The TLS client (\<open>tls_client.rs\<close>): the rustls name check and the handshake under a timeout are
  parameters; \<open>None\<close> of the handshake is an elapsed timeout.\<close>

datatype ProductTlsError = TlsClientConfiguration | InvalidServerName | DeadlineExceeded | HandshakeFailed

record 'n ProductTlsClient =
  server_name :: "string \<Rightarrow> 'n option"
  handshake :: "Duration \<Rightarrow> 'n \<Rightarrow> Stream \<Rightarrow> (IoError + Stream) option"

definition tls_connect :: "'n ProductTlsClient \<Rightarrow> Stream \<Rightarrow> string \<Rightarrow> Duration \<Rightarrow> ProductTlsError + Stream" where
  "tls_connect tls stream hostname remaining =
     (if remaining = 0 then Inl DeadlineExceeded
      else rbind (ok_or (server_name tls hostname) InvalidServerName) (\<lambda>name.
           rbind (ok_or (handshake tls remaining name stream) DeadlineExceeded) (\<lambda>done.
             map_err (\<lambda>e. HandshakeFailed) done)))"

definition io_outcome :: "IoError \<Rightarrow> ProbeOutcome" where
  "io_outcome e = (if e = Elapsed then Timeout else TransportFailed)"

definition tls_outcome :: "ProductTlsError + Stream \<Rightarrow> ProbeOutcome" where
  "tls_outcome result =
     (case result of
        Inr s \<Rightarrow> ProbeOutcome.Succeeded
      | Inl DeadlineExceeded \<Rightarrow> Timeout
      | Inl e \<Rightarrow> TlsFailed)"

text \<open>One probe. \<open>connected\<close> is the result of connecting to the loopback port under the deadline and
  \<open>remaining\<close> what is left of the deadline after the response; flushing a TCP stream does nothing.\<close>

definition execute_probe ::
    "IoError + Stream \<Rightarrow> Duration \<Rightarrow> ReadinessProbeTarget \<Rightarrow> ProxyCredentialMaterial \<Rightarrow>
     'n ProductTlsClient \<Rightarrow> ProbeOutcome" where
  "execute_probe connected remaining t credentials tls =
     (case connected of
        Inl e \<Rightarrow> io_outcome e
      | Inr stream \<Rightarrow>
          (case write_all (as_bytes (probe_request t credentials)) stream of
             (Inl e, stream) \<Rightarrow> io_outcome e
           | (Inr u, stream) \<Rightarrow>
               (case read_connect_header [] stream of
                  (Inl outcome, stream) \<Rightarrow> outcome
                | (Inr header, stream) \<Rightarrow>
                    (let connect = classify_connect_header header
                     in if connect \<noteq> ProbeOutcome.Succeeded then connect
                        else if remaining = 0 then Timeout
                        else tls_outcome (tls_connect tls stream (probe_hostname t) remaining)))))"

datatype ReadinessNetworkError = InvalidProbeTarget | InvalidCredentials | ExecutorUnavailable | TlsConfiguration

definition execute_readiness_probe_async ::
    "IoError + Stream \<Rightarrow> Duration \<Rightarrow> string \<Rightarrow> string \<Rightarrow> ProductTlsError + 'n ProductTlsClient \<Rightarrow>
     ReadinessNetworkError + ProbeOutcome" where
  "execute_readiness_probe_async connected remaining username password tls_client =
     rbind (map_err (\<lambda>e. InvalidProbeTarget) ReadinessProbeTarget_deployment) (\<lambda>t.
     rbind (map_err (\<lambda>e. InvalidCredentials) (ProxyCredentialMaterial_new username password)) (\<lambda>credentials.
     rbind (map_err (\<lambda>e. TlsConfiguration) tls_client) (\<lambda>tls.
       Inr (execute_probe connected remaining t credentials tls))))"

subsection \<open>The probed host\<close>

lemma split_when_cover: "c \<in> set s \<Longrightarrow> p c \<or> (\<exists>w \<in> set (split_when p s). c \<in> set w)"
proof (induction s)
  case (Cons d s)
  then show ?case by (auto split: list.splits)
qed simp

definition host_char :: "char \<Rightarrow> bool" where
  "host_char c \<longleftrightarrow> host_byte (byte_of c) \<or> c = CHR ''.''"

lemma host_ok_chars: "host_ok raw port \<Longrightarrow> list_all host_char raw"
  using split_when_cover [of _ raw "\<lambda>c. c = CHR ''.''"]
  by (fastforce simp: host_ok_def host_label_def host_char_def list_all_iff as_bytes_def)

lemma host_char_visible: "host_char c \<Longrightarrow> visible c"
  by (auto simp: host_char_def host_byte_def visible_def byte_of_def word_less_nat_alt word_le_nat_alt)

lemma host_char_not:
  "host_char c \<Longrightarrow> c \<noteq> CHR '':''" "host_char c \<Longrightarrow> c \<noteq> CHR ''[''" "host_char c \<Longrightarrow> c \<notin> set ''/@#?''"
  by (auto simp: host_char_def host_byte_def byte_of_def)

lemma visible_not_control: "visible c \<Longrightarrow> \<not> is_ascii_control (byte_of c) \<and> byte_of c \<noteq> 0"
  by (auto simp: visible_def is_ascii_control_def word_less_nat_alt)

lemma visible_ascii: "visible c \<Longrightarrow> byte_of c < 0x80"
  by (auto simp: visible_def word_less_nat_alt)

lemma visible_not_white: "visible c \<Longrightarrow> \<not> is_ascii_whitespace (byte_of c)"
  by (auto simp: visible_def is_ascii_whitespace_def)

lemma visible_not_CR: "visible c \<Longrightarrow> c \<noteq> CHR 0x0D"
  by (auto simp: visible_def byte_of_def)

lemma visible_no_control:
  "list_all visible s \<Longrightarrow> \<not> list_ex is_ascii_control (as_bytes s)"
  "list_all visible s \<Longrightarrow> \<not> list_ex (\<lambda>b. b = 0 \<or> is_ascii_control b) (as_bytes s)"
  by (auto simp: list_ex_iff list_all_iff as_bytes_def dest: visible_not_control)

lemma visible_colon [simp]: "visible (CHR '':'')"
  by (simp add: visible_def byte_of_def)

lemma parse_ip_None: "parse_ip s = None \<Longrightarrow> parse_ipv4 s = None"
  by (auto simp: parse_ip_def parse_ipv4_def parse_all_def read_ip_addr_def split: option.splits list.splits)

lemma probe_authority_parses:
  assumes "host_ok raw port"
  shows "parse_connect_authority (raw @ '':'' @ show_nat (unat port)) =
    Inr \<lparr>target_host = Domain raw, target_port = port\<rparr>"
proof -
  note chars = host_ok_chars [OF assms]
  obtain c r where raw: "raw = c # r" using assms by (cases raw) (auto simp: host_ok_def)
  have c: "host_char c" using chars raw by simp
  have vis: "list_all visible raw" using chars by (auto simp: list_all_iff intro: host_char_visible)
  have control: "\<not> list_ex is_ascii_control (as_bytes (raw @ '':'' @ show_nat (unat port)))"
    using vis show_nat_visible [of "unat port"] by (intro visible_no_control) simp
  have strip: "strip_prefix ''['' (raw @ '':'' @ show_nat (unat port)) = None"
    using host_char_not(2) [OF c] by (simp add: strip_prefix_def raw)
  have split: "rsplit_once (CHR '':'') (raw @ '':'' @ show_nat (unat port)) = Some (raw, show_nat (unat port))"
    using digit_not_colon by (auto simp: rsplit_once_Some_iff)
  have clean: "CHR '':'' \<notin> set raw" "\<not> list_ex (\<lambda>c. c \<in> set ''/@#?'') raw"
    using chars host_char_not by (auto simp: list_all_iff list_ex_iff)
  have port: "port \<noteq> 0" "parse_port (show_nat (unat port)) = Inr port"
    using assms by (auto simp: host_ok_def parse_port_def parse_show_u16)
  have ip: "parse_ip raw = None" "parse_ipv4 raw = None"
    using assms parse_ip_None [of raw] by (auto simp: host_ok_def)
  have domain: "target_domain raw port = Inr \<lparr>target_host = Domain raw, target_port = port\<rparr>"
  proof -
    have "\<not> list_ex (\<lambda>b. b = 0 \<or> is_ascii_control b) (as_bytes raw)"
      using vis by (rule visible_no_control)
    moreover have "length raw \<le> 253" "raw \<noteq> []" using assms by (auto simp: host_ok_def)
    ultimately show ?thesis
      using port by (simp add: target_domain_def host_domain_def MAX_DOMAIN_BYTES_def ProxyConnectTarget_new_def)
  qed
  show ?thesis
    using control strip split clean port ip domain raw
    by (simp add: parse_connect_authority_def)
qed

subsection \<open>Headers made of lines\<close>

definition line_ok :: "'a \<Rightarrow> 'a list \<Rightarrow> bool" where
  "line_ok r l \<longleftrightarrow> l \<noteq> [] \<and> r \<notin> set l"

lemma find_header_end:
  assumes "lines \<noteq> []" "list_all (line_ok r) lines" "n \<noteq> r"
  shows "find_sub [r, n, r, n] (concat (map (\<lambda>l. l @ [r, n]) lines) @ r # n # rest) =
    Some (length (concat (map (\<lambda>l. l @ [r, n]) lines)) - 2)"
  using assms(1,2)
proof (induction lines)
  case (Cons l lines)
  show ?case
  proof (cases lines)
    case Nil
    have "find_sub [r, n, r, n] (l @ [r, n, r, n] @ rest) = Some (length l)"
      using Cons.prems(2) find_sub_here [of "[r, n, r, n]" rest]
      by (subst find_sub_skip_word) (simp_all add: line_ok_def)
    with Nil show ?thesis by simp
  next
    case (Cons l2 ls)
    then obtain c k where l2: "l2 = c # k" "c \<noteq> r"
      using Cons.prems(2) by (cases l2) (auto simp: line_ok_def)
    let ?t = "concat (map (\<lambda>l. l @ [r, n]) lines) @ r # n # rest"
    have long: "2 \<le> length (concat (map (\<lambda>l. l @ [r, n]) lines))" by (simp add: Cons)
    have "find_sub [r, n, r, n] (r # n # ?t) = map_option (\<lambda>i. 2 + i) (find_sub [r, n, r, n] ?t)"
      using l2 assms(3) Cons by (cases "find_sub [r, n, r, n] ?t") auto
    moreover have "find_sub [r, n, r, n] ?t = Some (length (concat (map (\<lambda>l. l @ [r, n]) lines)) - 2)"
      using Cons.IH Cons.prems Cons by simp
    ultimately show ?thesis
      using Cons.prems(2) long find_sub_skip_word [of "[r, n, r, n]" l "r # n # ?t"]
      by (simp add: line_ok_def)
  qed
qed simp

lemma split_str_lines:
  "p \<noteq> [] \<Longrightarrow> \<forall>l \<in> set (lines @ [w]). hd p \<notin> set l \<Longrightarrow>
     split_str p (concat (map (\<lambda>l. l @ p) lines) @ w) = lines @ [w]"
  by (induction lines) (simp_all add: split_str_piece split_str_last)

text \<open>The bytes of a header with the given lines, which is also how the proxy forms its responses.\<close>

definition line_bytes :: "string list \<Rightarrow> u8 list" where
  "line_bytes lines = concat (map (\<lambda>l. l @ [0x0D, 0x0A]) (map as_bytes lines))"

lemma response_bytes: "response lines = line_bytes lines @ [0x0D, 0x0A]"
proof -
  have CRLF: "as_bytes CRLF = [0x0D, 0x0A]" by code_simp
  have "as_bytes (concat (map (\<lambda>l. l @ CRLF) lines)) = line_bytes lines"
    by (induction lines) (simp_all add: CRLF line_bytes_def)
  then show ?thesis by (simp add: response_def CRLF)
qed

definition header_line :: "string \<Rightarrow> bool" where
  "header_line l \<longleftrightarrow> l \<noteq> [] \<and> list_all (\<lambda>c. visible c \<or> c = CHR '' '') l"

lemma byte_of_space: "byte_of (CHR '' '') = 0x20"
  by (simp add: byte_of_def)

lemma line_char_byte:
  assumes "visible c \<or> c = CHR '' ''"
  shows "byte_of c \<noteq> 0x0D" "byte_of c < 0x80"
proof -
  have range: "0x1F < byte_of c \<and> byte_of c < 0x7F"
    using assms by (auto simp: visible_def byte_of_space elim: order.strict_trans [rotated])
  then show "byte_of c \<noteq> 0x0D" by auto
  show "byte_of c < 0x80" by (rule order.strict_trans [OF conjunct2 [OF range]]) simp
qed

lemma header_line_ok:
  assumes "header_line l"
  shows "line_ok 0x0D (as_bytes l)"
proof -
  have "0x0D \<notin> byte_of ` set l"
  proof
    assume "0x0D \<in> byte_of ` set l"
    then obtain c where c: "c \<in> set l" "byte_of c = 0x0D" by (metis imageE)
    with assms have "visible c \<or> c = CHR '' ''" by (simp add: header_line_def list_all_iff)
    from line_char_byte(1) [OF this] c(2) show False by contradiction
  qed
  with assms show ?thesis by (simp add: header_line_def line_ok_def as_bytes_def)
qed

lemma header_line_CR: "header_line l \<Longrightarrow> hd CRLF \<notin> set l"
  by (auto simp: header_line_def CRLF_def list_all_iff dest: visible_not_CR)

lemma response_end:
  assumes "lines \<noteq> []" "list_all header_line lines"
  shows "find_sub HEADER_END (response lines @ rest) = Some (length (response lines) - 4)"
proof -
  have "list_all (line_ok 0x0D) (map as_bytes lines)"
    using assms(2) by (auto simp: list_all_iff intro: header_line_ok)
  then show ?thesis
    using find_header_end [of "map as_bytes lines" "0x0D" "0x0A" rest] assms(1)
    by (simp add: HEADER_END_def response_bytes line_bytes_def)
qed

lemma response_first_header:
  assumes "lines \<noteq> []" "list_all header_line lines"
  shows "first_header (response lines)"
proof -
  have "find_sub HEADER_END (response lines) = Some (length (response lines) - length HEADER_END)"
    using response_end [OF assms, of "[]"] by (simp add: HEADER_END_def)
  moreover have "ends_with (response lines) HEADER_END"
  proof -
    obtain ls l where "lines = ls @ [l]" using assms(1) by (metis append_butlast_last_id)
    then show ?thesis by (simp add: response_bytes line_bytes_def ends_with_def HEADER_END_def)
  qed
  ultimately show ?thesis by (simp add: first_header_def no_earlier_end)
qed

lemma response_split:
  assumes "list_all header_line (lines @ [w])" "t = concat (map (\<lambda>l. l @ CRLF) (lines @ [w])) @ CRLF"
  shows "split_str CRLF (take (length t - 4) t) = lines @ [w]"
proof -
  have "length CRLF = 2" "CRLF \<noteq> []" by (simp_all add: CRLF_def)
  then have "take (length t - 4) t = concat (map (\<lambda>l. l @ CRLF) lines) @ w"
    by (simp add: assms(2))
  then show ?thesis
    using split_str_lines [of CRLF lines w] assms(1) header_line_CR \<open>CRLF \<noteq> []\<close> by (simp add: list_all_iff)
qed

lemma header_lines_str:
  assumes "list_all header_line lines"
  shows "is_str (concat (map (\<lambda>l. l @ CRLF) lines) @ CRLF)"
proof -
  have "byte_of c < 0x80" if "c \<in> set CRLF \<or> visible c \<or> c = CHR '' ''" for c
  proof (cases "c \<in> set CRLF")
    case True
    have "list_all (\<lambda>c. byte_of c < 0x80) CRLF" by code_simp
    with True show ?thesis by (simp add: list_all_iff)
  next
    case False
    with that show ?thesis by (intro line_char_byte) simp
  qed
  moreover have "\<forall>c \<in> set (concat (map (\<lambda>l. l @ CRLF) lines) @ CRLF). c \<in> set CRLF \<or> visible c \<or> c = CHR '' ''"
    using assms by (induction lines) (auto simp: header_line_def list_all_iff)
  ultimately have "\<forall>c \<in> set (concat (map (\<lambda>l. l @ CRLF) lines) @ CRLF). byte_of c < 0x80" by blast
  then show ?thesis
    unfolding is_str_def by (intro ascii_valid_utf8) (simp only: as_bytes_def set_map ball_simps)
qed

subsection \<open>The request\<close>

lemma base64_visible: "list_all visible (encode_base64 bs)"
proof -
  have digit: "visible (BASE64 ! n)" if "n < 64" for n
  proof -
    have "list_all visible BASE64" by code_simp
    moreover have "length BASE64 = 64" by (simp add: BASE64_def)
    ultimately show ?thesis using that by (simp add: list_all_length)
  qed
  have pad: "visible (CHR ''='')" by (simp add: visible_def byte_of_def)
  show ?thesis
    by (induction bs rule: encode_base64.induct)
       (simp_all only: encode_base64.simps base64_chunks list.pred_inject list_all_append digit sextets pad simp_thms)
qed

lemma base64_length: "3 * length (encode_base64 bs) \<le> 4 * (length bs + 2)"
  by (induction bs rule: encode_base64.induct) (simp_all add: base64_chunks)

text \<open>The value starts and ends with a visible character.\<close>

lemma expected_basic_shape:
  "expected_basic_authorization m = CHR ''B'' # ''asic '' @ encode_base64 (as_bytes (proxy_username m) @ [0x3A] @ as_bytes (proxy_password m))"
  by (simp add: expected_basic_authorization_def BASIC_PREFIX_def)

lemma base64_nonempty: "bs \<noteq> [] \<Longrightarrow> encode_base64 bs \<noteq> []"
  by (induction bs rule: encode_base64.induct) (simp_all add: base64_chunks)

lemma expected_basic_trim:
  "trim (CHR '' '' # expected_basic_authorization m) = expected_basic_authorization m"
proof -
  let ?b = "encode_base64 (as_bytes (proxy_username m) @ [0x3A] @ as_bytes (proxy_password m))"
  have "?b \<noteq> []" by (rule base64_nonempty) simp
  then obtain l d where b: "?b = l @ [d]" by (metis append_butlast_last_id)
  have "visible d" using base64_visible [of "as_bytes (proxy_username m) @ [0x3A] @ as_bytes (proxy_password m)"]
    unfolding b by simp
  moreover have "visible (CHR ''B'')" by (simp add: visible_def byte_of_def)
  moreover have "expected_basic_authorization m = (CHR ''B'' # ''asic '' @ l) @ [d]"
    unfolding expected_basic_shape b by simp
  ultimately show ?thesis using expected_basic_shape [of m] trim_visible(2) [of "expected_basic_authorization m" "CHR ''B''"]
    by blast
qed

definition probe_lines :: "ReadinessProbeTarget \<Rightarrow> ProxyCredentialMaterial \<Rightarrow> string list" where
  "probe_lines t m =
     [''CONNECT '' @ probe_authority t @ '' HTTP/1.1'', ''Host: '' @ probe_authority t,
      ''Proxy-Authorization: '' @ expected_basic_authorization m, ''Proxy-Connection: keep-alive'']"

lemma header_line_append:
  "header_line a \<Longrightarrow> list_all visible b \<Longrightarrow> header_line (a @ b)"
  "header_line a \<Longrightarrow> header_line b \<Longrightarrow> header_line (a @ b)"
  "list_all visible a \<Longrightarrow> header_line b \<Longrightarrow> header_line (a @ b)"
  by (auto simp: header_line_def list_all_iff)

lemma header_line_constants:
  "header_line ''CONNECT ''" "header_line '' HTTP/1.1''" "header_line ''Host: ''"
  "header_line ''Proxy-Authorization: ''" "header_line ''Proxy-Connection: keep-alive''"
  "header_line BASIC_PREFIX"
  by code_simp+

lemma probe_header_lines:
  assumes "list_all visible (probe_authority t)"
  shows "list_all header_line (probe_lines t m)"
proof -
  have "header_line (expected_basic_authorization m)"
    unfolding expected_basic_authorization_def
    by (intro header_line_append(1) header_line_constants base64_visible)
  then show ?thesis
    using assms by (simp add: probe_lines_def header_line_append header_line_constants del: append_assoc append_Cons)
qed

lemma probe_request_lines:
  "probe_request t m = concat (map (\<lambda>l. l @ CRLF) (probe_lines t m)) @ CRLF"
  "as_bytes (probe_request t m) = response (probe_lines t m)"
  by (simp_all add: probe_request_def probe_lines_def response_def)

lemma probe_request_line:
  assumes "list_all visible a" "a \<noteq> []"
  shows "parse_request_line (''CONNECT '' @ a @ '' HTTP/1.1'') = Inr a"
proof -
  let ?white = "\<lambda>c. is_ascii_whitespace (byte_of c)"
  have space: "?white (CHR '' '')" by code_simp
  have word: "\<not> ?white c" if "list_all visible w" "c \<in> set w" for w c
    using that by (auto simp: list_all_iff dest: visible_not_white)
  have fixed: "list_all visible ''CONNECT''" "list_all visible ''HTTP/1.1''" by code_simp+
  have "split_when ?white (''CONNECT'' @ CHR '' '' # a @ CHR '' '' # ''HTTP/1.1'') = [''CONNECT'', a, ''HTTP/1.1'']"
    using split_when_sep [of "''CONNECT''" ?white "CHR '' ''"] split_when_sep [of a ?white "CHR '' ''"]
      split_when_word [of "''HTTP/1.1''" ?white] word [OF fixed(1)] word [OF fixed(2)] word [OF assms(1)] space
    by presburger
  then show ?thesis using assms(2) by (simp add: parse_request_line_def split_ascii_whitespace_def)
qed

lemma probe_header_fields:
  "header_lines None (tl (probe_lines t m)) = Inr (Some (expected_basic_authorization m))"
proof -
  have names: "\<not> eq_ignore_ascii_case ''Host'' ''Proxy-Authorization''"
    "eq_ignore_ascii_case ''Proxy-Authorization'' ''Proxy-Authorization''"
    "\<not> eq_ignore_ascii_case ''Proxy-Connection'' ''Proxy-Authorization''"
    "\<not> list_ex is_ascii_whitespace (as_bytes ''Host'')"
    "\<not> list_ex is_ascii_whitespace (as_bytes ''Proxy-Authorization'')"
    "\<not> list_ex is_ascii_whitespace (as_bytes ''Proxy-Connection'')"
    by code_simp+
  have split: "split_once (CHR '':'') (''Host: '' @ a) = Some (''Host'', CHR '' '' # a)"
    "split_once (CHR '':'') (''Proxy-Authorization: '' @ a) = Some (''Proxy-Authorization'', CHR '' '' # a)"
    "split_once (CHR '':'') ''Proxy-Connection: keep-alive'' = Some (''Proxy-Connection'', '' keep-alive'')" for a
    by (simp_all add: split_once_Some_iff)
  show ?thesis
    using names split expected_basic_trim [of m] by (simp add: probe_lines_def del: append_Cons)
qed

subsection \<open>The proxy's side\<close>

lemma probe_authority_visible:
  assumes "host_ok raw port"
  shows "list_all visible (raw @ '':'' @ show_nat (unat port))" "length (raw @ '':'' @ show_nat (unat port)) \<le> 259"
proof -
  show "list_all visible (raw @ '':'' @ show_nat (unat port))"
    using host_ok_chars [OF assms] show_nat_visible [of "unat port"] by (auto simp: list_all_iff intro: host_char_visible)
  have "unat port < 65536" using unsigned_less [of port] by simp
  then have "length (show_nat (unat port)) \<le> 5" using show_nat_length [of "unat port" 5] by simp
  moreover have "length raw \<le> 253" using assms by (simp add: host_ok_def)
  ultimately show "length (raw @ '':'' @ show_nat (unat port)) \<le> 259" by simp
qed

lemma probe_request_short:
  assumes "ReadinessProbeTarget_parse raw port = Inr t" "length (proxy_username m) \<le> 255" "length (proxy_password m) \<le> 255"
  shows "length (probe_request t m) \<le> MAX_HTTP_CONNECT_HEADER_BYTES"
proof -
  have "host_ok raw port" "t = \<lparr>probe_hostname = raw, probe_port = port\<rparr>"
    using assms(1) by (simp_all add: ReadinessProbeTarget_parse_def split: if_splits)
  then have "length (probe_authority t) \<le> 259" using probe_authority_visible(2) by (simp add: probe_authority_def)
  moreover have "length (expected_basic_authorization m) \<le> 690"
    using base64_length [of "as_bytes (proxy_username m) @ [0x3A] @ as_bytes (proxy_password m)"] assms(2,3)
    by (simp add: expected_basic_shape)
  ultimately show ?thesis
    by (simp add: probe_request_def CRLF_def MAX_HTTP_CONNECT_HEADER_BYTES_def)
qed

text \<open>How the proxy's parser answers the probe's request under any authenticator.\<close>

lemma probe_request_parsed:
  assumes "host_ok raw port" "length (probe_request t m) \<le> MAX_HTTP_CONNECT_HEADER_BYTES" "t = \<lparr>probe_hostname = raw, probe_port = port\<rparr>"
  shows "parse_http_connect_request (as_bytes (probe_request t m)) credentials =
    (if matches_http_basic credentials (expected_basic_authorization m)
     then Inr \<lparr>target_host = Domain raw, target_port = port\<rparr> else Inl ProxyAuthenticationFailed)"
    "first_header (as_bytes (probe_request t m))"
    "length (as_bytes (probe_request t m)) \<le> MAX_HTTP_CONNECT_HEADER_BYTES"
proof -
  have a: "probe_authority t = raw @ '':'' @ show_nat (unat port)" by (simp add: probe_authority_def assms(3))
  have visible: "list_all visible (probe_authority t)" "probe_authority t \<noteq> []"
    using probe_authority_visible(1) [OF assms(1)] by (simp_all add: a)
  note lines = probe_header_lines [OF visible(1), of m]
  show first: "first_header (as_bytes (probe_request t m))"
    unfolding probe_request_lines(2) using lines by (intro response_first_header) (simp_all add: probe_lines_def)
  show short: "length (as_bytes (probe_request t m)) \<le> MAX_HTTP_CONNECT_HEADER_BYTES"
    using assms(2) by simp
  have str: "from_utf8 (as_bytes (probe_request t m)) = Some (probe_request t m)"
    by (rule from_utf8_as_bytes) (unfold probe_request_lines(1), rule header_lines_str [OF lines])
  have split: "split_str CRLF (take (length (probe_request t m) - 4) (probe_request t m)) = probe_lines t m"
  proof -
    obtain ls w where "probe_lines t m = ls @ [w]" by (metis append_butlast_last_id list.distinct(1) probe_lines_def)
    with response_split [of ls w] lines probe_request_lines(1) show ?thesis by simp
  qed
  obtain l ls where shape: "probe_lines t m = l # ls" "parse_request_line l = Inr (probe_authority t)"
    "header_lines None ls = Inr (Some (expected_basic_authorization m))"
    using probe_request_line [OF visible] probe_header_fields [of t m] by (simp add: probe_lines_def)
  have "parse_connect_authority (probe_authority t) = Inr \<lparr>target_host = Domain raw, target_port = port\<rparr>"
    unfolding a by (rule probe_authority_parses [OF assms(1)])
  with short first show "parse_http_connect_request (as_bytes (probe_request t m)) credentials =
    (if matches_http_basic credentials (expected_basic_authorization m)
     then Inr \<lparr>target_host = Domain raw, target_port = port\<rparr> else Inl ProxyAuthenticationFailed)"
    by (simp add: parse_http_connect_request_def str split first_header_def shape)
qed

text \<open>A finished header that the parser refuses is refused by the stream loop with the same error.\<close>

lemma http_items_refused:
  assumes "parse_http_connect_request (request @ bs) credentials = Inl e" "e \<noteq> IncompleteHeader" "bs \<noteq> []"
    and "length (request @ bs) \<le> MAX_HTTP_CONNECT_HEADER_BYTES"
    and "\<forall>k < length bs. 0 < k \<longrightarrow> \<not> ends_with (request @ take k bs) HEADER_END"
  shows "http_items request credentials (map Data bs @ rest) = (Inl (HttpProtocol e), rest)"
  using assms
proof (induction bs arbitrary: request)
  case (Cons b bs)
  show ?case
  proof (cases "bs = []")
    case True
    with Cons.prems(1,2) show ?thesis by (simp split: HttpConnectError.split)
  next
    case False
    have "\<not> ends_with (request @ [b]) HEADER_END"
      using Cons.prems(5) [rule_format, of 1] False by simp
    with Cons.prems(4) have "parse_http_connect_request (request @ [b]) credentials = Inl IncompleteHeader"
      by (simp add: parse_incomplete_iff)
    moreover have "\<forall>k < length bs. 0 < k \<longrightarrow> \<not> ends_with ((request @ [b]) @ take k bs) HEADER_END"
      using Cons.prems(5) by (auto dest: spec [of _ "Suc _"])
    ultimately show ?thesis using Cons.IH [of "request @ [b]"] Cons.prems False by simp
  qed
qed simp

lemma http_accept_refused:
  assumes "items s = map Data hdr @ rest" "first_header hdr" "length hdr \<le> MAX_HTTP_CONNECT_HEADER_BYTES"
    "parse_http_connect_request hdr credentials = Inl e" "e \<noteq> IncompleteHeader"
  shows "fst (accept_http_connect_stream credentials s) = Inl (HttpProtocol e)"
    "view (snd (accept_http_connect_stream credentials s)) = (rest, snd (view s))"
proof -
  have "hdr \<noteq> []" using assms(2) by (auto simp: first_header_def ends_with_def HEADER_END_def)
  with assms have "http_items [] credentials (map Data hdr @ rest) = (Inl (HttpProtocol e), rest)"
    by (intro http_items_refused) (auto simp: first_header_def)
  then show "fst (accept_http_connect_stream credentials s) = Inl (HttpProtocol e)"
    "view (snd (accept_http_connect_stream credentials s)) = (rest, snd (view s))"
    using accept_http_items [of "[]" credentials s, folded accept_http_connect_stream_def] assms(1)
    by simp_all
qed

subsection \<open>The probe's side\<close>

lemma find_sub_short: "p \<noteq> [] \<Longrightarrow> length s < length p \<Longrightarrow> find_sub p s = None"
  by (induction s) (auto simp: min_def dest: arg_cong [of _ _ length])

lemma find_sub_prefix:
  assumes "p \<noteq> []"
  shows "find_sub p (s @ t) = Some i \<Longrightarrow>
    find_sub p s = (if i + length p \<le> length s then Some i else None)"
proof (induction s arbitrary: i)
  case Nil
  with assms show ?case by simp
next
  case (Cons c s)
  show ?case
  proof (cases "length p \<le> length (c # s)")
    case True
    then have same: "take (length p) (c # s @ t) = take (length p) (c # s)" by (cases p) simp_all
    show ?thesis
    proof (cases "take (length p) (c # s) = p")
      case True
      with same Cons.prems \<open>length p \<le> length (c # s)\<close> show ?thesis by simp
    next
      case False
      with same Cons.prems obtain j where "find_sub p (s @ t) = Some j" "i = Suc j" by auto
      with Cons.IH False show ?thesis by auto
    qed
  next
    case False
    with assms show ?thesis using find_sub_short [of p "c # s"] by auto
  qed
qed

definition no_errors :: "Stream \<Rightarrow> bool" where
  "no_errors s \<longleftrightarrow> (\<forall>e. RxError e \<notin> set (rx s))"

lemma read_no_errors:
  "no_errors s \<Longrightarrow> read_stream n s = (r, s') \<Longrightarrow> no_errors s' \<and> (\<forall>e. r \<noteq> Inl e)"
  by (cases "rx s"; cases "hd (rx s)")
     (auto simp: no_errors_def read_stream_def split: option.splits if_splits prod.splits)

lemma Data_prefix:
  assumes "map Data bs = map Data us @ is"
  obtains ds where "bs = us @ ds" "is = map Data ds"
  using assms that
proof (induction us arbitrary: bs)
  case (Cons u us)
  then show ?case by (cases bs) auto
qed simp

lemma read_header_complete:
  assumes "no_errors s" "items s = map Data bs" "resp @ bs = hdr @ rest"
    "find_sub HEADER_END (hdr @ rest) = Some (length hdr - 4)" "4 \<le> length hdr"
    "length resp < length hdr" "length hdr \<le> MAX_CONNECT_HEADER_BYTES"
  shows "fst (read_connect_header resp s) = Inr hdr"
  using assms
proof (induction resp s arbitrary: bs rule: read_connect_header.induct)
  case (1 resp s)
  let ?n = "min (MAX_CONNECT_HEADER_BYTES - length resp) 512"
  have pos: "0 < ?n" and room: "\<not> MAX_CONNECT_HEADER_BYTES \<le> length resp" using "1.prems"(6,7) by simp_all
  have "bs \<noteq> []" using "1.prems"(3,6) by auto
  from pos show ?case
  proof (cases rule: read_stream_cases [of ?n s])
    case (5 b cs s')
    have "map Data bs = map Data (b # cs) @ items s'" using 5(3) "1.prems"(2) by simp
    then obtain ds where ds: "bs = (b # cs) @ ds" "items s' = map Data ds" by (rule Data_prefix)
    let ?resp = "resp @ b # cs"
    have all: "hdr @ rest = ?resp @ ds" using "1.prems"(3) ds by simp
    have errors: "no_errors s'" using read_no_errors "1.prems"(1) 5(1) by blast
    have len: "length hdr - 4 + length HEADER_END = length hdr" "HEADER_END \<noteq> []"
      using "1.prems"(5) by (simp_all add: HEADER_END_def)
    have found: "find_sub HEADER_END ?resp = (if length hdr \<le> length ?resp then Some (length hdr - 4) else None)"
      using find_sub_prefix [of HEADER_END ?resp ds "length hdr - 4"] "1.prems"(4) all
      unfolding len(1) by (simp add: len(2))
    show ?thesis
    proof (cases "length hdr \<le> length ?resp")
      case True
      have "take (length hdr) ?resp = take (length hdr) (?resp @ ds)"
        using True by (simp only: take_append) simp
      also have "\<dots> = hdr" unfolding all [symmetric] by simp
      finally have "take (length hdr) ?resp = hdr" .
      with True found 5(1) room "1.prems"(5) show ?thesis
        by (subst read_connect_header.simps) (simp add: Let_def)
    next
      case False
      then have "fst (read_connect_header ?resp s') = Inr hdr"
        using "1.IH" [OF room refl 5(1) [symmetric] refl refl refl _ errors ds(2)] found all "1.prems"(4,5,7) by simp
      with False found 5(1) room show ?thesis
        by (subst read_connect_header.simps) (simp add: Let_def)
    qed
  next
    case (1 s')
    with read_no_errors [OF "1.prems"(1)] show ?thesis by blast
  next
    case (2 e s')
    with read_no_errors [OF "1.prems"(1)] show ?thesis by blast
  next
    case (3 s')
    with "1.prems"(2) \<open>bs \<noteq> []\<close> show ?thesis by simp
  next
    case (4 s')
    with "1.prems"(2) show ?thesis by (cases bs) simp_all
  qed
qed

definition status_line :: "nat \<Rightarrow> string \<Rightarrow> string" where
  "status_line n reason = ''HTTP/1.1 '' @ show_nat n @ '' '' @ reason"

lemma find_line_end:
  assumes "header_line l"
  shows "find_sub [0x0D, 0x0A] (response (l # lines)) = Some (length l)"
proof -
  have "find_sub [0x0D, 0x0A] (as_bytes l @ [0x0D, 0x0A] @ k) = Some (length l)" for k
    using header_line_ok [OF assms] find_sub_here [of "[0x0D, 0x0A]" k]
    by (subst find_sub_skip_word) (simp_all add: line_ok_def)
  then show ?thesis by (simp add: response_bytes line_bytes_def)
qed

lemma header_line_str: "header_line l \<Longrightarrow> is_str l"
proof -
  assume "header_line l"
  then have "\<forall>c \<in> set l. byte_of c < 0x80"
    unfolding header_line_def list_all_iff using line_char_byte(2) by blast
  then show "is_str l"
    unfolding is_str_def by (intro ascii_valid_utf8) (simp only: as_bytes_def set_map ball_simps)
qed

lemma classify_status:
  assumes "n < 65536" "header_line (status_line n reason)"
  shows "classify_connect_header (response (status_line n reason # lines)) =
    (if n = 407 then AuthenticationFailed
     else if 200 \<le> n \<and> n \<le> 299 then ProbeOutcome.Succeeded else TransportFailed)"
proof -
  have utf8: "from_utf8 (take (length (status_line n reason)) (response (status_line n reason # lines))) =
      Some (status_line n reason)"
    using header_line_str [OF assms(2)] by (simp add: response_bytes line_bytes_def from_utf8_as_bytes)
  have protocol: "list_all visible ''HTTP/1.1''" by code_simp
  have "status_line n reason = ''HTTP/1.1'' @ CHR '' '' # show_nat n @ CHR '' '' # reason"
    by (simp add: status_line_def)
  then have words: "split_whitespace (status_line n reason) =
      ''HTTP/1.1'' # show_nat n # filter (\<lambda>w. w \<noteq> []) (split_white reason)"
    using split_white_space [OF protocol] split_white_space [OF show_nat_visible]
    by (simp add: split_whitespace_def del: append_Cons)
  have n: "unat (of_nat n :: u16) = n" using assms(1) by (simp add: unat_of_nat)
  then have number: "parse_u16 (show_nat n) = Some (of_nat n)" using parse_show_u16 [of "of_nat n"] by simp
  have "(of_nat n = (407 :: u16)) = (n = 407)" "(200 \<le> (of_nat n :: u16)) = (200 \<le> n)"
    "((of_nat n :: u16) \<le> 299) = (n \<le> 299)"
    using n by (auto simp: word_le_nat_alt word_unat_eq_iff)
  then show ?thesis
    by (simp add: classify_connect_header_def find_line_end [OF assms(2)] utf8 words number)
qed

text \<open>The proxy's answers to an HTTP client, each a status line and further lines.\<close>

lemma status_lines:
  "''HTTP/1.1 200 Connection Established'' = status_line 200 ''Connection Established''"
  "''HTTP/1.1 407 Proxy Authentication Required'' = status_line 407 ''Proxy Authentication Required''"
  "''HTTP/1.1 503 Service Unavailable'' = status_line 503 ''Service Unavailable''"
  "''HTTP/1.1 403 Forbidden'' = status_line 403 ''Forbidden''"
  "''HTTP/1.1 502 Bad Gateway'' = status_line 502 ''Bad Gateway''"
  by code_simp+

lemma status_header_lines:
  "header_line (status_line 200 ''Connection Established'')"
  "header_line (status_line 407 ''Proxy Authentication Required'')"
  "header_line (status_line 503 ''Service Unavailable'')"
  "header_line (status_line 403 ''Forbidden'')"
  "header_line (status_line 502 ''Bad Gateway'')"
  "header_line ''Connection: close''"
  "header_line (''Proxy-Authenticate: Basic realm='' @ [CHR 0x22] @ ''Mish'' @ [CHR 0x22])"
  by code_simp+

definition answers :: "u8 list \<Rightarrow> ProbeOutcome \<Rightarrow> bool" where
  "answers bytes outcome \<longleftrightarrow>
     (\<exists>n reason lines. bytes = response (status_line n reason # lines) \<and> n < 65536 \<and>
        list_all header_line (status_line n reason # lines) \<and> length bytes \<le> 200 \<and>
        outcome = (if n = 407 then AuthenticationFailed
          else if 200 \<le> n \<and> n \<le> 299 then ProbeOutcome.Succeeded else TransportFailed))"

lemma answersI:
  assumes "bytes = response (status_line n reason # lines)" "n < 65536"
    "list_all header_line (status_line n reason # lines)" "length bytes \<le> 200"
    "outcome = (if n = 407 then AuthenticationFailed
       else if 200 \<le> n \<and> n \<le> 299 then ProbeOutcome.Succeeded else TransportFailed)"
  shows "answers bytes outcome"
  using assms unfolding answers_def by blast

lemma proxy_answers:
  "answers (response [''HTTP/1.1 200 Connection Established'']) ProbeOutcome.Succeeded"
  "answers (http_failure_response ProxyAuthenticationFailed) AuthenticationFailed"
  "answers (close_response ''HTTP/1.1 503 Service Unavailable'') TransportFailed"
  "answers (close_response ''HTTP/1.1 403 Forbidden'') TransportFailed"
  "answers (close_response ''HTTP/1.1 502 Bad Gateway'') TransportFailed"
proof -
  have len: "length (response [''HTTP/1.1 200 Connection Established'']) \<le> 200"
    "length (http_failure_response ProxyAuthenticationFailed) \<le> 200"
    "length (close_response ''HTTP/1.1 503 Service Unavailable'') \<le> 200"
    "length (close_response ''HTTP/1.1 403 Forbidden'') \<le> 200"
    "length (close_response ''HTTP/1.1 502 Bad Gateway'') \<le> 200"
    by code_simp+
  show "answers (response [''HTTP/1.1 200 Connection Established'']) ProbeOutcome.Succeeded"
    using len(1) status_header_lines unfolding status_lines by (intro answersI [OF refl]) simp_all
  show "answers (http_failure_response ProxyAuthenticationFailed) AuthenticationFailed"
    using len(2) status_header_lines unfolding http_failure_response_def status_lines
    by (simp only: insert_iff if_True HttpConnectError.distinct empty_iff simp_thms) (intro answersI [OF refl], simp_all)
  show "answers (close_response ''HTTP/1.1 503 Service Unavailable'') TransportFailed"
    "answers (close_response ''HTTP/1.1 403 Forbidden'') TransportFailed"
    "answers (close_response ''HTTP/1.1 502 Bad Gateway'') TransportFailed"
    using len(3-5) status_header_lines unfolding close_response_def status_lines by (intro answersI [OF refl]; simp)+
qed

lemma probe_reads_answer:
  assumes "answers bytes outcome" "no_errors s" "items s = map Data (bytes @ later)"
  obtains hdr s' where "read_connect_header [] s = (Inr hdr, s')" "classify_connect_header hdr = outcome"
proof -
  from assms(1) obtain n reason lines where a: "bytes = response (status_line n reason # lines)" "n < 65536"
    "list_all header_line (status_line n reason # lines)" "length bytes \<le> 200"
    "outcome = (if n = 407 then AuthenticationFailed
      else if 200 \<le> n \<and> n \<le> 299 then ProbeOutcome.Succeeded else TransportFailed)"
    unfolding answers_def by blast
  have "4 \<le> length bytes" "bytes \<noteq> []" unfolding a(1) by (simp_all add: response_bytes line_bytes_def)
  moreover have "find_sub HEADER_END (bytes @ later) = Some (length bytes - 4)"
    using response_end [OF _ a(3)] unfolding a(1) by simp
  ultimately have "fst (read_connect_header [] s) = Inr bytes"
    using read_header_complete [OF assms(2,3), of "[]" bytes later] a(4) by (simp add: MAX_CONNECT_HEADER_BYTES_def)
  moreover have "classify_connect_header bytes = outcome"
    using classify_status [OF a(2), of reason lines] a(3) unfolding a(1,5) by simp
  ultimately show ?thesis using that by (metis prod.collapse)
qed

subsection \<open>The probe against the device's own proxy\<close>

lemma session_answers_probe:
  assumes "host_ok raw port" "length (probe_request t m) \<le> MAX_HTTP_CONNECT_HEADER_BYTES" "t = \<lparr>probe_hostname = raw, probe_port = port\<rparr>"
    and "items client = map Data (as_bytes (probe_request t m)) @ rest" "tx client = []" "tx_limit client = None"
    and "prepare_proxy_session Http (material_authenticator served) connector client w = (r, client', w')"
  shows "if expected_basic_authorization m = expected_basic_authorization served
    then answers (tx client') (case fst (connector \<lparr>target_host = Domain raw, target_port = port\<rparr> w) of
        Inl e \<Rightarrow> TransportFailed | Inr u \<Rightarrow> ProbeOutcome.Succeeded) \<and>
      w' = snd (connector \<lparr>target_host = Domain raw, target_port = port\<rparr> w)
    else answers (tx client') AuthenticationFailed \<and> w' = w"
proof -
  let ?c = "material_authenticator served"
  let ?target = "\<lparr>target_host = Domain raw, target_port = port\<rparr>"
  note parsed = probe_request_parsed [OF assms(1-3)]
  obtain a s1 where run: "accept_http_connect_stream ?c client = (a, s1)" by (cases "accept_http_connect_stream ?c client")
  have matches: "matches_http_basic ?c v \<longleftrightarrow> v = expected_basic_authorization served" for v
    by (auto simp: material_authenticator_def material_matches_basic_def)
  show ?thesis
  proof (cases "expected_basic_authorization m = expected_basic_authorization served")
    case True
    with parsed(1) matches have "parse_http_connect_request (as_bytes (probe_request t m)) ?c = Inr ?target" by simp
    from http_accept_complete [OF assms(4) parsed(2) this] run assms(5,6)
    have s1: "a = Inr ?target" "tx s1 = []" "tx_limit s1 = None" by (simp_all add: view_def)
    obtain k w1 where k: "connector ?target w = (k, w1)" by (cases "connector ?target w")
    then show ?thesis
      using assms(7) True run s1 proxy_answers
      by (cases k) (auto simp: prepare_proxy_session_def prepare_proxy_session_inner_def accept_target_def
            write_outbound_failure_def write_connect_success_def write_all_def shutdown_write_def
            split: ProxyOutboundConnectError.splits)
  next
    case False
    with parsed(1) matches have "parse_http_connect_request (as_bytes (probe_request t m)) ?c = Inl ProxyAuthenticationFailed"
      by simp
    from http_accept_refused [OF assms(4) parsed(2,3) this] run assms(5,6)
    have s1: "a = Inl (HttpProtocol ProxyAuthenticationFailed)" "tx s1 = []" "tx_limit s1 = None"
      by (simp_all add: view_def)
    with assms(7) False run show ?thesis
      using proxy_answers(2)
      by (auto simp: prepare_proxy_session_def prepare_proxy_session_inner_def accept_target_def
            write_http_protocol_failure_def write_all_def shutdown_write_def sbind_def smap_err_def sfail_def)
  qed
qed

lemma execute_probe_answered:
  assumes "answers bytes outcome" "no_errors s" "items s = map Data (bytes @ later)" "tx_limit s = None"
  shows "outcome \<noteq> ProbeOutcome.Succeeded \<Longrightarrow> execute_probe (Inr s) remaining t m tls = outcome"
    "outcome = ProbeOutcome.Succeeded \<Longrightarrow> \<exists>s'. execute_probe (Inr s) remaining t m tls =
       (if remaining = 0 then Timeout else tls_outcome (tls_connect tls s' (probe_hostname t) remaining))"
proof -
  let ?s = "s\<lparr>tx := tx s @ as_bytes (probe_request t m)\<rparr>"
  have sent: "write_all (as_bytes (probe_request t m)) s = (Inr (), ?s)" using assms(4) by (simp add: write_all_def)
  have "no_errors ?s" "items ?s = map Data (bytes @ later)"
    using assms(2,3) by (simp_all add: no_errors_def items_def)
  from probe_reads_answer [OF assms(1) this] obtain hdr s' where
    read: "read_connect_header [] ?s = (Inr hdr, s')" "classify_connect_header hdr = outcome" .
  show "outcome \<noteq> ProbeOutcome.Succeeded \<Longrightarrow> execute_probe (Inr s) remaining t m tls = outcome"
    using sent read by (simp add: execute_probe_def)
  show "outcome = ProbeOutcome.Succeeded \<Longrightarrow> \<exists>s'. execute_probe (Inr s) remaining t m tls =
       (if remaining = 0 then Timeout else tls_outcome (tls_connect tls s' (probe_hostname t) remaining))"
    using sent read by (intro exI [of _ s']) (simp add: execute_probe_def)
qed

text \<open>C28. The readiness probe measures the device's own proxy. Let the probe use credential \<open>m\<close> with a request of at
  most 16384 bytes, which holds whenever neither part of the credential is longer than 255 bytes; let the
  HTTP port serve credential \<open>served\<close>, let the request the probe writes reach the proxy session in any chunks, and let
  the bytes that session writes, with no write failing, reach the probe in any chunks without a read error, possibly
  followed by tunnel bytes. What HTTP Basic compares is the user name, a colon and the password in one string. If
  these strings differ, the probe reports an authentication failure and the session connects nothing. If they are
  equal, the session asks the connector once, for exactly the probed host and port; the probe reports a transport
  failure if that connection fails and otherwise the result of the TLS handshake. When no user name contains a
  colon the strings are equal exactly if the credentials are; with colons different credentials may share a
  string, and the proxy then takes one for the other.\<close>

theorem probe_measures_own_proxy:
  assumes "ReadinessProbeTarget_parse raw port = Inr t"
    and "length (probe_request t m) \<le> MAX_HTTP_CONNECT_HEADER_BYTES"
    and "items client = map Data (as_bytes (probe_request t m)) @ rest" "tx client = []" "tx_limit client = None"
    and "prepare_proxy_session Http (material_authenticator served) connector client w = (r, client', w')"
    and "no_errors s" "items s = map Data (tx client' @ later)" "tx_limit s = None"
  shows "(if proxy_username m @ '':'' @ proxy_password m \<noteq> proxy_username served @ '':'' @ proxy_password served
    then execute_probe (Inr s) remaining t m tls = AuthenticationFailed \<and> w' = w
    else w' = snd (connector \<lparr>target_host = Domain raw, target_port = port\<rparr> w) \<and>
     (case fst (connector \<lparr>target_host = Domain raw, target_port = port\<rparr> w) of
        Inl e \<Rightarrow> execute_probe (Inr s) remaining t m tls = TransportFailed
      | Inr u \<Rightarrow> \<exists>s'. execute_probe (Inr s) remaining t m tls =
          (if remaining = 0 then Timeout else tls_outcome (tls_connect tls s' raw remaining)))) \<and>
    (CHR '':'' \<notin> set (proxy_username m) \<union> set (proxy_username served) \<longrightarrow>
       (proxy_username m @ '':'' @ proxy_password m = proxy_username served @ '':'' @ proxy_password served \<longleftrightarrow> m = served))"
  (is "?answer \<and> ?pairs")
proof -
  have t: "host_ok raw port" "t = \<lparr>probe_hostname = raw, probe_port = port\<rparr>"
    using assms(1) by (simp_all add: ReadinessProbeTarget_parse_def split: if_splits)
  let ?target = "\<lparr>target_host = Domain raw, target_port = port\<rparr>"
  note session = session_answers_probe [OF t(1) assms(2) t(2) assms(3-6)]
  note same = expected_basic_eq [of m served]
  note answered = execute_probe_answered [OF _ assms(7-9), of _ remaining t m tls]
  have ?answer
  proof (cases "expected_basic_authorization m = expected_basic_authorization served")
    case False
    then have "answers (tx client') AuthenticationFailed" "w' = w" using session by simp_all
    with False same answered(1) [of ProbeOutcome.AuthenticationFailed] show ?thesis by simp
  next
    case True
    then have a: "answers (tx client') (case fst (connector ?target w) of
          Inl e \<Rightarrow> TransportFailed | Inr u \<Rightarrow> ProbeOutcome.Succeeded)" "w' = snd (connector ?target w)"
      using session by simp_all
    show ?thesis
    proof (cases "fst (connector ?target w)")
      case (Inl e)
      with a True same answered(1) [of TransportFailed] show ?thesis by simp
    next
      case (Inr u)
      with a answered(2) [of ProbeOutcome.Succeeded]
      have "\<exists>s'. execute_probe (Inr s) remaining t m tls =
          (if remaining = 0 then Timeout else tls_outcome (tls_connect tls s' (probe_hostname t) remaining))"
        by simp
      moreover have "probe_hostname t = raw" by (simp add: t(2))
      ultimately show ?thesis using True same a(2) Inr by (simp only: not_not if_False simp_thms sum.case)
    qed
  qed
  moreover have ?pairs using basic_value_inj [of m served] same by simp
  ultimately show "?answer \<and> ?pairs" by (rule conjI)
qed

text \<open>With a colon in a user name two credentials may share the string that HTTP Basic compares.\<close>

lemma colon_shares_basic:
  "expected_basic_authorization \<lparr>proxy_username = ''a:b'', proxy_password = ''c''\<rparr> =
   expected_basic_authorization \<lparr>proxy_username = ''a'', proxy_password = ''b:c''\<rparr>"
  by (simp add: expected_basic_eq)

definition demo_probe :: ReadinessProbeTarget where
  "demo_probe = \<lparr>probe_hostname = ''p.io'', probe_port = 443\<rparr>"

definition demo_wire :: "u8 list \<Rightarrow> Stream" where
  "demo_wire bs = \<lparr>rx = [Chunk bs], tx = [], tx_limit = None, replay = None, write_shut = False\<rparr>"

definition demo_tls :: "unit ProductTlsClient" where
  "demo_tls = \<lparr>server_name = (\<lambda>h. Some ()), handshake = (\<lambda>d n s. Some (Inr s))\<rparr>"

definition demo_connector :: "nat connector" where
  "demo_connector = (\<lambda>target w. (Inr \<lparr>upstream_id = 1, local_addr = None\<rparr>, Suc w))"

definition demo_session :: "ProxyCredentialMaterial \<Rightarrow> (ProxySessionError + Upstream) \<times> Stream \<times> nat" where
  "demo_session served = prepare_proxy_session Http (material_authenticator served) demo_connector
     (demo_wire (as_bytes (probe_request demo_probe demo_material))) 0"

lemma demo_probe_target: "ReadinessProbeTarget_parse ''p.io'' 443 = Inr demo_probe"
proof -
  have "digit_value r (CHR ''p'') = None" if "r \<le> 16" for r
    using that by (simp add: digit_value_def to_ascii_lowercase_def byte_of_def)
  then have number: "read_number 10 3 False 256 ''p.io'' = None" "read_number 16 4 True 65536 ''p.io'' = None"
    by (simp_all add: read_number_def)
  then have "read_octets 0 (Suc 3) ''p.io'' = None"
    unfolding read_octets.simps read_separator_def by simp
  then have v4: "read_ipv4_addr ''p.io'' = None"
    by (simp add: read_ipv4_addr_def)
  then have "read_groups 8 0 [] ''p.io'' = ([], False, ''p.io'')"
    using number by (subst read_groups.simps) (simp add: read_separator_def)
  with v4 have "parse_ip ''p.io'' = None"
    by (simp add: parse_ip_def parse_all_def read_ip_addr_def read_ipv6_addr_def read_given_char_def)
  moreover have "split_when (\<lambda>c. c = CHR ''.'') ''p.io'' = [''p'', ''io'']" by code_simp
  moreover have "host_label ''p''" "host_label ''io''" "trim ''p.io'' = ''p.io''" by code_simp+
  ultimately show ?thesis
    by (simp add: ReadinessProbeTarget_parse_def host_ok_def demo_probe_def)
qed

lemma demo_wire_facts:
  "no_errors (demo_wire bs)" "tx_limit (demo_wire bs) = None" "tx (demo_wire bs) = []"
  "bs \<noteq> [] \<Longrightarrow> items (demo_wire bs) = map Data bs"
  by (simp_all add: demo_wire_def no_errors_def items_def chunk_items)

lemma demo_request_short: "length (probe_request demo_probe demo_material) \<le> MAX_HTTP_CONNECT_HEADER_BYTES"
  by (rule probe_request_short [OF demo_probe_target]) (simp_all add: demo_material_def)

lemma demo_session_answers:
  obtains r c' w' where "demo_session served = (r, c', w')" "items (demo_wire (tx c')) = map Data (tx c' @ [])"
    "items (demo_wire (as_bytes (probe_request demo_probe demo_material))) =
       map Data (as_bytes (probe_request demo_probe demo_material)) @ []"
proof -
  obtain r c' w' where run: "demo_session served = (r, c', w')" by (cases "demo_session served")
  have host: "host_ok ''p.io'' 443"
    using demo_probe_target by (simp add: ReadinessProbeTarget_parse_def split: if_splits)
  have "as_bytes (probe_request demo_probe demo_material) \<noteq> []" by (simp add: probe_request_def as_bytes_def)
  then have client: "items (demo_wire (as_bytes (probe_request demo_probe demo_material))) =
      map Data (as_bytes (probe_request demo_probe demo_material)) @ []"
    by (simp add: demo_wire_facts)
  have "answers (tx c') ProbeOutcome.Succeeded \<or> answers (tx c') AuthenticationFailed"
    using session_answers_probe [OF host demo_request_short demo_probe_def client demo_wire_facts(3,2) run [unfolded demo_session_def]]
    by (simp add: demo_connector_def split: if_splits)
  then have "tx c' \<noteq> []" by (auto simp: answers_def response_bytes)
  then show ?thesis using that run client by (simp add: demo_wire_facts)
qed

theorem probe_measures_own_proxy_witness:
  "execute_probe (Inr (demo_wire (tx (fst (snd (demo_session demo_material)))))) 5 demo_probe demo_material demo_tls =
     ProbeOutcome.Succeeded \<and>
   execute_probe (Inr (demo_wire (tx (fst (snd (demo_session \<lparr>proxy_username = ''u'', proxy_password = ''q''\<rparr>))))))
     5 demo_probe demo_material demo_tls = AuthenticationFailed"
proof
  obtain r c' w' where d: "demo_session demo_material = (r, c', w')"
    "items (demo_wire (tx c')) = map Data (tx c' @ [])"
    "items (demo_wire (as_bytes (probe_request demo_probe demo_material))) =
       map Data (as_bytes (probe_request demo_probe demo_material)) @ []"
    by (rule demo_session_answers)
  from probe_measures_own_proxy [OF demo_probe_target demo_request_short d(3)
      demo_wire_facts(3,2) d(1) [unfolded demo_session_def] demo_wire_facts(1) d(2) demo_wire_facts(2), of 5 demo_tls]
  show "execute_probe (Inr (demo_wire (tx (fst (snd (demo_session demo_material)))))) 5 demo_probe demo_material demo_tls =
      ProbeOutcome.Succeeded"
    by (simp add: d(1) demo_connector_def demo_tls_def tls_connect_def tls_outcome_def)
  let ?o = "\<lparr>proxy_username = ''u'', proxy_password = ''q''\<rparr>"
  obtain r c' w' where d: "demo_session ?o = (r, c', w')"
    "items (demo_wire (tx c')) = map Data (tx c' @ [])"
    "items (demo_wire (as_bytes (probe_request demo_probe demo_material))) =
       map Data (as_bytes (probe_request demo_probe demo_material)) @ []"
    by (rule demo_session_answers)
  from probe_measures_own_proxy [OF demo_probe_target demo_request_short d(3)
      demo_wire_facts(3,2) d(1) [unfolded demo_session_def] demo_wire_facts(1) d(2) demo_wire_facts(2), of 5 demo_tls]
  show "execute_probe (Inr (demo_wire (tx (fst (snd (demo_session ?o)))))) 5 demo_probe demo_material demo_tls =
      AuthenticationFailed"
    by (simp add: d(1) demo_material_def)
qed

end
