(* ===== verification/Root_Audit.thy ===== *)
theory Root_Audit
  imports Rust_Str
begin

text \<open>
  The audit of a mangle table (the free functions of \<open>crates/cellular/src/root_policy.rs\<close>): tokens,
  mark specifications, the check of one rule, and the depth-first search from the \<open>OUTPUT\<close> chain
  through the user chains it can reach. The search is given fuel; the lemmas show that the fuel is
  always enough and characterise the tables the audit accepts.
\<close>

unbundle bit_operations_syntax

definition IPV4_FULL_MASK :: u64 where "IPV4_FULL_MASK = 0xffffffff"

datatype MangleAuditResult = Clean | Collision | Ambiguous

subsection \<open>Tokens\<close>

definition str_contains :: "string \<Rightarrow> string \<Rightarrow> bool" where
  "str_contains s p \<longleftrightarrow> find_sub p s \<noteq> None"

definition starts_with :: "string \<Rightarrow> string \<Rightarrow> bool" where
  "starts_with s p \<longleftrightarrow> take (length p) s = p"

primrec join_spaces :: "string list \<Rightarrow> string" where
  "join_spaces [] = []"
| "join_spaces (t # ts) = (case ts of [] \<Rightarrow> t | _ # _ \<Rightarrow> t @ '' '' @ join_spaces ts)"

definition token_byte :: "u8 \<Rightarrow> bool" where
  "token_byte b \<longleftrightarrow> is_ascii_alphanumeric b \<or> b \<in> {0x5F, 0x2E, 0x2D}"

definition is_safe_interface_name :: "string \<Rightarrow> bool" where
  "is_safe_interface_name v \<longleftrightarrow> v \<noteq> [] \<and> length v \<le> 15 \<and> list_all token_byte (as_bytes v)"

definition is_safe_table_token :: "string \<Rightarrow> bool" where
  "is_safe_table_token v \<longleftrightarrow> v \<noteq> [] \<and> length v \<le> 32 \<and> list_all token_byte (as_bytes v)"

definition is_safe_chain_name :: "string \<Rightarrow> bool" where
  "is_safe_chain_name v \<longleftrightarrow> v \<noteq> [] \<and> length v \<le> 28 \<and>
     list_all (\<lambda>b. token_byte b \<or> b = 0x3A \<or> b = 0x2B) (as_bytes v)"

fun token_after :: "string list \<Rightarrow> string \<Rightarrow> string option" where
  "token_after [] keyword = None"
| "token_after (t # ts) keyword =
     (if t = keyword then (case ts of [] \<Rightarrow> None | u # us \<Rightarrow> Some u) else token_after ts keyword)"

definition parse_mark_number :: "string \<Rightarrow> u64 option" where
  "parse_mark_number raw =
     (case (case strip_prefix ''0x'' raw of Some h \<Rightarrow> Some h | None \<Rightarrow> strip_prefix ''0X'' raw) of
        Some h \<Rightarrow> if h = [] then None else map_option of_nat (parse_unsigned 16 (2 ^ 64) h)
      | None \<Rightarrow> parse_u64 raw)"

definition mark_spec_touches :: "string \<Rightarrow> u64 \<Rightarrow> bool option" where
  "mark_spec_touches spec reserved_mark =
     (case split_when (\<lambda>c. c = CHR ''/'') spec of
        [] \<Rightarrow> None
      | first # rest \<Rightarrow>
          (case parse_mark_number first of
             None \<Rightarrow> None
           | Some v \<Rightarrow>
               (case (case rest of [] \<Rightarrow> Some IPV4_FULL_MASK | m # ms \<Rightarrow> parse_mark_number m) of
                  None \<Rightarrow> None
                | Some msk \<Rightarrow>
                    if 1 < length rest \<or> v > IPV4_FULL_MASK \<or> msk > IPV4_FULL_MASK then None
                    else Some (msk AND reserved_mark \<noteq> 0))))"

definition rpdb_line_touches_reserved_mark :: "string \<Rightarrow> u64 \<Rightarrow> bool" where
  "rpdb_line_touches_reserved_mark line reserved_mark =
     (case token_after (split_whitespace line) ''fwmark'' of
        None \<Rightarrow> False
      | Some spec \<Rightarrow>
          (case mark_spec_touches spec reserved_mark of None \<Rightarrow> True | Some touches \<Rightarrow> touches))"

definition rpdb_priority :: "string \<Rightarrow> u32 option" where
  "rpdb_priority line =
     (case split_once (CHR '':'') (trim line) of None \<Rightarrow> None | Some (raw, rest) \<Rightarrow> parse_u32 raw)"

text \<open>The loops that collect tables keep the first occurrence of each.\<close>

definition push_new :: "'a \<Rightarrow> 'a list \<Rightarrow> 'a list" where
  "push_new x xs = (if x \<in> set xs then xs else xs @ [x])"

definition push_table :: "string option \<Rightarrow> string list \<Rightarrow> string list" where
  "push_table table tables =
     (case table of None \<Rightarrow> tables
      | Some t \<Rightarrow> if is_safe_table_token t then push_new t tables else tables)"

definition referenced_tables :: "string list \<Rightarrow> string list" where
  "referenced_tables lines =
     fold (\<lambda>line tables. let tokens = split_whitespace line
        in push_table (token_after tokens ''table'') (push_table (token_after tokens ''lookup'') tables)) lines []"

definition route_has_default_on_interface :: "string list \<Rightarrow> string \<Rightarrow> bool" where
  "route_has_default_on_interface lines interface \<longleftrightarrow>
     is_safe_interface_name interface \<and>
     list_ex (\<lambda>line. case split_whitespace line of [] \<Rightarrow> False
        | t # ts \<Rightarrow> t = ''default'' \<and> token_after (t # ts) ''dev'' = Some interface) lines"

text \<open>\<open>str::lines\<close>: pieces between line feeds, a final empty piece dropped, one carriage return
  stripped; the tokens of a line do not depend on the latter.\<close>

definition str_lines :: "string \<Rightarrow> string list" where
  "str_lines s =
     (let pieces = split_when (\<lambda>c. c = CHR 0x0A) s;
          kept = (if last pieces = [] then butlast pieces else pieces)
      in map (\<lambda>l. if ends_with l [CHR 0x0D] then butlast l else l) kept)"

definition route_get_uses_interface :: "string \<Rightarrow> string \<Rightarrow> bool" where
  "route_get_uses_interface output interface \<longleftrightarrow>
     is_safe_interface_name interface \<and>
     list_ex (\<lambda>line. token_after (split_whitespace line) ''dev'' = Some interface) (str_lines output)"

subsection \<open>One rule\<close>

definition option_mask :: "string list \<Rightarrow> string \<Rightarrow> u64 option" where
  "option_mask tokens option =
     (case token_after tokens option of
        None \<Rightarrow> None
      | Some raw \<Rightarrow>
          (case parse_mark_number raw of
             None \<Rightarrow> None
           | Some v \<Rightarrow> if v \<le> IPV4_FULL_MASK then Some v else None))"

definition mask_or_full :: "string list \<Rightarrow> string \<Rightarrow> u64" where
  "mask_or_full tokens option =
     (case option_mask tokens option of None \<Rightarrow> IPV4_FULL_MASK | Some m \<Rightarrow> m)"

definition is_jump :: "string \<Rightarrow> bool" where
  "is_jump t \<longleftrightarrow> t \<in> {''-j'', ''--jump'', ''-g'', ''--goto''}"

definition is_mark_option :: "string \<Rightarrow> bool" where
  "is_mark_option t \<longleftrightarrow> t \<in> {''--mark'', ''--set-xmark'', ''--set-mark''}"

definition is_mask_option :: "string \<Rightarrow> bool" where
  "is_mask_option t \<longleftrightarrow> t \<in> {''--nfmask'', ''--ctmask''}"

definition is_transfer_option :: "string \<Rightarrow> bool" where
  "is_transfer_option t \<longleftrightarrow> t \<in> {''--restore-mark'', ''--save-mark''}"

definition is_logic_option :: "string \<Rightarrow> bool" where
  "is_logic_option t \<longleftrightarrow> t \<in> {''--and-mark'', ''--or-mark'', ''--xor-mark''}"

text \<open>The loop over the tokens; \<open>saw\<close> and \<open>mark\<close> are its flags (known operation seen, MARK or
  CONNMARK target seen).\<close>

fun mark_loop :: "string list \<Rightarrow> u64 \<Rightarrow> string list \<Rightarrow> bool \<Rightarrow> bool \<Rightarrow> MangleAuditResult" where
  "mark_loop tokens candidate [] saw mark = (if mark \<and> \<not> saw then Ambiguous else Clean)"
| "mark_loop tokens candidate (token # rest) saw mark =
     (if is_jump token then
        (case rest of
           [] \<Rightarrow> Ambiguous
         | target # _ \<Rightarrow>
             mark_loop tokens candidate rest saw (mark \<or> target = ''MARK'' \<or> target = ''CONNMARK''))
      else if is_mark_option token then
        (case rest of
           [] \<Rightarrow> Ambiguous
         | spec # _ \<Rightarrow>
             (case mark_spec_touches spec candidate of
                None \<Rightarrow> Ambiguous
              | Some True \<Rightarrow> Collision
              | Some False \<Rightarrow> mark_loop tokens candidate rest True mark))
      else if is_mask_option token then
        (case rest of
           [] \<Rightarrow> Ambiguous
         | raw # _ \<Rightarrow>
             (case parse_mark_number raw of
                None \<Rightarrow> Ambiguous
              | Some msk \<Rightarrow>
                  if msk > IPV4_FULL_MASK then Ambiguous
                  else if msk AND candidate \<noteq> 0 then Collision
                  else mark_loop tokens candidate rest True mark))
      else if is_transfer_option token then
        (if mask_or_full tokens ''--nfmask'' AND candidate \<noteq> 0 \<or>
            mask_or_full tokens ''--ctmask'' AND candidate \<noteq> 0 then Collision
         else mark_loop tokens candidate rest True mark)
      else if is_logic_option token then Collision
      else mark_loop tokens candidate rest saw mark)"

definition audit_mark_semantics :: "string list \<Rightarrow> u64 \<Rightarrow> MangleAuditResult" where
  "audit_mark_semantics tokens candidate_mark = mark_loop tokens candidate_mark tokens False False"

datatype ChainTarget = NoTarget | Malformed | Named string

fun target_loop :: "string list \<Rightarrow> string option \<Rightarrow> ChainTarget" where
  "target_loop [] target = (case target of None \<Rightarrow> NoTarget | Some t \<Rightarrow> Named t)"
| "target_loop (token # rest) target =
     (if \<not> is_jump token then target_loop rest target
      else case rest of
        [] \<Rightarrow> Malformed
      | candidate # _ \<Rightarrow>
          if starts_with candidate ''-'' then Malformed
          else if target \<noteq> None \<and> target \<noteq> Some candidate then Malformed
          else target_loop rest (Some candidate))"

definition chain_target :: "string list \<Rightarrow> ChainTarget" where
  "chain_target tokens = target_loop tokens None"

subsection \<open>The table\<close>

type_synonym chain_rules = "string \<rightharpoonup> string list list"

fun scan_lines :: "string list list \<Rightarrow> string list \<Rightarrow> chain_rules \<Rightarrow> (string list \<times> chain_rules) option" where
  "scan_lines [] user_chains rules = Some (user_chains, rules)"
| "scan_lines (tokens # rest) user_chains rules =
     (case tokens of
        [] \<Rightarrow> scan_lines rest user_chains rules
      | first # args \<Rightarrow>
          if first = ''-N'' then
            (if length tokens \<noteq> 2 \<or> \<not> is_safe_chain_name (tokens ! 1) \<or> tokens ! 1 \<in> set user_chains
             then None else scan_lines rest (tokens ! 1 # user_chains) rules)
          else if first = ''-A'' then
            (if length tokens < 3 \<or> \<not> is_safe_chain_name (tokens ! 1) then None
             else scan_lines rest user_chains
               (rules(tokens ! 1 \<mapsto> (case rules (tokens ! 1) of None \<Rightarrow> [] | Some q \<Rightarrow> q) @ [tokens])))
          else scan_lines rest user_chains rules)"

text \<open>A table as the search sees it: the user chains, the rules per chain, the allowed lines and the
  mark. Chains are coloured 1 while they are visited and 2 when they are done.\<close>

record mangle_table =
  user_chains :: "string list"
  rules_by_chain :: chain_rules
  allowed_lines :: "string list"
  candidate_mark :: u64

type_synonym colours = "string \<rightharpoonup> u8"

definition rules_of :: "mangle_table \<Rightarrow> string \<Rightarrow> string list list" where
  "rules_of tab chain = (case rules_by_chain tab chain of None \<Rightarrow> [] | Some rs \<Rightarrow> rs)"

definition rule_verdict :: "mangle_table \<Rightarrow> string list \<Rightarrow> MangleAuditResult" where
  "rule_verdict tab tokens =
     (if join_spaces tokens \<in> set (allowed_lines tab) then Clean
      else audit_mark_semantics tokens (candidate_mark tab))"

primrec visit_rules ::
    "mangle_table \<Rightarrow> (string \<Rightarrow> colours \<Rightarrow> (MangleAuditResult \<times> colours) option) \<Rightarrow> string list list \<Rightarrow>
     colours \<Rightarrow> (MangleAuditResult \<times> colours) option" where
  "visit_rules tab visit [] states = Some (Clean, states)"
| "visit_rules tab visit (tokens # rest) states =
     (if rule_verdict tab tokens \<noteq> Clean then Some (rule_verdict tab tokens, states)
      else case chain_target tokens of
        Malformed \<Rightarrow> Some (Ambiguous, states)
      | NoTarget \<Rightarrow> visit_rules tab visit rest states
      | Named target \<Rightarrow>
          if target \<in> set (user_chains tab) then
            (case visit target states of
               None \<Rightarrow> None
             | Some (nested, states) \<Rightarrow>
                 if nested \<noteq> Clean then Some (nested, states) else visit_rules tab visit rest states)
          else if rules_by_chain tab target \<noteq> None then Some (Ambiguous, states)
          else visit_rules tab visit rest states)"

primrec visit :: "mangle_table \<Rightarrow> nat \<Rightarrow> string \<Rightarrow> colours \<Rightarrow> (MangleAuditResult \<times> colours) option" where
  "visit tab 0 chain states =
     (if states chain = Some 1 then Some (Ambiguous, states)
      else if states chain = Some 2 then Some (Clean, states)
      else None)"
| "visit tab (Suc fuel) chain states =
     (if states chain = Some 1 then Some (Ambiguous, states)
      else if states chain = Some 2 then Some (Clean, states)
      else case visit_rules tab (visit tab fuel) (rules_of tab chain) (states(chain \<mapsto> 1)) of
        None \<Rightarrow> None
      | Some (result, states) \<Rightarrow>
          if result \<noteq> Clean then Some (result, states) else Some (Clean, states(chain \<mapsto> 2)))"

definition search_fuel :: "mangle_table \<Rightarrow> nat" where
  "search_fuel tab = Suc (Suc (length (user_chains tab)))"

definition normalized :: "string list \<Rightarrow> string list" where
  "normalized lines = filter (\<lambda>line. line \<noteq> []) (map trim lines)"

definition scan_table :: "string list \<Rightarrow> string list \<Rightarrow> u64 \<Rightarrow> mangle_table option" where
  "scan_table lines allowed candidate =
     map_option (\<lambda>(user, rules). \<lparr>user_chains = user, rules_by_chain = rules, allowed_lines = allowed,
         candidate_mark = candidate\<rparr>)
       (scan_lines (map split_whitespace (normalized lines)) [] Map.empty)"

text \<open>Running out of fuel is the result \<open>None\<close>.\<close>

definition audit_mangle_output :: "string list \<Rightarrow> string list \<Rightarrow> string \<Rightarrow> u64 \<Rightarrow> MangleAuditResult option" where
  "audit_mangle_output lines allowed_product_lines mish_chain candidate =
     (if candidate = 0 then Some Ambiguous
      else if list_ex (\<lambda>line. str_contains line mish_chain \<and> line \<notin> set allowed_product_lines) (normalized lines)
      then Some Collision
      else case scan_table lines allowed_product_lines candidate of
        None \<Rightarrow> Some Ambiguous
      | Some tab \<Rightarrow> map_option fst (visit tab (search_fuel tab) ''OUTPUT'' Map.empty))"

subsection \<open>The search ends\<close>

definition coloured :: "colours \<Rightarrow> bool" where
  "coloured states \<longleftrightarrow> ran states \<subseteq> {1, 2}"

text \<open>A later state of the search: no colour is forgotten.\<close>

definition extends :: "colours \<Rightarrow> colours \<Rightarrow> bool" where
  "extends states states' \<longleftrightarrow> dom states \<subseteq> dom states' \<and> coloured states'"

lemma extends_refl: "coloured st \<Longrightarrow> extends st st"
  by (simp add: extends_def)

lemma extends_trans: "extends a b \<Longrightarrow> extends b c \<Longrightarrow> extends a c"
  by (auto simp: extends_def)

lemma coloured_upd: "coloured st \<Longrightarrow> v = 1 \<or> v = 2 \<Longrightarrow> coloured (st(c \<mapsto> v))"
  by (auto simp: coloured_def ran_def)

lemma colouredD: "coloured st \<Longrightarrow> st c = Some v \<Longrightarrow> v = 1 \<or> v = 2"
  by (auto simp: coloured_def ran_def)

lemma visit_rules_ends:
  assumes "\<And>t st. \<lbrakk>t \<in> set (user_chains tab); extends states st\<rbrakk> \<Longrightarrow>
      \<exists>r st'. go t st = Some (r, st') \<and> extends st st'"
  shows "extends states st \<Longrightarrow> \<exists>r st'. visit_rules tab go rs st = Some (r, st') \<and> extends st st'"
proof (induction rs arbitrary: st)
  case Nil
  then show ?case by (simp add: extends_def)
next
  case (Cons tokens rs)
  have same: "extends st st" using Cons.prems by (simp add: extends_def)
  show ?case
  proof (cases "chain_target tokens")
    case (Named t)
    show ?thesis
    proof (cases "t \<in> set (user_chains tab)")
      case True
      with assms Cons.prems obtain r st' where go: "go t st = Some (r, st')" "extends st st'" by blast
      with Cons.prems have "extends states st'" by (blast intro: extends_trans)
      from Cons.IH [OF this] obtain r' st'' where
        "visit_rules tab go rs st' = Some (r', st'')" "extends st' st''" by blast
      with go Named True same show ?thesis by (auto intro: extends_trans)
    next
      case False
      with Cons Named same show ?thesis by simp
    qed
  qed (use Cons same in simp_all)
qed

lemma visit_ends:
  assumes "chain \<in> insert ''OUTPUT'' (set (user_chains tab))" "coloured states"
    and "card (insert ''OUTPUT'' (set (user_chains tab)) - dom states) < fuel"
  shows "\<exists>r st'. visit tab fuel chain states = Some (r, st') \<and> extends states st'"
  using assms
proof (induction fuel arbitrary: chain states)
  case (Suc fuel)
  let ?all = "insert ''OUTPUT'' (set (user_chains tab))"
  show ?case
  proof (cases "chain \<in> dom states")
    case True
    with Suc.prems(2) show ?thesis by (auto dest: colouredD simp: extends_refl)
  next
    case False
    let ?st = "states(chain \<mapsto> 1)"
    have new: "coloured ?st" using Suc.prems(2) by (simp add: coloured_upd)
    have "\<exists>r st'. visit_rules tab (visit tab fuel) (rules_of tab chain) ?st = Some (r, st') \<and> extends ?st st'"
    proof (rule visit_rules_ends [OF _ extends_refl [OF new]])
      fix t st assume t: "t \<in> set (user_chains tab)" "extends ?st st"
      then have "card (?all - dom st) < card (?all - dom states)"
        using Suc.prems(1) False by (intro psubset_card_mono) (auto simp: extends_def)
      with Suc.IH Suc.prems(3) t show "\<exists>r st'. visit tab fuel t st = Some (r, st') \<and> extends st st'"
        by (simp add: extends_def)
    qed
    then obtain r st' where r: "visit_rules tab (visit tab fuel) (rules_of tab chain) ?st = Some (r, st')"
      "extends ?st st'" by blast
    then have "extends states st'" "extends states (st'(chain \<mapsto> 2))"
      by (auto simp: extends_def intro: coloured_upd)
    with False r show ?thesis by (auto simp: domIff)
  qed
qed simp

lemma search_ends: "\<exists>r st'. visit tab (search_fuel tab) ''OUTPUT'' Map.empty = Some (r, st')"
proof -
  have "card (insert ''OUTPUT'' (set (user_chains tab))) \<le> Suc (length (user_chains tab))"
    by (simp add: card_insert_if card_length le_SucI)
  then show ?thesis
    using visit_ends [of "''OUTPUT''" tab Map.empty "search_fuel tab"]
    by (auto simp: search_fuel_def coloured_def)
qed

subsection \<open>What the search accepts\<close>

definition rule_ok :: "mangle_table \<Rightarrow> string list \<Rightarrow> bool" where
  "rule_ok tab tokens \<longleftrightarrow> rule_verdict tab tokens = Clean \<and>
     (case chain_target tokens of
        Malformed \<Rightarrow> False
      | NoTarget \<Rightarrow> True
      | Named t \<Rightarrow> t \<in> set (user_chains tab) \<or> rules_by_chain tab t = None)"

definition chain_ok :: "mangle_table \<Rightarrow> string \<Rightarrow> bool" where
  "chain_ok tab c \<longleftrightarrow> (\<forall>tokens \<in> set (rules_of tab c). rule_ok tab tokens)"

definition calls :: "mangle_table \<Rightarrow> string \<Rightarrow> string \<Rightarrow> bool" where
  "calls tab c t \<longleftrightarrow> t \<in> set (user_chains tab) \<and> (\<exists>tokens \<in> set (rules_of tab c). chain_target tokens = Named t)"

text \<open>A chain whose rules are in order and that calls only such chains, to a finite depth.\<close>

inductive safe_chain :: "mangle_table \<Rightarrow> string \<Rightarrow> bool" for tab where
  safe: "chain_ok tab c \<Longrightarrow> (\<And>t. calls tab c t \<Longrightarrow> safe_chain tab t) \<Longrightarrow> safe_chain tab c"

inductive_cases safe_chainE: "safe_chain tab c"

lemma safe_reach: "(calls tab)\<^sup>*\<^sup>* c d \<Longrightarrow> safe_chain tab c \<Longrightarrow> safe_chain tab d"
  by (induction rule: rtranclp_induct) (auto elim: safe_chainE)

lemma safe_acyclic: "safe_chain tab c \<Longrightarrow> \<not> (calls tab)\<^sup>+\<^sup>+ c c"
proof (induction rule: safe_chain.induct)
  case (safe c)
  show ?case
  proof
    assume "(calls tab)\<^sup>+\<^sup>+ c c"
    then obtain t where t: "calls tab c t" "(calls tab)\<^sup>*\<^sup>* t c" by (meson tranclpD)
    then have "(calls tab)\<^sup>+\<^sup>+ t t" by (meson rtranclp_into_tranclp1)
    with safe t show False by blast
  qed
qed

lemma safe_chain_iff:
  "safe_chain tab c \<longleftrightarrow> (\<forall>d. (calls tab)\<^sup>*\<^sup>* c d \<longrightarrow> chain_ok tab d \<and> \<not> (calls tab)\<^sup>+\<^sup>+ d d)"
proof (intro iffI allI impI conjI)
  fix d assume "safe_chain tab c" "(calls tab)\<^sup>*\<^sup>* c d"
  then have d: "safe_chain tab d" by (blast intro: safe_reach)
  then show "chain_ok tab d" by (rule safe_chainE)
  show "\<not> (calls tab)\<^sup>+\<^sup>+ d d" using d by (rule safe_acyclic)
next
  assume all: "\<forall>d. (calls tab)\<^sup>*\<^sup>* c d \<longrightarrow> chain_ok tab d \<and> \<not> (calls tab)\<^sup>+\<^sup>+ d d"
  let ?E = "{(t, d). (calls tab)\<^sup>*\<^sup>* c d \<and> calls tab d t}"
  have sub: "(calls tab)\<^sup>+\<^sup>+ d t" if "(t, d) \<in> ?E\<^sup>+" for t d
    using that by (induction rule: trancl_induct) (auto intro: tranclp_trans)
  have reach: "(calls tab)\<^sup>*\<^sup>* c d" if "(t, d) \<in> ?E\<^sup>+" for t d
    using that by (induction rule: trancl_induct) auto
  have "?E \<subseteq> set (user_chains tab) \<times> insert c (set (user_chains tab))"
    by (auto simp: calls_def elim: rtranclp.cases)
  then have "finite ?E" by (rule finite_subset) simp
  moreover have "acyclic ?E"
    unfolding acyclic_def using sub reach all by blast
  ultimately have "wf ?E" by (rule finite_acyclic_wf)
  then show "safe_chain tab c"
  proof -
    have "(calls tab)\<^sup>*\<^sup>* c d \<longrightarrow> safe_chain tab d" for d
      using \<open>wf ?E\<close>
    proof (induction d rule: wf_induct_rule)
      case (less d)
      show ?case
      proof
        assume d: "(calls tab)\<^sup>*\<^sup>* c d"
        with all have "chain_ok tab d" by blast
        then show "safe_chain tab d"
        proof (rule safe_chain.safe)
          fix t assume "calls tab d t"
          with d less show "safe_chain tab t" by (auto intro: rtranclp.rtrancl_into_rtrancl)
        qed
      qed
    qed
    then show ?thesis by blast
  qed
qed

lemma visit_rules_sound:
  assumes "\<And>t st st'. \<lbrakk>go t st = Some (Clean, st'); \<forall>b. st b = Some 2 \<longrightarrow> safe_chain tab b\<rbrakk> \<Longrightarrow>
      safe_chain tab t \<and> (\<forall>b. st' b = Some 2 \<longrightarrow> safe_chain tab b)"
  shows "visit_rules tab go rs st = Some (Clean, st') \<Longrightarrow> \<forall>b. st b = Some 2 \<longrightarrow> safe_chain tab b \<Longrightarrow>
    (\<forall>tokens \<in> set rs. rule_ok tab tokens \<and>
       (\<forall>t. chain_target tokens = Named t \<and> t \<in> set (user_chains tab) \<longrightarrow> safe_chain tab t)) \<and>
    (\<forall>b. st' b = Some 2 \<longrightarrow> safe_chain tab b)"
proof (induction rs arbitrary: st)
  case (Cons tokens rs)
  show ?case
  proof (cases "chain_target tokens")
    case (Named t)
    show ?thesis
    proof (cases "t \<in> set (user_chains tab)")
      case True
      with Cons.prems(1) Named obtain st1 where go: "go t st = Some (Clean, st1)"
        "visit_rules tab go rs st1 = Some (Clean, st')" "rule_verdict tab tokens = Clean"
        by (auto split: if_splits option.splits prod.splits)
      from assms [OF go(1) Cons.prems(2)] have "safe_chain tab t" "\<forall>b. st1 b = Some 2 \<longrightarrow> safe_chain tab b"
        by simp_all
      with Cons.IH [OF go(2)] go(3) Named True show ?thesis by (simp add: rule_ok_def)
    next
      case False
      with Cons.prems(1) Named have "visit_rules tab go rs st = Some (Clean, st')" "rule_ok tab tokens"
        by (simp_all add: rule_ok_def split: if_splits)
      with Cons.IH [OF _ Cons.prems(2)] Named False show ?thesis by simp
    qed
  next
    case NoTarget
    with Cons.prems(1) have "visit_rules tab go rs st = Some (Clean, st')" "rule_ok tab tokens"
      by (simp_all add: rule_ok_def split: if_splits)
    with Cons.IH [OF _ Cons.prems(2)] NoTarget show ?thesis by simp
  next
    case Malformed
    with Cons.prems(1) show ?thesis by (simp split: if_splits)
  qed
qed simp

lemma visit_sound:
  "visit tab fuel c st = Some (Clean, st') \<Longrightarrow> \<forall>b. st b = Some 2 \<longrightarrow> safe_chain tab b \<Longrightarrow>
   safe_chain tab c \<and> (\<forall>b. st' b = Some 2 \<longrightarrow> safe_chain tab b)"
proof (induction fuel arbitrary: c st st')
  case 0
  then show ?case by (auto split: if_splits)
next
  case (Suc fuel)
  show ?case
  proof (cases "st c = Some 1 \<or> st c = Some 2")
    case True
    with Suc.prems show ?thesis by auto
  next
    case False
    with Suc.prems(1) obtain st1 where run:
      "visit_rules tab (visit tab fuel) (rules_of tab c) (st(c \<mapsto> 1)) = Some (Clean, st1)" "st' = st1(c \<mapsto> 2)"
      by (auto split: if_splits option.splits prod.splits)
    have grey: "\<forall>b. (st(c \<mapsto> 1)) b = Some 2 \<longrightarrow> safe_chain tab b" using Suc.prems(2) by simp
    have rules: "(\<forall>tokens \<in> set (rules_of tab c). rule_ok tab tokens \<and>
        (\<forall>t. chain_target tokens = Named t \<and> t \<in> set (user_chains tab) \<longrightarrow> safe_chain tab t)) \<and>
      (\<forall>b. st1 b = Some 2 \<longrightarrow> safe_chain tab b)"
    proof (rule visit_rules_sound [where go = "visit tab fuel", OF _ run(1) grey])
      fix t st st'
      assume "visit tab fuel t st = Some (Clean, st')" "\<forall>b. st b = Some 2 \<longrightarrow> safe_chain tab b"
      then show "safe_chain tab t \<and> (\<forall>b. st' b = Some 2 \<longrightarrow> safe_chain tab b)" by (rule Suc.IH)
    qed
    then have "safe_chain tab c"
      by - (rule safe_chain.safe, auto simp: chain_ok_def calls_def)
    with rules run(2) show ?thesis by simp
  qed
qed

text \<open>The grey chains are those a search has entered and not left; a completed call restores them.\<close>

definition grey :: "colours \<Rightarrow> string set" where
  "grey st = {c. st c = Some 1}"

definition avoids :: "mangle_table \<Rightarrow> string \<Rightarrow> colours \<Rightarrow> bool" where
  "avoids tab c st \<longleftrightarrow> (\<forall>g \<in> grey st. \<not> (calls tab)\<^sup>*\<^sup>* c g)"

lemma grey_upd: "grey (st(c \<mapsto> 1)) = insert c (grey st)" "grey (st(c \<mapsto> 2)) = grey st - {c}"
  by (auto simp: grey_def)

lemma visit_rules_complete:
  assumes "\<And>t st. \<lbrakk>t \<in> T; grey st = G; go t st \<noteq> None\<rbrakk> \<Longrightarrow>
      \<exists>st'. go t st = Some (Clean, st') \<and> grey st' = G"
    and "visit_rules tab go rs st \<noteq> None" "grey st = G"
    and "\<forall>tokens \<in> set rs. rule_ok tab tokens \<and>
       (\<forall>t. chain_target tokens = Named t \<and> t \<in> set (user_chains tab) \<longrightarrow> t \<in> T)"
  shows "\<exists>st'. visit_rules tab go rs st = Some (Clean, st') \<and> grey st' = G"
  using assms(2-4)
proof (induction rs arbitrary: st)
  case (Cons tokens rs)
  have ok: "rule_ok tab tokens" using Cons.prems(3) by simp
  show ?case
  proof (cases "chain_target tokens")
    case (Named t)
    show ?thesis
    proof (cases "t \<in> set (user_chains tab)")
      case True
      with Named Cons.prems(3) have "t \<in> T" by simp
      moreover have "go t st \<noteq> None"
      proof
        assume "go t st = None"
        with Named True Cons.prems(1) ok show False by (simp add: rule_ok_def)
      qed
      ultimately obtain st1 where go: "go t st = Some (Clean, st1)" "grey st1 = G"
        using assms(1) Cons.prems(2) by blast
      with Named True Cons.prems(1) ok have "visit_rules tab go rs st1 \<noteq> None" by (simp add: rule_ok_def)
      with Cons.IH [OF _ go(2)] Cons.prems(3) go(1) Named True ok show ?thesis by (simp add: rule_ok_def)
    next
      case False
      with ok Named Cons show ?thesis by (simp add: rule_ok_def)
    qed
  next
    case NoTarget
    with ok Cons show ?thesis by (simp add: rule_ok_def)
  next
    case Malformed
    with ok show ?thesis by (simp add: rule_ok_def)
  qed
qed simp

lemma visit_complete:
  assumes "safe_chain tab c"
  shows "avoids tab c st \<Longrightarrow> visit tab fuel c st \<noteq> None \<Longrightarrow>
    \<exists>st'. visit tab fuel c st = Some (Clean, st') \<and> grey st' = grey st"
  using assms
proof (induction arbitrary: fuel st rule: safe_chain.induct)
  case (safe c)
  have white: "st c \<noteq> Some 1" using safe.prems(1) by (auto simp: avoids_def grey_def)
  show ?case
  proof (cases "st c = Some 2")
    case True
    then show ?thesis by (cases fuel) simp_all
  next
    case False
    with white safe.prems(2) obtain n where n: "fuel = Suc n" by (cases fuel) auto
    let ?st = "st(c \<mapsto> 1)"
    have acyclic: "\<not> (calls tab)\<^sup>*\<^sup>* t c" if "calls tab c t" for t
      using safe_acyclic [OF safe_chain.safe [OF safe(1,2)]] that by (meson rtranclp_into_tranclp2)
    have later: "\<exists>st''. visit tab n t st' = Some (Clean, st'') \<and> grey st'' = grey ?st"
      if "t \<in> Collect (calls tab c)" "grey st' = grey ?st" "visit tab n t st' \<noteq> None" for t st'
    proof -
      have "avoids tab t st'"
        using that(1,2) acyclic safe.prems(1)
        by (auto simp: avoids_def grey_def dest: converse_rtranclp_into_rtranclp [of "calls tab" c t])
      from safe(3) [OF _ this that(3)] that(1,2) show ?thesis by simp
    qed
    have some: "visit_rules tab (visit tab n) (rules_of tab c) ?st \<noteq> None"
      using safe.prems(2) n white False by (auto split: option.splits)
    have rules: "\<forall>tokens \<in> set (rules_of tab c). rule_ok tab tokens \<and>
        (\<forall>t. chain_target tokens = Named t \<and> t \<in> set (user_chains tab) \<longrightarrow> t \<in> Collect (calls tab c))"
      using safe(1) by (auto simp: chain_ok_def calls_def)
    have "\<exists>st'. visit_rules tab (visit tab n) (rules_of tab c) ?st = Some (Clean, st') \<and> grey st' = grey ?st"
      by (rule visit_rules_complete [where T = "Collect (calls tab c)", OF _ some refl rules]) (rule later)
    then obtain st' where
      "visit_rules tab (visit tab n) (rules_of tab c) ?st = Some (Clean, st')" "grey st' = grey ?st"
      by blast
    moreover have "grey (st'(c \<mapsto> 2)) = grey st" if "grey st' = grey ?st"
      using that white by (simp add: grey_upd) (simp add: grey_def)
    ultimately show ?thesis using n white False by simp
  qed
qed

lemma search_clean_iff:
  "map_option fst (visit tab (search_fuel tab) ''OUTPUT'' Map.empty) = Some Clean \<longleftrightarrow> safe_chain tab ''OUTPUT''"
proof
  assume "map_option fst (visit tab (search_fuel tab) ''OUTPUT'' Map.empty) = Some Clean"
  then obtain st' where "visit tab (search_fuel tab) ''OUTPUT'' Map.empty = Some (Clean, st')"
    by (cases "visit tab (search_fuel tab) ''OUTPUT'' Map.empty") auto
  from visit_sound [OF this] show "safe_chain tab ''OUTPUT''" by simp
next
  assume safe: "safe_chain tab ''OUTPUT''"
  have "avoids tab ''OUTPUT'' Map.empty" by (simp add: avoids_def grey_def)
  moreover have "visit tab (search_fuel tab) ''OUTPUT'' Map.empty \<noteq> None" using search_ends [of tab] by auto
  ultimately show "map_option fst (visit tab (search_fuel tab) ''OUTPUT'' Map.empty) = Some Clean"
    using visit_complete [OF safe] by fastforce
qed

text \<open>C29. The audit always ends: the fuel of the search, the number of user chains plus two, is
  enough for every table, whatever its chains call, also when they call each other in a cycle.\<close>

theorem mangle_audit_terminates: "\<exists>r. audit_mangle_output lines allowed chain mark = Some r"
proof -
  have "\<exists>r. map_option fst (visit tab (search_fuel tab) ''OUTPUT'' Map.empty) = Some r" for tab
    using search_ends [of tab] by auto
  then show ?thesis by (auto simp: audit_mangle_output_def split: option.splits)
qed

text \<open>C30. A table is clean exactly if the mark is not zero, every line that mentions the product's
  chain is one of the product's own lines, every chain declaration and every appended rule is well
  formed and declared once, and every chain that can be reached from \<open>OUTPUT\<close> through calls lies on
  no call cycle and has only rules that are the product's own or leave the mark's bits alone as far as
  the mask rules see, with one unambiguous target that is a declared chain or has no rules here.\<close>

theorem mangle_audit_clean_iff:
  "audit_mangle_output lines allowed chain mark = Some Clean \<longleftrightarrow>
     mark \<noteq> 0 \<and> \<not> (\<exists>line \<in> set (normalized lines). str_contains line chain \<and> line \<notin> set allowed) \<and>
     (\<exists>tab. scan_table lines allowed mark = Some tab \<and>
        \<not> (\<exists>c. (calls tab)\<^sup>*\<^sup>* ''OUTPUT'' c \<and> (\<not> chain_ok tab c \<or> (calls tab)\<^sup>+\<^sup>+ c c)))"
  using safe_chain_iff [of "the (scan_table lines allowed mark)" "''OUTPUT''"]
  by (cases "scan_table lines allowed mark")
     (auto simp: audit_mangle_output_def search_clean_iff list_ex_iff simp del: map_option_eq_Some
           split: if_splits)

theorem mangle_audit_clean_iff_witness:
  "audit_mangle_output [''-P OUTPUT ACCEPT'', ''-A OUTPUT -j MARK --set-xmark 0x1/0x1''] [] ''MISH_EGRESS_V1'' 0x200000 =
     Some Clean"
proof -
  let ?lines = "[''-P OUTPUT ACCEPT'', ''-A OUTPUT -j MARK --set-xmark 0x1/0x1'']"
  let ?rule = "[''-A'', ''OUTPUT'', ''-j'', ''MARK'', ''--set-xmark'', ''0x1/0x1'']"
  let ?tab = "\<lparr>user_chains = [], rules_by_chain = [''OUTPUT'' \<mapsto> [?rule]], allowed_lines = [],
    candidate_mark = 0x200000\<rparr>"
  have normal: "normalized ?lines = ?lines"
    "map split_whitespace ?lines = [[''-P'', ''OUTPUT'', ''ACCEPT''], ?rule]" "is_safe_chain_name ''OUTPUT''"
    by code_simp+
  then have scan: "scan_table ?lines [] 0x200000 = Some ?tab" by (simp add: scan_table_def)
  have "split_when (\<lambda>c. c = CHR ''/'') ''0x1/0x1'' = [''0x1'', ''0x1'']" by code_simp
  moreover have "parse_mark_number ''0x1'' = Some 1"
    by (simp add: parse_mark_number_def strip_prefix_def parse_unsigned_def digit_value_def
        to_ascii_lowercase_def byte_of_def)
  ultimately have "mark_spec_touches ''0x1/0x1'' 0x200000 = Some False"
    by (simp add: mark_spec_touches_def IPV4_FULL_MASK_def)
  then have "audit_mark_semantics ?rule 0x200000 = Clean"
    by (simp add: audit_mark_semantics_def is_jump_def is_mark_option_def is_mask_option_def
        is_transfer_option_def is_logic_option_def)
  moreover have "chain_target ?rule = Named ''MARK''" by code_simp
  ultimately have "chain_ok ?tab c" for c
    by (auto simp: chain_ok_def rules_of_def rule_ok_def rule_verdict_def)
  moreover have "\<not> (calls ?tab)\<^sup>+\<^sup>+ c c" for c
    by (auto simp: calls_def dest: tranclpD)
  moreover have "\<not> (\<exists>line \<in> set ?lines. str_contains line ''MISH_EGRESS_V1'')"
  proof -
    have "\<not> list_ex (\<lambda>line. str_contains line ''MISH_EGRESS_V1'') ?lines" by code_simp
    then show ?thesis by (simp add: list_ex_iff)
  qed
  ultimately show ?thesis
    using normal(1) scan by (subst mangle_audit_clean_iff) auto
qed

end
