(* ===== verification/Root_Policy.thy ===== *)
theory Root_Policy
  imports Root_Audit Mish_Prelude
begin

text \<open>
  The root-policy contract (\<open>RootPolicyContract\<close> of \<open>crates/cellular/src/root_policy.rs\<close>): the policy
  identities, the exact lines and commands of the product's policy, the choice of an identity for an
  observed system, and the verification of the installed or removed policy. A snapshot holds the lines
  that \<open>ip rule show\<close> and \<open>iptables -S\<close> printed.
\<close>

definition MAX_RECONCILE_PASSES :: usize where "MAX_RECONCILE_PASSES = 8"
definition IPTABLES :: string where "IPTABLES = ''iptables''"
definition IP6TABLES :: string where "IP6TABLES = ''ip6tables''"
definition IPV4_RULE_SHOW :: string where "IPV4_RULE_SHOW = ''ip -4 rule show''"
definition IPV6_RULE_SHOW :: string where "IPV6_RULE_SHOW = ''ip -6 rule show''"
definition RELEASE_MISH_CHAIN :: string where "RELEASE_MISH_CHAIN = ''MISH_EGRESS_V1''"
definition DEBUG_MISH_CHAIN :: string where "DEBUG_MISH_CHAIN = ''MISH_DEBUG_EGRESS_V1''"

datatype RootPolicyNamespace = Release | Debug

record PolicyIdentity =
  mark_hex :: string
  mark_value :: u64
  lookup_priority :: u32
  guard_priority :: u32

definition RELEASE_POLICY_CANDIDATES :: "PolicyIdentity list" where
  "RELEASE_POLICY_CANDIDATES =
     [\<lparr>mark_hex = ''0x200000'', mark_value = 0x200000, lookup_priority = 9500, guard_priority = 9501\<rparr>,
      \<lparr>mark_hex = ''0x400000'', mark_value = 0x400000, lookup_priority = 9520, guard_priority = 9521\<rparr>,
      \<lparr>mark_hex = ''0x800000'', mark_value = 0x800000, lookup_priority = 9540, guard_priority = 9541\<rparr>,
      \<lparr>mark_hex = ''0x1000000'', mark_value = 0x1000000, lookup_priority = 9560, guard_priority = 9561\<rparr>]"

definition DEBUG_POLICY_CANDIDATES :: "PolicyIdentity list" where
  "DEBUG_POLICY_CANDIDATES =
     [\<lparr>mark_hex = ''0x2000000'', mark_value = 0x2000000, lookup_priority = 9580, guard_priority = 9581\<rparr>,
      \<lparr>mark_hex = ''0x4000000'', mark_value = 0x4000000, lookup_priority = 9600, guard_priority = 9601\<rparr>,
      \<lparr>mark_hex = ''0x8000000'', mark_value = 0x8000000, lookup_priority = 9620, guard_priority = 9621\<rparr>,
      \<lparr>mark_hex = ''0x10000000'', mark_value = 0x10000000, lookup_priority = 9640, guard_priority = 9641\<rparr>]"

record RootPolicySnapshot =
  ipv4_rules :: "string list"
  ipv6_rules :: "string list"
  ipv4_mangle :: "string list"
  ipv6_mangle :: "string list"

datatype PolicyIdentityResolution = Selected PolicyIdentity | IdentityCollision

datatype MangleFamilyState =
    Missing | DetachedExact | DetachedMismatch | AttachedExact | AttachedDuplicateExact | InvalidReferenced

datatype RootPolicyStructuralFailure =
    IdentityUnavailable | ReservedPolicyCollision | MangleMismatch | GuardMismatch | LookupStillPresent

record RootPolicyContract =
  product_uid :: u32
  policy_namespace :: RootPolicyNamespace
  active_identity :: "PolicyIdentity option"

definition RootPolicyContract_new :: "u32 \<Rightarrow> RootPolicyNamespace \<Rightarrow> RootPolicyContract option" where
  "RootPolicyContract_new uid ns =
     (if uid = 0 then None
      else Some \<lparr>product_uid = uid, policy_namespace = ns, active_identity = None\<rparr>)"

definition clear_active_identity :: "RootPolicyContract \<Rightarrow> RootPolicyContract" where
  "clear_active_identity c = c\<lparr>active_identity := None\<rparr>"

definition chain_name :: "RootPolicyContract \<Rightarrow> string" where
  "chain_name c = (case policy_namespace c of Release \<Rightarrow> RELEASE_MISH_CHAIN | Debug \<Rightarrow> DEBUG_MISH_CHAIN)"

definition candidates :: "RootPolicyContract \<Rightarrow> PolicyIdentity list" where
  "candidates c =
     (case policy_namespace c of Release \<Rightarrow> RELEASE_POLICY_CANDIDATES | Debug \<Rightarrow> DEBUG_POLICY_CANDIDATES)"

definition legacy_mark_hex :: "RootPolicyContract \<Rightarrow> string" where
  "legacy_mark_hex c = mark_hex (candidates c ! 0)"

subsection \<open>Lines and commands\<close>

definition show_u32 :: "u32 \<Rightarrow> string" where
  "show_u32 n = show_nat (unat n)"

definition line_count :: "string \<Rightarrow> string list \<Rightarrow> usize" where
  "line_count l lines = length (filter (\<lambda>line. line = l) lines)"

definition prefix_matches :: "string list \<Rightarrow> string list \<Rightarrow> bool" where
  "prefix_matches actual expected \<longleftrightarrow>
     length actual \<le> length expected \<and> actual = take (length actual) expected"

definition chain_lines :: "string list \<Rightarrow> string \<Rightarrow> string list" where
  "chain_lines lines chain = filter (\<lambda>line. starts_with line (''-A '' @ chain @ '' '')) lines"

definition mark_spec :: "PolicyIdentity \<Rightarrow> string" where
  "mark_spec identity = mark_hex identity @ ''/'' @ mark_hex identity"

definition chain_definition :: "RootPolicyContract \<Rightarrow> string" where
  "chain_definition c = ''-N '' @ chain_name c"

definition output_jump :: "RootPolicyContract \<Rightarrow> string" where
  "output_jump c = ''-A OUTPUT -m owner --uid-owner '' @ show_u32 (product_uid c) @ '' -j '' @ chain_name c"

definition output_jump_count :: "RootPolicyContract \<Rightarrow> string list \<Rightarrow> usize" where
  "output_jump_count c lines = line_count (output_jump c) lines"

definition output_jump_delete :: "RootPolicyContract \<Rightarrow> string \<Rightarrow> string" where
  "output_jump_delete c binary =
     binary @ '' -t mangle -D OUTPUT -m owner --uid-owner '' @ show_u32 (product_uid c) @ '' -j '' @ chain_name c"

definition stale_owner_jump_delete :: "RootPolicyContract \<Rightarrow> string \<Rightarrow> u32 \<Rightarrow> string" where
  "stale_owner_jump_delete c binary stale_uid =
     binary @ '' -t mangle -D OUTPUT -m owner --uid-owner '' @ show_u32 stale_uid @ '' -j '' @ chain_name c"

definition create_chain_command :: "RootPolicyContract \<Rightarrow> string \<Rightarrow> string" where
  "create_chain_command c binary = binary @ '' -t mangle -N '' @ chain_name c"

definition flush_chain_command :: "RootPolicyContract \<Rightarrow> string \<Rightarrow> string" where
  "flush_chain_command c binary = binary @ '' -t mangle -F '' @ chain_name c"

definition delete_chain_command :: "RootPolicyContract \<Rightarrow> string \<Rightarrow> string" where
  "delete_chain_command c binary = binary @ '' -t mangle -X '' @ chain_name c"

definition output_jump_add :: "RootPolicyContract \<Rightarrow> string \<Rightarrow> string" where
  "output_jump_add c binary = binary @ '' -t mangle '' @ output_jump c"

definition legacy_selector :: "RootPolicyContract \<Rightarrow> string" where
  "legacy_selector c =
     '' OUTPUT -m owner --uid-owner '' @ show_u32 (product_uid c) @
     '' -m conntrack --ctstate NEW -j MARK --set-xmark '' @ legacy_mark_hex c @ ''/'' @ legacy_mark_hex c"

definition legacy_selector_line :: "RootPolicyContract \<Rightarrow> string" where
  "legacy_selector_line c = ''-A'' @ legacy_selector c"

definition legacy_selector_check :: "RootPolicyContract \<Rightarrow> string \<Rightarrow> string" where
  "legacy_selector_check c binary = binary @ '' -t mangle -C'' @ legacy_selector c"

definition legacy_selector_delete :: "RootPolicyContract \<Rightarrow> string \<Rightarrow> string" where
  "legacy_selector_delete c binary = binary @ '' -t mangle -D'' @ legacy_selector c"

definition guard_command :: "string \<Rightarrow> PolicyIdentity \<Rightarrow> string" where
  "guard_command verb identity =
     verb @ '' pref '' @ show_u32 (guard_priority identity) @ '' fwmark '' @ mark_spec identity @ '' unreachable''"

definition ipv4_guard_add :: "RootPolicyContract \<Rightarrow> string option" where
  "ipv4_guard_add c = map_option (guard_command ''ip -4 rule add'') (active_identity c)"

definition ipv6_guard_add :: "RootPolicyContract \<Rightarrow> string option" where
  "ipv6_guard_add c = map_option (guard_command ''ip -6 rule add'') (active_identity c)"

definition ipv4_guard_delete :: "RootPolicyContract \<Rightarrow> string option" where
  "ipv4_guard_delete c = map_option (guard_command ''ip -4 rule del'') (active_identity c)"

definition ipv6_guard_delete :: "RootPolicyContract \<Rightarrow> string option" where
  "ipv6_guard_delete c = map_option (guard_command ''ip -6 rule del'') (active_identity c)"

definition lookup_command :: "string \<Rightarrow> string \<Rightarrow> PolicyIdentity \<Rightarrow> string" where
  "lookup_command verb table identity =
     verb @ '' pref '' @ show_u32 (lookup_priority identity) @ '' fwmark '' @ mark_spec identity @
     '' lookup '' @ table"

definition ipv4_lookup_add :: "RootPolicyContract \<Rightarrow> string \<Rightarrow> string option" where
  "ipv4_lookup_add c table =
     (if \<not> is_safe_table_token table then None
      else map_option (lookup_command ''ip -4 rule add'' table) (active_identity c))"

definition ipv4_lookup_delete :: "RootPolicyContract \<Rightarrow> string \<Rightarrow> string option" where
  "ipv4_lookup_delete c table =
     (if \<not> is_safe_table_token table then None
      else map_option (lookup_command ''ip -4 rule del'' table) (active_identity c))"

text \<open>The four rules of the product's chain; the families differ in the loopback network.\<close>

definition owned_chain_lines :: "string \<Rightarrow> RootPolicyContract \<Rightarrow> PolicyIdentity \<Rightarrow> string list" where
  "owned_chain_lines loopback c identity =
     [''-A '' @ chain_name c @ '' -d '' @ loopback @ '' -j RETURN'',
      ''-A '' @ chain_name c @ '' -j CONNMARK --restore-mark --nfmask '' @ mark_hex identity @
        '' --ctmask '' @ mark_hex identity,
      ''-A '' @ chain_name c @ '' -m conntrack --ctstate NEW -j MARK --set-xmark '' @ mark_spec identity,
      ''-A '' @ chain_name c @ '' -m conntrack --ctstate NEW -m mark --mark '' @ mark_spec identity @
        '' -j CONNMARK --save-mark --nfmask '' @ mark_hex identity @ '' --ctmask '' @ mark_hex identity]"

definition ipv4_owned_chain_lines_for :: "RootPolicyContract \<Rightarrow> PolicyIdentity \<Rightarrow> string list" where
  "ipv4_owned_chain_lines_for = owned_chain_lines ''127.0.0.0/8''"

definition ipv6_owned_chain_lines_for :: "RootPolicyContract \<Rightarrow> PolicyIdentity \<Rightarrow> string list" where
  "ipv6_owned_chain_lines_for = owned_chain_lines ''::1/128''"

definition ipv4_owned_chain_lines :: "RootPolicyContract \<Rightarrow> string list option" where
  "ipv4_owned_chain_lines c = map_option (ipv4_owned_chain_lines_for c) (active_identity c)"

definition ipv6_owned_chain_lines :: "RootPolicyContract \<Rightarrow> string list option" where
  "ipv6_owned_chain_lines c = map_option (ipv6_owned_chain_lines_for c) (active_identity c)"

definition ipv4_allowed_mangle_lines_for :: "RootPolicyContract \<Rightarrow> PolicyIdentity \<Rightarrow> string list" where
  "ipv4_allowed_mangle_lines_for c identity =
     chain_definition c # output_jump c # ipv4_owned_chain_lines_for c identity @ [legacy_selector_line c]"

definition ipv6_allowed_mangle_lines_for :: "RootPolicyContract \<Rightarrow> PolicyIdentity \<Rightarrow> string list" where
  "ipv6_allowed_mangle_lines_for c identity =
     chain_definition c # output_jump c # ipv6_owned_chain_lines_for c identity @ [legacy_selector_line c]"

subsection \<open>Ownership of routing rules\<close>

definition line_is_owned_lookup_for :: "string \<Rightarrow> PolicyIdentity \<Rightarrow> bool" where
  "line_is_owned_lookup_for line identity \<longleftrightarrow>
     rpdb_priority line = Some (lookup_priority identity) \<and>
     (let tokens = split_whitespace line
      in token_after tokens ''fwmark'' = Some (mark_spec identity) \<and>
         (case token_after tokens ''lookup'' of None \<Rightarrow> False | Some t \<Rightarrow> is_safe_table_token t))"

definition line_is_owned_guard_for :: "string \<Rightarrow> PolicyIdentity \<Rightarrow> bool" where
  "line_is_owned_guard_for line identity \<longleftrightarrow>
     rpdb_priority line = Some (guard_priority identity) \<and>
     (let tokens = split_whitespace line
      in token_after tokens ''fwmark'' = Some (mark_spec identity) \<and> ''unreachable'' \<in> set tokens)"

definition is_owned_guard :: "RootPolicyContract \<Rightarrow> string \<Rightarrow> bool" where
  "is_owned_guard c line =
     (case active_identity c of None \<Rightarrow> False
      | Some identity \<Rightarrow>
          rpdb_priority line = Some (guard_priority identity) \<and>
          (let tokens = split_whitespace line
           in token_after tokens ''fwmark'' = Some (mark_spec identity) \<and> ''unreachable'' \<in> set tokens))"

definition is_owned_ipv4_guard :: "RootPolicyContract \<Rightarrow> string \<Rightarrow> bool" where
  "is_owned_ipv4_guard = is_owned_guard"

definition is_owned_ipv6_guard :: "RootPolicyContract \<Rightarrow> string \<Rightarrow> bool" where
  "is_owned_ipv6_guard = is_owned_guard"

fun owned_tables_loop :: "PolicyIdentity \<Rightarrow> string list \<Rightarrow> string list \<Rightarrow> string list" where
  "owned_tables_loop identity [] result = result"
| "owned_tables_loop identity (line # lines) result =
     (if rpdb_priority line \<noteq> Some (lookup_priority identity) then owned_tables_loop identity lines result
      else let tokens = split_whitespace line
           in if token_after tokens ''fwmark'' = Some (mark_spec identity)
              then owned_tables_loop identity lines (push_table (token_after tokens ''lookup'') result)
              else owned_tables_loop identity lines result)"

definition owned_ipv4_lookup_tables :: "RootPolicyContract \<Rightarrow> string list \<Rightarrow> string list" where
  "owned_ipv4_lookup_tables c lines =
     (case active_identity c of None \<Rightarrow> [] | Some identity \<Rightarrow> owned_tables_loop identity lines [])"

definition is_owned_ipv4_lookup :: "RootPolicyContract \<Rightarrow> string \<Rightarrow> bool" where
  "is_owned_ipv4_lookup c line \<longleftrightarrow> owned_ipv4_lookup_tables c [line] \<noteq> []"

definition reserved_line :: "string \<Rightarrow> PolicyIdentity \<Rightarrow> bool" where
  "reserved_line line identity \<longleftrightarrow>
     rpdb_priority line = Some (lookup_priority identity) \<or>
     rpdb_priority line = Some (guard_priority identity) \<or>
     rpdb_line_touches_reserved_mark line (mark_value identity)"

definition is_foreign_reserved_ipv4_line :: "string \<Rightarrow> PolicyIdentity \<Rightarrow> bool" where
  "is_foreign_reserved_ipv4_line line identity =
     (if line_is_owned_lookup_for line identity \<or> line_is_owned_guard_for line identity then False
      else reserved_line line identity)"

definition is_foreign_reserved_ipv6_line :: "string \<Rightarrow> PolicyIdentity \<Rightarrow> bool" where
  "is_foreign_reserved_ipv6_line line identity =
     (if line_is_owned_guard_for line identity then False else reserved_line line identity)"

subsection \<open>Audit and verification\<close>

text \<open>The audit never runs out of fuel (\<open>audit_total\<close> below).\<close>

definition audited :: "MangleAuditResult option \<Rightarrow> MangleAuditResult" where
  "audited r = (case r of None \<Rightarrow> Ambiguous | Some x \<Rightarrow> x)"

definition audit_reserved_policy_space ::
    "RootPolicyContract \<Rightarrow> RootPolicySnapshot \<Rightarrow> PolicyIdentity \<Rightarrow> MangleAuditResult" where
  "audit_reserved_policy_space c snapshot identity =
     (if list_ex (\<lambda>line. is_foreign_reserved_ipv4_line line identity) (ipv4_rules snapshot) \<or>
         list_ex (\<lambda>line. is_foreign_reserved_ipv6_line line identity) (ipv6_rules snapshot)
      then Collision
      else let ipv4 = audited (audit_mangle_output (ipv4_mangle snapshot)
                 (ipv4_allowed_mangle_lines_for c identity) (chain_name c) (mark_value identity))
           in if ipv4 \<noteq> Clean then ipv4
              else audited (audit_mangle_output (ipv6_mangle snapshot)
                 (ipv6_allowed_mangle_lines_for c identity) (chain_name c) (mark_value identity)))"

fun resolve_loop ::
    "RootPolicyContract \<Rightarrow> RootPolicySnapshot \<Rightarrow> PolicyIdentity list \<Rightarrow>
     PolicyIdentityResolution \<times> RootPolicyContract" where
  "resolve_loop c snapshot [] = (IdentityCollision, c\<lparr>active_identity := None\<rparr>)"
| "resolve_loop c snapshot (candidate # rest) =
     (let c = c\<lparr>active_identity := Some candidate\<rparr>
      in if audit_reserved_policy_space c snapshot candidate = Clean then (Selected candidate, c)
         else resolve_loop c snapshot rest)"

definition family_broken :: "RootPolicyContract \<Rightarrow> string list \<Rightarrow> bool" where
  "family_broken c lines \<longleftrightarrow>
     (chain_definition c \<notin> set lines \<and> output_jump_count c lines \<noteq> 0) \<or>
     (output_jump_count c lines \<noteq> 0 \<and> chain_lines lines (chain_name c) = [])"

definition compatible_candidates :: "RootPolicyContract \<Rightarrow> RootPolicySnapshot \<Rightarrow> PolicyIdentity list" where
  "compatible_candidates c snapshot =
     filter (\<lambda>identity.
         prefix_matches (chain_lines (ipv4_mangle snapshot) (chain_name c)) (ipv4_owned_chain_lines_for c identity) \<and>
         prefix_matches (chain_lines (ipv6_mangle snapshot) (chain_name c)) (ipv6_owned_chain_lines_for c identity))
       (candidates c)"

definition resolve_identity ::
    "RootPolicyContract \<Rightarrow> RootPolicySnapshot \<Rightarrow> PolicyIdentityResolution \<times> RootPolicyContract" where
  "resolve_identity c snapshot =
     (if family_broken c (ipv4_mangle snapshot) \<or> family_broken c (ipv6_mangle snapshot)
      then (IdentityCollision, c)
      else let has_chain_state =
                 (chain_lines (ipv4_mangle snapshot) (chain_name c) \<noteq> [] \<or>
                  chain_lines (ipv6_mangle snapshot) (chain_name c) \<noteq> []);
               compatible = compatible_candidates c snapshot
           in if has_chain_state \<and> compatible = [] then (IdentityCollision, c)
              else let cands = (if has_chain_state then compatible else candidates c)
                   in case active_identity c of
                        Some active \<Rightarrow>
                          if active \<notin> set cands then (IdentityCollision, c)
                          else if audit_reserved_policy_space c snapshot active = Clean
                          then (Selected active, c)
                          else (IdentityCollision, c)
                      | None \<Rightarrow> resolve_loop c snapshot cands)"

definition mangle_family_state :: "RootPolicyContract \<Rightarrow> string list \<Rightarrow> bool \<Rightarrow> MangleFamilyState option" where
  "mangle_family_state c lines ipv4 =
     (case active_identity c of None \<Rightarrow> None
      | Some identity \<Rightarrow>
          let definition_count = line_count (chain_definition c) lines;
              jump_count = line_count (output_jump c) lines;
              actual = chain_lines lines (chain_name c);
              expected = (if ipv4 then ipv4_owned_chain_lines_for c identity
                          else ipv6_owned_chain_lines_for c identity)
          in Some
            (if definition_count = 0 then (if jump_count = 0 then Missing else InvalidReferenced)
             else if definition_count \<noteq> 1 then InvalidReferenced
             else if jump_count \<noteq> 0 \<and> actual \<noteq> expected then InvalidReferenced
             else if jump_count > 1 then AttachedDuplicateExact
             else if jump_count = 1 then AttachedExact
             else if actual = expected then DetachedExact else DetachedMismatch))"

definition verify_fail_closed_base ::
    "RootPolicyContract \<Rightarrow> RootPolicySnapshot \<Rightarrow> RootPolicyStructuralFailure + unit" where
  "verify_fail_closed_base c snapshot =
     (case active_identity c of None \<Rightarrow> Inl IdentityUnavailable
      | Some identity \<Rightarrow>
          if audit_reserved_policy_space c snapshot identity \<noteq> Clean then Inl ReservedPolicyCollision
          else if mangle_family_state c (ipv4_mangle snapshot) True \<noteq> Some AttachedExact \<or>
                  mangle_family_state c (ipv6_mangle snapshot) False \<noteq> Some AttachedExact
          then Inl MangleMismatch
          else if \<not> list_ex (is_owned_ipv4_guard c) (ipv4_rules snapshot) \<or>
                  \<not> list_ex (is_owned_ipv6_guard c) (ipv6_rules snapshot)
          then Inl GuardMismatch
          else if owned_ipv4_lookup_tables c (ipv4_rules snapshot) \<noteq> [] then Inl LookupStillPresent
          else Inr ())"

definition product_line :: "RootPolicyContract \<Rightarrow> string \<Rightarrow> bool" where
  "product_line c line \<longleftrightarrow> str_contains line (chain_name c) \<or> line = legacy_selector_line c"

definition verify_exact_cleanup :: "RootPolicyContract \<Rightarrow> RootPolicySnapshot \<Rightarrow> bool" where
  "verify_exact_cleanup c snapshot \<longleftrightarrow>
     owned_ipv4_lookup_tables c (ipv4_rules snapshot) = [] \<and>
     \<not> list_ex (is_owned_ipv4_guard c) (ipv4_rules snapshot) \<and>
     \<not> list_ex (is_owned_ipv6_guard c) (ipv6_rules snapshot) \<and>
     \<not> list_ex (product_line c) (ipv4_mangle snapshot) \<and>
     \<not> list_ex (product_line c) (ipv6_mangle snapshot)"

text \<open>The scan sets the active identity to each candidate in turn and restores it at the end.\<close>

fun signature_loop :: "RootPolicyContract \<Rightarrow> RootPolicySnapshot \<Rightarrow> PolicyIdentity list \<Rightarrow> bool" where
  "signature_loop c snapshot [] = False"
| "signature_loop c snapshot (candidate # rest) =
     (let c = c\<lparr>active_identity := Some candidate\<rparr>
      in if list_ex (\<lambda>line. is_owned_ipv4_lookup c line \<or> is_owned_ipv4_guard c line) (ipv4_rules snapshot) \<or>
            list_ex (is_owned_ipv6_guard c) (ipv6_rules snapshot)
         then True else signature_loop c snapshot rest)"

definition has_any_product_signature :: "RootPolicyContract \<Rightarrow> RootPolicySnapshot \<Rightarrow> bool \<times> RootPolicyContract" where
  "has_any_product_signature c snapshot =
     (if list_ex (product_line c) (ipv4_mangle snapshot) \<or> list_ex (product_line c) (ipv6_mangle snapshot)
      then (True, c)
      else (signature_loop c snapshot (candidates c), c))"

subsection \<open>Stale owners\<close>

definition exact_owner_jump_uid :: "RootPolicyContract \<Rightarrow> string \<Rightarrow> u32 option" where
  "exact_owner_jump_uid c line =
     (case split_whitespace line of
        [t0, t1, t2, t3, t4, t5, t6, t7] \<Rightarrow>
          if t0 \<noteq> ''-A'' \<or> t1 \<noteq> ''OUTPUT'' \<or> t2 \<noteq> ''-m'' \<or> t3 \<noteq> ''owner'' \<or> t4 \<noteq> ''--uid-owner'' \<or>
             t6 \<noteq> ''-j'' \<or> t7 \<noteq> chain_name c then None
          else (case parse_u32 t5 of None \<Rightarrow> None | Some uid \<Rightarrow> if uid \<noteq> 0 then Some uid else None)
      | _ \<Rightarrow> None)"

fun stale_uids_loop :: "RootPolicyContract \<Rightarrow> string list \<Rightarrow> u32 list \<Rightarrow> u32 list" where
  "stale_uids_loop c [] result = result"
| "stale_uids_loop c (line # lines) result =
     (case exact_owner_jump_uid c line of
        None \<Rightarrow> stale_uids_loop c lines result
      | Some uid \<Rightarrow>
          stale_uids_loop c lines (if uid \<noteq> product_uid c then push_new uid result else result))"

definition stale_owner_jump_uids :: "RootPolicyContract \<Rightarrow> string list \<Rightarrow> u32 list" where
  "stale_owner_jump_uids c lines = stale_uids_loop c lines []"

definition is_exact_known_product_state :: "RootPolicyContract \<Rightarrow> string list \<Rightarrow> bool \<Rightarrow> bool" where
  "is_exact_known_product_state c lines ipv4 =
     (let chain = chain_name c;
          actual_chain = chain_lines lines chain;
          matching = filter (\<lambda>identity. actual_chain =
              (if ipv4 then ipv4_owned_chain_lines_for c identity else ipv6_owned_chain_lines_for c identity))
            (candidates c)
      in if line_count (chain_definition c) lines \<noteq> 1 then False
         else if length matching \<noteq> 1 then False
         else list_all (\<lambda>line. line = chain_definition c \<or> line \<in> set actual_chain \<or>
                exact_owner_jump_uid c line \<noteq> None)
              (filter (\<lambda>line. str_contains line chain) lines))"

subsection \<open>The choice of an identity\<close>

lemma audit_total: "\<exists>r. audit_mangle_output lines allowed chain mark = Some r"
  using search_ends by (force simp: audit_mangle_output_def split: option.splits)

lemma audit_active: "audit_reserved_policy_space (c\<lparr>active_identity := a\<rparr>) = audit_reserved_policy_space c"
  by (rule ext)+ (simp add: audit_reserved_policy_space_def ipv4_allowed_mangle_lines_for_def
      ipv6_allowed_mangle_lines_for_def ipv4_owned_chain_lines_for_def ipv6_owned_chain_lines_for_def
      owned_chain_lines_def chain_definition_def output_jump_def legacy_selector_line_def legacy_selector_def
      legacy_mark_hex_def candidates_def chain_name_def Let_def)

lemma resolve_loop_find:
  "resolve_loop c snapshot ids =
     (case find (\<lambda>i. audit_reserved_policy_space c snapshot i = Clean) ids of
        None \<Rightarrow> (IdentityCollision, c\<lparr>active_identity := None\<rparr>)
      | Some i \<Rightarrow> (Selected i, c\<lparr>active_identity := Some i\<rparr>))"
  by (induction ids arbitrary: c) (simp_all add: Let_def audit_active split: option.split)

lemma compatible_without_state:
  "chain_lines (ipv4_mangle s) (chain_name c) = [] \<Longrightarrow> chain_lines (ipv6_mangle s) (chain_name c) = [] \<Longrightarrow>
   compatible_candidates c s = candidates c"
  by (simp add: compatible_candidates_def prefix_matches_def)

lemma candidates_nonempty: "candidates c \<noteq> []"
  by (simp add: candidates_def RELEASE_POLICY_CANDIDATES_def DEBUG_POLICY_CANDIDATES_def split: RootPolicyNamespace.split)

lemma resolve_identity_eq:
  "resolve_identity c s =
     (if family_broken c (ipv4_mangle s) \<or> family_broken c (ipv6_mangle s) then (IdentityCollision, c)
      else case active_identity c of
        None \<Rightarrow> resolve_loop c s (compatible_candidates c s)
      | Some a \<Rightarrow>
          (if a \<in> set (compatible_candidates c s) \<and> audit_reserved_policy_space c s a = Clean
           then Selected a else IdentityCollision, c))"
proof (cases "chain_lines (ipv4_mangle s) (chain_name c) = [] \<and> chain_lines (ipv6_mangle s) (chain_name c) = []")
  case True
  then show ?thesis
    using compatible_without_state [of s c] by (simp add: resolve_identity_def split: option.split)
next
  case False
  then show ?thesis
    by (cases "compatible_candidates c s = []"; cases "active_identity c")
       (auto simp: resolve_identity_def Let_def)
qed

text \<open>C31. Choosing the policy identity. The user id and the namespace never change. A selected identity
  is a candidate of the namespace, is the active one afterwards, agrees with every rule already in the
  product's chains, and its reserved space audits clean; an identity that was active is never replaced
  by another one, and otherwise no earlier candidate would have done. A collision keeps the active
  identity and is reported only if the tables are broken or no identity that could be kept or chosen is
  compatible and clean.\<close>

theorem resolve_identity_sound:
  assumes "resolve_identity c s = (res, c')"
  shows "product_uid c' = product_uid c \<and> policy_namespace c' = policy_namespace c \<and>
    (case res of
       Selected i \<Rightarrow>
         active_identity c' = Some i \<and> i \<in> set (candidates c) \<and>
         prefix_matches (chain_lines (ipv4_mangle s) (chain_name c)) (ipv4_owned_chain_lines_for c i) \<and>
         prefix_matches (chain_lines (ipv6_mangle s) (chain_name c)) (ipv6_owned_chain_lines_for c i) \<and>
         audit_reserved_policy_space c' s i = Clean \<and>
         (active_identity c = Some i \<or>
          active_identity c = None \<and>
          (\<exists>before after. compatible_candidates c s = before @ i # after \<and>
             \<not> (\<exists>j \<in> set before. audit_reserved_policy_space c s j = Clean)))
     | IdentityCollision \<Rightarrow>
         active_identity c' = active_identity c \<and>
         (family_broken c (ipv4_mangle s) \<or> family_broken c (ipv6_mangle s) \<or>
          \<not> (\<exists>j \<in> set (compatible_candidates c s).
               active_identity c \<in> {None, Some j} \<and> audit_reserved_policy_space c s j = Clean)))"
proof -
  have compatible: "i \<in> set (candidates c) \<and>
      prefix_matches (chain_lines (ipv4_mangle s) (chain_name c)) (ipv4_owned_chain_lines_for c i) \<and>
      prefix_matches (chain_lines (ipv6_mangle s) (chain_name c)) (ipv6_owned_chain_lines_for c i)"
    if "i \<in> set (compatible_candidates c s)" for i
    using that by (simp add: compatible_candidates_def)
  show ?thesis
  proof (cases "family_broken c (ipv4_mangle s) \<or> family_broken c (ipv6_mangle s)")
    case True
    then show ?thesis using assms by (auto simp: resolve_identity_eq)
  next
    case False
    show ?thesis
    proof (cases "active_identity c")
      case (Some a)
      with assms False compatible show ?thesis
        by (auto simp: resolve_identity_eq split: if_splits)
    next
      case None
      show ?thesis
      proof (cases "find (\<lambda>i. audit_reserved_policy_space c s i = Clean) (compatible_candidates c s)")
        case none: None
        with assms False None have "res = IdentityCollision" "c' = c\<lparr>active_identity := None\<rparr>"
          by (auto simp: resolve_identity_eq resolve_loop_find)
        moreover have "\<not> (\<exists>j \<in> set (compatible_candidates c s). audit_reserved_policy_space c s j = Clean)"
          using none by (auto simp: find_None_iff)
        ultimately show ?thesis using None by simp
      next
        case (Some i)
        with assms False None have r: "res = Selected i" "c' = c\<lparr>active_identity := Some i\<rparr>"
          by (auto simp: resolve_identity_eq resolve_loop_find)
        from Some obtain n where n: "n < length (compatible_candidates c s)" "compatible_candidates c s ! n = i"
          "audit_reserved_policy_space c s i = Clean"
          "\<forall>m < n. audit_reserved_policy_space c s (compatible_candidates c s ! m) \<noteq> Clean"
          by (auto simp: find_Some_iff)
        then have "compatible_candidates c s = take n (compatible_candidates c s) @ i # drop (Suc n) (compatible_candidates c s)"
          using id_take_nth_drop by metis
        moreover have "\<not> (\<exists>j \<in> set (take n (compatible_candidates c s)). audit_reserved_policy_space c s j = Clean)"
          using n(1,4) by (auto simp: in_set_conv_nth)
        moreover have "i \<in> set (compatible_candidates c s)" using n(1,2) by auto
        ultimately show ?thesis using r n(3) None compatible by (auto simp: audit_active)
      qed
    qed
  qed
qed

subsection \<open>The installed policy\<close>

definition word_ok :: "string \<Rightarrow> bool" where
  "word_ok w \<longleftrightarrow> w \<noteq> [] \<and> list_all visible w"

lemma split_join: "list_all word_ok ws \<Longrightarrow> split_whitespace (join_spaces ws) = ws"
proof (induction ws)
  case Nil
  show ?case by (simp add: split_whitespace_def) (subst split_white.simps, simp)
next
  case (Cons w ws)
  then show ?case
    by (cases ws) (auto simp: word_ok_def split_whitespace_def split_white_word split_white_space)
qed

lemma join_ends:
  assumes "list_all word_ok ws" "ws \<noteq> []"
  shows "\<exists>c r. join_spaces ws = c # r \<and> visible c" "\<exists>l d. join_spaces ws = l @ [d] \<and> visible d"
proof -
  show "\<exists>c r. join_spaces ws = c # r \<and> visible c"
    using assms by (cases ws; cases "hd ws") (auto simp: word_ok_def split: list.split)
  show "\<exists>l d. join_spaces ws = l @ [d] \<and> visible d"
    using assms
  proof (induction ws)
    case (Cons w ws)
    show ?case
    proof (cases ws)
      case Nil
      with Cons.prems show ?thesis by (cases w rule: rev_cases) (auto simp: word_ok_def)
    next
      case (Cons v vs)
      then obtain l d where "join_spaces ws = l @ [d]" "visible d" using Cons.IH Cons.prems by auto
      with Cons show ?thesis by (intro exI [of _ "w @ '' '' @ l"] exI [of _ d]) simp
    qed
  qed simp
qed

lemma trim_join: "list_all word_ok ws \<Longrightarrow> ws \<noteq> [] \<Longrightarrow> trim (join_spaces ws) = join_spaces ws \<and> join_spaces ws \<noteq> []"
proof -
  assume "list_all word_ok ws" "ws \<noteq> []"
  from join_ends [OF this] obtain c r l d where "join_spaces ws = c # r" "visible c"
    "join_spaces ws = l @ [d]" "visible d" by (elim exE conjE)
  then show ?thesis using trim_visible(1) [of "join_spaces ws" c r l d] by simp
qed

lemma normalized_join:
  "\<forall>ws \<in> set table. list_all word_ok ws \<and> ws \<noteq> [] \<Longrightarrow>
   normalized (map join_spaces table) = map join_spaces table \<and>
   map split_whitespace (map join_spaces table) = table"
  by (induction table) (auto simp: normalized_def trim_join split_join)

text \<open>The mangle table that holds the built-in policies and the product's own lines, by words.\<close>

definition builtin_words :: "string list list" where
  "builtin_words = map (\<lambda>chain. [''-P'', chain, ''ACCEPT''])
     [''PREROUTING'', ''INPUT'', ''FORWARD'', ''OUTPUT'', ''POSTROUTING'']"

definition jump_words :: "string \<Rightarrow> string \<Rightarrow> string list" where
  "jump_words uid chain = [''-A'', ''OUTPUT'', ''-m'', ''owner'', ''--uid-owner'', uid, ''-j'', chain]"

definition owned_words :: "string \<Rightarrow> string \<Rightarrow> string \<Rightarrow> string list list" where
  "owned_words chain loopback mark =
     [[''-A'', chain, ''-d'', loopback, ''-j'', ''RETURN''],
      [''-A'', chain, ''-j'', ''CONNMARK'', ''--restore-mark'', ''--nfmask'', mark, ''--ctmask'', mark],
      [''-A'', chain, ''-m'', ''conntrack'', ''--ctstate'', ''NEW'', ''-j'', ''MARK'', ''--set-xmark'',
       mark @ ''/'' @ mark],
      [''-A'', chain, ''-m'', ''conntrack'', ''--ctstate'', ''NEW'', ''-m'', ''mark'', ''--mark'', mark @ ''/'' @ mark,
       ''-j'', ''CONNMARK'', ''--save-mark'', ''--nfmask'', mark, ''--ctmask'', mark]]"

definition table_words :: "string \<Rightarrow> string \<Rightarrow> string \<Rightarrow> string \<Rightarrow> string list list" where
  "table_words uid chain loopback mark =
     builtin_words @ [''-N'', chain] # jump_words uid chain # owned_words chain loopback mark"

definition plain :: "string \<Rightarrow> bool" where
  "plain w \<longleftrightarrow> word_ok w \<and> hd w \<noteq> CHR ''-''"

lemma plain_not_jump: "plain w \<Longrightarrow> \<not> is_jump w" "plain w \<Longrightarrow> \<not> starts_with w ''-''"
  by (cases w; auto simp: plain_def is_jump_def starts_with_def)+

lemma plain_spec: "plain mark \<Longrightarrow> plain (mark @ ''/'' @ mark)"
proof -
  have "visible (CHR ''/'')" by (simp add: visible_def byte_of_def)
  then show "plain mark \<Longrightarrow> plain (mark @ ''/'' @ mark)" by (auto simp: plain_def word_ok_def)
qed

lemma plain_words:
  "word_ok ''-A''" "word_ok ''-N''" "word_ok ''-P''" "word_ok ''-m''" "word_ok ''-j''" "word_ok ''-d''"
  "word_ok ''--uid-owner''" "word_ok ''--restore-mark''" "word_ok ''--save-mark''" "word_ok ''--nfmask''"
  "word_ok ''--ctmask''" "word_ok ''--ctstate''" "word_ok ''--set-xmark''" "word_ok ''--mark''"
  "plain ''OUTPUT''" "plain ''owner''" "plain ''RETURN''" "plain ''CONNMARK''" "plain ''MARK''" "plain ''conntrack''"
  "plain ''NEW''" "plain ''mark''" "plain ''ACCEPT''" "plain ''PREROUTING''" "plain ''INPUT''" "plain ''FORWARD''"
  "plain ''POSTROUTING''"
  by code_simp+

lemma plain_word: "plain w \<Longrightarrow> word_ok w"
  by (simp add: plain_def)

lemma table_words_ok:
  assumes "plain uid" "plain chain" "plain loopback" "plain mark"
  shows "\<forall>ws \<in> set (table_words uid chain loopback mark). list_all word_ok ws \<and> ws \<noteq> []"
  using assms plain_words plain_spec [OF assms(4)]
  by (simp add: table_words_def builtin_words_def jump_words_def owned_words_def plain_word)

lemma word_jumps:
  "is_jump ''-j''" "\<not> is_jump ''-A''" "\<not> is_jump ''-m''" "\<not> is_jump ''-d''" "\<not> is_jump ''--uid-owner''"
  "\<not> is_jump ''--restore-mark''" "\<not> is_jump ''--save-mark''" "\<not> is_jump ''--nfmask''" "\<not> is_jump ''--ctmask''"
  "\<not> is_jump ''--ctstate''" "\<not> is_jump ''--set-xmark''" "\<not> is_jump ''--mark''"
  by code_simp+

lemma table_targets:
  assumes "plain uid" "plain chain" "plain loopback" "plain mark"
  shows "chain_target (jump_words uid chain) = Named chain"
    "map chain_target (owned_words chain loopback mark) =
       [Named ''RETURN'', Named ''CONNMARK'', Named ''MARK'', Named ''CONNMARK'']"
  using plain_not_jump [OF assms(1)] plain_not_jump [OF assms(2)] plain_not_jump [OF assms(3)]
    plain_not_jump [OF assms(4)] plain_not_jump [OF plain_spec [OF assms(4)]]
    plain_words(15-) [THEN plain_not_jump(1)] plain_words(15-) [THEN plain_not_jump(2)] word_jumps
  by (simp_all add: chain_target_def jump_words_def owned_words_def)

lemma table_scan:
  assumes "is_safe_chain_name chain" "chain \<noteq> ''OUTPUT''"
  shows "scan_lines (table_words uid chain loopback mark) [] Map.empty =
    Some ([chain], [''OUTPUT'' \<mapsto> [jump_words uid chain], chain \<mapsto> owned_words chain loopback mark])"
proof -
  have "is_safe_chain_name ''OUTPUT''" by code_simp
  with assms show ?thesis
    by (simp add: table_words_def builtin_words_def jump_words_def owned_words_def fun_upd_twist)
qed

lemma table_audit_clean:
  assumes "plain uid" "plain chain" "plain loopback" "plain mark" "is_safe_chain_name chain"
    and "chain \<notin> {''OUTPUT'', ''RETURN'', ''CONNMARK'', ''MARK''}" "mark_bits \<noteq> 0"
    and "set (map join_spaces ([''-N'', chain] # jump_words uid chain # owned_words chain loopback mark)) \<subseteq> set allowed"
    and "\<not> list_ex (\<lambda>line. str_contains line chain) (map join_spaces builtin_words)"
  shows "audit_mangle_output (map join_spaces (table_words uid chain loopback mark)) allowed chain mark_bits = Some Clean"
proof -
  let ?table = "table_words uid chain loopback mark"
  let ?tab = "\<lparr>user_chains = [chain],
    rules_by_chain = [''OUTPUT'' \<mapsto> [jump_words uid chain], chain \<mapsto> owned_words chain loopback mark],
    allowed_lines = allowed, candidate_mark = mark_bits\<rparr>"
  note normal = normalized_join [OF table_words_ok [OF assms(1-4)]]
  note targets = table_targets [OF assms(1-4)]
  have scan: "scan_table (map join_spaces ?table) allowed mark_bits = Some ?tab"
    using table_scan [OF assms(5)] assms(6) normal by (simp add: scan_table_def)
  have verdict: "rule_verdict ?tab ws = Clean" if "ws \<in> set (jump_words uid chain # owned_words chain loopback mark)" for ws
    using assms(8) that by (auto simp: rule_verdict_def)
  have rules: "rules_of ?tab chain = owned_words chain loopback mark" "rules_of ?tab ''OUTPUT'' = [jump_words uid chain]"
    using assms(6) by (auto simp: rules_of_def)
  have leaf: "safe_chain ?tab chain"
  proof (rule safe_chain.safe)
    show "chain_ok ?tab chain"
      using verdict targets(2) assms(6) unfolding chain_ok_def rules rule_ok_def
      by (auto simp: owned_words_def split: ChainTarget.split)
    fix t assume "calls ?tab chain t"
    then have "t = chain" "Named t \<in> set (map chain_target (owned_words chain loopback mark))"
      by (auto simp: calls_def rules) (metis image_eqI)
    with targets(2) assms(6) show "safe_chain ?tab t" by simp
  qed
  have "safe_chain ?tab ''OUTPUT''"
  proof (rule safe_chain.safe)
    show "chain_ok ?tab ''OUTPUT''"
      using verdict targets(1) unfolding chain_ok_def rules rule_ok_def by simp
    fix t assume "calls ?tab ''OUTPUT'' t"
    with leaf show "safe_chain ?tab t" by (simp add: calls_def)
  qed
  moreover have "\<not> list_ex (\<lambda>line. str_contains line chain \<and> line \<notin> set allowed) (normalized (map join_spaces ?table))"
    using normal assms(8,9) by (auto simp: table_words_def list_ex_iff)
  ultimately show ?thesis
    using search_clean_iff [of ?tab] assms(7) scan by (simp add: audit_mangle_output_def del: map_option_eq_Some)
qed

text \<open>What the two tools print once the product's commands have run on a system whose other routing
  rules stay clear of the identity.\<close>

definition shown_guard :: "PolicyIdentity \<Rightarrow> string" where
  "shown_guard i = show_u32 (guard_priority i) @ '':'' @ [CHR 0x09] @ ''from all fwmark '' @ mark_spec i @ '' unreachable''"

definition installed_mangle :: "string list \<Rightarrow> RootPolicyContract \<Rightarrow> string list" where
  "installed_mangle owned c = map join_spaces builtin_words @ chain_definition c # output_jump c # owned"

definition installed :: "RootPolicyContract \<Rightarrow> PolicyIdentity \<Rightarrow> string list \<Rightarrow> string list \<Rightarrow> RootPolicySnapshot" where
  "installed c i other4 other6 =
     \<lparr>ipv4_rules = other4 @ [shown_guard i], ipv6_rules = other6 @ [shown_guard i],
      ipv4_mangle = installed_mangle (ipv4_owned_chain_lines_for c i) c,
      ipv6_mangle = installed_mangle (ipv6_owned_chain_lines_for c i) c\<rparr>"

lemma contract_words:
  "chain_definition c = join_spaces [''-N'', chain_name c]"
  "output_jump c = join_spaces (jump_words (show_u32 (product_uid c)) (chain_name c))"
  "owned_chain_lines loopback c i = map join_spaces (owned_words (chain_name c) loopback (mark_hex i))"
  by (simp_all add: chain_definition_def output_jump_def owned_chain_lines_def jump_words_def owned_words_def mark_spec_def)

lemma installed_mangle_words:
  "installed_mangle (owned_chain_lines loopback c i) c =
     map join_spaces (table_words (show_u32 (product_uid c)) (chain_name c) loopback (mark_hex i))"
  by (simp add: installed_mangle_def table_words_def contract_words del: join_spaces.simps)

lemma chain_facts:
  "plain (chain_name c)" "is_safe_chain_name (chain_name c)"
  "chain_name c \<notin> {''OUTPUT'', ''RETURN'', ''CONNMARK'', ''MARK''}"
  "\<not> list_ex (\<lambda>line. str_contains line (chain_name c)) (map join_spaces builtin_words)"
proof -
  have "plain RELEASE_MISH_CHAIN" "plain DEBUG_MISH_CHAIN"
    "is_safe_chain_name RELEASE_MISH_CHAIN" "is_safe_chain_name DEBUG_MISH_CHAIN"
    "RELEASE_MISH_CHAIN \<notin> {''OUTPUT'', ''RETURN'', ''CONNMARK'', ''MARK''}"
    "DEBUG_MISH_CHAIN \<notin> {''OUTPUT'', ''RETURN'', ''CONNMARK'', ''MARK''}"
    "\<not> list_ex (\<lambda>line. str_contains line RELEASE_MISH_CHAIN) (map join_spaces builtin_words)"
    "\<not> list_ex (\<lambda>line. str_contains line DEBUG_MISH_CHAIN) (map join_spaces builtin_words)"
    by code_simp+
  then show "plain (chain_name c)" "is_safe_chain_name (chain_name c)"
    "chain_name c \<notin> {''OUTPUT'', ''RETURN'', ''CONNMARK'', ''MARK''}"
    "\<not> list_ex (\<lambda>line. str_contains line (chain_name c)) (map join_spaces builtin_words)"
    by (cases "policy_namespace c"; simp add: chain_name_def)+
qed

definition all_candidates :: "PolicyIdentity list" where
  "all_candidates = RELEASE_POLICY_CANDIDATES @ DEBUG_POLICY_CANDIDATES"

lemma candidate_facts:
  assumes "i \<in> set (candidates c)"
  shows "plain (mark_hex i)" "mark_value i \<noteq> 0" "lookup_priority i \<noteq> guard_priority i"
proof -
  have "list_all (\<lambda>i. plain (mark_hex i) \<and> mark_value i \<noteq> 0 \<and> lookup_priority i \<noteq> guard_priority i) all_candidates"
    by code_simp
  moreover have "i \<in> set all_candidates"
    using assms by (auto simp: candidates_def all_candidates_def split: RootPolicyNamespace.splits)
  ultimately show "plain (mark_hex i)" "mark_value i \<noteq> 0" "lookup_priority i \<noteq> guard_priority i"
    by (auto simp: list_all_iff)
qed

lemma candidate_unique: "i \<in> set (candidates c) \<Longrightarrow> j \<in> set (candidates c) \<Longrightarrow> mark_hex i = mark_hex j \<Longrightarrow> i = j"
  by (auto simp: candidates_def RELEASE_POLICY_CANDIDATES_def DEBUG_POLICY_CANDIDATES_def
      split: RootPolicyNamespace.splits)

lemma plain_uid: "plain (show_u32 n)"
proof -
  have visible: "list_all visible (show_nat (unat n))" by (rule show_nat_visible)
  obtain d r where r: "show_nat (unat n) = d # r" by (cases "show_nat (unat n)") auto
  then obtain k where k: "k < 10" "d = digit_char k" using show_nat_digits [of d "unat n"] by auto
  have "d \<noteq> CHR ''-''"
  proof
    assume "d = CHR ''-''"
    then show False using byte_of_digit_char [OF k(1)] k(2) by (simp add: byte_of_def)
  qed
  with visible r show ?thesis by (simp add: plain_def word_ok_def show_u32_def)
qed

lemma installed_audit:
  assumes "i \<in> set (candidates c)" "plain loopback"
    and "set (owned_chain_lines loopback c i) \<subseteq> set allowed" "chain_definition c \<in> set allowed" "output_jump c \<in> set allowed"
  shows "audit_mangle_output (installed_mangle (owned_chain_lines loopback c i) c) allowed (chain_name c) (mark_value i) = Some Clean"
  unfolding installed_mangle_words
  using assms(3-5) candidate_facts [OF assms(1)] chain_facts
  by (intro table_audit_clean plain_uid assms(2)) (simp_all add: contract_words del: join_spaces.simps)

lemma shown_guard_facts:
  assumes "i \<in> set (candidates c)"
  shows "rpdb_priority (shown_guard i) = Some (guard_priority i)"
    "split_whitespace (shown_guard i) =
      [show_u32 (guard_priority i) @ '':'', ''from'', ''all'', ''fwmark'', mark_spec i, ''unreachable'']"
proof -
  let ?p = "show_u32 (guard_priority i)"
  have p: "list_all visible ?p" "?p \<noteq> []" using plain_uid [of "guard_priority i"] by (simp_all add: plain_def word_ok_def)
  have words: "list_all word_ok [''from'', ''all'', ''fwmark'', mark_spec i, ''unreachable'']"
    using plain_spec [OF candidate_facts(1) [OF assms]] by (simp add: mark_spec_def plain_def) code_simp
  have colon: "list_all visible (?p @ '':'')" using p(1) by (simp add: visible_def byte_of_def)
  have line: "shown_guard i = (?p @ '':'') @ CHR 0x09 #
      join_spaces [''from'', ''all'', ''fwmark'', mark_spec i, ''unreachable'']"
    by (simp add: shown_guard_def)
  show "split_whitespace (shown_guard i) =
      [show_u32 (guard_priority i) @ '':'', ''from'', ''all'', ''fwmark'', mark_spec i, ''unreachable'']"
    using split_join [OF words] unfolding line split_whitespace_def split_white_tab [OF colon] by simp
  obtain d r where d: "?p = d # r" "visible d" using p by (cases ?p) auto
  have "trim (shown_guard i) = shown_guard i"
    by (rule trim_visible(1) [of _ d _ _ "CHR ''e''"])
       (use d in \<open>simp_all add: shown_guard_def visible_def byte_of_def\<close>)
  moreover have "split_once (CHR '':'') (shown_guard i) =
      Some (?p, [CHR 0x09] @ ''from all fwmark '' @ mark_spec i @ '' unreachable'')"
    using digit_not_colon by (auto simp: split_once_Some_iff shown_guard_def show_u32_def)
  ultimately show "rpdb_priority (shown_guard i) = Some (guard_priority i)"
    by (simp add: rpdb_priority_def show_u32_def parse_show_u32)
qed

lemma shown_guard_owned:
  assumes "i \<in> set (candidates c)"
  shows "line_is_owned_guard_for (shown_guard i) i" "\<not> line_is_owned_lookup_for (shown_guard i) i"
    "active_identity c' = Some i \<Longrightarrow> is_owned_guard c' (shown_guard i)"
proof -
  have "show_u32 (guard_priority i) @ '':'' \<noteq> ''fwmark''"
  proof
    assume "show_u32 (guard_priority i) @ '':'' = ''fwmark''"
    then have "last (show_u32 (guard_priority i) @ '':'') = last ''fwmark''" by simp
    then show False by simp
  qed
  then show "line_is_owned_guard_for (shown_guard i) i" "\<not> line_is_owned_lookup_for (shown_guard i) i"
    "active_identity c' = Some i \<Longrightarrow> is_owned_guard c' (shown_guard i)"
    using shown_guard_facts [OF assms] candidate_facts(3) [OF assms]
    by (simp_all add: line_is_owned_guard_for_def line_is_owned_lookup_for_def is_owned_guard_def)
qed

lemma owned_tables_none:
  "\<forall>l \<in> set lines. \<not> line_is_owned_lookup_for l i \<Longrightarrow> owned_tables_loop i lines r = r"
  by (induction lines arbitrary: r)
     (auto simp: line_is_owned_lookup_for_def Let_def push_table_def split: option.splits)

lemma starts_with_append: "starts_with (p @ s) p"
  by (simp add: starts_with_def)

lemma installed_chain:
  "chain_lines (installed_mangle (owned_chain_lines loopback c i) c) (chain_name c) = owned_chain_lines loopback c i"
proof -
  let ?p = "''-A '' @ chain_name c @ '' ''"
  have "\<not> starts_with l ?p" if "l \<in> set (map join_spaces builtin_words)" for l
    using that by (auto simp: builtin_words_def starts_with_def)
  moreover have "\<not> starts_with (chain_definition c) ?p" by (simp add: chain_definition_def starts_with_def)
  moreover have "\<not> starts_with (output_jump c) ?p"
    by (cases "policy_namespace c")
       (simp_all add: output_jump_def starts_with_def chain_name_def RELEASE_MISH_CHAIN_def DEBUG_MISH_CHAIN_def)
  moreover have "starts_with l ?p" if "l \<in> set (owned_chain_lines loopback c i)" for l
    using that by (auto simp: owned_chain_lines_def starts_with_def)
  ultimately show ?thesis
    by (simp add: chain_lines_def installed_mangle_def filter_empty_conv filter_id_conv)
qed

lemma installed_counts:
  "line_count (chain_definition c) (installed_mangle (owned_chain_lines loopback c i) c) = 1"
  "line_count (output_jump c) (installed_mangle (owned_chain_lines loopback c i) c) = 1"
  by (cases "policy_namespace c";
      simp add: line_count_def installed_mangle_def builtin_words_def owned_chain_lines_def chain_definition_def
        output_jump_def chain_name_def RELEASE_MISH_CHAIN_def DEBUG_MISH_CHAIN_def)+

lemma owned_lines_mark:
  assumes "i \<in> set (candidates c)" "j \<in> set (candidates c)" "plain loopback"
    and "owned_chain_lines loopback c i = owned_chain_lines loopback c j"
  shows "i = j"
proof -
  have ok: "\<forall>ws \<in> set (owned_words (chain_name c) loopback (mark_hex k)). list_all word_ok ws \<and> ws \<noteq> []"
    if "k \<in> set (candidates c)" for k
    using table_words_ok [OF plain_uid [of 0] chain_facts(1) [of c] assms(3) candidate_facts(1) [OF that]]
    by (simp add: table_words_def)
  have "owned_words (chain_name c) loopback (mark_hex i) = owned_words (chain_name c) loopback (mark_hex j)"
    using assms(4) normalized_join [OF ok [OF assms(1)]] normalized_join [OF ok [OF assms(2)]]
    unfolding contract_words by metis
  then have "mark_hex i = mark_hex j" by (simp add: owned_words_def)
  with assms(1,2) show ?thesis by (rule candidate_unique)
qed

lemma loopbacks: "plain ''127.0.0.0/8''" "plain ''::1/128''"
  by code_simp+

lemma installed_compatible:
  assumes "i \<in> set (candidates c)"
  shows "compatible_candidates c (installed c i other4 other6) = [i]"
proof -
  have len: "length (owned_chain_lines loopback c k) = 4" for loopback k by (simp add: owned_chain_lines_def)
  have "prefix_matches (owned_chain_lines ''127.0.0.0/8'' c i) (owned_chain_lines ''127.0.0.0/8'' c k) \<and>
      prefix_matches (owned_chain_lines ''::1/128'' c i) (owned_chain_lines ''::1/128'' c k) \<longleftrightarrow> k = i"
    if "k \<in> set (candidates c)" for k
    using owned_lines_mark [OF assms that loopbacks(1)] by (auto simp: prefix_matches_def len)
  then have "compatible_candidates c (installed c i other4 other6) = filter (\<lambda>k. k = i) (candidates c)"
    by (auto simp: compatible_candidates_def installed_def installed_chain ipv4_owned_chain_lines_for_def
        ipv6_owned_chain_lines_for_def intro!: filter_cong)
  also have "\<dots> = [i]"
    using assms by (auto simp: candidates_def RELEASE_POLICY_CANDIDATES_def DEBUG_POLICY_CANDIDATES_def
        split: RootPolicyNamespace.splits)
  finally show ?thesis .
qed

lemma installed_clean:
  assumes "i \<in> set (candidates c)"
    and "\<not> list_ex (\<lambda>l. is_foreign_reserved_ipv4_line l i) other4" "\<not> list_ex (\<lambda>l. is_foreign_reserved_ipv6_line l i) other6"
  shows "audit_reserved_policy_space c (installed c i other4 other6) i = Clean"
proof -
  have "\<not> is_foreign_reserved_ipv4_line (shown_guard i) i" "\<not> is_foreign_reserved_ipv6_line (shown_guard i) i"
    using shown_guard_owned(1) [OF assms(1)] by (simp_all add: is_foreign_reserved_ipv4_line_def is_foreign_reserved_ipv6_line_def)
  moreover have "audit_mangle_output (installed_mangle (owned_chain_lines ''127.0.0.0/8'' c i) c)
      (ipv4_allowed_mangle_lines_for c i) (chain_name c) (mark_value i) = Some Clean"
    by (rule installed_audit [OF assms(1) loopbacks(1)])
       (auto simp: ipv4_allowed_mangle_lines_for_def ipv4_owned_chain_lines_for_def)
  moreover have "audit_mangle_output (installed_mangle (owned_chain_lines ''::1/128'' c i) c)
      (ipv6_allowed_mangle_lines_for c i) (chain_name c) (mark_value i) = Some Clean"
    by (rule installed_audit [OF assms(1) loopbacks(2)])
       (auto simp: ipv6_allowed_mangle_lines_for_def ipv6_owned_chain_lines_for_def)
  ultimately show ?thesis
    using assms(2,3)
    by (simp add: audit_reserved_policy_space_def installed_def audited_def ipv4_owned_chain_lines_for_def
        ipv6_owned_chain_lines_for_def)
qed

lemma installed_recognised:
  assumes "i \<in> set (candidates c)"
    and "\<not> list_ex (\<lambda>l. is_foreign_reserved_ipv4_line l i \<or> line_is_owned_lookup_for l i) other4"
    and "\<not> list_ex (\<lambda>l. is_foreign_reserved_ipv6_line l i) other6"
  shows "verify_fail_closed_base (c\<lparr>active_identity := Some i\<rparr>) (installed c i other4 other6) = Inr () \<and>
    resolve_identity (c\<lparr>active_identity := None\<rparr>) (installed c i other4 other6) =
      (Selected i, c\<lparr>active_identity := Some i\<rparr>)"
proof -
  let ?s = "installed c i other4 other6"
  let ?c = "c\<lparr>active_identity := Some i\<rparr>"
  have names [simp]: "chain_name (c\<lparr>active_identity := a\<rparr>) = chain_name c" "candidates (c\<lparr>active_identity := a\<rparr>) = candidates c"
    "chain_definition (c\<lparr>active_identity := a\<rparr>) = chain_definition c" "output_jump (c\<lparr>active_identity := a\<rparr>) = output_jump c"
    "owned_chain_lines l (c\<lparr>active_identity := a\<rparr>) k = owned_chain_lines l c k" for a l k
    by (simp_all add: chain_name_def candidates_def chain_definition_def output_jump_def owned_chain_lines_def)
  have clean: "audit_reserved_policy_space c ?s i = Clean"
    using assms by (intro installed_clean) (auto simp: list_ex_iff)
  have families: "mangle_family_state ?c (ipv4_mangle ?s) True = Some AttachedExact"
    "mangle_family_state ?c (ipv6_mangle ?s) False = Some AttachedExact"
    by (simp_all add: mangle_family_state_def installed_def installed_counts installed_chain
        ipv4_owned_chain_lines_for_def ipv6_owned_chain_lines_for_def Let_def)
  have guards: "list_ex (is_owned_ipv4_guard ?c) (ipv4_rules ?s)" "list_ex (is_owned_ipv6_guard ?c) (ipv6_rules ?s)"
    using shown_guard_owned(3) [OF assms(1), of ?c]
    by (simp_all add: is_owned_ipv4_guard_def is_owned_ipv6_guard_def installed_def)
  have tables: "owned_ipv4_lookup_tables ?c (ipv4_rules ?s) = []"
    using assms(2) shown_guard_owned(2) [OF assms(1)] owned_tables_none [of "other4 @ [shown_guard i]" i "[]"]
    by (auto simp: owned_ipv4_lookup_tables_def installed_def list_ex_iff)
  have "\<not> family_broken (c\<lparr>active_identity := None\<rparr>) (installed_mangle (owned_chain_lines l c i) c)" for l
    using installed_chain [of l c i]
    by (auto simp: family_broken_def) (simp_all add: installed_mangle_def owned_chain_lines_def)
  moreover have "compatible_candidates (c\<lparr>active_identity := None\<rparr>) ?s = [i]"
    using installed_compatible [OF assms(1), of other4 other6]
    by (simp add: compatible_candidates_def ipv4_owned_chain_lines_for_def ipv6_owned_chain_lines_for_def)
  ultimately have "resolve_identity (c\<lparr>active_identity := None\<rparr>) ?s = (Selected i, ?c)"
    using clean unfolding resolve_identity_eq
    by (simp add: audit_active installed_def ipv4_owned_chain_lines_for_def ipv6_owned_chain_lines_for_def)
  then show ?thesis
    using clean families guards tables by (simp add: verify_fail_closed_base_def audit_active)
qed

text \<open>The installed policy is recognised. For every user id, namespace and candidate identity: when
  the tables hold the product's lines for that identity and the routing rules hold its guards, and every
  other routing rule stays clear of the identity and is no lookup of it, then the fail-closed base
  verifies, and a contract that knows no active identity, as after a restart of the process, selects
  exactly this identity again.\<close>

lemma installed_policy_recognised:
  assumes "i \<in> set (candidates c)"
    and "\<not> list_ex (\<lambda>l. is_foreign_reserved_ipv4_line l i \<or> line_is_owned_lookup_for l i) other4"
    and "\<not> list_ex (\<lambda>l. is_foreign_reserved_ipv6_line l i) other6"
  shows "verify_fail_closed_base (c\<lparr>active_identity := Some i\<rparr>) (installed c i other4 other6) = Inr () \<and>
    resolve_identity (c\<lparr>active_identity := None\<rparr>) (installed c i other4 other6) =
      (Selected i, c\<lparr>active_identity := Some i\<rparr>)"
  using installed_recognised [OF assms] by blast

lemma main_lookup_foreign:
  "\<not> is_foreign_reserved_ipv4_line ''32766: from all lookup main'' (RELEASE_POLICY_CANDIDATES ! 1)"
  "\<not> line_is_owned_lookup_for ''32766: from all lookup main'' (RELEASE_POLICY_CANDIDATES ! 1)"
proof -
  have "trim ''32766: from all lookup main'' = ''32766: from all lookup main''" by code_simp
  moreover have "split_once (CHR '':'') ''32766: from all lookup main'' = Some (''32766'', '' from all lookup main'')"
    by code_simp
  moreover have "parse_u32 ''32766'' = Some 32766"
    by (simp add: parse_u32_def parse_unsigned_def digit_value_def to_ascii_lowercase_def byte_of_def)
  ultimately have "rpdb_priority ''32766: from all lookup main'' = Some 32766" by (simp add: rpdb_priority_def)
  moreover have "token_after (split_whitespace ''32766: from all lookup main'') ''fwmark'' = None" by code_simp
  ultimately show
    "\<not> is_foreign_reserved_ipv4_line ''32766: from all lookup main'' (RELEASE_POLICY_CANDIDATES ! 1)"
    "\<not> line_is_owned_lookup_for ''32766: from all lookup main'' (RELEASE_POLICY_CANDIDATES ! 1)"
    by (simp_all add: is_foreign_reserved_ipv4_line_def line_is_owned_lookup_for_def line_is_owned_guard_for_def
        reserved_line_def rpdb_line_touches_reserved_mark_def RELEASE_POLICY_CANDIDATES_def)
qed

theorem installed_policy_recognised_witness:
  "verify_fail_closed_base
     \<lparr>product_uid = 10234, policy_namespace = Release, active_identity = Some (RELEASE_POLICY_CANDIDATES ! 1)\<rparr>
     (installed \<lparr>product_uid = 10234, policy_namespace = Release, active_identity = None\<rparr>
        (RELEASE_POLICY_CANDIDATES ! 1) [''32766: from all lookup main''] []) = Inr () \<and>
   fst (resolve_identity \<lparr>product_uid = 10234, policy_namespace = Release, active_identity = None\<rparr>
     (installed \<lparr>product_uid = 10234, policy_namespace = Release, active_identity = None\<rparr>
        (RELEASE_POLICY_CANDIDATES ! 1) [''32766: from all lookup main''] [])) =
     Selected (RELEASE_POLICY_CANDIDATES ! 1)"
proof -
  let ?c = "\<lparr>product_uid = 10234, policy_namespace = Release, active_identity = None\<rparr>"
  let ?i = "RELEASE_POLICY_CANDIDATES ! 1"
  have i: "?i \<in> set (candidates ?c)" by (simp add: candidates_def RELEASE_POLICY_CANDIDATES_def)
  show ?thesis
    using main_lookup_foreign installed_policy_recognised [OF i, of "[''32766: from all lookup main'']" "[]"] by simp
qed

theorem resolve_identity_sound_witness:
  "let c = \<lparr>product_uid = 10234, policy_namespace = Release, active_identity = None\<rparr>;
       i = RELEASE_POLICY_CANDIDATES ! 1;
       s = installed c i [''32766: from all lookup main''] []
   in resolve_identity c s = (Selected i, c\<lparr>active_identity := Some i\<rparr>) \<and>
      audit_reserved_policy_space (c\<lparr>active_identity := Some i\<rparr>) s i = Clean"
proof -
  let ?c = "\<lparr>product_uid = 10234, policy_namespace = Release, active_identity = None\<rparr>"
  let ?i = "RELEASE_POLICY_CANDIDATES ! 1"
  have i: "?i \<in> set (candidates ?c)" by (simp add: candidates_def RELEASE_POLICY_CANDIDATES_def)
  have "resolve_identity ?c (installed ?c ?i [''32766: from all lookup main''] []) =
      (Selected ?i, ?c\<lparr>active_identity := Some ?i\<rparr>)"
    using main_lookup_foreign installed_recognised [OF i, of "[''32766: from all lookup main'']" "[]"] by simp
  from this resolve_identity_sound [OF this] show ?thesis by (simp add: Let_def)
qed

text \<open>A foreign rule that flips the reserved bit of the first release identity (\<open>--set-xmark\<close> clears the
  bits of its mask and then flips those of its value) audits clean, since only the mask is compared.\<close>

lemma set_xmark_value_not_audited:
  "audit_mark_semantics [''-A'', ''OUTPUT'', ''-j'', ''MARK'', ''--set-xmark'', ''0x200000/0x0''] 0x200000 = Clean"
proof -
  have "split_when (\<lambda>c. c = CHR ''/'') ''0x200000/0x0'' = [''0x200000'', ''0x0'']" by code_simp
  moreover have "parse_mark_number ''0x200000'' = Some 0x200000" "parse_mark_number ''0x0'' = Some 0"
    by (simp_all add: parse_mark_number_def strip_prefix_def parse_unsigned_def digit_value_def
        to_ascii_lowercase_def byte_of_def)
  ultimately have "mark_spec_touches ''0x200000/0x0'' 0x200000 = Some False"
    by (simp add: mark_spec_touches_def IPV4_FULL_MASK_def)
  moreover have "\<not> is_jump ''0x200000/0x0''" "\<not> is_mark_option ''0x200000/0x0''" "\<not> is_mask_option ''0x200000/0x0''"
    "\<not> is_transfer_option ''0x200000/0x0''" "\<not> is_logic_option ''0x200000/0x0''"
    by code_simp+
  ultimately show ?thesis
    by (simp add: audit_mark_semantics_def is_jump_def is_mark_option_def is_mask_option_def
        is_transfer_option_def is_logic_option_def)
qed

end
