(* ===== verification/Control_Protocol.thy ===== *)
theory Control_Protocol
  imports Rust_Addr
begin

text \<open>
  The remote-control protocol (\<open>crates/control/src/lib.rs\<close>): identities, the validated vocabulary of
  server and device messages, the signed payload, and the conversion of an ECDSA signature from DER to
  the fixed format of the wire. SHA-256 and the JSON reader and writer are other packages: they are
  parameters. The main result is that the DER reader accepts exactly the canonical encodings.
\<close>

unbundle bit_operations_syntax

definition CONTROL_PROTOCOL_VERSION :: u8 where "CONTROL_PROTOCOL_VERSION = 1"
definition CONTROL_AUTH_DOMAIN :: string where "CONTROL_AUTH_DOMAIN = ''MISH_CONTROL_AUTH_V1''"
definition CONTROL_DEVICE_ID_HEX_BYTES :: usize where "CONTROL_DEVICE_ID_HEX_BYTES = 64"
definition CONTROL_NONCE_B64URL_BYTES :: usize where "CONTROL_NONCE_B64URL_BYTES = 43"
definition CONTROL_REQUEST_ID_MAX_BYTES :: usize where "CONTROL_REQUEST_ID_MAX_BYTES = 64"
definition CONTROL_WIRE_MAX_BYTES :: usize where "CONTROL_WIRE_MAX_BYTES = 2048"
definition CONTROL_PUBLIC_SPKI_MAX_BYTES :: usize where "CONTROL_PUBLIC_SPKI_MAX_BYTES = 512"
definition CONTROL_SIGNATURE_P1363_BYTES :: usize where "CONTROL_SIGNATURE_P1363_BYTES = 64"

datatype ControlProtocolError =
    UnsupportedVersion
  | InvalidPublicKey
  | InvalidDeviceId
  | InvalidBase64Url
  | InvalidRequestId
  | InvalidOperationId
  | InvalidProxyConnection
  | InvalidSignature
  | MalformedWireMessage
  | WireMessageTooLarge

subsection \<open>Text encodings\<close>

definition CONTROL_HEX :: string where "CONTROL_HEX = ''0123456789abcdef''"

definition control_encode_hex :: "u8 list \<Rightarrow> string" where
  "control_encode_hex bytes =
     concat (map (\<lambda>byte. [CONTROL_HEX ! unat (drop_bit 4 byte), CONTROL_HEX ! unat (byte AND 0x0f)]) bytes)"

definition BASE64_STANDARD :: string where
  "BASE64_STANDARD = ''ABCDEFGHIJKLMNOPQRSTUVWXYZabcdefghijklmnopqrstuvwxyz0123456789+/''"

definition BASE64_URL_SAFE :: string where
  "BASE64_URL_SAFE = ''ABCDEFGHIJKLMNOPQRSTUVWXYZabcdefghijklmnopqrstuvwxyz0123456789-_''"

definition control_base64_chunk :: "string \<Rightarrow> bool \<Rightarrow> u8 list \<Rightarrow> string" where
  "control_base64_chunk alphabet padding chunk =
     (let a = chunk ! 0;
          b = (if 1 < length chunk then chunk ! 1 else 0);
          c = (if 2 < length chunk then chunk ! 2 else 0)
      in [alphabet ! unat (drop_bit 2 a), alphabet ! unat (push_bit 4 (a AND 0x03) OR drop_bit 4 b)] @
         (if 1 < length chunk then [alphabet ! unat (push_bit 2 (b AND 0x0f) OR drop_bit 6 c)]
          else if padding then ''='' else []) @
         (if 2 < length chunk then [alphabet ! unat (c AND 0x3f)] else if padding then ''='' else []))"

fun control_base64_chunks :: "string \<Rightarrow> bool \<Rightarrow> u8 list \<Rightarrow> string" where
  "control_base64_chunks alphabet padding [] = []"
| "control_base64_chunks alphabet padding (a # rest) =
     control_base64_chunk alphabet padding (take 3 (a # rest)) @
     control_base64_chunks alphabet padding (drop 2 rest)"

definition control_encode_base64 :: "u8 list \<Rightarrow> bool \<Rightarrow> bool \<Rightarrow> string" where
  "control_encode_base64 bytes url_safe padding =
     control_base64_chunks (if url_safe then BASE64_URL_SAFE else BASE64_STANDARD) padding bytes"

subsection \<open>Validation\<close>

definition wire_byte :: "u8 \<Rightarrow> bool" where
  "wire_byte b \<longleftrightarrow> is_ascii_alphanumeric b \<or> b = 0x2D \<or> b = 0x5F"

definition validate_request_id :: "string \<Rightarrow> ControlProtocolError + unit" where
  "validate_request_id request_id =
     (if request_id = [] \<or> length request_id > CONTROL_REQUEST_ID_MAX_BYTES \<or>
         \<not> list_all wire_byte (as_bytes request_id)
      then Inl InvalidRequestId else Inr ())"

definition validate_b64url :: "string \<Rightarrow> usize \<Rightarrow> ControlProtocolError + unit" where
  "validate_b64url v exact_len =
     (if length v = exact_len \<and> list_all wire_byte (as_bytes v) then Inr () else Inl InvalidBase64Url)"

definition validate_nonce :: "string \<Rightarrow> ControlProtocolError + unit" where
  "validate_nonce nonce = validate_b64url nonce CONTROL_NONCE_B64URL_BYTES"

definition is_lower_hexdigit :: "u8 \<Rightarrow> bool" where
  "is_lower_hexdigit b \<longleftrightarrow> (0x30 \<le> b \<and> b \<le> 0x39) \<or> (0x61 \<le> b \<and> b \<le> 0x66)"

definition validate_device_id :: "string \<Rightarrow> ControlProtocolError + unit" where
  "validate_device_id device_id =
     (if length device_id = CONTROL_DEVICE_ID_HEX_BYTES \<and> list_all is_lower_hexdigit (as_bytes device_id)
      then Inr () else Inl InvalidDeviceId)"

definition require_version :: "u8 \<Rightarrow> ControlProtocolError + unit" where
  "require_version version = (if version = CONTROL_PROTOCOL_VERSION then Inr () else Inl UnsupportedVersion)"

definition validate_wire_text :: "string \<Rightarrow> ControlProtocolError + unit" where
  "validate_wire_text raw =
     (if raw = [] \<or> length raw > CONTROL_WIRE_MAX_BYTES \<or> trim raw \<noteq> raw \<or> 0 \<in> set (as_bytes raw)
      then Inl MalformedWireMessage else Inr ())"

subsection \<open>Messages\<close>

record ControlDeviceIdentity =
  identity_device_id :: string
  identity_public_key_spki :: "u8 list"

definition from_public_key_spki ::
    "(u8 list \<Rightarrow> u8 list) \<Rightarrow> u8 list \<Rightarrow> ControlProtocolError + ControlDeviceIdentity" where
  "from_public_key_spki sha256 public_key_spki =
     (if public_key_spki = [] \<or> length public_key_spki > CONTROL_PUBLIC_SPKI_MAX_BYTES then Inl InvalidPublicKey
      else Inr \<lparr>identity_device_id = control_encode_hex (sha256 public_key_spki),
                identity_public_key_spki = public_key_spki\<rparr>)"

definition public_key_spki_b64 :: "ControlDeviceIdentity \<Rightarrow> string" where
  "public_key_spki_b64 i = control_encode_base64 (identity_public_key_spki i) False True"

datatype ServerControlMessage =
    Challenge string
  | Ready
  | RotateIp string
  | GetProxy string
  | ResultAck string

datatype RemoteRotationResult = Changed | Unchanged | Failed | Rejected

primrec rotation_result_code :: "RemoteRotationResult \<Rightarrow> string" where
  "rotation_result_code Changed = ''CHANGED''"
| "rotation_result_code Unchanged = ''UNCHANGED''"
| "rotation_result_code Failed = ''FAILED''"
| "rotation_result_code Rejected = ''REJECTED''"

datatype RemoteProxyReason = NotReady | ProxyUnavailable | CredentialUnavailable | InternalError

primrec proxy_reason_code :: "RemoteProxyReason \<Rightarrow> string" where
  "proxy_reason_code NotReady = ''NOT_READY''"
| "proxy_reason_code ProxyUnavailable = ''PROXY_UNAVAILABLE''"
| "proxy_reason_code CredentialUnavailable = ''CREDENTIAL_UNAVAILABLE''"
| "proxy_reason_code InternalError = ''INTERNAL_ERROR''"

text \<open>The JSON objects: what the reader returns for a tagged server message and what the writer is
  given. Each device message carries the version and its type tag.\<close>

datatype WireServerMessage =
    WireChallenge u8 string
  | WireReady u8
  | WireRotateIp u8 string
  | WireGetProxy u8 string
  | WireResultAck u8 string

datatype WireDeviceMessage =
    WireAuth u8 string string string
  | WireAccepted u8 string string u64
  | WireResult u8 string string string "u64 option"
  | WireProxyReady u8 string string bool string u16 u16 u16 string string
  | WireProxyUnavailable u8 string string bool string

definition parse_server_message ::
    "(string \<Rightarrow> WireServerMessage option) \<Rightarrow> string \<Rightarrow> ControlProtocolError + ServerControlMessage" where
  "parse_server_message from_json raw =
     rbind (validate_wire_text raw) (\<lambda>_.
     rbind (ok_or (from_json raw) MalformedWireMessage) (\<lambda>message.
       case message of
         WireChallenge v nonce \<Rightarrow>
           rbind (require_version v) (\<lambda>_. rbind (validate_nonce nonce) (\<lambda>_. Inr (Challenge nonce)))
       | WireReady v \<Rightarrow> rbind (require_version v) (\<lambda>_. Inr Ready)
       | WireRotateIp v request_id \<Rightarrow>
           rbind (require_version v) (\<lambda>_. rbind (validate_request_id request_id) (\<lambda>_. Inr (RotateIp request_id)))
       | WireGetProxy v request_id \<Rightarrow>
           rbind (require_version v) (\<lambda>_. rbind (validate_request_id request_id) (\<lambda>_. Inr (GetProxy request_id)))
       | WireResultAck v request_id \<Rightarrow>
           rbind (require_version v) (\<lambda>_. rbind (validate_request_id request_id) (\<lambda>_. Inr (ResultAck request_id)))))"

definition canonical_auth_payload :: "string \<Rightarrow> string \<Rightarrow> ControlProtocolError + u8 list" where
  "canonical_auth_payload device_id nonce =
     rbind (validate_device_id device_id) (\<lambda>_.
     rbind (validate_nonce nonce) (\<lambda>_.
       Inr (as_bytes (CONTROL_AUTH_DOMAIN @ [CHR 0x0A] @ device_id @ [CHR 0x0A] @ nonce))))"

definition encode_wire :: "(WireDeviceMessage \<Rightarrow> string option) \<Rightarrow> WireDeviceMessage \<Rightarrow> ControlProtocolError + string" where
  "encode_wire to_json message =
     rbind (ok_or (to_json message) MalformedWireMessage) (\<lambda>encoded.
       if length encoded > CONTROL_WIRE_MAX_BYTES then Inl WireMessageTooLarge else Inr encoded)"

definition encode_auth_message ::
    "(WireDeviceMessage \<Rightarrow> string option) \<Rightarrow> string \<Rightarrow> string \<Rightarrow> ControlProtocolError + string" where
  "encode_auth_message to_json device_id signature =
     rbind (validate_device_id device_id) (\<lambda>_.
     rbind (validate_b64url signature 86) (\<lambda>_.
       encode_wire to_json (WireAuth CONTROL_PROTOCOL_VERSION ''AUTH'' device_id signature)))"

definition encode_accepted_message ::
    "(WireDeviceMessage \<Rightarrow> string option) \<Rightarrow> string \<Rightarrow> u64 \<Rightarrow> ControlProtocolError + string" where
  "encode_accepted_message to_json request_id operation_id =
     rbind (validate_request_id request_id) (\<lambda>_.
       if operation_id = 0 then Inl InvalidOperationId
       else encode_wire to_json (WireAccepted CONTROL_PROTOCOL_VERSION ''ACCEPTED'' request_id operation_id))"

definition encode_result_message ::
    "(WireDeviceMessage \<Rightarrow> string option) \<Rightarrow> string \<Rightarrow> RemoteRotationResult \<Rightarrow> u64 option \<Rightarrow>
     ControlProtocolError + string" where
  "encode_result_message to_json request_id result operation_id =
     rbind (validate_request_id request_id) (\<lambda>_.
       if operation_id = Some 0 then Inl InvalidOperationId
       else encode_wire to_json (WireResult CONTROL_PROTOCOL_VERSION ''RESULT'' request_id
              (rotation_result_code result) operation_id))"

definition encode_proxy_ready_message ::
    "(WireDeviceMessage \<Rightarrow> string option) \<Rightarrow> string \<Rightarrow> string \<Rightarrow> u16 \<Rightarrow> u16 \<Rightarrow> u16 \<Rightarrow> string \<Rightarrow> string \<Rightarrow>
     ControlProtocolError + string" where
  "encode_proxy_ready_message to_json request_id host mixed_port socks5_port http_port username password =
     rbind (validate_request_id request_id) (\<lambda>_.
       if parse_ipv4 host = None \<or> mixed_port = 0 \<or> socks5_port = 0 \<or> http_port = 0 \<or>
          username = [] \<or> password = []
       then Inl InvalidProxyConnection
       else encode_wire to_json (WireProxyReady CONTROL_PROTOCOL_VERSION ''PROXY'' request_id True host
              mixed_port socks5_port http_port username password))"

definition encode_proxy_unavailable_message ::
    "(WireDeviceMessage \<Rightarrow> string option) \<Rightarrow> string \<Rightarrow> RemoteProxyReason \<Rightarrow> ControlProtocolError + string" where
  "encode_proxy_unavailable_message to_json request_id reason =
     rbind (validate_request_id request_id) (\<lambda>_.
       encode_wire to_json (WireProxyUnavailable CONTROL_PROTOCOL_VERSION ''PROXY'' request_id False
         (proxy_reason_code reason)))"

subsection \<open>Signatures\<close>

definition take_byte :: "u8 list \<Rightarrow> usize \<Rightarrow> ControlProtocolError + u8 \<times> usize" where
  "take_byte der cursor =
     (if cursor < length der
      then rbind (ok_or (checked_add_usize cursor 1) InvalidSignature) (\<lambda>c. Inr (der ! cursor, c))
      else Inl InvalidSignature)"

fun length_bytes :: "nat \<Rightarrow> u8 list \<Rightarrow> usize \<Rightarrow> usize \<Rightarrow> ControlProtocolError + usize \<times> usize" where
  "length_bytes 0 der cursor len = Inr (len, cursor)"
| "length_bytes (Suc n) der cursor len =
     (if usize_limit \<le> len * 256 then Inl InvalidSignature
      else rbind (take_byte der cursor) (\<lambda>(byte, cursor).
           rbind (ok_or (checked_add_usize (len * 256) (unat byte)) InvalidSignature) (\<lambda>len.
             length_bytes n der cursor len)))"

definition take_der_length :: "u8 list \<Rightarrow> usize \<Rightarrow> ControlProtocolError + usize \<times> usize" where
  "take_der_length der cursor =
     rbind (take_byte der cursor) (\<lambda>(first, cursor).
       if first AND 0x80 = 0 then Inr (unat first, cursor)
       else let bytes = unat (first AND 0x7f)
            in if bytes = 0 \<or> bytes > 2 then Inl InvalidSignature
               else rbind (length_bytes bytes der cursor 0) (\<lambda>(len, cursor).
                 if len < 128 then Inl InvalidSignature else Inr (len, cursor)))"

definition take_der_integer :: "u8 list \<Rightarrow> usize \<Rightarrow> ControlProtocolError + u8 list \<times> usize" where
  "take_der_integer der cursor =
     rbind (take_byte der cursor) (\<lambda>(tag, cursor).
       if tag \<noteq> 0x02 then Inl InvalidSignature
       else rbind (take_der_length der cursor) (\<lambda>(len, cursor).
         case checked_add_usize cursor len of
           None \<Rightarrow> Inl InvalidSignature
         | Some e \<Rightarrow>
             if e > length der then Inl InvalidSignature
             else let v = take len (drop cursor der)
                  in if v = [] \<or> v ! 0 AND 0x80 \<noteq> 0 then Inl InvalidSignature
                     else if 1 < length v \<and> v ! 0 = 0 \<and> v ! 1 AND 0x80 = 0 then Inl InvalidSignature
                     else Inr (v, e)))"

definition copy_integer_32 :: "u8 list \<Rightarrow> ControlProtocolError + u8 list" where
  "copy_integer_32 v =
     (let v = (case v of b # r \<Rightarrow> if b = 0 then r else v | [] \<Rightarrow> [])
      in if v = [] \<or> length v > 32 then Inl InvalidSignature else Inr (replicate (32 - length v) 0 @ v))"

definition p256_der_signature_to_p1363 :: "u8 list \<Rightarrow> ControlProtocolError + u8 list" where
  "p256_der_signature_to_p1363 der =
     rbind (take_byte der 0) (\<lambda>(tag, cursor).
       if tag \<noteq> 0x30 then Inl InvalidSignature
       else rbind (take_der_length der cursor) (\<lambda>(sequence_len, cursor).
         if checked_add_usize cursor sequence_len \<noteq> Some (length der) then Inl InvalidSignature
         else rbind (take_der_integer der cursor) (\<lambda>(r, cursor).
              rbind (take_der_integer der cursor) (\<lambda>(s, cursor).
                if cursor \<noteq> length der then Inl InvalidSignature
                else rbind (copy_integer_32 r) (\<lambda>r.
                     rbind (copy_integer_32 s) (\<lambda>s. Inr (r @ s)))))))"

definition p256_der_signature_to_p1363_b64url :: "u8 list \<Rightarrow> ControlProtocolError + string" where
  "p256_der_signature_to_p1363_b64url der =
     rbind (p256_der_signature_to_p1363 der) (\<lambda>signature. Inr (control_encode_base64 signature True False))"

subsection \<open>The reference encoding\<close>

text \<open>DER of a positive 256-bit integer: no superfluous leading zeros, one if the top bit is set.\<close>

definition der_content :: "u8 list \<Rightarrow> u8 list" where
  "der_content v =
     (let t = dropWhile (\<lambda>b. b = 0) v in if t \<noteq> [] \<and> hd t AND 0x80 \<noteq> 0 then 0 # t else t)"

definition der_integer :: "u8 list \<Rightarrow> u8 list" where
  "der_integer v = [0x02, of_nat (length (der_content v))] @ der_content v"

definition der_signature :: "u8 list \<Rightarrow> u8 list \<Rightarrow> u8 list" where
  "der_signature r s = [0x30, of_nat (length (der_integer r @ der_integer s))] @ der_integer r @ der_integer s"

definition positive_32 :: "u8 list \<Rightarrow> bool" where
  "positive_32 v \<longleftrightarrow> length v = 32 \<and> (\<exists>b \<in> set v. b \<noteq> 0)"

subsection \<open>The reader accepts exactly the canonical encodings\<close>

lemma high_bit: "(b :: u8) AND 0x80 = 0 \<longleftrightarrow> unat b < 128"
proof -
  have "b AND 0x80 = 0 \<longleftrightarrow> \<not> bit b 7"
    using and_exp_eq_0_iff_not_bit [of b 7] by simp
  also have "\<dots> \<longleftrightarrow> unat b < 128"
  proof -
    have "bit b 7 \<longleftrightarrow> bit (unat b) 7" by (simp add: bit_unsigned_iff)
    then have "bit b 7 \<longleftrightarrow> odd (unat b div 2 ^ 7)" by (simp only: bit_iff_odd)
    moreover have "unat b div 2 ^ 7 < 2" using unat_bound [of b] by simp
    then have "odd (unat b div 2 ^ 7) \<longleftrightarrow> unat b div 2 ^ 7 \<noteq> 0" by (cases "unat b div 2 ^ 7") auto
    ultimately show ?thesis by auto
  qed
  finally show ?thesis .
qed

lemma take_byte_Inr_iff:
  "take_byte der c = Inr (b, c') \<longleftrightarrow> c < length der \<and> b = der ! c \<and> c' = c + 1 \<and> c + 1 < usize_limit"
  by (auto simp: take_byte_def checked_add_usize_def)

text \<open>What a successful length, integer and signature say about the bytes at the cursor.\<close>

lemma take_der_length_Inr:
  assumes "take_der_length der c = Inr (n, c')" "n < 128"
  shows "c < length der \<and> der ! c = of_nat n \<and> c' = c + 1"
  using assms
  by (auto simp: take_der_length_def rbind_Inr_iff take_byte_Inr_iff Let_def split: if_splits)

lemma take_der_length_forward:
  "take_der_length der c = Inr (n, c') \<Longrightarrow> c + 1 \<le> c'"
proof -
  have "length_bytes k der c n = Inr (m, c') \<Longrightarrow> c \<le> c'" for k c n m
    by (induction k arbitrary: c n) (auto simp: rbind_Inr_iff take_byte_Inr_iff split: if_splits, fastforce)
  then show "take_der_length der c = Inr (n, c') \<Longrightarrow> c + 1 \<le> c'"
    by (fastforce simp: take_der_length_def rbind_Inr_iff take_byte_Inr_iff Let_def split: if_splits)
qed

definition minimal :: "u8 list \<Rightarrow> bool" where
  "minimal v \<longleftrightarrow> v \<noteq> [] \<and> unat (v ! 0) < 128 \<and> \<not> (1 < length v \<and> v ! 0 = 0 \<and> unat (v ! 1) < 128)"

lemma take_der_integer_Inr:
  assumes "take_der_integer der c = Inr (v, c')"
  shows "minimal v" "c + 2 + length v \<le> c'" "c' \<le> length der"
    "length v < 128 \<Longrightarrow> c' = c + 2 + length v \<and> take (2 + length v) (drop c der) = [0x02, of_nat (length v)] @ v"
proof -
  from assms obtain n c2 where n: "c < length der" "der ! c = 0x02" "take_der_length der (c + 1) = Inr (n, c2)"
    "c2 + n < usize_limit" "c2 + n \<le> length der" "v = take n (drop c2 der)" "c' = c2 + n" "minimal v"
    by (auto simp: take_der_integer_def rbind_Inr_iff take_byte_Inr_iff Let_def high_bit minimal_def
        checked_add_usize_def split: if_splits option.splits)
  then have len: "length v = n" by simp
  show "minimal v" "c' \<le> length der" using n by simp_all
  show "c + 2 + length v \<le> c'" using take_der_length_forward [OF n(3)] n(7) len by simp
  assume "length v < 128"
  with take_der_length_Inr [OF n(3)] len have l: "c + 1 < length der" "der ! (c + 1) = of_nat n" "c2 = c + 2" by auto
  have "drop c der = der ! c # der ! (c + 1) # drop (c + 2) der"
    using n(1) l(1) by (simp add: Cons_nth_drop_Suc)
  then have "take (2 + length v) (drop c der) = [0x02, of_nat n] @ take n (drop (c + 2) der)"
    using n(2) l(2) len by simp
  with n(6,7) l(3) len show "c' = c + 2 + length v \<and> take (2 + length v) (drop c der) = [0x02, of_nat (length v)] @ v"
    by simp
qed

lemma minimal_content:
  assumes "copy_integer_32 v = Inr out" "minimal v"
  shows "positive_32 out" "der_content out = v" "length v \<le> 33"
proof -
  obtain b r where v: "v = b # r" using assms(2) by (cases v) (auto simp: minimal_def)
  let ?t = "if b = 0 then r else v"
  have t: "?t \<noteq> []" "length ?t \<le> 32" "out = replicate (32 - length ?t) 0 @ ?t"
    using assms(1) v by (auto simp: copy_integer_32_def Let_def split: if_splits)
  have hd: "hd ?t \<noteq> 0" "b = 0 \<Longrightarrow> 128 \<le> unat (hd ?t)" "b \<noteq> 0 \<Longrightarrow> unat (hd ?t) < 128"
    using assms(2) v t(1) by (auto simp: minimal_def hd_conv_nth)
  have "dropWhile (\<lambda>b. b = 0) (replicate n 0 @ ?t) = ?t" for n
    using hd(1) t(1) by (induction n) (simp_all add: dropWhile_eq_self_iff)
  then show "der_content out = v"
    using t hd v by (auto simp: der_content_def Let_def high_bit)
  show "positive_32 out" unfolding positive_32_def t(3)
    using t(1,2) hd(1) by (auto intro!: bexI [of _ "hd ?t"])
  show "length v \<le> 33" using t(2) v by (auto split: if_splits)
qed

lemma content_minimal:
  assumes "positive_32 out"
  shows "minimal (der_content out)" "copy_integer_32 (der_content out) = Inr out"
    "length (der_content out) \<le> 33" "der_content out \<noteq> []"
proof -
  let ?t = "dropWhile (\<lambda>b. b = 0) out"
  have t: "?t \<noteq> []" using assms by (auto simp: positive_32_def)
  then have hd: "hd ?t \<noteq> 0" using hd_dropWhile [of "\<lambda>b. b = 0" out] by simp
  then have nth: "?t ! 0 \<noteq> 0" using t by (simp add: hd_conv_nth)
  have "takeWhile (\<lambda>b. b = 0) out = replicate (length (takeWhile (\<lambda>b. b = 0) out)) 0"
    by (rule replicate_eqI) (auto dest: set_takeWhileD)
  moreover have split: "takeWhile (\<lambda>b. b = 0) out @ ?t = out" by simp
  then have "length (takeWhile (\<lambda>b. b = 0) out) + length ?t = 32"
    using assms by (metis length_append positive_32_def)
  ultimately have out: "out = replicate (32 - length ?t) 0 @ ?t" "length ?t \<le> 32"
    using split by (metis add_diff_cancel_right', linarith)
  obtain x y where xy: "?t = x # y" using t by (cases ?t) simp_all
  show "der_content out \<noteq> []" "length (der_content out) \<le> 33"
    using t out(2) by (auto simp: der_content_def Let_def)
  show "minimal (der_content out)"
    using hd xy by (auto simp: der_content_def Let_def minimal_def high_bit not_less)
  show "copy_integer_32 (der_content out) = Inr out"
    using hd xy out by (auto simp: der_content_def copy_integer_32_def Let_def high_bit)
qed

lemma take_der_integer_complete:
  assumes "positive_32 v" "drop c der = der_integer v @ rest" "length der < 1000"
  shows "take_der_integer der c = Inr (der_content v, c + 2 + length (der_content v))"
proof -
  note m = content_minimal [OF assms(1)]
  let ?v = "der_content v"
  have drop: "drop c der = 0x02 # of_nat (length ?v) # ?v @ rest" using assms(2) by (simp add: der_integer_def)
  have c: "c + 2 + length ?v \<le> length der" using arg_cong [OF drop, of length] by simp
  have nth: "der ! (c + k) = drop c der ! k" for k using c by (simp add: nth_drop)
  have nth: "der ! c = 0x02" "der ! (c + 1) = of_nat (length ?v)" using nth [of 0] nth [of 1] drop by simp_all
  have "drop (c + 2) der = drop 2 (drop c der)" by (simp add: add.commute)
  then have body: "take (length ?v) (drop (c + 2) der) = ?v" by (simp add: drop)
  have unat: "unat (of_nat (length ?v) :: u8) = length ?v" using m(3) by (simp add: unat_of_nat)
  then have "(of_nat (length ?v) :: u8) AND 0x80 = 0" using m(3) by (simp add: high_bit)
  then have "take_der_length der (c + 1) = Inr (length ?v, c + 2)"
    using c nth(2) assms(3) unat by (simp add: take_der_length_def take_byte_def checked_add_usize_def)
  then show ?thesis
    using c nth body assms(3) m(1,4)
    by (simp add: take_der_integer_def take_byte_def checked_add_usize_def minimal_def high_bit Let_def)
qed

lemma signature_complete:
  assumes "positive_32 r" "positive_32 s"
  shows "p256_der_signature_to_p1363 (der_signature r s) = Inr (r @ s)"
proof -
  let ?der = "der_signature r s"
  define n where "n = length (der_integer r @ der_integer s)"
  note r = content_minimal [OF assms(1)] and s = content_minimal [OF assms(2)]
  have n: "n \<le> 70" "n = 4 + length (der_content r) + length (der_content s)"
    using r(3) s(3) by (simp_all add: der_integer_def n_def)
  have der: "?der = 0x30 # of_nat n # der_integer r @ der_integer s" by (simp add: der_signature_def n_def)
  have len: "length ?der = 2 + n" by (simp add: der n_def)
  have unat: "unat (of_nat n :: u8) = n" using n(1) by (simp add: unat_of_nat)
  then have "(of_nat n :: u8) AND 0x80 = 0" using n(1) by (simp only: high_bit)
  then have head: "take_der_length ?der 1 = Inr (n, 2)"
    using unat len by (simp add: take_der_length_def take_byte_def checked_add_usize_def der)
  have r1: "take_der_integer ?der 2 = Inr (der_content r, 2 + 2 + length (der_content r))"
    using len n(1) by (intro take_der_integer_complete [OF assms(1), of _ _ "der_integer s"]) (simp_all add: der)
  have "drop (2 + 2 + length (der_content r)) ?der = der_integer s @ []"
    by (simp add: der der_integer_def numeral_eq_Suc)
  then have s1: "take_der_integer ?der (2 + 2 + length (der_content r)) =
      Inr (der_content s, 2 + 2 + length (der_content r) + 2 + length (der_content s))"
    using len n(1) by (intro take_der_integer_complete [OF assms(2)]) simp_all
  have "take_byte ?der 0 = Inr (0x30, 1)" by (simp add: take_byte_def checked_add_usize_def der)
  then show ?thesis
    using head r1 s1 len n r(2) s(2) by (simp add: p256_der_signature_to_p1363_def checked_add_usize_def)
qed

lemma signature_sound:
  assumes "p256_der_signature_to_p1363 der = Inr sig"
  shows "\<exists>r s. positive_32 r \<and> positive_32 s \<and> sig = r @ s \<and> der = der_signature r s"
proof -
  from assms obtain n c r c1 s r32 s32 where
    tag: "0 < length der" "der ! 0 = 0x30" and n: "take_der_length der 1 = Inr (n, c)" "c + n = length der"
    and r: "take_der_integer der c = Inr (r, c1)" and s: "take_der_integer der c1 = Inr (s, length der)"
    and copies: "copy_integer_32 r = Inr r32" "copy_integer_32 s = Inr s32" and sig: "sig = r32 @ s32"
    by (auto simp: p256_der_signature_to_p1363_def rbind_Inr_iff take_byte_Inr_iff checked_add_usize_def
        split: if_splits)
  note rc = minimal_content [OF copies(1) take_der_integer_Inr(1) [OF r]]
  note sc = minimal_content [OF copies(2) take_der_integer_Inr(1) [OF s]]
  have r1: "c1 = c + 2 + length r" "take (2 + length r) (drop c der) = [0x02, of_nat (length r)] @ r"
    using take_der_integer_Inr(4) [OF r] rc(3) by simp_all
  have s1: "length der = c1 + 2 + length s" "take (2 + length s) (drop c1 der) = [0x02, of_nat (length s)] @ s"
    using take_der_integer_Inr(4) [OF s] sc(3) by simp_all
  have small: "n < 128" using r1(1) s1(1) n(2) rc(3) sc(3) by simp
  with take_der_length_Inr [OF n(1)] have len: "1 < length der" "der ! 1 = of_nat n" "c = 2" by simp_all
  have all: "der = der ! 0 # der ! 1 # drop 2 der"
    using len(1) by (metis Cons_nth_drop_Suc One_nat_def Suc_1 drop0 tag(1))
  have first: "take (2 + length r) (drop 2 der) = [0x02, of_nat (length r)] @ r" using r1(2) len(3) by simp
  have "drop (2 + length r) (drop 2 der) = take (2 + length s) (drop c1 der)"
    using r1(1) s1(1) len(3) by (simp add: numeral_eq_Suc)
  then have second: "drop (2 + length r) (drop 2 der) = [0x02, of_nat (length s)] @ s" using s1(2) by simp
  have "drop 2 der = ([0x02, of_nat (length r)] @ r) @ ([0x02, of_nat (length s)] @ s)"
    using append_take_drop_id [of "2 + length r" "drop 2 der"] unfolding first second by (rule sym)
  with all have "der = [0x30, of_nat n] @ ([0x02, of_nat (length r)] @ r) @ ([0x02, of_nat (length s)] @ s)"
    using tag(2) len(2) by simp
  moreover have "n = length (([0x02, of_nat (length r)] @ r) @ ([0x02, of_nat (length s)] @ s) :: u8 list)"
    using n(2) r1(1) s1(1) len(3) by simp
  ultimately have "der = der_signature r32 s32"
    by (simp add: der_signature_def der_integer_def rc(2) sc(2))
  with rc(1) sc(1) sig show ?thesis by blast
qed

text \<open>C36. The signature conversion. For every byte string, whatever the platform's key store returns:
  the conversion succeeds exactly on the canonical DER encodings of two positive integers of at most
  256 bits, and then yields the two 32-byte big-endian values side by side. No second encoding of a
  signature is accepted, and truncated, padded, negative, zero or oversized input is an error.\<close>

theorem signature_conversion_exact:
  "p256_der_signature_to_p1363 der = Inr sig \<longleftrightarrow>
     (\<exists>r s. positive_32 r \<and> positive_32 s \<and> sig = r @ s \<and> der = der_signature r s)"
  using signature_complete signature_sound by auto

end
