(* ===== verification/Root_Session.thy ===== *)
theory Root_Session
  imports Rust_Str
begin

text \<open>
  The persistent root shell, \<open>src/crates/runtime/src/root_session.rs\<close>: the sealed command type, the
  framing of a command with an end marker, the bounded capture of the lines the shell prints, and the
  manager that owns the one live session and never replays a command. The shell process is a parameter:
  a function from the text written to it to the reads that arrive on its standard output. Lines that
  arrived and were not read yet stay in the session, since a caller may drop a command half way.
\<close>

subsection \<open>Commands and results\<close>

datatype RootCommandKind = Observation | Mutation

record RootCommand =
  command_kind :: RootCommandKind
  command :: string

datatype RootSessionError = InvalidCommand | SpawnUnavailable | StateUnavailable

record RootCommandResult =
  exit_code :: int
  stdout :: string
  timed_out :: bool
  output_complete :: bool
  session_generation :: u64

type_synonym RootAnswer = "RootSessionError + RootCommandResult"

record RootCommandOutcome =
  outcome_result :: RootCommandResult
  transport_healthy :: bool

abbreviation LF :: char where "LF \<equiv> CHR 0x0A"
abbreviation CR :: char where "CR \<equiv> CHR 0x0D"

definition MAX_OUTPUT_BYTES :: usize where "MAX_OUTPUT_BYTES = 4096"
definition MARKER_PREFIX :: string where "MARKER_PREFIX = ''__MISH_ROOT_DONE_''"

definition root_command_new :: "RootCommandKind \<Rightarrow> string \<Rightarrow> RootSessionError + RootCommand" where
  "root_command_new kind c =
     (if c = [] \<or> LF \<in> set c \<or> CR \<in> set c \<or> CHR 0x00 \<in> set c then Inl InvalidCommand
      else Inr \<lparr>command_kind = kind, command = c\<rparr>)"

definition root_observation :: "string \<Rightarrow> RootSessionError + RootCommand" where
  "root_observation c = root_command_new Observation c"

definition root_mutation :: "string \<Rightarrow> RootSessionError + RootCommand" where
  "root_mutation c = root_command_new Mutation c"

subsection \<open>One shell session\<close>

text \<open>\<open>str::parse::<i32>\<close> of the exit status.\<close>

definition parse_i32 :: "string \<Rightarrow> int option" where
  "parse_i32 s =
     (case s of
        [] \<Rightarrow> None
      | c # r \<Rightarrow>
          if c = CHR ''-'' then
            (if r = [] then None
             else case digits_value 10 0 r of
                    None \<Rightarrow> None
                  | Some v \<Rightarrow> if v \<le> 2 ^ 31 then Some (- int v) else None)
          else map_option int (parse_unsigned 10 (2 ^ 31) s))"

definition trim_line_end :: "string \<Rightarrow> string" where
  "trim_line_end l = rev (dropWhile (\<lambda>c. c = CR \<or> c = LF) (rev l))"

definition end_marker :: "u64 \<Rightarrow> u64 \<Rightarrow> string" where
  "end_marker g n = MARKER_PREFIX @ show_u64 g @ ''_'' @ show_u64 n"

text \<open>The text handed to the shell: the command, and a line that prints the marker and the status.\<close>

definition framed :: "RootCommand \<Rightarrow> string \<Rightarrow> string" where
  "framed c marker =
     command c @ [LF] @ ''__mish_root_status=$?; printf '' @ [CHR 0x27, CHR 0x5C, CHR ''n''] @ marker @
     '':%s'' @ [CHR 0x5C, CHR ''n'', CHR 0x27] @ '' '' @ [CHR 0x22] @ ''$__mish_root_status'' @ [CHR 0x22, LF]"

text \<open>
  One completed \<open>read_line\<close>: a line with its terminator, the end of the stream with the exit code of the
  child if it has one, or an error.
\<close>

datatype ShellRead = Line string | Eof "int option" | ReadError

record RootShellSession =
  generation :: u64
  sequence :: u64
  pending :: "ShellRead list"

definition shell_start :: "u64 \<Rightarrow> RootShellSession" where
  "shell_start g = \<lparr>generation = g, sequence = 0, pending = []\<rparr>"

definition lost_outcome :: "u64 \<Rightarrow> bool \<Rightarrow> RootCommandOutcome" where
  "lost_outcome g timeout =
     \<lparr>outcome_result = \<lparr>exit_code = - 1, stdout = [], timed_out = timeout, output_complete = False,
        session_generation = g\<rparr>, transport_healthy = False\<rparr>"

text \<open>The read loop; \<open>None\<close> when nothing more arrives.\<close>

fun read_outcome ::
    "string \<Rightarrow> u64 \<Rightarrow> string \<Rightarrow> usize \<Rightarrow> bool \<Rightarrow> ShellRead list \<Rightarrow>
     RootCommandOutcome option \<times> ShellRead list" where
  "read_outcome marker g captured captured_bytes complete [] = (None, [])"
| "read_outcome marker g captured captured_bytes complete (ReadError # rest) =
     (Some (lost_outcome g False), rest)"
| "read_outcome marker g captured captured_bytes complete (Eof code # rest) =
     (Some (if code = None \<or> code = Some 0 then lost_outcome g False
            else \<lparr>outcome_result = \<lparr>exit_code = the code, stdout = captured, timed_out = False,
                    output_complete = complete, session_generation = g\<rparr>, transport_healthy = False\<rparr>), rest)"
| "read_outcome marker g captured captured_bytes complete (Line line # rest) =
     (case strip_prefix (marker @ '':'') (trim_line_end line) of
        Some raw_status \<Rightarrow>
          (case parse_i32 raw_status of
             None \<Rightarrow> (Some (lost_outcome g False), rest)
           | Some code \<Rightarrow>
               (Some \<lparr>outcome_result = \<lparr>exit_code = code, stdout = captured, timed_out = False,
                        output_complete = complete, session_generation = g\<rparr>, transport_healthy = True\<rparr>, rest))
      | None \<Rightarrow>
          if captured_bytes + length line \<le> MAX_OUTPUT_BYTES
          then read_outcome marker g (captured @ line) (captured_bytes + length line) complete rest
          else read_outcome marker g captured captured_bytes False rest)"

definition saturating_inc :: "u64 \<Rightarrow> u64" where
  "saturating_inc n = (case checked_add n 1 of None \<Rightarrow> n | Some m \<Rightarrow> m)"

definition next_marker :: "RootShellSession \<Rightarrow> string" where
  "next_marker s = end_marker (generation s) (saturating_inc (sequence s))"

text \<open>
  A command that runs to its end. \<open>written\<close> says whether the framed text went through. When the reads run
  out the command timer fires, and the session is destroyed.
\<close>

definition shell_execute ::
    "RootShellSession \<Rightarrow> RootCommand \<Rightarrow> bool \<Rightarrow> (string \<Rightarrow> ShellRead list) \<Rightarrow>
     RootCommandOutcome \<times> RootShellSession" where
  "shell_execute s c written sh =
     (let marker = next_marker s; s = s\<lparr>sequence := saturating_inc (sequence s)\<rparr>
      in if \<not> written then (lost_outcome (generation s) False, s)
         else case read_outcome marker (generation s) [] 0 True (pending s @ sh (framed c marker)) of
                (None, rest) \<Rightarrow> (lost_outcome (generation s) True, s\<lparr>pending := rest\<rparr>)
              | (Some r, rest) \<Rightarrow> (r, s\<lparr>pending := rest\<rparr>))"

text \<open>A command whose caller drops the future after \<open>k\<close> reads: no result, and the rest stays unread. The drop
  comes after the whole command was written and between two lines; a drop while writing or in the middle of a line
  is left out.\<close>

definition shell_dropped ::
    "RootShellSession \<Rightarrow> RootCommand \<Rightarrow> (string \<Rightarrow> ShellRead list) \<Rightarrow> nat \<Rightarrow> RootShellSession" where
  "shell_dropped s c sh k =
     s\<lparr>sequence := saturating_inc (sequence s), pending := drop k (pending s @ sh (framed c (next_marker s)))\<rparr>"

subsection \<open>The manager of the one live session\<close>

record RootSessionState =
  session :: "RootShellSession option"
  next_generation :: u64

definition session_manager_new :: RootSessionState where
  "session_manager_new = \<lparr>session = None, next_generation = 1\<rparr>"

text \<open>The session a command runs on: the live one, or a new one from the starter.\<close>

definition ensure_session ::
    "RootSessionState \<Rightarrow> (u64 \<Rightarrow> RootSessionError + unit) \<Rightarrow>
     (RootSessionError + RootShellSession) \<times> RootSessionState" where
  "ensure_session st starter =
     (case session st of
        Some s \<Rightarrow> (Inr s, st)
      | None \<Rightarrow>
          (case checked_add (next_generation st) 1 of
             None \<Rightarrow> (Inl StateUnavailable, st)
           | Some n \<Rightarrow>
               (let g = next_generation st; st = st\<lparr>next_generation := n\<rparr>
                in case starter g of
                     Inl e \<Rightarrow> (Inl e, st)
                   | Inr _ \<Rightarrow> (Inr (shell_start g), st\<lparr>session := Some (shell_start g)\<rparr>))))"

definition execute_with_starter ::
    "RootSessionState \<Rightarrow> RootCommand \<Rightarrow> (u64 \<Rightarrow> RootSessionError + unit) \<Rightarrow> bool \<Rightarrow>
     (string \<Rightarrow> ShellRead list) \<Rightarrow> (RootSessionError + RootCommandResult) \<times> RootSessionState" where
  "execute_with_starter st c starter written sh =
     (case ensure_session st starter of
        (Inl e, st) \<Rightarrow> (Inl e, st)
      | (Inr s, st) \<Rightarrow>
          (let (r, s) = shell_execute s c written sh
           in (Inr (outcome_result r), st\<lparr>session := if transport_healthy r then Some s else None\<rparr>)))"

definition execute_dropped ::
    "RootSessionState \<Rightarrow> RootCommand \<Rightarrow> (u64 \<Rightarrow> RootSessionError + unit) \<Rightarrow>
     (string \<Rightarrow> ShellRead list) \<Rightarrow> nat \<Rightarrow> RootSessionState" where
  "execute_dropped st c starter sh k =
     (case ensure_session st starter of
        (Inl e, st) \<Rightarrow> st
      | (Inr s, st) \<Rightarrow> st\<lparr>session := Some (shell_dropped s c sh k)\<rparr>)"

definition session_shutdown :: "RootSessionState \<Rightarrow> RootSessionState" where
  "session_shutdown st = st\<lparr>session := None\<rparr>"

subsection \<open>What a shell prints\<close>

text \<open>The lines of a text, each with its terminator.\<close>

fun read_lines :: "string \<Rightarrow> string list" where
  "read_lines [] = []"
| "read_lines (c # s) =
     (if c = LF then [c] # read_lines s
      else case read_lines s of [] \<Rightarrow> [[c]] | l # ls \<Rightarrow> (c # l) # ls)"

lemma concat_read_lines [simp]: "concat (read_lines s) = s"
  by (induction s) (auto split: list.splits)

lemma read_lines_Nil_iff [simp]: "read_lines s = [] \<longleftrightarrow> s = []"
  by (cases s) (auto split: list.splits)

lemma read_lines_append: "read_lines (s @ LF # t) = read_lines (s @ [LF]) @ read_lines t"
  by (induction s) (auto split: list.splits)

lemma read_lines_one: "LF \<notin> set l \<Longrightarrow> read_lines (l @ [LF]) = [l @ [LF]]"
  by (induction l) auto

text \<open>
  A POSIX shell that answers a framed command: it prints the output of the command, a line feed, and the
  marker line with the exit status. \<open>quiet\<close> output has no line that begins like a marker.
\<close>

definition answers :: "(string \<Rightarrow> ShellRead list) \<Rightarrow> RootCommand \<Rightarrow> string \<Rightarrow> string \<Rightarrow> nat \<Rightarrow> bool" where
  "answers sh c marker printed status \<longleftrightarrow>
     sh (framed c marker) = map Line (read_lines (printed @ LF # marker @ '':'' @ show_nat status @ [LF]))"

definition quiet :: "string \<Rightarrow> bool" where
  "quiet printed \<longleftrightarrow>
     list_all (\<lambda>l. strip_prefix MARKER_PREFIX l = None) (read_lines (printed @ [LF]))"

lemma digit_not_line_end: "c \<in> set (show_nat n) \<Longrightarrow> c \<noteq> LF \<and> c \<noteq> CR \<and> c \<noteq> CHR ''-''"
proof -
  assume "c \<in> set (show_nat n)"
  then obtain d where "d < 10" "c = digit_char d" using show_nat_digits by metis
  then show ?thesis using byte_of_digit_char [of d] by (auto simp: byte_of_def)
qed

lemma marker_no_line_end: "c \<in> set (end_marker g n) \<Longrightarrow> c \<noteq> LF \<and> c \<noteq> CR"
  using digit_not_line_end
  by (auto simp: end_marker_def MARKER_PREFIX_def show_u64_def)

lemma trim_line_end_prefix: "\<exists>r. l = trim_line_end l @ r"
  using takeWhile_dropWhile_id [of "\<lambda>c. c = CR \<or> c = LF" "rev l"]
  by (metis rev_append rev_rev_ident trim_line_end_def)

lemma trim_line_end_plain: "l = k @ [c] \<Longrightarrow> c \<noteq> LF \<Longrightarrow> c \<noteq> CR \<Longrightarrow> trim_line_end (l @ [LF]) = l"
  by (simp add: trim_line_end_def)

lemma quiet_line:
  assumes "strip_prefix MARKER_PREFIX l = None"
  shows "strip_prefix (end_marker g n @ x) (trim_line_end l) = None"
proof (rule ccontr)
  assume "strip_prefix (end_marker g n @ x) (trim_line_end l) \<noteq> None"
  then obtain r where "trim_line_end l = (end_marker g n @ x) @ r" by (auto simp: strip_prefix_Some_iff)
  moreover obtain r' where "l = trim_line_end l @ r'" using trim_line_end_prefix by blast
  ultimately have "l = MARKER_PREFIX @ (show_u64 g @ ''_'' @ show_u64 n @ x @ r @ r')"
    by (simp add: end_marker_def)
  then have "strip_prefix MARKER_PREFIX l \<noteq> None" using strip_prefix_Some_iff by blast
  with assms show False by simp
qed

lemma parse_i32_show: "n < 2 ^ 31 \<Longrightarrow> parse_i32 (show_nat n) = Some (int n)"
  using parse_show [of n "2 ^ 31"] digit_not_line_end [of _ n]
  by (cases "show_nat n") (auto simp: parse_i32_def)

definition marker_line :: "string \<Rightarrow> nat \<Rightarrow> string" where
  "marker_line marker status = marker @ '':'' @ show_nat status @ [LF]"

lemma marker_line_trimmed:
  "trim_line_end (marker_line (end_marker g n) status) = end_marker g n @ '':'' @ show_nat status"
proof -
  have "last (show_nat status) \<noteq> LF" "last (show_nat status) \<noteq> CR"
    using digit_not_line_end [of "last (show_nat status)" status] by simp_all
  then show ?thesis
    using trim_line_end_plain
      [of "end_marker g n @ '':'' @ show_nat status"
          "end_marker g n @ '':'' @ butlast (show_nat status)" "last (show_nat status)"]
    by (simp add: marker_line_def)
qed

lemma answer_lines:
  "read_lines (printed @ LF # end_marker g n @ CHR '':'' # show_nat status @ [LF]) =
     read_lines (printed @ [LF]) @ [marker_line (end_marker g n) status]"
proof -
  have "LF \<notin> set (end_marker g n)" "LF \<notin> set (show_nat status)"
    using marker_no_line_end [of LF g n] digit_not_line_end [of LF status] by auto
  then show ?thesis
    using read_lines_one [of "end_marker g n @ '':'' @ show_nat status"]
    by (subst read_lines_append) (simp add: marker_line_def)
qed

subsection \<open>The read loop returns what was printed\<close>

lemma read_outcome_lines:
  assumes "list_all (\<lambda>l. strip_prefix (marker @ '':'') (trim_line_end l) = None) ls"
    and "length captured = n" "n \<le> MAX_OUTPUT_BYTES"
    and "trim_line_end final = marker @ '':'' @ show_nat status" "status < 2 ^ 31"
  shows "\<exists>out b. read_outcome marker g captured n complete (map Line ls @ Line final # rest) =
      (Some \<lparr>outcome_result = \<lparr>exit_code = int status, stdout = out, timed_out = False,
         output_complete = b, session_generation = g\<rparr>, transport_healthy = True\<rparr>, rest) \<and>
      length out \<le> MAX_OUTPUT_BYTES \<and>
      (b \<longleftrightarrow> complete \<and> n + length (concat ls) \<le> MAX_OUTPUT_BYTES) \<and> (b \<longrightarrow> out = captured @ concat ls)"
  using assms(1-3)
proof (induction ls arbitrary: captured n complete)
  case Nil
  have "strip_prefix (marker @ '':'') (marker @ '':'' @ show_nat status) = Some (show_nat status)"
    by (simp add: strip_prefix_Some_iff)
  with Nil assms(4,5) show ?case by (simp add: parse_i32_show)
next
  case (Cons l ls)
  show ?case
  proof (cases "n + length l \<le> MAX_OUTPUT_BYTES")
    case True
    with Cons.prems Cons.IH [of "captured @ l" "n + length l" complete] show ?thesis
      by (simp add: add.assoc)
  next
    case False
    with Cons.prems Cons.IH [of captured n False] show ?thesis by auto
  qed
qed

lemma shell_execute_answered:
  assumes clean: "pending s = map Line old" "list_all (\<lambda>l. strip_prefix (next_marker s @ '':'') (trim_line_end l) = None) old"
    and shell: "answers sh c (next_marker s) printed status" "status < 2 ^ 31" "quiet printed"
  shows "\<exists>out b. shell_execute s c True sh =
      (\<lparr>outcome_result = \<lparr>exit_code = int status, stdout = out, timed_out = False, output_complete = b,
         session_generation = generation s\<rparr>, transport_healthy = True\<rparr>,
       s\<lparr>sequence := saturating_inc (sequence s), pending := []\<rparr>) \<and>
      length out \<le> MAX_OUTPUT_BYTES \<and>
      (b \<longleftrightarrow> length (concat old) + length printed < MAX_OUTPUT_BYTES) \<and>
      (b \<longrightarrow> out = concat old @ printed @ [LF])"
proof -
  let ?ls = "old @ read_lines (printed @ [LF])"
  let ?final = "marker_line (next_marker s) status"
  have "list_all (\<lambda>l. strip_prefix (next_marker s @ '':'') (trim_line_end l) = None) ?ls"
    using clean(2) shell(3) quiet_line [of _ "generation s" "saturating_inc (sequence s)" "'':''"]
    by (auto simp: quiet_def list_all_iff next_marker_def)
  moreover have "trim_line_end ?final = next_marker s @ '':'' @ show_nat status"
    by (simp add: next_marker_def marker_line_trimmed)
  moreover have "pending s @ sh (framed c (next_marker s)) = map Line ?ls @ Line ?final # []"
    using clean(1) shell(1) by (simp add: answers_def next_marker_def answer_lines)
  ultimately show ?thesis
    using read_outcome_lines [of "next_marker s" ?ls "[]" 0 ?final status "generation s" True "[]"] shell(2)
    by (auto simp: shell_execute_def Let_def Suc_le_eq)
qed

subsection \<open>A sequence of commands\<close>

type_synonym Job = "RootCommand \<times> (string \<Rightarrow> ShellRead list) \<times> string \<times> nat"

text \<open>A command with the shell that answers it, what it prints and its status.\<close>

fun answered_job :: "Job \<Rightarrow> bool" where
  "answered_job (c, sh, printed, status) \<longleftrightarrow>
     status < 2 ^ 31 \<and> quiet printed \<and> (\<forall>g n. answers sh c (end_marker g n) printed status)"

primrec run_jobs ::
    "RootSessionState \<Rightarrow> (u64 \<Rightarrow> RootSessionError + unit) \<Rightarrow> Job list \<Rightarrow>
     (RootSessionError + RootCommandResult) list \<times> RootSessionState" where
  "run_jobs st starter [] = ([], st)"
| "run_jobs st starter (j # js) =
     (case j of (c, sh, _, _) \<Rightarrow>
        let (r, st) = execute_with_starter st c starter True sh; (rs, st) = run_jobs st starter js
        in (r # rs, st))"

text \<open>Every line of the earlier commands was read, and a session can be started if none lives.\<close>

definition drained :: "RootSessionState \<Rightarrow> bool" where
  "drained st \<longleftrightarrow>
     (case session st of None \<Rightarrow> checked_add (next_generation st) 1 \<noteq> None | Some s \<Rightarrow> pending s = [])"

definition working_generation :: "RootSessionState \<Rightarrow> u64" where
  "working_generation st = (case session st of None \<Rightarrow> next_generation st | Some s \<Rightarrow> generation s)"

fun own_answer :: "u64 \<Rightarrow> Job \<Rightarrow> RootSessionError + RootCommandResult \<Rightarrow> bool" where
  "own_answer g j (Inl e) \<longleftrightarrow> False"
| "own_answer g (c, sh, printed, status) (Inr r) \<longleftrightarrow>
     exit_code r = int status \<and> \<not> timed_out r \<and> session_generation r = g \<and>
     length (stdout r) \<le> MAX_OUTPUT_BYTES \<and>
     (output_complete r \<longleftrightarrow> length printed < MAX_OUTPUT_BYTES) \<and>
     (output_complete r \<longrightarrow> stdout r = printed @ [LF])"

lemma job_answered:
  assumes "drained st" "\<And>g. starter g = Inr ()" "answered_job (c, sh, printed, status)"
    and run: "execute_with_starter st c starter True sh = (r, st')"
  shows "own_answer (working_generation st) (c, sh, printed, status) r \<and>
    session st' \<noteq> None \<and> drained st' \<and> working_generation st' = working_generation st"
proof -
  obtain s st1 where s: "ensure_session st starter = (Inr s, st1)" "pending s = []"
      "generation s = working_generation st"
    using assms(1,2)
    by (auto simp: ensure_session_def drained_def working_generation_def shell_start_def Let_def
        split: option.splits)
  have "answers sh c (next_marker s) printed status" using assms(3) by (simp add: next_marker_def)
  then show ?thesis
    using shell_execute_answered [of s "[]" sh c printed status] s run assms(3)
    by (auto simp: execute_with_starter_def drained_def working_generation_def)
qed

lemma jobs_answered:
  assumes "drained st" "\<And>g. starter g = Inr ()" "list_all answered_job js"
  shows "list_all2 (own_answer (working_generation st)) js (fst (run_jobs st starter js)) \<and>
    drained (snd (run_jobs st starter js))"
  using assms(1,3)
proof (induction js arbitrary: st)
  case (Cons j js)
  obtain c sh printed status where j: "j = (c, sh, printed, status)" by (cases j) auto
  obtain r st' where run: "execute_with_starter st c starter True sh = (r, st')" by force
  have "answered_job (c, sh, printed, status)" using Cons.prems(2) j by simp
  from job_answered [OF Cons.prems(1) assms(2) this run] j
  have "own_answer (working_generation st) j r" "drained st'" "working_generation st' = working_generation st"
    by simp_all
  with Cons.IH [of st'] Cons.prems(2) j run show ?case by (auto split: prod.splits)
qed simp

text \<open>C37. Root commands that run to their end. Let the shell start, and let every command end with its marker line
  and print no line that looks like a marker before it. On a manager whose live session has nothing unread, or
  that has none yet, every command of a sequence gets its own answer: its exit status, and exactly what it
  printed, with the line feed that the framing adds, whenever that fits the capture bound (otherwise the result says it is incomplete and holds at
  most 4096 bytes). All of them run on one session generation, and nothing is left unread.\<close>

theorem root_commands_answered:
  assumes "drained st" "\<And>g. starter g = Inr ()" "list_all answered_job js"
  shows "list_all2 (own_answer (working_generation st)) js (fst (run_jobs st starter js)) \<and>
    drained (snd (run_jobs st starter js))"
  using jobs_answered [OF assms] .

text \<open>A shell that reads the marker out of the framed text.\<close>

definition scripted_shell :: "string \<Rightarrow> nat \<Rightarrow> string \<Rightarrow> ShellRead list" where
  "scripted_shell printed status written =
     (let marker = takeWhile (\<lambda>c. c \<noteq> CHR '':'') (drop 34 (dropWhile (\<lambda>c. c \<noteq> LF) written))
      in map Line (read_lines (printed @ LF # marker @ '':'' @ show_nat status @ [LF])))"

lemma scripted_shell_answers:
  assumes "LF \<notin> set (command c)"
  shows "answers (scripted_shell printed status) c (end_marker g n) printed status"
proof -
  have "dropWhile (\<lambda>x. x \<noteq> LF) (command c @ LF # r) = LF # r" for r
    using assms by (induction "command c") (auto simp: dropWhile_append)
  moreover have "CHR '':'' \<notin> set (end_marker g n)"
    using digit_not_colon by (auto simp: end_marker_def MARKER_PREFIX_def show_u64_def)
  then have "takeWhile (\<lambda>x. x \<noteq> CHR '':'') (end_marker g n @ CHR '':'' # r) = end_marker g n" for r
    by (induction "end_marker g n") (auto simp: takeWhile_append)
  ultimately show ?thesis by (simp add: answers_def scripted_shell_def framed_def)
qed

theorem root_commands_answered_witness:
  "list_all2 (own_answer 1)
     [(\<lparr>command_kind = Mutation, command = ''cmd phone data disable''\<rparr>, scripted_shell [] 0, [], 0),
      (\<lparr>command_kind = Observation, command = ''settings get global mobile_data''\<rparr>,
       scripted_shell ''0'' 0, ''0'', 0)]
     (fst (run_jobs session_manager_new (\<lambda>g. Inr ())
        [(\<lparr>command_kind = Mutation, command = ''cmd phone data disable''\<rparr>, scripted_shell [] 0, [], 0),
         (\<lparr>command_kind = Observation, command = ''settings get global mobile_data''\<rparr>,
          scripted_shell ''0'' 0, ''0'', 0)]))"
proof -
  let ?js = "[(\<lparr>command_kind = Mutation, command = ''cmd phone data disable''\<rparr>, scripted_shell [] 0, [], 0),
      (\<lparr>command_kind = Observation, command = ''settings get global mobile_data''\<rparr>,
       scripted_shell ''0'' 0, ''0'', 0)]"
  have manager: "drained session_manager_new" "working_generation session_manager_new = 1"
    by (simp_all add: drained_def session_manager_new_def working_generation_def checked_add_def)
  have jobs: "list_all answered_job ?js"
    by (simp add: scripted_shell_answers quiet_def strip_prefix_def MARKER_PREFIX_def)
  have "list_all2 (own_answer (working_generation session_manager_new)) ?js
      (fst (run_jobs session_manager_new (\<lambda>g. Inr ()) ?js))"
    by (rule conjunct1 [OF root_commands_answered [OF manager(1) _ jobs]]) (rule refl)
  then show ?thesis unfolding manager(2) .
qed

end
