(* ===== verification/Mobile_Data_Effect.thy ===== *)
theory Mobile_Data_Effect
  imports Root_Session
begin

text \<open>
  The mobile-data effect, \<open>src/crates/runtime/src/mobile_data_effect.rs\<close>: the observation of the global
  setting, the one disable mutation, and the enable mutation that is verified by a readback, each over the
  root session. The bit \<open>compensation_owned\<close> records that a disable of this effect may have changed the
  radio. An operation is split at its awaits, since its caller may drop it there; the whole operations are
  composed of the pieces below.
\<close>

subsection \<open>The effect\<close>

datatype MobileDataState = Enabled | Disabled

datatype MobileDataEffectError =
    SessionUnavailable
  | ObservationIncomplete
  | ObservationRejected
  | InvalidObservation
  | MutationRejected
  | MutationUncertain
  | MutationNotOwned

record MobileDataEffect =
  root :: RootSessionState
  compensation_owned :: bool

definition mobile_data_effect_new :: "RootSessionState \<Rightarrow> MobileDataEffect" where
  "mobile_data_effect_new st = \<lparr>root = st, compensation_owned = False\<rparr>"

definition map_session_error :: "RootSessionError \<Rightarrow> MobileDataEffectError" where
  "map_session_error e = SessionUnavailable"

definition parse_mobile_data_state :: "string \<Rightarrow> MobileDataState option" where
  "parse_mobile_data_state raw =
     (if trim raw = ''1'' then Some Enabled else if trim raw = ''0'' then Some Disabled else None)"

definition observe_command :: "RootSessionError + RootCommand" where
  "observe_command = root_observation ''settings get global mobile_data''"

text \<open>What \<open>observe\<close> makes of the answer of the session.\<close>

definition observed :: "RootAnswer \<Rightarrow> MobileDataEffectError + MobileDataState" where
  "observed answer =
     (case answer of
        Inl e \<Rightarrow> Inl (map_session_error e)
      | Inr r \<Rightarrow>
          if timed_out r \<or> \<not> output_complete r then Inl ObservationIncomplete
          else if exit_code r \<noteq> 0 then Inl ObservationRejected
          else ok_or (parse_mobile_data_state (stdout r)) InvalidObservation)"

text \<open>\<open>disable\<close> before its await, with the compare-and-exchange on the bit, and after it.\<close>

definition disable_begin :: "bool \<Rightarrow> (MobileDataEffectError + RootCommand) \<times> bool" where
  "disable_begin owned =
     (if owned then (Inl MutationUncertain, True)
      else case root_mutation ''cmd phone data disable'' of
             Inl e \<Rightarrow> (Inl (map_session_error e), False)
           | Inr c \<Rightarrow> (Inr c, True))"

definition disable_end :: "bool \<Rightarrow> RootAnswer \<Rightarrow> (MobileDataEffectError + unit) \<times> bool" where
  "disable_end owned answer =
     (case answer of
        Inl e \<Rightarrow> (Inl MutationUncertain, owned)
      | Inr r \<Rightarrow>
          if timed_out r \<or> \<not> output_complete r then (Inl MutationUncertain, owned)
          else if exit_code r \<noteq> 0 then (Inl MutationRejected, False)
          else (Inr (), owned))"

text \<open>\<open>enable_and_verify\<close>: the ownership test, the outcome of the mutation, and the readback.\<close>

definition enable_begin :: "bool \<Rightarrow> MobileDataEffectError + RootCommand" where
  "enable_begin owned =
     (if \<not> owned then Inl MutationNotOwned
      else map_err map_session_error (root_mutation ''cmd phone data enable''))"

definition enable_outcome :: "RootAnswer \<Rightarrow> MobileDataEffectError" where
  "enable_outcome answer =
     (case answer of
        Inl e \<Rightarrow> MutationUncertain
      | Inr r \<Rightarrow>
          if timed_out r \<or> \<not> output_complete r then MutationUncertain
          else if exit_code r \<noteq> 0 then MutationRejected
          else MutationUncertain)"

definition enable_end ::
    "bool \<Rightarrow> MobileDataEffectError \<Rightarrow> MobileDataEffectError + MobileDataState \<Rightarrow>
     (MobileDataEffectError + unit) \<times> bool" where
  "enable_end owned outcome readback =
     (case readback of
        Inr Enabled \<Rightarrow> (Inr (), False)
      | Inr Disabled \<Rightarrow> (Inl outcome, owned)
      | Inl e \<Rightarrow> (Inl MutationUncertain, owned))"

subsection \<open>The whole operations over the session\<close>

text \<open>How the outside answers one command: whether a session starts, whether the text is written, the shell.\<close>

type_synonym Outside = "(u64 \<Rightarrow> RootSessionError + unit) \<times> bool \<times> (string \<Rightarrow> ShellRead list)"

fun session_execute :: "MobileDataEffect \<Rightarrow> RootCommand \<Rightarrow> Outside \<Rightarrow> RootAnswer \<times> MobileDataEffect" where
  "session_execute eff c (starter, written, sh) =
     (let (answer, st) = execute_with_starter (root eff) c starter written sh in (answer, eff\<lparr>root := st\<rparr>))"

definition observe_mobile_data ::
    "MobileDataEffect \<Rightarrow> Outside \<Rightarrow> (MobileDataEffectError + MobileDataState) \<times> MobileDataEffect" where
  "observe_mobile_data eff w =
     (case observe_command of
        Inl e \<Rightarrow> (Inl (map_session_error e), eff)
      | Inr c \<Rightarrow> (let (answer, eff) = session_execute eff c w in (observed answer, eff)))"

definition disable :: "MobileDataEffect \<Rightarrow> Outside \<Rightarrow> (MobileDataEffectError + unit) \<times> MobileDataEffect" where
  "disable eff w =
     (case disable_begin (compensation_owned eff) of
        (Inl e, owned) \<Rightarrow> (Inl e, eff\<lparr>compensation_owned := owned\<rparr>)
      | (Inr c, owned) \<Rightarrow>
          (let (answer, eff) = session_execute (eff\<lparr>compensation_owned := owned\<rparr>) c w;
               (r, owned) = disable_end (compensation_owned eff) answer
           in (r, eff\<lparr>compensation_owned := owned\<rparr>)))"

definition enable_and_verify ::
    "MobileDataEffect \<Rightarrow> Outside \<Rightarrow> Outside \<Rightarrow> (MobileDataEffectError + unit) \<times> MobileDataEffect" where
  "enable_and_verify eff w w' =
     (case enable_begin (compensation_owned eff) of
        Inl e \<Rightarrow> (Inl e, eff)
      | Inr c \<Rightarrow>
          (let (answer, eff) = session_execute eff c w;
               (readback, eff) = observe_mobile_data eff w';
               (r, owned) = enable_end (compensation_owned eff) (enable_outcome answer) readback
           in (r, eff\<lparr>compensation_owned := owned\<rparr>)))"

definition set_mobile_data ::
    "MobileDataEffect \<Rightarrow> MobileDataState \<Rightarrow> Outside \<Rightarrow> Outside \<Rightarrow>
     (MobileDataEffectError + unit) \<times> MobileDataEffect" where
  "set_mobile_data eff target w w' =
     (case target of Disabled \<Rightarrow> disable eff w | Enabled \<Rightarrow> enable_and_verify eff w w')"

subsection \<open>The fixed commands are well formed\<close>

lemma fixed_commands [simp]:
  "observe_command = Inr \<lparr>command_kind = Observation, command = ''settings get global mobile_data''\<rparr>"
  "root_mutation ''cmd phone data disable'' = Inr \<lparr>command_kind = Mutation, command = ''cmd phone data disable''\<rparr>"
  "root_mutation ''cmd phone data enable'' = Inr \<lparr>command_kind = Mutation, command = ''cmd phone data enable''\<rparr>"
  by (simp_all add: observe_command_def root_observation_def root_mutation_def root_command_new_def)

lemma disable_begin_Inr_iff: "disable_begin owned = (Inr c, owned') \<longleftrightarrow>
    \<not> owned \<and> owned' \<and> c = \<lparr>command_kind = Mutation, command = ''cmd phone data disable''\<rparr>"
  by (auto simp: disable_begin_def)

lemma enable_begin_Inr_iff: "enable_begin owned = Inr c \<longleftrightarrow>
    owned \<and> c = \<lparr>command_kind = Mutation, command = ''cmd phone data enable''\<rparr>"
  by (auto simp: enable_begin_def)

subsection \<open>A dropped command\<close>

text \<open>
  A command whose caller gave up leaves its remaining lines, the marker line included, in front of the
  answer to the next command. That command waits for its own marker, so it takes them for its output.
\<close>

lemma saturating_inc_less: "n < - 1 \<Longrightarrow> n < saturating_inc n"
  by (auto simp: saturating_inc_def checked_add_Some_less checked_add_1_None split: option.splits)

lemma other_marker:
  assumes "n \<noteq> m"
  shows "strip_prefix (end_marker g m @ '':'') (trim_line_end (marker_line (end_marker g n) status)) = None"
proof (rule ccontr)
  assume "strip_prefix (end_marker g m @ '':'') (trim_line_end (marker_line (end_marker g n) status)) \<noteq> None"
  then obtain r where "end_marker g n @ '':'' @ show_nat status = (end_marker g m @ '':'') @ r"
    by (auto simp: strip_prefix_Some_iff marker_line_trimmed)
  then have eq: "show_nat (unat n) @ CHR '':'' # show_nat status = show_nat (unat m) @ CHR '':'' # r"
    by (simp add: end_marker_def show_u64_def)
  have "takeWhile (\<lambda>c. c \<noteq> CHR '':'') (show_nat k @ CHR '':'' # x) = show_nat k" for k x
    using digit_not_colon [of _ k] by (subst takeWhile_append2) auto
  then have "show_nat (unat n) = show_nat (unat m)" using arg_cong [OF eq] by metis
  then have "unat n = unat m" using digits_value_show by (metis option.inject)
  with assms show False by (simp add: word_unat_eq_iff)
qed

lemma underscore_not_read: "CHR ''_'' \<in> set raw \<Longrightarrow> parse_mobile_data_state raw = None"
proof -
  assume "CHR ''_'' \<in> set raw"
  then have "CHR ''_'' \<in> set (trim raw)" by (intro trim_keeps_visible) (simp_all add: visible_def byte_of_def)
  then show ?thesis by (auto simp: parse_mobile_data_state_def)
qed

lemma dropped_pending:
  assumes "pending s = []" "answers sh c (next_marker s) printed status" "k \<le> length (read_lines (printed @ [LF]))"
  shows "pending (shell_dropped s c sh k) =
    map Line (drop k (read_lines (printed @ [LF])) @ [marker_line (next_marker s) status])"
  using assms by (simp add: shell_dropped_def answers_def next_marker_def answer_lines drop_map)

lemma spoiled_observation:
  assumes s: "pending s = []" "sequence s < - 1" "saturating_inc (sequence s) < - 1"
    and first: "answered_job (c, sh, printed, status)" "k \<le> length (read_lines (printed @ [LF]))"
    and second: "answered_job (c', sh', printed', status')"
  shows "\<exists>r s'. shell_execute (shell_dropped s c sh k) c' True sh' = (r, s') \<and> transport_healthy r \<and>
    pending s' = [] \<and> generation s' = generation s \<and>
    (\<exists>e \<in> {ObservationIncomplete, ObservationRejected, InvalidObservation}. observed (Inr (outcome_result r)) = Inl e)"
proof -
  let ?s = "shell_dropped s c sh k"
  let ?old = "drop k (read_lines (printed @ [LF])) @ [marker_line (next_marker s) status]"
  have pending: "pending ?s = map Line ?old"
    using s first by (intro dropped_pending) (auto simp: next_marker_def)
  have next_s: "next_marker ?s = end_marker (generation s) (saturating_inc (saturating_inc (sequence s)))"
    by (simp add: next_marker_def shell_dropped_def)
  have "saturating_inc (sequence s) \<noteq> saturating_inc (saturating_inc (sequence s))"
    using saturating_inc_less [OF s(3)] by simp
  from other_marker [OF this]
  have "strip_prefix (next_marker ?s @ '':'') (trim_line_end (marker_line (next_marker s) status)) = None"
    unfolding next_s by (simp add: next_marker_def)
  moreover have "list_all (\<lambda>l. strip_prefix (next_marker ?s @ '':'') (trim_line_end l) = None)
      (read_lines (printed @ [LF]))"
    using first(1) unfolding next_s by (auto simp: list_all_iff quiet_def intro: quiet_line)
  ultimately have "list_all (\<lambda>l. strip_prefix (next_marker ?s @ '':'') (trim_line_end l) = None) ?old"
    by (auto simp: list_all_iff dest: in_set_dropD)
  from shell_execute_answered [OF pending this, of sh' c' printed' status'] second
  obtain out b where run: "shell_execute ?s c' True sh' =
      (\<lparr>outcome_result = \<lparr>exit_code = int status', stdout = out, timed_out = False, output_complete = b,
         session_generation = generation ?s\<rparr>, transport_healthy = True\<rparr>,
       ?s\<lparr>sequence := saturating_inc (sequence ?s), pending := []\<rparr>)"
    and out: "b \<longrightarrow> out = concat ?old @ printed' @ [LF]"
    by (auto simp: next_s)
  have "CHR ''_'' \<in> set (concat ?old)"
    by (simp add: marker_line_def next_marker_def end_marker_def MARKER_PREFIX_def)
  then have "b \<longrightarrow> parse_mobile_data_state out = None" using out by (intro impI underscore_not_read) auto
  then show ?thesis using run by (cases b) (auto simp: observed_def shell_dropped_def)
qed

text \<open>C38. A command that is dropped while the shell still has to answer it (a deadline passing during a
  data mutation does this) spoils the next observation on the same session: whatever the setting is, the
  observation is an error, since the unread lines and the old marker line come first. Only then is the
  session drained again. The drop falls between two lines after the command was written, and the 64-bit sequence
  number of the session is assumed not to be saturated.\<close>

theorem dropped_command_spoils_observation:
  assumes s: "session (root eff) = Some s" "pending s = []" "sequence s < - 1" "saturating_inc (sequence s) < - 1"
    and first: "answered_job (c, sh, printed, status)" "k \<le> length (read_lines (printed @ [LF]))"
    and second: "observe_command = Inr c'" "answered_job (c', sh', printed', status')"
  shows "\<exists>e eff'. observe_mobile_data (eff\<lparr>root := execute_dropped (root eff) c starter sh k\<rparr>) (starter, True, sh') = (Inl e, eff') \<and>
    e \<in> {ObservationIncomplete, ObservationRejected, InvalidObservation} \<and> drained (root eff') \<and>
    working_generation (root eff') = working_generation (root eff)"
proof -
  let ?st = "execute_dropped (root eff) c starter sh k"
  have dropped: "session ?st = Some (shell_dropped s c sh k)"
    using s(1) by (simp add: execute_dropped_def ensure_session_def)
  then have "ensure_session ?st starter = (Inr (shell_dropped s c sh k), ?st)" by (simp add: ensure_session_def)
  with spoiled_observation [OF s(2-4) first second(2)] second(1) s(1) dropped show ?thesis
    by (auto simp: observe_mobile_data_def execute_with_starter_def drained_def working_generation_def)
qed

theorem dropped_command_spoils_observation_witness:
  "\<exists>e eff'. observe_mobile_data
      \<lparr>root = execute_dropped \<lparr>session = Some (shell_start 1), next_generation = 2\<rparr>
         \<lparr>command_kind = Mutation, command = ''cmd phone data disable''\<rparr> (\<lambda>g. Inr ()) (scripted_shell [] 0) 0,
       compensation_owned = True\<rparr> (\<lambda>g. Inr (), True, scripted_shell ''0'' 0) = (Inl e, eff')"
proof -
  let ?eff = "\<lparr>root = \<lparr>session = Some (shell_start 1), next_generation = 2\<rparr>, compensation_owned = True\<rparr>"
  have inc: "saturating_inc 0 = 1" by (simp add: saturating_inc_def checked_add_def)
  have small: "(0 :: u64) < - 1" "(1 :: u64) < - 1" by code_simp+
  have jobs: "answered_job (\<lparr>command_kind = Mutation, command = ''cmd phone data disable''\<rparr>, scripted_shell [] 0, [], 0)"
    "answered_job (\<lparr>command_kind = Observation, command = ''settings get global mobile_data''\<rparr>,
       scripted_shell ''0'' 0, ''0'', 0)"
    by (simp_all add: scripted_shell_answers quiet_def strip_prefix_def MARKER_PREFIX_def)
  show ?thesis
    using dropped_command_spoils_observation [of ?eff "shell_start 1", OF _ _ _ _ jobs(1) _ _ jobs(2), of 0 "\<lambda>g. Inr ()"] inc small
    by (auto simp: shell_start_def)
qed

end
