(* ===== verification/Rotation_Runtime.thy ===== *)
theory Rotation_Runtime
  imports Mobile_Data_Effect Cellular_Egress Proxy_Auth Rotation
begin

text \<open>
  The rotation coordinator, \<open>src/crates/runtime/src/rotation_runtime.rs\<close>: it owns the rotation machine
  behind a lock, claims one asynchronous action per phase, and runs the probes and the mobile-data
  effect around it. Every critical section and every await of the source is one step here; the tasks that
  are between two of them are part of the state, and a run is any interleaving of their steps with the
  calls from outside. The commands sent to the radio and the facts they rest on are logged. The timing
  record and the observers are left out: they never drive a transition.
\<close>

subsection \<open>State\<close>

datatype RotationRuntimeStartError =
    RuntimeNotRunning
  | RotationInProgress
  | NoCurrentCellular
  | RootPolicyUnavailable
  | CredentialUnavailable
  | ExecutorUnavailable
  | RuntimeStateUnavailable

datatype RotationAction = BeforeIp | DisableData | EnableData | AfterIp | RestoreEnabled

record ProxyCredentialGuard =
  guard_version :: u64
  guard_material :: ProxyCredentialMaterial

text \<open>An instant is a number of milliseconds.\<close>

type_synonym Instant = int

definition ROTATION_SAFETY_DEADLINE :: Instant where "ROTATION_SAFETY_DEADLINE = 90000"

record RotationRuntimeState =
  machine :: RotationStateMachine
  deadline :: "(u64 \<times> Instant) option"
  credential_guard :: "ProxyCredentialGuard option"
  claimed :: "(u64 \<times> RotationAction) set"
  cancel :: bool
  closed :: bool

definition rotation_runtime_new :: RotationRuntimeState where
  "rotation_runtime_new =
     \<lparr>machine = new_machine, deadline = None, credential_guard = None, claimed = {}, cancel = False,
      closed = False\<rparr>"

text \<open>
  A task, by the point it waits at. \<open>Transitioned\<close> is the rest of \<open>after_transition\<close>; \<open>Failing\<close> is a
  call of \<open>fail\<close>; the others name the function and the await or lock they are in front of.
\<close>

datatype BeforeIpPoint = BeforeIpEntry | BeforeIpProbe u64

datatype DisablePoint =
    DisableEntry
  | DisableObserve
  | DisableStart
  | DisableCheck
  | DisableSubmit
  | DisableAwait
  | DisableReport RotationMutationOutcome

datatype EnablePoint =
    EnableEntry
  | EnableSubmit
  | EnableAwait
  | EnableReadback MobileDataEffectError
  | EnableReport RotationMutationOutcome

datatype AfterIpPoint =
    AfterIpEntry
  | AfterIpProbe u64
  | AfterIpGuard u64 IpAddr
  | AfterIpRecord u64 IpAddr

datatype RestorePoint =
    RestoreEntry
  | RestoreSubmit
  | RestoreAwait
  | RestoreReadback MobileDataEffectError
  | RestoreConfirm
  | RestoreReport RotationRestoreResult

datatype RotationTask =
    DeadlineTimer u64
  | ActivateSpawn u64 RotationSnapshot
  | ActivateSchedule u64 RotationSnapshot
  | Transitioned RotationSnapshot
  | Failing u64 RotationFailure
  | BeforeIpAt u64 BeforeIpPoint
  | DisableAt u64 DisablePoint
  | EnableAt u64 EnablePoint
  | AfterIpAt u64 AfterIpPoint
  | RestoreAt u64 RestorePoint
  | ShutdownDrain "u64 option" bool

text \<open>What is logged: the facts and the commands of an operation, and the release of the ownership bit.\<close>

datatype RadioEvent =
    PreconditionEnabled u64
  | RestoreRecorded u64
  | DisableIssued u64
  | LossObserved u64
  | EnableIssued u64
  | EnableVerified u64
  | RestoreReadDisabled u64
  | RestoreEnableIssued u64
  | Released

type_synonym 's outcome = "'s \<times> RotationTask list \<times> RadioEvent list"

subsection \<open>Calls from outside\<close>

definition admitted_generation :: "CellularAdmissionSnapshot \<Rightarrow> u64 option" where
  "admitted_generation a = (if admission_state a = Admitted then last_sequence a else None)"

definition map_start_error :: "RotationStartError \<Rightarrow> RotationRuntimeStartError" where
  "map_start_error e = (case e of RotationStartError.AlreadyInProgress \<Rightarrow> RotationInProgress | _ \<Rightarrow> RuntimeStateUnavailable)"

text \<open>The admission, the last enforced policy generation and the guard are read before the lock.\<close>

definition prepare ::
    "RotationRuntimeState \<Rightarrow> CellularAdmissionSnapshot \<Rightarrow> (CellularAdmissionSnapshot \<times> bool) option \<Rightarrow>
     ProxyCredentialGuard option \<Rightarrow> (RotationRuntimeStartError + u64) \<times> RotationRuntimeState" where
  "prepare s a publication guard =
     (case admitted_generation a of
        None \<Rightarrow> (Inl NoCurrentCellular, s)
      | Some generation_now \<Rightarrow>
          if \<not> (case publication of None \<Rightarrow> False
                | Some (pa, enforced) \<Rightarrow> last_sequence pa = Some generation_now \<and> enforced)
          then (Inl RootPolicyUnavailable, s)
          else case guard of
            None \<Rightarrow> (Inl CredentialUnavailable, s)
          | Some g \<Rightarrow>
              if closed s then (Inl RuntimeStateUnavailable, s)
              else case start (machine s) generation_now of
                (Inl e, m) \<Rightarrow> (Inl (map_start_error e), s\<lparr>machine := m\<rparr>)
              | (Inr i, m) \<Rightarrow>
                  (Inr i, s\<lparr>machine := m, deadline := None, credential_guard := Some g, claimed := {},
                            cancel := False\<rparr>))"

definition activate_prepared ::
    "RotationRuntimeState \<Rightarrow> u64 \<Rightarrow> Instant \<Rightarrow> RotationRuntimeState outcome" where
  "activate_prepared s i now =
     (let snap = snapshot (machine s)
      in if closed s \<or> deadline s \<noteq> None \<or> cancel s \<or> snap_operation_id snap \<noteq> Some i \<or> snap_phase snap \<noteq> Preparing
         then (s, [], [])
         else (s\<lparr>deadline := Some (i, now + ROTATION_SAFETY_DEADLINE), cancel := True\<rparr>,
               [ActivateSpawn i snap], []))"

definition fail_prepared_before_mutation :: "RotationRuntimeState \<Rightarrow> u64 \<Rightarrow> bool \<times> RotationRuntimeState" where
  "fail_prepared_before_mutation s i =
     (let snap = snapshot (machine s)
      in if snap_operation_id snap \<noteq> Some i \<or> snap_phase snap \<noteq> Preparing then (False, s)
         else case fail (machine s) i RotationFailureStateUnavailable of
                (Inl e, m) \<Rightarrow> (False, s\<lparr>machine := m\<rparr>)
              | (Inr _, m) \<Rightarrow>
                  (True, s\<lparr>machine := m, deadline := None, credential_guard := None, claimed := {}, cancel := False\<rparr>))"

text \<open>A machine call of the current operation whose success leads to \<open>after_transition\<close>.\<close>

definition transitioned :: "RotationRuntimeState \<Rightarrow> transition \<Rightarrow> RotationRuntimeState outcome" where
  "transitioned s t =
     (case t of
        (Inl e, m) \<Rightarrow> (s\<lparr>machine := m\<rparr>, [], [])
      | (Inr snap, m) \<Rightarrow> (s\<lparr>machine := m\<rparr>, [Transitioned snap], []))"

definition log_also :: "RadioEvent list \<Rightarrow> 's outcome \<Rightarrow> 's outcome" where
  "log_also es r = (case r of (s, ts, es') \<Rightarrow> (s, ts, es @ es'))"

definition observe_cellular_rt ::
    "RotationRuntimeState \<Rightarrow> CellularAdmissionSnapshot \<Rightarrow> RotationRuntimeState outcome" where
  "observe_cellular_rt s a =
     (case last_sequence a of
        None \<Rightarrow> (s, [], [])
      | Some g \<Rightarrow>
          (let admitted = (admission_state a = Admitted);
               authoritative_loss = (\<not> admitted \<and> admission_reason a = Some NetworkLost);
               snap = snapshot (machine s)
           in if closed s then (s, [], [])
              else case snap_operation_id snap of
                None \<Rightarrow> (s, [], [])
              | Some i \<Rightarrow>
                  if terminal (snap_phase snap) then (s, [], [])
                  else if \<not> admitted \<and> \<not> authoritative_loss \<and> snap_phase snap \<in> {DataDisabling, WaitingCellularLoss}
                  then (s, [], [])
                  else log_also
                    (if authoritative_loss \<and> snap_phase snap \<in> {DataDisabling, WaitingCellularLoss} \<and>
                        (case snap_before_generation snap of None \<Rightarrow> False | Some previous \<Rightarrow> previous < g)
                     then [LossObserved i] else [])
                    (transitioned s (observe_cellular (machine s) i g admitted))))"

definition observe_root_policy_rt ::
    "RotationRuntimeState \<Rightarrow> CellularAdmissionSnapshot \<Rightarrow> bool \<Rightarrow> RotationRuntimeState outcome" where
  "observe_root_policy_rt s a enforced =
     (case last_sequence a of
        None \<Rightarrow> (s, [], [])
      | Some g \<Rightarrow>
          (let snap = snapshot (machine s)
           in if closed s then (s, [], [])
              else case snap_operation_id snap of
                None \<Rightarrow> (s, [], [])
              | Some i \<Rightarrow>
                  if terminal (snap_phase snap) then (s, [], [])
                  else transitioned s (observe_root_policy (machine s) i g enforced)))"

text \<open>The locked part of \<open>shutdown\<close>, and what it does once the tasks are drained or given up.\<close>

definition shutdown_begin :: "RotationRuntimeState \<Rightarrow> RotationRuntimeState outcome" where
  "shutdown_begin s =
     (if closed s then (s, [], [])
      else
        (let snap = snapshot (machine s);
             force_restore = (snap_phase snap \<in> {DataDisabling, WaitingCellularLoss, DataEnabling});
             m = (case snap_operation_id snap of
                    None \<Rightarrow> machine s
                  | Some i \<Rightarrow> if terminal (snap_phase snap) then machine s
                              else snd (fail (machine s) i RotationFailureStateUnavailable))
         in (s\<lparr>closed := True, machine := m, cancel := False\<rparr>,
             [ShutdownDrain (snap_operation_id snap) force_restore], [])))"

definition shutdown_end :: "RotationRuntimeState \<Rightarrow> u64 option \<Rightarrow> bool \<Rightarrow> RotationRuntimeState outcome" where
  "shutdown_end s operation force_restore =
     (case operation of
        None \<Rightarrow> (s, [], [])
      | Some i \<Rightarrow>
          (let snap = snapshot (machine s)
           in if snap_phase snap = Failed \<and> (snap_restore_required snap \<or> force_restore)
              then (s, [RestoreAt i RestoreEntry], []) else (s, [], [])))"

subsection \<open>Scheduling\<close>

definition operation_current :: "RotationRuntimeState \<Rightarrow> u64 \<Rightarrow> bool" where
  "operation_current s i \<longleftrightarrow>
     \<not> closed s \<and> snap_operation_id (snapshot (machine s)) = Some i \<and>
     \<not> terminal (snap_phase (snapshot (machine s)))"

definition credential_guard_matches ::
    "ProxyCredentialGuard option \<Rightarrow> RotationRuntimeState \<Rightarrow> u64 \<Rightarrow> bool" where
  "credential_guard_matches cred s i \<longleftrightarrow>
     snap_operation_id (snapshot (machine s)) = Some i \<and>
     (case credential_guard s of None \<Rightarrow> False | Some g \<Rightarrow> cred = Some g)"

definition action_of :: "RotationSnapshot \<Rightarrow> RotationAction option" where
  "action_of snap =
     (if snap_phase snap = Preparing then Some BeforeIp
      else if snap_phase snap = DataDisabling then Some DisableData
      else if snap_phase snap = DataEnabling then Some EnableData
      else if snap_phase snap = ProbingPublicIp then Some AfterIp
      else if snap_phase snap = Failed \<and> snap_restore_required snap then Some RestoreEnabled
      else None)"

primrec task_of :: "RotationAction \<Rightarrow> u64 \<Rightarrow> RotationTask" where
  "task_of BeforeIp i = BeforeIpAt i BeforeIpEntry"
| "task_of DisableData i = DisableAt i DisableEntry"
| "task_of EnableData i = EnableAt i EnableEntry"
| "task_of AfterIp i = AfterIpAt i AfterIpEntry"
| "task_of RestoreEnabled i = RestoreAt i RestoreEntry"

text \<open>\<open>schedule_for\<close>; the flag says whether the executor takes the task.\<close>

definition schedule_for ::
    "RotationRuntimeState \<Rightarrow> RotationSnapshot \<Rightarrow> bool \<Rightarrow>
     (RotationRuntimeStartError + unit) \<times> RotationRuntimeState outcome" where
  "schedule_for s snap spawns =
     (case (snap_operation_id snap, action_of snap) of
        (Some i, Some a) \<Rightarrow>
          if closed s \<or> (i, a) \<in> claimed s then (Inr (), (s, [], []))
          else
            (let s = s\<lparr>claimed := insert (i, a) (claimed s)\<rparr>
             in if spawns then (Inr (), (s, [task_of a i], [])) else (Inl ExecutorUnavailable, (s, [], [])))
      | _ \<Rightarrow> (Inr (), (s, [], [])))"

definition activate_spawn ::
    "RotationRuntimeState \<Rightarrow> u64 \<Rightarrow> RotationSnapshot \<Rightarrow> bool \<Rightarrow> RotationRuntimeState outcome" where
  "activate_spawn s i snap spawns =
     (if closed s \<or> \<not> spawns then (snd (fail_prepared_before_mutation s i), [], [])
      else (s, [DeadlineTimer i, ActivateSchedule i snap], []))"

definition activate_schedule ::
    "RotationRuntimeState \<Rightarrow> u64 \<Rightarrow> RotationSnapshot \<Rightarrow> bool \<Rightarrow> RotationRuntimeState outcome" where
  "activate_schedule s i snap spawns =
     (case schedule_for s snap spawns of
        (Inl e, (s, _)) \<Rightarrow> (snd (fail_prepared_before_mutation s i), [], [])
      | (Inr _, r) \<Rightarrow> r)"

definition deadline_fired :: "RotationRuntimeState \<Rightarrow> u64 \<Rightarrow> RotationRuntimeState outcome" where
  "deadline_fired s i =
     (if \<not> operation_current s i then (s, [], [])
      else transitioned s (deadline_exceeded (machine s) i))"

definition fail_rt ::
    "ProxyCredentialGuard option \<Rightarrow> RotationRuntimeState \<Rightarrow> u64 \<Rightarrow> RotationFailure \<Rightarrow> RotationRuntimeState outcome" where
  "fail_rt cred s i f =
     (if \<not> operation_current s i then (s, [], [])
      else transitioned s
        (fail (machine s) i (if credential_guard_matches cred s i then f else CredentialChanged)))"

subsection \<open>The probes\<close>

definition operation_generation_deadline ::
    "RotationRuntimeState \<Rightarrow> u64 \<Rightarrow> bool \<Rightarrow> (u64 \<times> Instant) option" where
  "operation_generation_deadline s i earlier =
     (let snap = snapshot (machine s)
      in if closed s \<or> snap_operation_id snap \<noteq> Some i \<or> terminal (snap_phase snap) then None
         else case (if earlier then snap_before_generation snap else snap_after_generation snap, deadline s) of
                (Some g, Some (j, d)) \<Rightarrow> if j = i then Some (g, d) else None
              | _ \<Rightarrow> None)"

definition operation_deadline :: "RotationRuntimeState \<Rightarrow> u64 \<Rightarrow> Instant option" where
  "operation_deadline s i =
     (if closed s \<or> snap_operation_id (snapshot (machine s)) \<noteq> Some i then None
      else case deadline s of Some (j, d) \<Rightarrow> if j = i then Some d else None | None \<Rightarrow> None)"

text \<open>The answer of a probe: \<open>None\<close> when the deadline passes first, otherwise an error or an observation.\<close>

type_synonym Probe = "(unit + u64 \<times> IpAddr) option"

definition before_ip_start :: "RotationRuntimeState \<Rightarrow> u64 \<Rightarrow> RotationRuntimeState outcome" where
  "before_ip_start s i =
     (case operation_generation_deadline s i True of
        None \<Rightarrow> (s, [], []) | Some (g, d) \<Rightarrow> (s, [BeforeIpAt i (BeforeIpProbe g)], []))"

definition before_ip_probed :: "RotationRuntimeState \<Rightarrow> u64 \<Rightarrow> u64 \<Rightarrow> Probe \<Rightarrow> RotationRuntimeState outcome" where
  "before_ip_probed s i g probe =
     (case probe of
        None \<Rightarrow> (s, [Failing i DeadlineExceeded], [])
      | Some (Inl _) \<Rightarrow> (s, [Failing i BeforeIpFailed], [])
      | Some (Inr (g', address)) \<Rightarrow>
          if g' \<noteq> g then (s, [Failing i BeforeIpFailed], [])
          else if \<not> operation_current s i then (s, [], [])
          else case record_before_ip (machine s) i g' address of
                 (Inl e, m) \<Rightarrow> (s\<lparr>machine := m\<rparr>, [Failing i BeforeIpFailed], [])
               | (Inr snap, m) \<Rightarrow> (s\<lparr>machine := m\<rparr>, [Transitioned snap], []))"

definition after_ip_start :: "RotationRuntimeState \<Rightarrow> u64 \<Rightarrow> RotationRuntimeState outcome" where
  "after_ip_start s i =
     (case operation_generation_deadline s i False of
        None \<Rightarrow> (s, [], []) | Some (g, d) \<Rightarrow> (s, [AfterIpAt i (AfterIpProbe g)], []))"

definition after_ip_probed :: "RotationRuntimeState \<Rightarrow> u64 \<Rightarrow> u64 \<Rightarrow> Probe \<Rightarrow> RotationRuntimeState outcome" where
  "after_ip_probed s i g probe =
     (case probe of
        None \<Rightarrow> (s, [Failing i DeadlineExceeded], [])
      | Some (Inl _) \<Rightarrow> (s, [Failing i AfterIpFailed], [])
      | Some (Inr (g', address)) \<Rightarrow>
          if g' \<noteq> g then (s, [Failing i AfterIpFailed], []) else (s, [AfterIpAt i (AfterIpGuard g' address)], []))"

definition after_ip_guard ::
    "ProxyCredentialGuard option \<Rightarrow> RotationRuntimeState \<Rightarrow> u64 \<Rightarrow> u64 \<Rightarrow> IpAddr \<Rightarrow> RotationRuntimeState outcome" where
  "after_ip_guard cred s i g address =
     (if credential_guard_matches cred s i then (s, [AfterIpAt i (AfterIpRecord g address)], [])
      else (s, [Failing i CredentialChanged], []))"

definition after_ip_record :: "RotationRuntimeState \<Rightarrow> u64 \<Rightarrow> u64 \<Rightarrow> IpAddr \<Rightarrow> RotationRuntimeState outcome" where
  "after_ip_record s i g address =
     (if \<not> operation_current s i then (s, [], [])
      else case record_after_ip (machine s) i g address of
             (Inl e, m) \<Rightarrow> (s\<lparr>machine := m\<rparr>, [Failing i AfterIpFailed], [])
           | (Inr snap, m) \<Rightarrow> (s\<lparr>machine := m\<rparr>, [Transitioned snap], []))"

subsection \<open>The radio mutations\<close>

text \<open>How the main path reads the result of \<open>set\<close>; \<open>None\<close> for an error that fails the operation.\<close>

definition effect_outcome :: "MobileDataEffectError + unit \<Rightarrow> RotationMutationOutcome option" where
  "effect_outcome r =
     (case r of
        Inr _ \<Rightarrow> Some RotationMutationOutcome.Applied
      | Inl MutationRejected \<Rightarrow> Some Rejected
      | Inl MutationUncertain \<Rightarrow> Some Uncertain
      | Inl SessionUnavailable \<Rightarrow> Some Uncertain
      | Inl _ \<Rightarrow> None)"

definition disable_report_task :: "u64 \<Rightarrow> MobileDataEffectError + unit \<Rightarrow> RotationTask" where
  "disable_report_task i r =
     (case effect_outcome r of None \<Rightarrow> Failing i DataDisableFailed | Some outcome \<Rightarrow> DisableAt i (DisableReport outcome))"

definition enable_report_task :: "u64 \<Rightarrow> MobileDataEffectError + unit \<Rightarrow> RotationTask" where
  "enable_report_task i r =
     (case effect_outcome r of None \<Rightarrow> Failing i DataEnableFailed | Some outcome \<Rightarrow> EnableAt i (EnableReport outcome))"

text \<open>\<open>run_disable_data\<close>, up to the submission.\<close>

definition disable_task :: "RotationRuntimeState \<Rightarrow> u64 \<Rightarrow> RotationRuntimeState outcome" where
  "disable_task s i =
     (case operation_deadline s i of None \<Rightarrow> (s, [], []) | Some d \<Rightarrow> (s, [DisableAt i DisableObserve], []))"

definition disable_observed ::
    "RotationRuntimeState \<Rightarrow> u64 \<Rightarrow> RootAnswer option \<Rightarrow> RotationRuntimeState outcome" where
  "disable_observed s i answer =
     (case answer of
        None \<Rightarrow> (s, [Failing i DeadlineExceeded], [])
      | Some a \<Rightarrow>
          if observed a = Inr Enabled then (s, [DisableAt i DisableStart], [PreconditionEnabled i])
          else (s, [Failing i MobileDataObservationFailed], []))"

definition disable_start :: "RotationRuntimeState \<Rightarrow> u64 \<Rightarrow> RotationRuntimeState outcome" where
  "disable_start s i =
     (if \<not> operation_current s i then (s, [], [])
      else case data_disable_mutation_started (machine s) i of
             (Inl e, m) \<Rightarrow> (s\<lparr>machine := m\<rparr>, [], [])
           | (Inr snap, m) \<Rightarrow> (s\<lparr>machine := m\<rparr>, [Transitioned snap, DisableAt i DisableCheck], [RestoreRecorded i]))"

definition disable_check :: "RotationRuntimeState \<Rightarrow> u64 \<Rightarrow> RotationRuntimeState outcome" where
  "disable_check s i =
     (if terminal (snap_phase (snapshot (machine s))) then (s, [], []) else (s, [DisableAt i DisableSubmit], []))"

text \<open>The effect itself: steps on the ownership bit alone.\<close>

definition disable_submit :: "bool \<Rightarrow> u64 \<Rightarrow> bool outcome" where
  "disable_submit owned i =
     (case disable_begin owned of
        (Inl e, owned) \<Rightarrow> (owned, [disable_report_task i (Inl e)], [])
      | (Inr c, owned) \<Rightarrow> (owned, [DisableAt i DisableAwait], [DisableIssued i]))"

definition disable_answered :: "bool \<Rightarrow> u64 \<Rightarrow> RootAnswer option \<Rightarrow> bool outcome" where
  "disable_answered owned i answer =
     (case answer of
        None \<Rightarrow> (owned, [DisableAt i (DisableReport Uncertain)], [])
      | Some a \<Rightarrow>
          (let (r, owned') = disable_end owned a
           in (owned', [disable_report_task i r], if r = Inl MutationRejected then [Released] else [])))"

definition disable_report ::
    "RotationRuntimeState \<Rightarrow> u64 \<Rightarrow> RotationMutationOutcome \<Rightarrow> RotationRuntimeState outcome" where
  "disable_report s i outcome =
     (if \<not> operation_current s i then (s, [], [])
      else transitioned s (data_disable_effect_completed (machine s) i outcome))"

text \<open>\<open>run_enable_data\<close>.\<close>

definition enable_task :: "RotationRuntimeState \<Rightarrow> u64 \<Rightarrow> RotationRuntimeState outcome" where
  "enable_task s i =
     (case operation_deadline s i of None \<Rightarrow> (s, [], []) | Some d \<Rightarrow> (s, [EnableAt i EnableSubmit], []))"

definition enable_submit :: "bool \<Rightarrow> u64 \<Rightarrow> bool outcome" where
  "enable_submit owned i =
     (case enable_begin owned of
        Inl e \<Rightarrow> (owned, [enable_report_task i (Inl e)], [])
      | Inr c \<Rightarrow> (owned, [EnableAt i EnableAwait], [EnableIssued i]))"

definition enable_answered :: "bool \<Rightarrow> u64 \<Rightarrow> RootAnswer option \<Rightarrow> bool outcome" where
  "enable_answered owned i answer =
     (case answer of
        None \<Rightarrow> (owned, [EnableAt i (EnableReport Uncertain)], [])
      | Some a \<Rightarrow> (owned, [EnableAt i (EnableReadback (enable_outcome a))], []))"

definition enable_readback ::
    "bool \<Rightarrow> u64 \<Rightarrow> MobileDataEffectError \<Rightarrow> RootAnswer option \<Rightarrow> bool outcome" where
  "enable_readback owned i outcome answer =
     (case answer of
        None \<Rightarrow> (owned, [EnableAt i (EnableReport Uncertain)], [])
      | Some a \<Rightarrow>
          (let (r, owned') = enable_end owned outcome (observed a)
           in (owned', [enable_report_task i r], if r = Inr () then [EnableVerified i, Released] else [])))"

definition enable_report ::
    "RotationRuntimeState \<Rightarrow> u64 \<Rightarrow> RotationMutationOutcome \<Rightarrow> RotationRuntimeState outcome" where
  "enable_report s i outcome =
     (if \<not> operation_current s i then (s, [], [])
      else transitioned s (data_enable_effect_completed (machine s) i outcome))"

text \<open>\<open>restore_enabled_direct\<close>.\<close>

definition restore_observed :: "bool \<Rightarrow> u64 \<Rightarrow> RootAnswer option \<Rightarrow> bool outcome" where
  "restore_observed owned i answer =
     (case map_option observed answer of
        Some (Inr Enabled) \<Rightarrow> (owned, [RestoreAt i (RestoreReport AlreadyEnabled)], [])
      | Some (Inr Disabled) \<Rightarrow> (owned, [RestoreAt i RestoreSubmit], [RestoreReadDisabled i])
      | _ \<Rightarrow> (owned, [RestoreAt i (RestoreReport RestoreUncertain)], []))"

definition restore_after_set :: "u64 \<Rightarrow> MobileDataEffectError + unit \<Rightarrow> RotationTask" where
  "restore_after_set i r =
     (if r \<in> {Inr (), Inl MutationUncertain, Inl SessionUnavailable} then RestoreAt i RestoreConfirm
      else RestoreAt i (RestoreReport RestoreFailed))"

definition restore_submit :: "bool \<Rightarrow> u64 \<Rightarrow> bool outcome" where
  "restore_submit owned i =
     (case enable_begin owned of
        Inl e \<Rightarrow> (owned, [restore_after_set i (Inl e)], [])
      | Inr c \<Rightarrow> (owned, [RestoreAt i RestoreAwait], [RestoreEnableIssued i]))"

definition restore_answered :: "bool \<Rightarrow> u64 \<Rightarrow> RootAnswer option \<Rightarrow> bool outcome" where
  "restore_answered owned i answer =
     (case answer of
        None \<Rightarrow> (owned, [RestoreAt i (RestoreReport RestoreFailed)], [])
      | Some a \<Rightarrow> (owned, [RestoreAt i (RestoreReadback (enable_outcome a))], []))"

definition restore_readback ::
    "bool \<Rightarrow> u64 \<Rightarrow> MobileDataEffectError \<Rightarrow> RootAnswer option \<Rightarrow> bool outcome" where
  "restore_readback owned i outcome answer =
     (case answer of
        None \<Rightarrow> (owned, [RestoreAt i (RestoreReport RestoreFailed)], [])
      | Some a \<Rightarrow>
          (let (r, owned') = enable_end owned outcome (observed a)
           in (owned', [restore_after_set i r], if r = Inr () then [Released] else [])))"

definition restore_confirmed :: "bool \<Rightarrow> u64 \<Rightarrow> RootAnswer option \<Rightarrow> bool outcome" where
  "restore_confirmed owned i answer =
     (owned, [RestoreAt i (RestoreReport
        (case map_option observed answer of
           Some (Inr Enabled) \<Rightarrow> RestoredEnabled
         | Some (Inr Disabled) \<Rightarrow> RestoreFailed
         | _ \<Rightarrow> RestoreUncertain))], [])"

definition restore_report ::
    "RotationRuntimeState \<Rightarrow> u64 \<Rightarrow> RotationRestoreResult \<Rightarrow> RotationRuntimeState outcome" where
  "restore_report s i r =
     (let snap = snapshot (machine s)
      in if snap_operation_id snap \<noteq> Some i \<or> snap_phase snap \<noteq> Failed then (s, [], [])
         else (s\<lparr>machine := snd (record_restore (machine s) i r)\<rparr>, [], []))"

subsection \<open>Runs\<close>

text \<open>The coordinator with its tasks, the bit of the effect, the credentials the proxy serves, the log.\<close>

record RotationSystem =
  runtime :: RotationRuntimeState
  owned :: bool
  serving :: "ProxyCredentialGuard option"
  tasks :: "RotationTask list"
  radio_log :: "RadioEvent list"

definition rotation_system_new :: RotationSystem where
  "rotation_system_new =
     \<lparr>runtime = rotation_runtime_new, owned = False, serving = None, tasks = [], radio_log = []\<rparr>"

text \<open>What a waiting task is given: nothing but the executor's consent, a session answer, a probe.\<close>

datatype Signal = Go bool | Answer "RootAnswer option" | Probed Probe

definition on_runtime :: "RotationSystem \<Rightarrow> RotationRuntimeState outcome \<Rightarrow> RotationSystem" where
  "on_runtime y r =
     (case r of (s, ts, es) \<Rightarrow> y\<lparr>runtime := s, tasks := tasks y @ ts, radio_log := radio_log y @ es\<rparr>)"

definition on_bit :: "RotationSystem \<Rightarrow> bool outcome \<Rightarrow> RotationSystem" where
  "on_bit y r =
     (case r of (b, ts, es) \<Rightarrow> y\<lparr>owned := b, tasks := tasks y @ ts, radio_log := radio_log y @ es\<rparr>)"

text \<open>
  One step of a task that was taken off the list; \<open>None\<close> when it does not wait for that signal. A timer
  may also end without firing, when it is notified.
\<close>

primrec on_go :: "(bool \<Rightarrow> RotationSystem) \<Rightarrow> Signal \<Rightarrow> RotationSystem option" where
  "on_go k (Go b) = Some (k b)"
| "on_go k (Answer a) = None"
| "on_go k (Probed p) = None"

primrec on_answer :: "(RootAnswer option \<Rightarrow> RotationSystem) \<Rightarrow> Signal \<Rightarrow> RotationSystem option" where
  "on_answer k (Go b) = None"
| "on_answer k (Answer a) = Some (k a)"
| "on_answer k (Probed p) = None"

primrec on_probed :: "(Probe \<Rightarrow> RotationSystem) \<Rightarrow> Signal \<Rightarrow> RotationSystem option" where
  "on_probed k (Go b) = None"
| "on_probed k (Answer a) = None"
| "on_probed k (Probed p) = Some (k p)"

primrec before_ip_step :: "BeforeIpPoint \<Rightarrow> u64 \<Rightarrow> RotationSystem \<Rightarrow> Signal \<Rightarrow> RotationSystem option" where
  "before_ip_step BeforeIpEntry i y = on_go (\<lambda>b. on_runtime y (before_ip_start (runtime y) i))"
| "before_ip_step (BeforeIpProbe g) i y = on_probed (\<lambda>p. on_runtime y (before_ip_probed (runtime y) i g p))"

primrec disable_step :: "DisablePoint \<Rightarrow> u64 \<Rightarrow> RotationSystem \<Rightarrow> Signal \<Rightarrow> RotationSystem option" where
  "disable_step DisableEntry i y = on_go (\<lambda>b. on_runtime y (disable_task (runtime y) i))"
| "disable_step DisableObserve i y = on_answer (\<lambda>a. on_runtime y (disable_observed (runtime y) i a))"
| "disable_step DisableStart i y = on_go (\<lambda>b. on_runtime y (disable_start (runtime y) i))"
| "disable_step DisableCheck i y = on_go (\<lambda>b. on_runtime y (disable_check (runtime y) i))"
| "disable_step DisableSubmit i y = on_go (\<lambda>b. on_bit y (disable_submit (owned y) i))"
| "disable_step DisableAwait i y = on_answer (\<lambda>a. on_bit y (disable_answered (owned y) i a))"
| "disable_step (DisableReport r) i y = on_go (\<lambda>b. on_runtime y (disable_report (runtime y) i r))"

primrec enable_step :: "EnablePoint \<Rightarrow> u64 \<Rightarrow> RotationSystem \<Rightarrow> Signal \<Rightarrow> RotationSystem option" where
  "enable_step EnableEntry i y = on_go (\<lambda>b. on_runtime y (enable_task (runtime y) i))"
| "enable_step EnableSubmit i y = on_go (\<lambda>b. on_bit y (enable_submit (owned y) i))"
| "enable_step EnableAwait i y = on_answer (\<lambda>a. on_bit y (enable_answered (owned y) i a))"
| "enable_step (EnableReadback e) i y = on_answer (\<lambda>a. on_bit y (enable_readback (owned y) i e a))"
| "enable_step (EnableReport r) i y = on_go (\<lambda>b. on_runtime y (enable_report (runtime y) i r))"

primrec after_ip_step :: "AfterIpPoint \<Rightarrow> u64 \<Rightarrow> RotationSystem \<Rightarrow> Signal \<Rightarrow> RotationSystem option" where
  "after_ip_step AfterIpEntry i y = on_go (\<lambda>b. on_runtime y (after_ip_start (runtime y) i))"
| "after_ip_step (AfterIpProbe g) i y = on_probed (\<lambda>p. on_runtime y (after_ip_probed (runtime y) i g p))"
| "after_ip_step (AfterIpGuard g x) i y = on_go (\<lambda>b. on_runtime y (after_ip_guard (serving y) (runtime y) i g x))"
| "after_ip_step (AfterIpRecord g x) i y = on_go (\<lambda>b. on_runtime y (after_ip_record (runtime y) i g x))"

primrec restore_step :: "RestorePoint \<Rightarrow> u64 \<Rightarrow> RotationSystem \<Rightarrow> Signal \<Rightarrow> RotationSystem option" where
  "restore_step RestoreEntry i y = on_answer (\<lambda>a. on_bit y (restore_observed (owned y) i a))"
| "restore_step RestoreSubmit i y = on_go (\<lambda>b. on_bit y (restore_submit (owned y) i))"
| "restore_step RestoreAwait i y = on_answer (\<lambda>a. on_bit y (restore_answered (owned y) i a))"
| "restore_step (RestoreReadback e) i y = on_answer (\<lambda>a. on_bit y (restore_readback (owned y) i e a))"
| "restore_step RestoreConfirm i y = on_answer (\<lambda>a. on_bit y (restore_confirmed (owned y) i a))"
| "restore_step (RestoreReport r) i y = on_go (\<lambda>b. on_runtime y (restore_report (runtime y) i r))"

primrec task_step :: "RotationTask \<Rightarrow> RotationSystem \<Rightarrow> Signal \<Rightarrow> RotationSystem option" where
  "task_step (DeadlineTimer i) y = on_go (\<lambda>fires. if fires then on_runtime y (deadline_fired (runtime y) i) else y)"
| "task_step (ActivateSpawn i snap) y = on_go (\<lambda>b. on_runtime y (activate_spawn (runtime y) i snap b))"
| "task_step (ActivateSchedule i snap) y = on_go (\<lambda>b. on_runtime y (activate_schedule (runtime y) i snap b))"
| "task_step (Transitioned snap) y = on_go (\<lambda>b. on_runtime y (snd (schedule_for (runtime y) snap b)))"
| "task_step (Failing i f) y = on_go (\<lambda>b. on_runtime y (fail_rt (serving y) (runtime y) i f))"
| "task_step (BeforeIpAt i p) y = before_ip_step p i y"
| "task_step (DisableAt i p) y = disable_step p i y"
| "task_step (EnableAt i p) y = enable_step p i y"
| "task_step (AfterIpAt i p) y = after_ip_step p i y"
| "task_step (RestoreAt i p) y = restore_step p i y"
| "task_step (ShutdownDrain i f) y = on_go (\<lambda>b. on_runtime y (shutdown_end (runtime y) i f))"

datatype RotationCall =
    Prepare CellularAdmissionSnapshot "(CellularAdmissionSnapshot \<times> bool) option"
  | ActivatePrepared u64 Instant
  | FailPrepared u64
  | ObserveCellular CellularAdmissionSnapshot
  | ObserveRootPolicy CellularAdmissionSnapshot bool
  | Serve "ProxyCredentialGuard option"
  | Shutdown
  | Run nat Signal

fun rotation_system_step :: "RotationSystem \<Rightarrow> RotationCall \<Rightarrow> RotationSystem" where
  "rotation_system_step y (Prepare a p) = y\<lparr>runtime := snd (prepare (runtime y) a p (serving y))\<rparr>"
| "rotation_system_step y (ActivatePrepared i now) = on_runtime y (activate_prepared (runtime y) i now)"
| "rotation_system_step y (FailPrepared i) = y\<lparr>runtime := snd (fail_prepared_before_mutation (runtime y) i)\<rparr>"
| "rotation_system_step y (ObserveCellular a) = on_runtime y (observe_cellular_rt (runtime y) a)"
| "rotation_system_step y (ObserveRootPolicy a e) = on_runtime y (observe_root_policy_rt (runtime y) a e)"
| "rotation_system_step y (Serve g) = y\<lparr>serving := g\<rparr>"
| "rotation_system_step y Shutdown = on_runtime y (shutdown_begin (runtime y))"
| "rotation_system_step y (Run n signal) =
     (if n < length (tasks y)
      then case task_step (tasks y ! n) (y\<lparr>tasks := take n (tasks y) @ drop (Suc n) (tasks y)\<rparr>) signal of
             None \<Rightarrow> y | Some y' \<Rightarrow> y'
      else y)"

subsection \<open>What a machine call does to the current operation\<close>

text \<open>The phases behind an applied disable, and those behind a verified enable.\<close>

definition applied_phases :: "RotationPhase set" where
  "applied_phases = {WaitingCellularLoss, DataEnabling, WaitingCellularRecovery, WaitingRootPolicy,
     ProbingPublicIp, Changed, Unchanged}"

definition verified_phases :: "RotationPhase set" where
  "verified_phases = {WaitingCellularRecovery, WaitingRootPolicy, ProbingPublicIp, Changed, Unchanged}"

definition moves :: "bool \<Rightarrow> bool \<Rightarrow> bool \<Rightarrow> RotationOperation \<Rightarrow> RotationOperation \<Rightarrow> bool" where
  "moves applied verified loss op op' \<longleftrightarrow>
     op_id op' = op_id op \<and>
     (phase op' = Preparing \<longrightarrow> phase op = Preparing) \<and>
     (phase op' \<in> applied_phases \<longrightarrow> phase op \<in> applied_phases \<or> applied) \<and>
     (phase op' \<in> verified_phases \<longrightarrow> phase op \<in> verified_phases \<or> verified) \<and>
     (cellular_loss_observed op' \<longrightarrow> cellular_loss_observed op \<or> loss)"

definition advances :: "bool \<Rightarrow> bool \<Rightarrow> bool \<Rightarrow> RotationStateMachine \<Rightarrow> transition \<Rightarrow> bool" where
  "advances applied verified loss m t \<longleftrightarrow>
     rotation_inv (snd t) \<and> next_operation_id (snd t) = next_operation_id m \<and>
     (\<forall>snap. fst t = Inr snap \<longrightarrow> snap = snapshot (snd t)) \<and>
     (case current_operation m of
        None \<Rightarrow> current_operation (snd t) = None
      | Some op \<Rightarrow> \<exists>op'. current_operation (snd t) = Some op' \<and> moves applied verified loss op op')"

lemmas moves_defs = moves_def applied_phases_def verified_phases_def

lemma moves_refl [simp]: "moves a v l op op"
  by (simp add: moves_def)

lemma with_operation_advances:
  assumes "rotation_inv (snd (with_operation r m body))"
    and "\<And>op. r = Inr op \<Longrightarrow> current_operation m = Some op"
    and "\<And>op. r = Inr op \<Longrightarrow> moves a v l op (snd (body op))"
  shows "advances a v l m (with_operation r m body)"
  using assms
  by (cases r)
     (force simp: advances_def with_operation_def snapshot_def split: option.splits prod.splits)+

lemma active_current: "active m i = Inr op \<Longrightarrow> current_operation m = Some op"
  by (simp add: active_Inr_iff)

lemma fail_advances: "rotation_inv m \<Longrightarrow> advances a v l m (fail m i f)"
  using fail_inv [of m i f] unfolding fail_def
  by (rule with_operation_advances) (auto simp: active_Inr_iff fail_operation_def moves_defs)

lemma deadline_advances: "rotation_inv m \<Longrightarrow> advances a v l m (deadline_exceeded m i)"
  by (simp add: deadline_exceeded_def fail_advances)

lemma before_ip_advances: "rotation_inv m \<Longrightarrow> advances a v l m (record_before_ip m i g x)"
  using record_before_ip_inv [of m i g x] unfolding record_before_ip_def
  by (rule with_operation_advances) (auto simp: active_Inr_iff moves_defs)

lemma disable_started_advances: "rotation_inv m \<Longrightarrow> advances a v l m (data_disable_mutation_started m i)"
  using data_disable_mutation_started_inv [of m i] unfolding data_disable_mutation_started_def
  by (rule with_operation_advances) (auto simp: active_Inr_iff moves_defs)

lemma disable_completed_advances:
  "rotation_inv m \<Longrightarrow>
     advances (r = RotationMutationOutcome.Applied) v l m (data_disable_effect_completed m i r)"
  using data_disable_effect_completed_inv [of m i r] unfolding data_disable_effect_completed_def
  by (rule with_operation_advances)
     (auto simp: active_Inr_iff moves_defs maybe_advance_loss_def fail_operation_def
       split: RotationMutationOutcome.splits)

lemma enable_completed_advances:
  "rotation_inv m \<Longrightarrow>
     advances a (r = RotationMutationOutcome.Applied) l m (data_enable_effect_completed m i r)"
  using data_enable_effect_completed_inv [of m i r] unfolding data_enable_effect_completed_def
  by (rule with_operation_advances)
     (auto simp: active_Inr_iff moves_defs maybe_advance_recovery_def fail_operation_def
       split: RotationMutationOutcome.splits option.splits)

lemma after_ip_advances: "rotation_inv m \<Longrightarrow> advances a v l m (record_after_ip m i g x)"
  using record_after_ip_inv [of m i g x] unfolding record_after_ip_def
  by (rule with_operation_advances) (auto simp: active_Inr_iff moves_defs Let_def split: option.splits)

lemma restore_advances: "rotation_inv m \<Longrightarrow> advances a v l m (record_restore m i r)"
  using record_restore_inv [of m i r] unfolding record_restore_def
  by (rule with_operation_advances) (auto simp: current_Inr_iff moves_defs Let_def)

lemma maybe_advance_recovery_moves:
  "moves a v l op op' \<Longrightarrow> phase op \<in> verified_phases \<Longrightarrow> phase op' = phase op \<Longrightarrow>
     moves a v l op (maybe_advance_recovery op')"
  by (auto simp: moves_defs maybe_advance_recovery_def split: option.splits)

lemma maybe_advance_loss_moves:
  "moves a v l op op' \<Longrightarrow> phase op' = phase op \<Longrightarrow> moves a v l op (maybe_advance_loss op')"
  by (auto simp: moves_defs maybe_advance_loss_def)

lemma observed_generation_moves: "moves a v l op (snd (observe_owner_generation op g))"
  by (simp add: moves_def observe_owner_generation_def)

lemma observed_recovery_moves:
  "moves a v l op op' \<Longrightarrow> moves a v l op (observe_recovery_cellular op' g b)"
  by (simp add: moves_def observe_recovery_cellular_def Let_def)

lemma cellular_advances:
  assumes "rotation_inv m"
    and "\<And>op. current_operation m = Some op \<Longrightarrow> \<not> admitted \<Longrightarrow> before_generation op < g \<Longrightarrow>
      phase op \<in> {DataDisabling, WaitingCellularLoss} \<Longrightarrow> l"
  shows "advances a v l m (observe_cellular m i g admitted)"
  using observe_cellular_inv [OF assms(1), of i g admitted] unfolding observe_cellular_def
proof (rule with_operation_advances, goal_cases)
  case (2 op)
  have "phase (snd (observe_owner_generation op g)) = phase op" by simp
  moreover have "moves a v l op (maybe_advance_loss
      (if \<not> admitted then snd (observe_owner_generation op g)\<lparr>cellular_loss_observed := True\<rparr>
       else snd (observe_owner_generation op g)))"
    if "phase op \<in> {DataDisabling, WaitingCellularLoss}" "before_generation op < g"
    using that assms(2) [OF active_current [OF 2]] observed_generation_moves [of a v l op g]
    by (intro maybe_advance_loss_moves) (auto simp: moves_def)
  moreover have "moves a v l op (maybe_advance_recovery
      (observe_recovery_cellular (snd (observe_owner_generation op g)) g admitted))"
    if "phase op \<in> {WaitingCellularRecovery, WaitingRootPolicy}"
    using that by (intro maybe_advance_recovery_moves observed_recovery_moves observed_generation_moves)
      (auto simp: verified_phases_def observe_recovery_cellular_def Let_def)
  ultimately show ?case
    using observed_generation_moves [of a v l op g]
    by (auto simp: case_prod_beta Let_def intro: observed_recovery_moves)
qed (simp add: active_current)

lemma root_policy_advances:
  assumes "rotation_inv m"
  shows "advances a v l m (observe_root_policy m i g authorized)"
  using observe_root_policy_inv [OF assms, of i g authorized] unfolding observe_root_policy_def
proof (rule with_operation_advances, goal_cases)
  case (2 op)
  have "moves a v l op (snd (observe_owner_generation op g)\<lparr>root_authorized_generation := x\<rparr>)" for x
    using observed_generation_moves [of a v l op g] by (simp add: moves_def)
  moreover from this have "moves a v l op (maybe_advance_recovery
      (snd (observe_owner_generation op g)\<lparr>root_authorized_generation := x\<rparr>))"
    if "phase op \<in> {WaitingCellularRecovery, WaitingRootPolicy}" for x
    using that by (intro maybe_advance_recovery_moves) (auto simp: verified_phases_def)
  ultimately show ?case
    using observed_generation_moves [of a v l op g] by (auto simp: case_prod_beta Let_def)
qed (simp add: active_current)

end
