(* ===== verification/Rotation_Ledger.thy ===== *)
theory Rotation_Ledger
  imports Rotation_Runtime
begin

text \<open>
  What every run of the rotation coordinator keeps of the radio: the commands it may send, given what was
  logged before them, and the invariant of the interleaved tasks that shows it. Each claimed action sends
  its command at most once, and the ownership bit of the effect says exactly whether a disable command is
  still to be compensated.
\<close>

subsection \<open>The ledger of radio commands\<close>

primrec bit_after :: "bool \<Rightarrow> RadioEvent \<Rightarrow> bool" where
  "bit_after b (PreconditionEnabled i) = b"
| "bit_after b (RestoreRecorded i) = b"
| "bit_after b (DisableIssued i) = True"
| "bit_after b (LossObserved i) = b"
| "bit_after b (EnableIssued i) = b"
| "bit_after b (EnableVerified i) = b"
| "bit_after b (RestoreReadDisabled i) = b"
| "bit_after b (RestoreEnableIssued i) = b"
| "bit_after b Released = False"

text \<open>A disable command is outstanding until it is rejected or an enable is verified.\<close>

definition outstanding :: "RadioEvent list \<Rightarrow> bool" where
  "outstanding es = foldl bit_after False es"

text \<open>When a command may be sent, given what was logged before it.\<close>

primrec allowed :: "RadioEvent list \<Rightarrow> RadioEvent \<Rightarrow> bool" where
  "allowed past (PreconditionEnabled i) = True"
| "allowed past (RestoreRecorded i) = True"
| "allowed past (DisableIssued i) =
     (PreconditionEnabled i \<in> set past \<and> RestoreRecorded i \<in> set past \<and> DisableIssued i \<notin> set past \<and>
      \<not> outstanding past)"
| "allowed past (LossObserved i) = True"
| "allowed past (EnableIssued i) =
     (DisableIssued i \<in> set past \<and> LossObserved i \<in> set past \<and> EnableIssued i \<notin> set past \<and> outstanding past)"
| "allowed past (EnableVerified i) = (EnableIssued i \<in> set past)"
| "allowed past (RestoreReadDisabled i) = True"
| "allowed past (RestoreEnableIssued i) = (RestoreReadDisabled i \<in> set past \<and> outstanding past)"
| "allowed past Released = True"

definition well_logged :: "RadioEvent list \<Rightarrow> bool" where
  "well_logged es \<longleftrightarrow> (\<forall>past e later. es = past @ e # later \<longrightarrow> allowed past e)"

lemma well_logged_Nil [simp]: "well_logged []"
  by (simp add: well_logged_def)

lemma well_logged_snoc: "well_logged (es @ [e]) \<longleftrightarrow> well_logged es \<and> allowed es e"
proof -
  have "es @ [e] = past @ x # later \<longleftrightarrow>
      (later = [] \<and> past = es \<and> x = e) \<or> (\<exists>l. later = l @ [e] \<and> es = past @ x # l)" for past x later
    by (cases later rule: rev_cases) auto
  then show ?thesis by (auto simp: well_logged_def)
qed

lemma outstanding_Nil [simp]: "\<not> outstanding []"
  by (simp add: outstanding_def)

lemma outstanding_append: "outstanding (es @ fs) = foldl bit_after (outstanding es) fs"
  by (simp add: outstanding_def)

text \<open>A fact that changes no command count and needs nothing.\<close>

definition plain :: "RadioEvent \<Rightarrow> bool" where
  "plain e \<longleftrightarrow> (\<forall>past. allowed past e) \<and> (\<forall>b. bit_after b e = b) \<and>
     (\<forall>i. e \<noteq> DisableIssued i \<and> e \<noteq> EnableIssued i)"

lemma plain_simps [simp]:
  "plain (PreconditionEnabled i)" "plain (RestoreRecorded i)" "plain (LossObserved i)"
  "plain (RestoreReadDisabled i)"
  by (simp_all add: plain_def)

lemma plain_logged:
  "list_all plain fs \<Longrightarrow> well_logged es \<Longrightarrow> well_logged (es @ fs) \<and> outstanding (es @ fs) = outstanding es"
proof (induction fs arbitrary: es)
  case (Cons f fs)
  then show ?case
    using Cons.IH [of "es @ [f]"]
    by (simp add: well_logged_snoc plain_def outstanding_append)
qed simp

subsection \<open>Counting the claims of an action\<close>

primrec disable_waits :: "DisablePoint \<Rightarrow> bool" where
  "disable_waits DisableEntry = False"
| "disable_waits DisableObserve = True"
| "disable_waits DisableStart = True"
| "disable_waits DisableCheck = True"
| "disable_waits DisableSubmit = True"
| "disable_waits DisableAwait = False"
| "disable_waits (DisableReport r) = False"

text \<open>Tasks at the entry of an action, tasks past its first check that may still send, commands sent.\<close>

fun entries :: "RotationAction \<Rightarrow> u64 \<Rightarrow> RotationTask \<Rightarrow> nat" where
  "entries DisableData i (DisableAt j p) = of_bool (j = i \<and> p = DisableEntry)"
| "entries EnableData i (EnableAt j p) = of_bool (j = i \<and> p = EnableEntry)"
| "entries a i t = 0"

fun waiting :: "RotationAction \<Rightarrow> u64 \<Rightarrow> RotationTask \<Rightarrow> nat" where
  "waiting DisableData i (DisableAt j p) = of_bool (j = i \<and> disable_waits p)"
| "waiting EnableData i (EnableAt j p) = of_bool (j = i \<and> p = EnableSubmit)"
| "waiting a i t = 0"

definition sends :: "RotationAction \<Rightarrow> u64 \<Rightarrow> RadioEvent \<Rightarrow> nat" where
  "sends a i e = of_bool (a = DisableData \<and> e = DisableIssued i \<or> a = EnableData \<and> e = EnableIssued i)"

abbreviation tally :: "('a \<Rightarrow> nat) \<Rightarrow> 'a list \<Rightarrow> nat" where
  "tally f xs \<equiv> sum_list (map f xs)"

lemma sends_none:
  "tally (sends DisableData i) es = 0 \<longleftrightarrow> DisableIssued i \<notin> set es"
  "tally (sends EnableData i) es = 0 \<longleftrightarrow> EnableIssued i \<notin> set es"
  by (auto simp: sends_def)

subsection \<open>The invariant of a run\<close>

fun task_operation :: "RotationTask \<Rightarrow> u64 option" where
  "task_operation (ActivateSpawn i snap) = snap_operation_id snap"
| "task_operation (ActivateSchedule i snap) = snap_operation_id snap"
| "task_operation (Transitioned snap) = snap_operation_id snap"
| "task_operation (DisableAt i p) = Some i"
| "task_operation (EnableAt i p) = Some i"
| "task_operation _ = None"

fun task_snapshot :: "RotationTask \<Rightarrow> RotationSnapshot option" where
  "task_snapshot (ActivateSpawn i snap) = Some snap"
| "task_snapshot (ActivateSchedule i snap) = Some snap"
| "task_snapshot (Transitioned snap) = Some snap"
| "task_snapshot _ = None"

definition may_enable :: "RadioEvent set \<Rightarrow> u64 \<Rightarrow> bool" where
  "may_enable L i \<longleftrightarrow> DisableIssued i \<in> L \<and> LossObserved i \<in> L"

primrec disable_fact :: "RadioEvent set \<Rightarrow> u64 \<Rightarrow> DisablePoint \<Rightarrow> bool" where
  "disable_fact L i DisableEntry = True"
| "disable_fact L i DisableObserve = True"
| "disable_fact L i DisableStart = (PreconditionEnabled i \<in> L)"
| "disable_fact L i DisableCheck = (PreconditionEnabled i \<in> L \<and> RestoreRecorded i \<in> L)"
| "disable_fact L i DisableSubmit = (PreconditionEnabled i \<in> L \<and> RestoreRecorded i \<in> L)"
| "disable_fact L i DisableAwait = (DisableIssued i \<in> L)"
| "disable_fact L i (DisableReport r) = (r = RotationMutationOutcome.Applied \<longrightarrow> DisableIssued i \<in> L)"

primrec enable_fact :: "RadioEvent set \<Rightarrow> u64 \<Rightarrow> EnablePoint \<Rightarrow> bool" where
  "enable_fact L i EnableEntry = may_enable L i"
| "enable_fact L i EnableSubmit = may_enable L i"
| "enable_fact L i EnableAwait = (EnableIssued i \<in> L)"
| "enable_fact L i (EnableReadback e) = (EnableIssued i \<in> L)"
| "enable_fact L i (EnableReport r) = (r = RotationMutationOutcome.Applied \<longrightarrow> EnableVerified i \<in> L)"

definition snapshot_fact :: "RadioEvent set \<Rightarrow> RotationSnapshot \<Rightarrow> bool" where
  "snapshot_fact L snap \<longleftrightarrow>
     (\<forall>i. snap_operation_id snap = Some i \<longrightarrow> snap_phase snap = DataEnabling \<longrightarrow> may_enable L i)"

primrec task_fact :: "RadioEvent set \<Rightarrow> RotationTask \<Rightarrow> bool" where
  "task_fact L (DeadlineTimer i) = True"
| "task_fact L (ActivateSpawn i snap) = snapshot_fact L snap"
| "task_fact L (ActivateSchedule i snap) = snapshot_fact L snap"
| "task_fact L (Transitioned snap) = snapshot_fact L snap"
| "task_fact L (Failing i f) = True"
| "task_fact L (BeforeIpAt i p) = True"
| "task_fact L (DisableAt i p) = disable_fact L i p"
| "task_fact L (EnableAt i p) = enable_fact L i p"
| "task_fact L (AfterIpAt i p) = True"
| "task_fact L (RestoreAt i p) = (p = RestoreSubmit \<longrightarrow> RestoreReadDisabled i \<in> L)"
| "task_fact L (ShutdownDrain i f) = True"

lemma task_fact_mono: "task_fact L t \<Longrightarrow> L \<subseteq> M \<Longrightarrow> task_fact M t"
proof (cases t)
  case (DisableAt i p)
  then show "task_fact L t \<Longrightarrow> L \<subseteq> M \<Longrightarrow> ?thesis" by (cases p) auto
next
  case (EnableAt i p)
  then show "task_fact L t \<Longrightarrow> L \<subseteq> M \<Longrightarrow> ?thesis" by (cases p) (auto simp: may_enable_def)
qed (auto simp: snapshot_fact_def may_enable_def)

definition machine_fact :: "RadioEvent set \<Rightarrow> RotationStateMachine \<Rightarrow> bool" where
  "machine_fact L m \<longleftrightarrow>
     (\<forall>op. current_operation m = Some op \<longrightarrow>
        (phase op \<in> applied_phases \<longrightarrow> DisableIssued (op_id op) \<in> L) \<and>
        (phase op \<in> verified_phases \<longrightarrow> EnableVerified (op_id op) \<in> L) \<and>
        (cellular_loss_observed op \<longrightarrow> LossObserved (op_id op) \<in> L))"

definition tokens_ok ::
    "RotationStateMachine \<Rightarrow> (u64 \<times> RotationAction) set \<Rightarrow> RotationTask list \<Rightarrow> RadioEvent list \<Rightarrow> bool" where
  "tokens_ok m cl ts es \<longleftrightarrow>
     (\<forall>a i. tally (waiting a i) ts + tally (sends a i) es \<le> 1) \<and>
     (\<forall>op a. current_operation m = Some op \<longrightarrow>
        tally (entries a (op_id op)) ts + tally (waiting a (op_id op)) ts + tally (sends a (op_id op)) es \<le>
        of_bool ((op_id op, a) \<in> cl))"

definition preparing_ok :: "RotationStateMachine \<Rightarrow> (u64 \<times> RotationAction) set \<Rightarrow> RotationTask list \<Rightarrow> bool" where
  "preparing_ok m cl ts \<longleftrightarrow>
     (\<forall>op. current_operation m = Some op \<and> phase op = Preparing \<longrightarrow>
        (op_id op, DisableData) \<notin> cl \<and> (op_id op, EnableData) \<notin> cl \<and>
        (\<forall>t \<in> set ts. \<forall>snap. task_snapshot t = Some snap \<longrightarrow> snap_operation_id snap = Some (op_id op) \<longrightarrow>
           snap_phase snap = Preparing))"

definition ids_ok :: "RotationStateMachine \<Rightarrow> RotationTask list \<Rightarrow> RadioEvent list \<Rightarrow> bool" where
  "ids_ok m ts es \<longleftrightarrow>
     (\<forall>t \<in> set ts. \<forall>i. task_operation t = Some i \<longrightarrow> i < next_operation_id m) \<and>
     (\<forall>i. DisableIssued i \<in> set es \<or> EnableIssued i \<in> set es \<longrightarrow> i < next_operation_id m)"

definition system_inv :: "RotationSystem \<Rightarrow> bool" where
  "system_inv y \<longleftrightarrow>
     (let m = machine (runtime y); cl = claimed (runtime y); ts = tasks y; es = radio_log y
      in rotation_inv m \<and> machine_fact (set es) m \<and> (\<forall>t \<in> set ts. task_fact (set es) t) \<and>
         tokens_ok m cl ts es \<and> preparing_ok m cl ts \<and> ids_ok m ts es \<and>
         well_logged es \<and> owned y = outstanding es)"

lemmas system_inv_defs = system_inv_def Let_def

subsection \<open>Steps that keep the invariant\<close>

lemma system_inv_taken:
  assumes "system_inv y" "n < length (tasks y)"
  shows "system_inv (y\<lparr>tasks := tasks y ! n # take n (tasks y) @ drop (Suc n) (tasks y)\<rparr>)"
proof -
  let ?ts = "tasks y ! n # take n (tasks y) @ drop (Suc n) (tasks y)"
  have split: "take n (tasks y) @ tasks y ! n # drop (Suc n) (tasks y) = tasks y"
    using assms(2) by (rule id_take_nth_drop [symmetric])
  have "set ?ts = set (take n (tasks y) @ tasks y ! n # drop (Suc n) (tasks y))" by simp
  then have "set ?ts = set (tasks y)" unfolding split .
  moreover have "tally f ?ts = tally f (take n (tasks y) @ tasks y ! n # drop (Suc n) (tasks y))"
    for f :: "RotationTask \<Rightarrow> nat"
    by simp
  then have "tally f ?ts = tally f (tasks y)" for f :: "RotationTask \<Rightarrow> nat"
    unfolding split .
  ultimately show ?thesis
    using assms(1) by (auto simp: system_inv_defs tokens_ok_def preparing_ok_def ids_ok_def
        simp del: list.map sum_list.Cons list.set)
qed

text \<open>The tasks a step may leave behind: one with the snapshot of the machine, or one that follows from
  the task that ran.\<close>

definition follows :: "RotationTask \<Rightarrow> RadioEvent set \<Rightarrow> RotationStateMachine \<Rightarrow> RotationTask \<Rightarrow> bool" where
  "follows t L m t' \<longleftrightarrow>
     task_snapshot t' = Some (snapshot m) \<or>
     (task_snapshot t' = None \<or> task_snapshot t' = task_snapshot t) \<and>
     (task_operation t' = None \<or> task_operation t' = task_operation t) \<and> task_fact L t'"

lemma snapshot_task:
  assumes "task_snapshot t = Some snap"
  shows "task_fact L t = snapshot_fact L snap" "task_operation t = snap_operation_id snap"
  using assms by (cases t; simp)+

lemma machine_snapshot_fact:
  assumes "rotation_inv m" "machine_fact L m"
  shows "snapshot_fact L (snapshot m)"
  using assms
  by (auto simp: snapshot_fact_def snapshot_def operation_snapshot_def idle_def may_enable_def machine_fact_def
      rotation_inv_def operation_ok_def facts_ok_def applied_phases_def split: option.splits)

lemma snapshot_id_less: "rotation_inv m \<Longrightarrow> snap_operation_id (snapshot m) = Some i \<Longrightarrow> i < next_operation_id m"
  by (auto simp: snapshot_def operation_snapshot_def idle_def rotation_inv_def split: option.splits)

lemma tokens_ok_moved:
  assumes tokens: "tokens_ok m cl ts es"
    and same: "\<And>op'. current_operation m' = Some op' \<Longrightarrow> \<exists>op. current_operation m = Some op \<and> op_id op = op_id op'"
  shows "tokens_ok m' cl ts es"
  unfolding tokens_ok_def
proof (intro conjI allI impI)
  fix op' a assume "current_operation m' = Some op'"
  then obtain op where "current_operation m = Some op" "op_id op = op_id op'" using same by blast
  with tokens show "tally (entries a (op_id op')) ts + tally (waiting a (op_id op')) ts +
      tally (sends a (op_id op')) es \<le> of_bool ((op_id op', a) \<in> cl)"
    by (auto simp: tokens_ok_def)
qed (use tokens in \<open>simp add: tokens_ok_def\<close>)

lemma system_step:
  assumes inv: "system_inv (y\<lparr>tasks := t # tasks y\<rparr>)"
    and adv: "advances ap ve lo (machine (runtime y)) (r, machine s')"
    and flags: "\<And>op. current_operation (machine (runtime y)) = Some op \<Longrightarrow>
      (ap \<longrightarrow> DisableIssued (op_id op) \<in> set (radio_log y @ es)) \<and>
      (ve \<longrightarrow> EnableVerified (op_id op) \<in> set (radio_log y @ es)) \<and>
      (lo \<longrightarrow> LossObserved (op_id op) \<in> set (radio_log y @ es))"
    and claims: "claimed s' = claimed (runtime y)"
    and ts: "\<And>t'. t' \<in> set ts \<Longrightarrow> follows t (set (radio_log y @ es)) (machine s') t'"
    and tokens: "tokens_ok (machine (runtime y)) (claimed (runtime y)) (tasks y @ ts) (radio_log y @ es)"
    and sent: "\<And>i. DisableIssued i \<in> set es \<or> EnableIssued i \<in> set es \<Longrightarrow> task_operation t = Some i"
    and log: "well_logged (radio_log y @ es)" "b = outstanding (radio_log y @ es)"
  shows "system_inv (y\<lparr>runtime := s', owned := b, tasks := tasks y @ ts, radio_log := radio_log y @ es\<rparr>)"
proof -
  let ?m = "machine (runtime y)" and ?m' = "machine s'" and ?L = "set (radio_log y @ es)"
  have inv_m: "rotation_inv ?m'" and nxt: "next_operation_id ?m' = next_operation_id ?m"
    using adv by (simp_all add: advances_def)
  have moved: "\<exists>op. current_operation ?m = Some op \<and> moves ap ve lo op op'"
    if "current_operation ?m' = Some op'" for op'
    using adv that by (auto simp: advances_def split: option.splits)
  have fact: "machine_fact ?L ?m'"
    using inv flags by (auto simp: machine_fact_def system_inv_defs moves_def dest!: moved)
  have facts: "\<forall>t' \<in> set (tasks y @ ts). task_fact ?L t'"
  proof
    fix t' assume "t' \<in> set (tasks y @ ts)"
    then consider "t' \<in> set (tasks y)" | "t' \<in> set ts" by auto
    then show "task_fact ?L t'"
    proof cases
      case 1
      with inv have "task_fact (set (radio_log y)) t'" by (simp add: system_inv_defs)
      then show ?thesis by (rule task_fact_mono) simp
    next
      case 2
      with ts [OF 2] machine_snapshot_fact [OF inv_m fact] show ?thesis
        by (auto simp: follows_def snapshot_task)
    qed
  qed
  have "tokens_ok ?m' (claimed s') (tasks y @ ts) (radio_log y @ es)"
    unfolding claims using tokens by (rule tokens_ok_moved) (auto simp: moves_def dest!: moved)
  moreover have "preparing_ok ?m' (claimed s') (tasks y @ ts)"
  proof -
    have "snap_phase snap = Preparing"
      if op: "current_operation ?m' = Some op" "phase op = Preparing" and t': "t' \<in> set (tasks y @ ts)"
        "task_snapshot t' = Some snap" "snap_operation_id snap = Some (op_id op)" for op t' snap
    proof (cases "snap = snapshot ?m'")
      case True
      with op show ?thesis by (simp add: snapshot_def operation_snapshot_def)
    next
      case False
      obtain op0 where op0: "current_operation ?m = Some op0" "phase op0 = Preparing" "op_id op0 = op_id op"
        using moved [OF op(1)] op(2) by (auto simp: moves_def)
      have "t' \<in> set (tasks y) \<or> task_snapshot t = Some snap"
        using t' ts [of t'] False by (auto simp: follows_def)
      with inv op0 t' show ?thesis by (auto simp: system_inv_defs preparing_ok_def)
    qed
    moreover have "(op_id op, DisableData) \<notin> claimed s' \<and> (op_id op, EnableData) \<notin> claimed s'"
      if "current_operation ?m' = Some op" "phase op = Preparing" for op
      using moved [OF that(1)] that inv claims by (auto simp: system_inv_defs preparing_ok_def moves_def)
    ultimately show ?thesis by (auto simp: preparing_ok_def)
  qed
  moreover have "ids_ok ?m' (tasks y @ ts) (radio_log y @ es)"
    unfolding ids_ok_def
  proof (intro conjI ballI allI impI)
    fix t' i assume t': "t' \<in> set (tasks y @ ts)" "task_operation t' = Some i"
    then have "t' \<in> set (tasks y) \<or> task_snapshot t' = Some (snapshot ?m') \<or> task_operation t = Some i"
      using ts [of t'] by (auto simp: follows_def)
    then show "i < next_operation_id ?m'"
      using inv t'(2) snapshot_id_less [OF inv_m] by (auto simp: system_inv_defs ids_ok_def nxt snapshot_task)
  next
    fix i assume "DisableIssued i \<in> ?L \<or> EnableIssued i \<in> ?L"
    with inv sent [of i] show "i < next_operation_id ?m'"
      by (auto simp: system_inv_defs ids_ok_def nxt)
  qed
  ultimately show ?thesis
    using inv_m fact facts log by (simp add: system_inv_defs)
qed

lemma tokens_frame:
  assumes "system_inv (y\<lparr>tasks := t # tasks y\<rparr>)"
    and "\<And>a i. tally (entries a i) ts \<le> entries a i t"
    and "\<And>a i. tally (waiting a i) ts + tally (sends a i) es \<le> waiting a i t"
  shows "tokens_ok (machine (runtime y)) (claimed (runtime y)) (tasks y @ ts) (radio_log y @ es)"
proof -
  have old: "tokens_ok (machine (runtime y)) (claimed (runtime y)) (t # tasks y) (radio_log y)"
    using assms(1) by (simp add: system_inv_defs)
  show ?thesis
    unfolding tokens_ok_def
  proof (intro conjI allI impI)
    fix a i
    have "waiting a i t + tally (waiting a i) (tasks y) + tally (sends a i) (radio_log y) \<le> 1"
      using old by (simp add: tokens_ok_def)
    with assms(3) [of a i] show "tally (waiting a i) (tasks y @ ts) + tally (sends a i) (radio_log y @ es) \<le> 1"
      by simp
  next
    fix op a assume "current_operation (machine (runtime y)) = Some op"
    with old have "entries a (op_id op) t + tally (entries a (op_id op)) (tasks y) +
        (waiting a (op_id op) t + tally (waiting a (op_id op)) (tasks y)) + tally (sends a (op_id op)) (radio_log y)
        \<le> of_bool ((op_id op, a) \<in> claimed (runtime y))"
      by (simp add: tokens_ok_def)
    with assms(2,3) [of a "op_id op"]
    show "tally (entries a (op_id op)) (tasks y @ ts) + tally (waiting a (op_id op)) (tasks y @ ts) +
        tally (sends a (op_id op)) (radio_log y @ es) \<le> of_bool ((op_id op, a) \<in> claimed (runtime y))"
      by simp
  qed
qed

lemma advances_refl: "rotation_inv m \<Longrightarrow> fst t = Inl e \<Longrightarrow> snd t = m \<Longrightarrow> advances a v l m t"
  by (auto simp: advances_def split: option.splits)

lemma plain_sends: "list_all plain es \<Longrightarrow> tally (sends a i) es = 0"
  by (auto simp: list_all_iff plain_def sends_def)

lemma runtime_step:
  assumes inv: "system_inv (y\<lparr>tasks := t # tasks y\<rparr>)"
    and adv: "advances ap ve lo (machine (runtime y)) (r, machine s')"
    and flags: "\<And>op. current_operation (machine (runtime y)) = Some op \<Longrightarrow>
      (ap \<longrightarrow> DisableIssued (op_id op) \<in> set (radio_log y @ es)) \<and>
      (ve \<longrightarrow> EnableVerified (op_id op) \<in> set (radio_log y @ es)) \<and>
      (lo \<longrightarrow> LossObserved (op_id op) \<in> set (radio_log y @ es))"
    and claims: "claimed s' = claimed (runtime y)"
    and ts: "\<And>t'. t' \<in> set ts \<Longrightarrow> follows t (set (radio_log y @ es)) (machine s') t'"
    and weights: "\<And>a i. tally (entries a i) ts \<le> entries a i t" "\<And>a i. tally (waiting a i) ts \<le> waiting a i t"
    and es: "list_all plain es"
  shows "system_inv (on_runtime y (s', ts, es))"
proof -
  have log: "well_logged (radio_log y @ es)" "owned y = outstanding (radio_log y @ es)"
    using inv plain_logged [OF es] by (simp_all add: system_inv_defs)
  have "system_inv (y\<lparr>runtime := s', owned := owned y, tasks := tasks y @ ts, radio_log := radio_log y @ es\<rparr>)"
    using inv adv flags claims ts _ _ log
  proof (rule system_step)
    show "tokens_ok (machine (runtime y)) (claimed (runtime y)) (tasks y @ ts) (radio_log y @ es)"
      using inv weights(1) by (rule tokens_frame) (simp add: plain_sends [OF es] weights(2))
    show "\<And>i. DisableIssued i \<in> set es \<or> EnableIssued i \<in> set es \<Longrightarrow> task_operation t = Some i"
      using es by (auto simp: list_all_iff plain_def)
  qed
  then show ?thesis by (simp add: on_runtime_def)
qed

lemma bit_step:
  assumes inv: "system_inv (y\<lparr>tasks := t # tasks y\<rparr>)"
    and ts: "\<And>t'. t' \<in> set ts \<Longrightarrow> follows t (set (radio_log y @ es)) (machine (runtime y)) t'"
    and weights: "\<And>a i. tally (entries a i) ts \<le> entries a i t"
      "\<And>a i. tally (waiting a i) ts + tally (sends a i) es \<le> waiting a i t"
    and sent: "\<And>i. DisableIssued i \<in> set es \<or> EnableIssued i \<in> set es \<Longrightarrow> task_operation t = Some i"
    and log: "well_logged (radio_log y @ es)" "b = outstanding (radio_log y @ es)"
  shows "system_inv (on_bit y (b, ts, es))"
proof -
  have "system_inv (y\<lparr>runtime := runtime y, owned := b, tasks := tasks y @ ts, radio_log := radio_log y @ es\<rparr>)"
    using inv _ _ refl ts _ sent log
  proof (rule system_step)
    show "advances False False False (machine (runtime y)) (Inl StaleOperation, machine (runtime y))"
      using inv by (intro advances_refl) (simp_all add: system_inv_defs)
    show "tokens_ok (machine (runtime y)) (claimed (runtime y)) (tasks y @ ts) (radio_log y @ es)"
      using inv weights by (rule tokens_frame)
  qed simp
  then show ?thesis by (simp add: on_bit_def)
qed

subsection \<open>Steps that leave only bystanders\<close>

text \<open>A task that neither holds a snapshot nor can send a main-path command, and needs no fact.\<close>

definition bystander :: "RotationTask \<Rightarrow> bool" where
  "bystander t \<longleftrightarrow> task_snapshot t = None \<and> task_operation t = None \<and> (\<forall>L. task_fact L t)"

lemma bystander_simps [simp]:
  "bystander (DeadlineTimer i)" "bystander (Failing i f)" "bystander (BeforeIpAt i p)" "bystander (AfterIpAt i q)"
  "bystander (ShutdownDrain j b)" "bystander (RestoreAt i x) \<longleftrightarrow> x \<noteq> RestoreSubmit"
  by (auto simp: bystander_def)

lemma bystander_weights: "task_operation t = None \<Longrightarrow> entries a i t = 0 \<and> waiting a i t = 0"
  by (cases t; cases a) auto

lemma bystander_tally:
  "list_all bystander ts \<Longrightarrow> tally (entries a i) ts = 0 \<and> tally (waiting a i) ts = 0"
  by (auto simp: list_all_iff bystander_def bystander_weights)

lemma snapshot_weights: "entries a i (Transitioned snap) = 0" "waiting a i (Transitioned snap) = 0"
  "entries a i (ActivateSpawn j snap) = 0" "waiting a i (ActivateSpawn j snap) = 0"
  "entries a i (ActivateSchedule j snap) = 0" "waiting a i (ActivateSchedule j snap) = 0"
  by (cases a; simp)+

lemma bystanders_step:
  assumes "system_inv (y\<lparr>tasks := t # tasks y\<rparr>)" "list_all bystander ts"
    and "machine s' = machine (runtime y)" "claimed s' = claimed (runtime y)"
  shows "system_inv (on_runtime y (s', ts, []))"
proof (rule runtime_step [OF assms(1)])
  show "advances False False False (machine (runtime y)) (Inl StaleOperation, machine s')"
    using assms(1,3) by (intro advances_refl) (simp_all add: system_inv_defs)
qed (use assms in \<open>auto simp: bystander_tally [OF assms(2)] follows_def list_all_iff bystander_def\<close>)

lemma bystanders_bit_step:
  assumes "system_inv (y\<lparr>tasks := t # tasks y\<rparr>)" "list_all bystander ts"
  shows "system_inv (on_bit y (owned y, ts, []))"
  by (rule bit_step [OF assms(1)])
     (use assms in \<open>auto simp: bystander_tally [OF assms(2)] follows_def list_all_iff bystander_def system_inv_defs\<close>)

lemma transitioned_step:
  assumes inv: "system_inv (y\<lparr>tasks := t # tasks y\<rparr>)"
    and adv: "advances ap ve lo (machine (runtime y)) tr"
    and flags: "\<And>op. current_operation (machine (runtime y)) = Some op \<Longrightarrow>
      (ap \<longrightarrow> DisableIssued (op_id op) \<in> set (radio_log y @ es)) \<and>
      (ve \<longrightarrow> EnableVerified (op_id op) \<in> set (radio_log y @ es)) \<and>
      (lo \<longrightarrow> LossObserved (op_id op) \<in> set (radio_log y @ es))"
    and es: "list_all plain es"
  shows "system_inv (on_runtime y (log_also es (transitioned (runtime y) tr)))"
    and "list_all bystander ts \<Longrightarrow>
      system_inv (on_runtime y ((runtime y)\<lparr>machine := snd tr\<rparr>, ts, es))"
proof -
  have adv': "advances ap ve lo (machine (runtime y)) (fst tr, machine ((runtime y)\<lparr>machine := snd tr\<rparr>))"
    using adv by simp
  have silent: "system_inv (on_runtime y ((runtime y)\<lparr>machine := snd tr\<rparr>, ts, es))" if "list_all bystander ts" for ts
    by (rule runtime_step [OF inv adv' flags])
       (use es that in \<open>auto simp: bystander_tally [OF that] follows_def list_all_iff bystander_def\<close>)
  then show "system_inv (on_runtime y ((runtime y)\<lparr>machine := snd tr\<rparr>, ts, es))" if "list_all bystander ts"
    using that .
  show "system_inv (on_runtime y (log_also es (transitioned (runtime y) tr)))"
  proof (cases "fst tr")
    case (Inl e)
    with silent [of "[]"] show ?thesis by (simp add: transitioned_def log_also_def case_prod_beta)
  next
    case (Inr snap)
    with adv have "snap = snapshot (snd tr)" by (simp add: advances_def)
    then have "system_inv (on_runtime y ((runtime y)\<lparr>machine := snd tr\<rparr>, [Transitioned snap], es))"
      using es by (intro runtime_step [OF inv adv' flags]) (simp_all add: follows_def snapshot_weights)
    with Inr show ?thesis by (simp add: transitioned_def log_also_def case_prod_beta)
  qed
qed

lemma without_task: "system_inv (y\<lparr>tasks := t # tasks y\<rparr>) \<Longrightarrow> system_inv y"
  using bystanders_step [where y = y and t = t and ts = "[]" and s' = "runtime y"] by (simp add: on_runtime_def)

lemma with_bystander: "system_inv y \<Longrightarrow> bystander t \<Longrightarrow> system_inv (y\<lparr>tasks := t # tasks y\<rparr>)"
  by (auto simp: system_inv_defs tokens_ok_def preparing_ok_def ids_ok_def bystander_def bystander_weights)

subsection \<open>Claims\<close>

lemma claim_step:
  assumes inv: "system_inv (y\<lparr>tasks := t # tasks y\<rparr>)" and t: "task_snapshot t = Some snap"
    and claim: "snap_operation_id snap = Some i" "action_of snap = Some a" "(i, a) \<notin> claimed (runtime y)"
    and ts: "ts = [] \<or> ts = [task_of a i]"
    and s': "machine s' = machine (runtime y)" "claimed s' = insert (i, a) (claimed (runtime y))"
  shows "system_inv (on_runtime y (s', ts, []))"
proof -
  let ?m = "machine (runtime y)" and ?cl = "claimed (runtime y)"
  have old: "tokens_ok ?m ?cl (t # tasks y) (radio_log y)" "preparing_ok ?m ?cl (t # tasks y)"
    "ids_ok ?m (t # tasks y) (radio_log y)" "snapshot_fact (set (radio_log y)) snap"
    using inv t snapshot_task [OF t] by (simp_all add: system_inv_defs)
  have weights: "waiting b j (task_of a i) = 0" "entries b j (task_of a i) \<le> of_bool (b = a \<and> j = i)" for b j
    by (cases a; cases b; simp)+
  have "tokens_ok ?m (insert (i, a) ?cl) (tasks y @ ts) (radio_log y)"
    unfolding tokens_ok_def
  proof (intro conjI allI impI)
    fix b j show "tally (waiting b j) (tasks y @ ts) + tally (sends b j) (radio_log y) \<le> 1"
      using old(1) ts by (auto simp: tokens_ok_def weights dest: spec2 [where x = b and y = j])
  next
    fix op b assume op: "current_operation ?m = Some op"
    have "entries b (op_id op) t + tally (entries b (op_id op)) (tasks y) + (waiting b (op_id op) t +
        tally (waiting b (op_id op)) (tasks y)) + tally (sends b (op_id op)) (radio_log y)
        \<le> of_bool ((op_id op, b) \<in> ?cl)"
      using old(1) op by (simp add: tokens_ok_def)
    with claim(3) ts weights [of b "op_id op"]
    show "tally (entries b (op_id op)) (tasks y @ ts) + tally (waiting b (op_id op)) (tasks y @ ts) +
        tally (sends b (op_id op)) (radio_log y) \<le> of_bool ((op_id op, b) \<in> insert (i, a) ?cl)"
      by (cases "b = a \<and> op_id op = i") (auto simp del: sum_list_eq_0_iff)
  qed
  moreover have "preparing_ok ?m (insert (i, a) ?cl) (tasks y @ ts)"
  proof -
    have "a = BeforeIp" if "current_operation ?m = Some op" "phase op = Preparing" "op_id op = i" for op
      using old(2) that t claim(1,2) by (auto simp: preparing_ok_def action_of_def)
    moreover have "task_snapshot (task_of a i) = None" by (cases a) simp_all
    ultimately show ?thesis using old(2) ts unfolding preparing_ok_def by auto
  qed
  moreover have "ids_ok ?m (tasks y @ ts) (radio_log y)"
  proof -
    have "i < next_operation_id ?m" using old(3) claim(1) snapshot_task [OF t] by (simp add: ids_ok_def)
    moreover have "task_operation (task_of a i) = None \<or> task_operation (task_of a i) = Some i" by (cases a) simp_all
    ultimately show ?thesis using old(3) ts by (auto simp: ids_ok_def)
  qed
  moreover have "task_fact (set (radio_log y)) (task_of a i)"
    using old(4) claim(1,2) by (cases a) (auto simp: snapshot_fact_def action_of_def split: if_splits)
  ultimately show ?thesis
    using inv ts s' by (auto simp: system_inv_defs on_runtime_def)
qed

lemma schedule_step:
  assumes inv: "system_inv (y\<lparr>tasks := t # tasks y\<rparr>)" and t: "task_snapshot t = Some snap"
  shows "system_inv (on_runtime y (snd (schedule_for (runtime y) snap b)))"
proof -
  have same: "system_inv (on_runtime y (runtime y, [], []))" using inv by (rule bystanders_step) simp_all
  show ?thesis
  proof (cases "snap_operation_id snap")
    case None
    with same show ?thesis by (simp add: schedule_for_def)
  next
    case (Some i)
    show ?thesis
    proof (cases "action_of snap")
      case None
      with same Some show ?thesis by (simp add: schedule_for_def)
    next
      case a: (Some a)
      show ?thesis
      proof (cases "closed (runtime y) \<or> (i, a) \<in> claimed (runtime y)")
        case True
        with same Some a show ?thesis by (auto simp: schedule_for_def)
      next
        case False
        with Some a show ?thesis
          by (auto simp: schedule_for_def Let_def intro!: claim_step [OF inv t Some a])
      qed
    qed
  qed
qed

lemma fail_prepared_step:
  assumes "system_inv y"
  shows "system_inv (y\<lparr>runtime := snd (fail_prepared_before_mutation (runtime y) i)\<rparr>)"
proof -
  let ?m = "machine (runtime y)"
  have inv: "system_inv (y\<lparr>tasks := DeadlineTimer 0 # tasks y\<rparr>)" using assms by (intro with_bystander) simp_all
  show ?thesis
  proof (cases "snap_operation_id (snapshot ?m) = Some i \<and> snap_phase (snapshot ?m) = Preparing")
    case False
    with assms show ?thesis by (auto simp: fail_prepared_before_mutation_def Let_def)
  next
    case True
    then obtain op where op: "current_operation ?m = Some op" "phase op = Preparing"
      by (auto simp: snapshot_def operation_snapshot_def idle_def split: option.splits)
    let ?m' = "snd (fail ?m i RotationFailureStateUnavailable)"
    have adv: "advances False False False ?m (fail ?m i RotationFailureStateUnavailable)"
      using assms by (intro fail_advances) (simp add: system_inv_defs)
    have step: "system_inv (on_runtime y ((runtime y)\<lparr>machine := ?m'\<rparr>, [], []))"
      using transitioned_step(2) [OF inv adv, of "[]" "[]"] by simp
    have zero: "tally (entries a (op_id op)) (tasks y) + tally (waiting a (op_id op)) (tasks y) +
        tally (sends a (op_id op)) (radio_log y) = 0" for a
    proof -
      have "(op_id op, DisableData) \<notin> claimed (runtime y)" "(op_id op, EnableData) \<notin> claimed (runtime y)"
        using assms op by (auto simp: system_inv_defs preparing_ok_def)
      moreover have "tally (entries a (op_id op)) (tasks y) + tally (waiting a (op_id op)) (tasks y) +
        tally (sends a (op_id op)) (radio_log y) \<le> of_bool ((op_id op, a) \<in> claimed (runtime y))"
        using assms op by (simp add: system_inv_defs tokens_ok_def)
      ultimately show ?thesis
        by (cases a) (simp_all add: sends_def)
    qed
    obtain op' where op': "current_operation ?m' = Some op'" "op_id op' = op_id op"
      using adv op by (auto simp: advances_def moves_def)
    have "system_inv (y\<lparr>runtime := (runtime y)\<lparr>machine := ?m', deadline := None, credential_guard := None,
        claimed := {}, cancel := False\<rparr>\<rparr>)"
      using step op' zero
      by (simp add: system_inv_defs on_runtime_def tokens_ok_def preparing_ok_def)
    moreover have "system_inv (y\<lparr>runtime := (runtime y)\<lparr>machine := ?m'\<rparr>\<rparr>)"
      using step by (simp add: on_runtime_def)
    ultimately show ?thesis
      using True by (auto simp: fail_prepared_before_mutation_def Let_def split: prod.splits sum.splits)
  qed
qed

lemma prepare_step:
  assumes "system_inv y"
  shows "system_inv (y\<lparr>runtime := snd (prepare (runtime y) a p g)\<rparr>)"
proof (cases "fst (prepare (runtime y) a p g)")
  case (Inl e)
  then have "snd (prepare (runtime y) a p g) = runtime y"
    by (auto simp: prepare_def start_def Let_def split: option.splits if_splits prod.splits sum.splits)
  with assms show ?thesis by simp
next
  case (Inr i)
  let ?m = "machine (runtime y)" and ?m' = "machine (snd (prepare (runtime y) a p g))"
  define before where "before = the (admitted_generation a)"
  have m': "?m' = snd (start ?m before)" "fst (start ?m before) = Inr i"
      "claimed (snd (prepare (runtime y) a p g)) = {}"
    using Inr unfolding before_def
    by (auto simp: prepare_def split: option.splits if_splits prod.splits sum.splits)
  then have i: "i = next_operation_id ?m" "current_operation ?m' = Some (fresh_operation i before)"
    "next_operation_id ?m < next_operation_id ?m'"
    by (auto simp: start_def Let_def checked_add_Some_less split: if_splits option.splits)
  have inv: "rotation_inv ?m'" using assms start_inv [of ?m before] m' by (simp add: system_inv_defs)
  have ids: "\<forall>t \<in> set (tasks y). \<forall>j. task_operation t = Some j \<longrightarrow> j < i"
    "\<forall>j. DisableIssued j \<in> set (radio_log y) \<or> EnableIssued j \<in> set (radio_log y) \<longrightarrow> j < i"
    using assms i(1) by (simp_all add: system_inv_defs ids_ok_def)
  have none: "entries b i t = 0 \<and> waiting b i t = 0" if "t \<in> set (tasks y)" for b t
  proof -
    have "task_operation t \<noteq> Some i" using ids(1) that by auto
    then show ?thesis by (cases t; cases b) auto
  qed
  have "tally (sends b i) (radio_log y) = 0" for b
    using ids(2) by (auto simp: sends_def)
  with none have zero: "tally (entries b i) (tasks y) + tally (waiting b i) (tasks y) + tally (sends b i) (radio_log y) = 0" for b
    by simp
  have "task_operation t \<noteq> Some i" if "t \<in> set (tasks y)" for t using ids(1) that by auto
  then have "snap_operation_id snap \<noteq> Some i" if "t \<in> set (tasks y)" "task_snapshot t = Some snap" for t snap
    using that snapshot_task by metis
  then have "preparing_ok ?m' {} (tasks y)" using i(2) by (auto simp: preparing_ok_def fresh_operation_def)
  moreover have "tokens_ok ?m' {} (tasks y) (radio_log y)"
    using assms i(2) zero by (simp add: tokens_ok_def system_inv_defs fresh_operation_def)
  moreover have "ids_ok ?m' (tasks y) (radio_log y)"
    using ids i(1,3) unfolding ids_ok_def by (meson order.strict_trans)
  moreover have "machine_fact (set (radio_log y)) ?m'"
    using i(2) by (simp add: machine_fact_def fresh_operation_def applied_phases_def verified_phases_def)
  ultimately show ?thesis using assms inv m'(3) by (simp add: system_inv_defs)
qed

lemma enter_step:
  assumes inv: "system_inv (y\<lparr>tasks := t # tasks y\<rparr>)"
    and op: "current_operation (machine (runtime y)) = Some op" "op_id op = i"
    and t': "\<And>a j. waiting a j t' \<le> entries a j t" "\<And>a j. entries a j t' = 0" "\<And>a j. j \<noteq> i \<Longrightarrow> waiting a j t' = 0"
      "follows t (set (radio_log y)) (machine (runtime y)) t'"
  shows "system_inv (on_runtime y (runtime y, [t'], []))"
proof -
  let ?m = "machine (runtime y)" and ?cl = "claimed (runtime y)"
  have old: "tokens_ok ?m ?cl (t # tasks y) (radio_log y)" using inv by (simp add: system_inv_defs)
  have now: "entries a i t + tally (entries a i) (tasks y) + (waiting a i t + tally (waiting a i) (tasks y)) +
      tally (sends a i) (radio_log y) \<le> of_bool ((i, a) \<in> ?cl)" for a
    using old op by (auto simp: tokens_ok_def)
  have one: "of_bool ((i, a) \<in> ?cl) \<le> (1 :: nat)" for a by simp
  have tokens: "tokens_ok ?m ?cl (tasks y @ [t']) (radio_log y @ [])"
    unfolding tokens_ok_def
  proof (intro conjI allI impI)
    fix a j
    have "tally (waiting a j) (tasks y) + tally (sends a j) (radio_log y) \<le> 1"
      using old by (auto simp: tokens_ok_def dest: spec2 [where x = a and y = j])
    then show "tally (waiting a j) (tasks y @ [t']) + tally (sends a j) (radio_log y @ []) \<le> 1"
      using now [of a] one [of a] t'(1) [of a i] t'(3) [of j a]
      by (cases "j = i") (simp_all del: sum_list_eq_0_iff of_bool_less_eq_one)
  next
    fix op' a assume "current_operation ?m = Some op'"
    with op now [of a] t'(1,2) [of a i]
    show "tally (entries a (op_id op')) (tasks y @ [t']) + tally (waiting a (op_id op')) (tasks y @ [t']) +
        tally (sends a (op_id op')) (radio_log y @ []) \<le> of_bool ((op_id op', a) \<in> ?cl)"
      by (simp del: sum_list_eq_0_iff)
  qed
  have adv: "advances False False False ?m (Inl StaleOperation, ?m)"
    using inv by (intro advances_refl) (simp_all add: system_inv_defs)
  have "system_inv (y\<lparr>runtime := runtime y, owned := owned y, tasks := tasks y @ [t'], radio_log := radio_log y @ []\<rparr>)"
    using inv t'(4) by (intro system_step [OF inv adv _ refl _ tokens]) (simp_all add: system_inv_defs)
  then show ?thesis by (simp add: on_runtime_def)
qed

lemma current_operation_id:
  "snap_operation_id (snapshot m) = Some i \<longleftrightarrow> (\<exists>op. current_operation m = Some op \<and> op_id op = i)"
  by (auto simp: snapshot_def operation_snapshot_def idle_def split: option.splits)

lemma operation_current_id:
  "operation_current s i \<Longrightarrow> current_operation (machine s) = Some op \<Longrightarrow> op_id op = i"
  by (auto simp: operation_current_def current_operation_id)

lemma deadline_current:
  "operation_deadline s i = Some d \<Longrightarrow> \<exists>op. current_operation (machine s) = Some op \<and> op_id op = i"
  by (auto simp: operation_deadline_def current_operation_id split: if_splits)

lemma disable_task_step:
  "system_inv (y\<lparr>tasks := DisableAt i DisableEntry # tasks y\<rparr>) \<Longrightarrow> system_inv (on_runtime y (disable_task (runtime y) i))"
proof (cases "operation_deadline (runtime y) i")
  case None
  assume inv: "system_inv (y\<lparr>tasks := DisableAt i DisableEntry # tasks y\<rparr>)"
  with None show ?thesis by (auto simp: disable_task_def intro: bystanders_step [OF inv])
next
  case (Some d)
  assume inv: "system_inv (y\<lparr>tasks := DisableAt i DisableEntry # tasks y\<rparr>)"
  obtain op where op: "current_operation (machine (runtime y)) = Some op" "op_id op = i"
    using deadline_current [OF Some] by blast
  have "system_inv (on_runtime y (runtime y, [DisableAt i DisableObserve], []))"
    using inv op
  proof (rule enter_step)
    fix a j
    show "waiting a j (DisableAt i DisableObserve) \<le> entries a j (DisableAt i DisableEntry)"
      "entries a j (DisableAt i DisableObserve) = 0"
      "j \<noteq> i \<Longrightarrow> waiting a j (DisableAt i DisableObserve) = 0"
      by (cases a; simp)+
  qed (simp add: follows_def)
  with Some show ?thesis by (simp add: disable_task_def)
qed

lemma enable_task_step:
  "system_inv (y\<lparr>tasks := EnableAt i EnableEntry # tasks y\<rparr>) \<Longrightarrow> system_inv (on_runtime y (enable_task (runtime y) i))"
proof (cases "operation_deadline (runtime y) i")
  case None
  assume inv: "system_inv (y\<lparr>tasks := EnableAt i EnableEntry # tasks y\<rparr>)"
  with None show ?thesis by (auto simp: enable_task_def intro: bystanders_step [OF inv])
next
  case (Some d)
  assume inv: "system_inv (y\<lparr>tasks := EnableAt i EnableEntry # tasks y\<rparr>)"
  obtain op where op: "current_operation (machine (runtime y)) = Some op" "op_id op = i"
    using deadline_current [OF Some] by blast
  have "system_inv (on_runtime y (runtime y, [EnableAt i EnableSubmit], []))"
    using inv op
  proof (rule enter_step)
    fix a j
    show "waiting a j (EnableAt i EnableSubmit) \<le> entries a j (EnableAt i EnableEntry)"
      "entries a j (EnableAt i EnableSubmit) = 0"
      "j \<noteq> i \<Longrightarrow> waiting a j (EnableAt i EnableSubmit) = 0"
      by (cases a; simp)+
  qed (use inv in \<open>simp add: follows_def system_inv_defs\<close>)
  with Some show ?thesis by (simp add: enable_task_def)
qed

subsection \<open>The main path\<close>

lemma disable_weights: "entries a j (DisableAt i p) = of_bool (a = DisableData \<and> j = i \<and> p = DisableEntry)"
  "waiting a j (DisableAt i p) = of_bool (a = DisableData \<and> j = i \<and> disable_waits p)"
  by (cases a; auto)+

lemma enable_weights: "entries a j (EnableAt i q) = of_bool (a = EnableData \<and> j = i \<and> q = EnableEntry)"
  "waiting a j (EnableAt i q) = of_bool (a = EnableData \<and> j = i \<and> q = EnableSubmit)"
  by (cases a; auto)+

text \<open>A step that leaves the machine alone and may log plain facts.\<close>

lemma quiet_step:
  assumes "system_inv (y\<lparr>tasks := t # tasks y\<rparr>)"
    and "\<And>t'. t' \<in> set ts \<Longrightarrow> follows t (set (radio_log y @ es)) (machine (runtime y)) t'"
    and "\<And>a i. tally (entries a i) ts \<le> entries a i t" "\<And>a i. tally (waiting a i) ts \<le> waiting a i t"
    and "list_all plain es"
  shows "system_inv (on_runtime y (runtime y, ts, es))"
proof (rule runtime_step [OF assms(1) _ _ refl assms(2-5)])
  show "advances False False False (machine (runtime y)) (Inl StaleOperation, machine (runtime y))"
    using assms(1) by (intro advances_refl) (simp_all add: system_inv_defs)
qed simp_all

lemma disable_observed_step:
  assumes "system_inv (y\<lparr>tasks := DisableAt i DisableObserve # tasks y\<rparr>)"
  shows "system_inv (on_runtime y (disable_observed (runtime y) i a))"
proof -
  have "system_inv (on_runtime y (runtime y, [Failing i f], []))" for f
    by (rule bystanders_step [OF assms]) simp_all
  moreover have "system_inv (on_runtime y (runtime y, [DisableAt i DisableStart], [PreconditionEnabled i]))"
    by (rule quiet_step [OF assms]) (simp_all add: follows_def disable_weights)
  ultimately show ?thesis by (simp add: disable_observed_def split: option.splits)
qed

lemma disable_start_step:
  assumes inv: "system_inv (y\<lparr>tasks := DisableAt i DisableStart # tasks y\<rparr>)"
  shows "system_inv (on_runtime y (disable_start (runtime y) i))"
proof -
  let ?tr = "data_disable_mutation_started (machine (runtime y)) i"
  have adv: "advances False False False (machine (runtime y)) ?tr"
    using inv by (intro disable_started_advances) (simp add: system_inv_defs)
  have "system_inv (on_runtime y (runtime y, [], []))" by (rule bystanders_step [OF inv]) simp_all
  moreover have "system_inv (on_runtime y ((runtime y)\<lparr>machine := snd ?tr\<rparr>, [], []))"
    by (rule transitioned_step(2) [OF inv adv]) simp_all
  moreover have "system_inv (on_runtime y ((runtime y)\<lparr>machine := snd ?tr\<rparr>,
      [Transitioned snap, DisableAt i DisableCheck], [RestoreRecorded i]))" if "fst ?tr = Inr snap" for snap
  proof (rule runtime_step [OF inv])
    show "advances False False False (machine (runtime y)) (fst ?tr, machine ((runtime y)\<lparr>machine := snd ?tr\<rparr>))"
      using adv by simp
    show "follows (DisableAt i DisableStart) (set (radio_log y @ [RestoreRecorded i]))
        (machine ((runtime y)\<lparr>machine := snd ?tr\<rparr>)) t'"
      if "t' \<in> set [Transitioned snap, DisableAt i DisableCheck]" for t'
      using that adv \<open>fst ?tr = Inr snap\<close> inv by (auto simp: follows_def advances_def system_inv_defs)
  qed (simp_all add: snapshot_weights disable_weights)
  ultimately show ?thesis by (simp add: disable_start_def case_prod_beta split: sum.splits)
qed

lemma disable_check_step:
  assumes "system_inv (y\<lparr>tasks := DisableAt i DisableCheck # tasks y\<rparr>)"
  shows "system_inv (on_runtime y (disable_check (runtime y) i))"
proof -
  have "system_inv (on_runtime y (runtime y, [], []))" by (rule bystanders_step [OF assms]) simp_all
  moreover have "system_inv (on_runtime y (runtime y, [DisableAt i DisableSubmit], []))"
    using assms by (intro quiet_step [OF assms]) (simp_all add: follows_def disable_weights system_inv_defs)
  ultimately show ?thesis by (simp add: disable_check_def)
qed

lemma disable_submit_step:
  assumes inv: "system_inv (y\<lparr>tasks := DisableAt i DisableSubmit # tasks y\<rparr>)"
  shows "system_inv (on_bit y (disable_submit (owned y) i))"
proof (cases "owned y")
  case True
  have "system_inv (on_bit y (owned y, [DisableAt i (DisableReport Uncertain)], []))"
    using inv by (intro bit_step [OF inv]) (simp_all add: follows_def disable_weights system_inv_defs)
  with True show ?thesis
    by (simp add: disable_submit_def disable_begin_def disable_report_task_def effect_outcome_def)
next
  case False
  have "waiting DisableData i (DisableAt i DisableSubmit) + tally (waiting DisableData i) (tasks y) +
      tally (sends DisableData i) (radio_log y) \<le> 1"
    using inv by (auto simp: system_inv_defs tokens_ok_def dest: spec2 [where x = DisableData and y = i])
  then have "tally (sends DisableData i) (radio_log y) = 0"
    by (simp del: sum_list_eq_0_iff)
  then have "DisableIssued i \<notin> set (radio_log y)" unfolding sends_none .
  moreover have "PreconditionEnabled i \<in> set (radio_log y)" "RestoreRecorded i \<in> set (radio_log y)"
    "well_logged (radio_log y)" "\<not> outstanding (radio_log y)"
    using inv False by (simp_all add: system_inv_defs)
  ultimately have "well_logged (radio_log y @ [DisableIssued i])" by (simp add: well_logged_snoc)
  then have "system_inv (on_bit y (True, [DisableAt i DisableAwait], [DisableIssued i]))"
    by (intro bit_step [OF inv]) (auto simp: follows_def disable_weights sends_def outstanding_append)
  with False show ?thesis by (simp add: disable_submit_def disable_begin_def)
qed

lemma released_step:
  assumes inv: "system_inv (y\<lparr>tasks := t # tasks y\<rparr>)" and ts: "follows t (set (radio_log y)) (machine (runtime y)) t'"
    and weights: "\<And>a i. entries a i t' = 0" "\<And>a i. waiting a i t' = 0"
  shows "system_inv (on_bit y (False, [t'], [Released]))"
proof (rule bit_step [OF inv])
  show "follows t (set (radio_log y @ [Released])) (machine (runtime y)) t''" if "t'' \<in> set [t']" for t''
    using ts that task_fact_mono [of "set (radio_log y)" t' "set (radio_log y @ [Released])"]
    by (auto simp: follows_def)
  show "well_logged (radio_log y @ [Released])" using inv by (simp add: well_logged_snoc system_inv_defs)
qed (simp_all add: weights sends_def outstanding_append)

lemma report_weights [simp]:
  "entries a j (disable_report_task i r) = 0" "waiting a j (disable_report_task i r) = 0"
  "entries a j (enable_report_task i r) = 0" "waiting a j (enable_report_task i r) = 0"
  by (cases a; simp add: disable_report_task_def enable_report_task_def split: option.split)+

lemma disable_answered_step:
  assumes inv: "system_inv (y\<lparr>tasks := DisableAt i DisableAwait # tasks y\<rparr>)"
  shows "system_inv (on_bit y (disable_answered (owned y) i a))"
proof -
  have "follows (DisableAt i DisableAwait) (set (radio_log y)) (machine (runtime y)) (disable_report_task i r)" for r
    using inv by (simp add: follows_def disable_report_task_def system_inv_defs split: option.split)
  moreover from this have "system_inv (on_bit y (owned y, [disable_report_task i r], []))" for r
    using inv by (intro bit_step [OF inv]) (simp_all add: system_inv_defs)
  moreover have "system_inv (on_bit y (owned y, [DisableAt i (DisableReport Uncertain)], []))"
    using inv by (intro bit_step [OF inv]) (simp_all add: follows_def disable_weights system_inv_defs)
  ultimately show ?thesis
    using released_step [OF inv, of "disable_report_task i (Inl MutationRejected)"]
    by (auto simp: disable_answered_def disable_end_def Let_def split: option.splits sum.splits)
qed

lemma disable_report_step:
  assumes inv: "system_inv (y\<lparr>tasks := DisableAt i (DisableReport r) # tasks y\<rparr>)"
  shows "system_inv (on_runtime y (disable_report (runtime y) i r))"
proof (cases "operation_current (runtime y) i")
  case False
  then show ?thesis by (auto simp: disable_report_def intro: bystanders_step [OF inv])
next
  case True
  let ?tr = "data_disable_effect_completed (machine (runtime y)) i r"
  have "advances (r = RotationMutationOutcome.Applied) False False (machine (runtime y)) ?tr"
    using inv by (intro disable_completed_advances) (simp add: system_inv_defs)
  then have "system_inv (on_runtime y (log_also [] (transitioned (runtime y) ?tr)))"
    using inv operation_current_id [OF True] by (intro transitioned_step(1) [OF inv]) (auto simp: system_inv_defs)
  with True show ?thesis by (simp add: disable_report_def log_also_def case_prod_beta)
qed

lemma enable_submit_step:
  assumes inv: "system_inv (y\<lparr>tasks := EnableAt i EnableSubmit # tasks y\<rparr>)"
  shows "system_inv (on_bit y (enable_submit (owned y) i))"
proof (cases "owned y")
  case False
  have "system_inv (on_bit y (owned y, [Failing i DataEnableFailed], []))"
    by (rule bystanders_bit_step [OF inv]) simp
  with False show ?thesis
    by (simp add: enable_submit_def enable_begin_def enable_report_task_def effect_outcome_def)
next
  case True
  have "waiting EnableData i (EnableAt i EnableSubmit) + tally (waiting EnableData i) (tasks y) +
      tally (sends EnableData i) (radio_log y) \<le> 1"
    using inv by (auto simp: system_inv_defs tokens_ok_def dest: spec2 [where x = EnableData and y = i])
  then have "tally (sends EnableData i) (radio_log y) = 0"
    by (simp del: sum_list_eq_0_iff)
  then have "EnableIssued i \<notin> set (radio_log y)" unfolding sends_none .
  moreover have "may_enable (set (radio_log y)) i" "well_logged (radio_log y)" "outstanding (radio_log y)"
    using inv True by (simp_all add: system_inv_defs)
  ultimately have "well_logged (radio_log y @ [EnableIssued i])" by (simp add: well_logged_snoc may_enable_def)
  then have "system_inv (on_bit y (True, [EnableAt i EnableAwait], [EnableIssued i]))"
    using \<open>outstanding (radio_log y)\<close>
    by (intro bit_step [OF inv]) (auto simp: follows_def enable_weights sends_def outstanding_append)
  with True show ?thesis by (simp add: enable_submit_def enable_begin_def)
qed

lemma enable_quiet_step:
  assumes inv: "system_inv (y\<lparr>tasks := EnableAt i p # tasks y\<rparr>)"
    and q: "enable_fact (set (radio_log y)) i q" "q \<notin> {EnableEntry, EnableSubmit}"
  shows "system_inv (on_bit y (owned y, [EnableAt i q], []))"
  using inv q by (intro bit_step [OF inv]) (simp_all add: follows_def enable_weights system_inv_defs)

lemma enable_readback_step:
  assumes inv: "system_inv (y\<lparr>tasks := EnableAt i (EnableReadback e) # tasks y\<rparr>)"
  shows "system_inv (on_bit y (enable_readback (owned y) i e a))"
proof -
  have unsure: "system_inv (on_bit y (owned y, [enable_report_task i (Inl x)], []))" for x
    using enable_quiet_step [OF inv, of "EnableReport Rejected"] enable_quiet_step [OF inv, of "EnableReport Uncertain"]
      bystanders_bit_step [OF inv, of "[Failing i DataEnableFailed]"]
    by (cases x) (simp_all add: enable_report_task_def effect_outcome_def)
  have "well_logged (radio_log y)" "EnableIssued i \<in> set (radio_log y)"
    using inv by (simp_all add: system_inv_defs)
  then have "well_logged ((radio_log y @ [EnableVerified i]) @ [Released])" by (simp only: well_logged_snoc) simp
  then have "system_inv (on_bit y (False, [enable_report_task i (Inr ())], [EnableVerified i, Released]))"
    by (intro bit_step [OF inv])
       (auto simp: follows_def enable_report_task_def effect_outcome_def enable_weights sends_def outstanding_append)
  with unsure enable_quiet_step [OF inv, of "EnableReport Uncertain"] show ?thesis
    by (auto simp: enable_readback_def enable_end_def Let_def
        split: option.splits sum.splits MobileDataState.splits)
qed

lemma enable_report_step:
  assumes inv: "system_inv (y\<lparr>tasks := EnableAt i (EnableReport r) # tasks y\<rparr>)"
  shows "system_inv (on_runtime y (enable_report (runtime y) i r))"
proof (cases "operation_current (runtime y) i")
  case False
  then show ?thesis by (auto simp: enable_report_def intro: bystanders_step [OF inv])
next
  case True
  let ?tr = "data_enable_effect_completed (machine (runtime y)) i r"
  have "advances False (r = RotationMutationOutcome.Applied) False (machine (runtime y)) ?tr"
    using inv by (intro enable_completed_advances) (simp add: system_inv_defs)
  then have "system_inv (on_runtime y (log_also [] (transitioned (runtime y) ?tr)))"
    using inv operation_current_id [OF True] by (intro transitioned_step(1) [OF inv]) (auto simp: system_inv_defs)
  with True show ?thesis by (simp add: enable_report_def log_also_def case_prod_beta)
qed

lemma disable_step_inv:
  "system_inv (y\<lparr>tasks := DisableAt i p # tasks y\<rparr>) \<Longrightarrow> disable_step p i y signal = Some y' \<Longrightarrow> system_inv y'"
  by (cases p; cases signal)
     (auto intro: disable_task_step disable_observed_step disable_start_step disable_check_step
        disable_submit_step disable_answered_step disable_report_step)

lemma enable_step_inv:
  assumes "system_inv (y\<lparr>tasks := EnableAt i p # tasks y\<rparr>)" "enable_step p i y signal = Some y'"
  shows "system_inv y'"
proof -
  have "system_inv (on_bit y (enable_answered (owned y) i a))" if p: "p = EnableAwait" for a
  proof -
    have "EnableIssued i \<in> set (radio_log y)" using assms(1) p by (simp add: system_inv_defs)
    then show ?thesis
      by (auto simp: enable_answered_def intro!: enable_quiet_step [OF assms(1)] split: option.splits)
  qed
  with assms show ?thesis
    by (cases p; cases signal) (auto intro: enable_task_step enable_submit_step enable_readback_step enable_report_step)
qed

subsection \<open>The restore path\<close>

lemma restore_after_set_bystander: "bystander (restore_after_set i r)"
  by (simp add: restore_after_set_def)

lemma restore_observed_step:
  assumes inv: "system_inv (y\<lparr>tasks := RestoreAt i RestoreEntry # tasks y\<rparr>)"
  shows "system_inv (on_bit y (restore_observed (owned y) i a))"
proof -
  have "well_logged (radio_log y @ [RestoreReadDisabled i])" "owned y = outstanding (radio_log y)"
    using inv by (simp_all add: well_logged_snoc system_inv_defs)
  then have "system_inv (on_bit y (owned y, [RestoreAt i RestoreSubmit], [RestoreReadDisabled i]))"
    by (intro bit_step [OF inv]) (auto simp: follows_def sends_def bystander_weights outstanding_append)
  then show ?thesis
    by (auto simp: restore_observed_def intro!: bystanders_bit_step [OF inv]
        split: option.splits sum.splits MobileDataState.splits)
qed

lemma restore_submit_step:
  assumes inv: "system_inv (y\<lparr>tasks := RestoreAt i RestoreSubmit # tasks y\<rparr>)"
  shows "system_inv (on_bit y (restore_submit (owned y) i))"
proof (cases "owned y")
  case False
  have "system_inv (on_bit y (owned y, [restore_after_set i (Inl MutationNotOwned)], []))"
    by (rule bystanders_bit_step [OF inv]) (simp add: restore_after_set_bystander)
  with False show ?thesis by (simp add: restore_submit_def enable_begin_def)
next
  case True
  have "well_logged (radio_log y @ [RestoreEnableIssued i])" "outstanding (radio_log y)"
    using inv True by (simp_all add: well_logged_snoc system_inv_defs)
  then have "system_inv (on_bit y (True, [RestoreAt i RestoreAwait], [RestoreEnableIssued i]))"
    by (intro bit_step [OF inv]) (auto simp: follows_def sends_def bystander_weights outstanding_append)
  with True show ?thesis by (simp add: restore_submit_def enable_begin_def)
qed

lemma restore_readback_step:
  assumes inv: "system_inv (y\<lparr>tasks := RestoreAt i (RestoreReadback e) # tasks y\<rparr>)"
  shows "system_inv (on_bit y (restore_readback (owned y) i e a))"
proof -
  have "system_inv (on_bit y (owned y, [restore_after_set i r], []))" for r
    by (rule bystanders_bit_step [OF inv]) (simp add: restore_after_set_bystander)
  moreover have "system_inv (on_bit y (owned y, [RestoreAt i (RestoreReport RestoreFailed)], []))"
    by (rule bystanders_bit_step [OF inv]) simp
  moreover have "system_inv (on_bit y (False, [restore_after_set i r], [Released]))" for r
    using restore_after_set_bystander [of i r]
    by (intro released_step [OF inv]) (simp_all add: follows_def bystander_def bystander_weights)
  ultimately show ?thesis
    by (auto simp: restore_readback_def enable_end_def Let_def
        split: option.splits sum.splits MobileDataState.splits)
qed

lemma restore_report_step:
  assumes inv: "system_inv (y\<lparr>tasks := RestoreAt i (RestoreReport r) # tasks y\<rparr>)"
  shows "system_inv (on_runtime y (restore_report (runtime y) i r))"
proof -
  have adv: "advances False False False (machine (runtime y)) (record_restore (machine (runtime y)) i r)"
    using inv by (intro restore_advances) (simp add: system_inv_defs)
  have "system_inv (on_runtime y (runtime y, [], []))" by (rule bystanders_step [OF inv]) simp_all
  moreover have "system_inv (on_runtime y ((runtime y)\<lparr>machine := snd (record_restore (machine (runtime y)) i r)\<rparr>, [], []))"
    by (rule transitioned_step(2) [OF inv adv]) simp_all
  ultimately show ?thesis by (simp add: restore_report_def Let_def)
qed

lemma restore_step_inv:
  assumes "system_inv (y\<lparr>tasks := RestoreAt i p # tasks y\<rparr>)" "restore_step p i y signal = Some y'"
  shows "system_inv y'"
proof -
  have "system_inv (on_bit y (restore_answered (owned y) i a))" "system_inv (on_bit y (restore_confirmed (owned y) i a))" for a
    by (auto simp: restore_answered_def restore_confirmed_def intro!: bystanders_bit_step [OF assms(1)]
        split: option.splits)
  with assms show ?thesis
    by (cases p; cases signal)
       (auto intro: restore_observed_step restore_submit_step restore_readback_step restore_report_step)
qed

subsection \<open>The other tasks and the calls\<close>

lemma machine_call_step:
  assumes "system_inv (y\<lparr>tasks := t # tasks y\<rparr>)" "advances False False False (machine (runtime y)) tr"
  shows "system_inv (on_runtime y (transitioned (runtime y) tr))"
    and "list_all bystander ts \<Longrightarrow> system_inv (on_runtime y ((runtime y)\<lparr>machine := snd tr\<rparr>, ts, []))"
    and "fst tr = Inr snap \<Longrightarrow> system_inv (on_runtime y ((runtime y)\<lparr>machine := snd tr\<rparr>, [Transitioned snap], []))"
proof -
  show moved: "system_inv (on_runtime y (transitioned (runtime y) tr))"
    using transitioned_step(1) [OF assms, of "[]"] by (simp add: log_also_def case_prod_beta)
  show "list_all bystander ts \<Longrightarrow> system_inv (on_runtime y ((runtime y)\<lparr>machine := snd tr\<rparr>, ts, []))"
    using transitioned_step(2) [OF assms, of "[]"] by simp
  show "fst tr = Inr snap \<Longrightarrow> system_inv (on_runtime y ((runtime y)\<lparr>machine := snd tr\<rparr>, [Transitioned snap], []))"
    using moved by (simp add: transitioned_def case_prod_beta)
qed

lemma probe_steps:
  assumes inv: "system_inv (y\<lparr>tasks := t # tasks y\<rparr>)"
  shows "system_inv (on_runtime y (before_ip_start (runtime y) i))"
    "system_inv (on_runtime y (before_ip_probed (runtime y) i g p))"
    "system_inv (on_runtime y (after_ip_start (runtime y) i))"
    "system_inv (on_runtime y (after_ip_probed (runtime y) i g p))"
    "system_inv (on_runtime y (after_ip_guard cred (runtime y) i g x))"
    "system_inv (on_runtime y (after_ip_record (runtime y) i g x))"
proof -
  have m: "rotation_inv (machine (runtime y))" using inv by (simp add: system_inv_defs)
  have still: "list_all bystander ts \<Longrightarrow> system_inv (on_runtime y (runtime y, ts, []))" for ts
    by (rule bystanders_step [OF inv]) simp_all
  show "system_inv (on_runtime y (before_ip_start (runtime y) i))"
    "system_inv (on_runtime y (after_ip_start (runtime y) i))"
    "system_inv (on_runtime y (after_ip_probed (runtime y) i g p))"
    "system_inv (on_runtime y (after_ip_guard cred (runtime y) i g x))"
    by (auto simp: before_ip_start_def after_ip_start_def after_ip_probed_def after_ip_guard_def
        intro!: still split: option.split sum.split)
  have "system_inv (on_runtime y (before_ip_probed (runtime y) i g (Some (Inr (g', a)))))" for g' a
    using machine_call_step [OF inv before_ip_advances [OF m, of False False False i g' a]] still
    by (auto simp: before_ip_probed_def case_prod_beta split: sum.split)
  then show "system_inv (on_runtime y (before_ip_probed (runtime y) i g p))"
    using still by (auto simp: before_ip_probed_def split: option.split sum.split)
  show "system_inv (on_runtime y (after_ip_record (runtime y) i g x))"
    using machine_call_step [OF inv after_ip_advances [OF m, of False False False i g x]] still
    by (auto simp: after_ip_record_def case_prod_beta split: sum.split)
qed

lemma activate_schedule_step:
  assumes inv: "system_inv (y\<lparr>tasks := ActivateSchedule i snap # tasks y\<rparr>)"
  shows "system_inv (on_runtime y (activate_schedule (runtime y) i snap b))"
proof -
  have step: "system_inv (on_runtime y (snd (schedule_for (runtime y) snap b)))"
    using inv by (rule schedule_step) simp
  obtain r s1 ts es where run: "schedule_for (runtime y) snap b = (r, s1, ts, es)" by (metis prod_cases4)
  show ?thesis
  proof (cases r)
    case (Inl e)
    with run have "ts = []" "es = []"
      by (auto simp: schedule_for_def Let_def split: option.splits if_splits)
    with step run have "system_inv (y\<lparr>runtime := s1\<rparr>)" by (simp add: on_runtime_def)
    from fail_prepared_step [OF this, of i] show ?thesis
      using run Inl by (simp add: activate_schedule_def on_runtime_def)
  next
    case (Inr u)
    with step run show ?thesis by (simp add: activate_schedule_def)
  qed
qed

lemma activate_spawn_step:
  assumes inv: "system_inv (y\<lparr>tasks := ActivateSpawn i snap # tasks y\<rparr>)"
  shows "system_inv (on_runtime y (activate_spawn (runtime y) i snap b))"
proof -
  have "system_inv (on_runtime y (runtime y, [DeadlineTimer i, ActivateSchedule i snap], []))"
    using inv
  proof (rule quiet_step)
    show "follows (ActivateSpawn i snap) (set (radio_log y @ [])) (machine (runtime y)) t'"
      if "t' \<in> set [DeadlineTimer i, ActivateSchedule i snap]" for t'
      using that inv by (auto simp: follows_def system_inv_defs)
  qed (simp_all add: snapshot_weights bystander_weights)
  moreover have "system_inv (on_runtime y (snd (fail_prepared_before_mutation (runtime y) i), [], []))"
    using fail_prepared_step [OF without_task [OF inv]] by (simp add: on_runtime_def)
  ultimately show ?thesis by (simp add: activate_spawn_def)
qed

lemma fail_rt_step:
  assumes inv: "system_inv (y\<lparr>tasks := t # tasks y\<rparr>)"
  shows "system_inv (on_runtime y (fail_rt cred (runtime y) i f))"
    "system_inv (on_runtime y (deadline_fired (runtime y) i))"
proof -
  have m: "rotation_inv (machine (runtime y))" using inv by (simp add: system_inv_defs)
  have still: "system_inv (on_runtime y (runtime y, [], []))" by (rule bystanders_step [OF inv]) simp_all
  show "system_inv (on_runtime y (fail_rt cred (runtime y) i f))"
    using machine_call_step(1) [OF inv fail_advances [OF m]] still by (simp add: fail_rt_def)
  show "system_inv (on_runtime y (deadline_fired (runtime y) i))"
    using machine_call_step(1) [OF inv deadline_advances [OF m]] still by (simp add: deadline_fired_def)
qed

lemma before_ip_step_inv:
  "system_inv (y\<lparr>tasks := BeforeIpAt i p # tasks y\<rparr>) \<Longrightarrow> before_ip_step p i y signal = Some y' \<Longrightarrow> system_inv y'"
  by (cases p; cases signal) (auto intro: probe_steps)

lemma after_ip_step_inv:
  "system_inv (y\<lparr>tasks := AfterIpAt i p # tasks y\<rparr>) \<Longrightarrow> after_ip_step p i y signal = Some y' \<Longrightarrow> system_inv y'"
  by (cases p; cases signal) (auto intro: probe_steps)

lemma task_step_inv:
  assumes inv: "system_inv (y\<lparr>tasks := t # tasks y\<rparr>)" and step: "task_step t y signal = Some y'"
  shows "system_inv y'"
proof (cases t)
  case (ShutdownDrain i f)
  have "system_inv (on_runtime y (shutdown_end (runtime y) i f))"
    by (auto simp: shutdown_end_def Let_def intro!: bystanders_step [OF inv] split: option.split)
  with step ShutdownDrain show ?thesis by (cases signal) auto
next
  case (Transitioned snap)
  with inv step schedule_step [OF inv] show ?thesis by (cases signal) auto
next
  case (DeadlineTimer i)
  with step fail_rt_step(2) [OF inv] without_task [OF inv] show ?thesis by (cases signal) auto
next
  case (Failing i f)
  with step fail_rt_step(1) [OF inv] show ?thesis by (cases signal) auto
next
  case (ActivateSpawn i snap)
  with inv step activate_spawn_step show ?thesis by (cases signal) auto
next
  case (ActivateSchedule i snap)
  with inv step activate_schedule_step show ?thesis by (cases signal) auto
next
  case (BeforeIpAt i p)
  with inv step before_ip_step_inv show ?thesis by simp
next
  case (DisableAt i p)
  with inv step disable_step_inv show ?thesis by simp
next
  case (EnableAt i p)
  with inv step enable_step_inv show ?thesis by simp
next
  case (AfterIpAt i p)
  with inv step after_ip_step_inv show ?thesis by simp
next
  case (RestoreAt i p)
  with inv step restore_step_inv show ?thesis by simp
qed

lemma observe_cellular_step:
  assumes "system_inv y"
  shows "system_inv (on_runtime y (observe_cellular_rt (runtime y) a))"
proof -
  let ?m = "machine (runtime y)"
  have inv: "system_inv (y\<lparr>tasks := DeadlineTimer 0 # tasks y\<rparr>)" using assms by (intro with_bystander) simp_all
  have still: "system_inv (on_runtime y (runtime y, [], []))" by (rule bystanders_step [OF inv]) simp_all
  have step: "system_inv (on_runtime y (log_also (if lo then [LossObserved i] else [])
      (transitioned (runtime y) (observe_cellular ?m i g b))))"
    if "current_operation ?m = Some op" "op_id op = i"
      "\<not> b \<Longrightarrow> before_generation op < g \<Longrightarrow> phase op \<in> {DataDisabling, WaitingCellularLoss} \<Longrightarrow> lo" for op i g b lo
  proof (rule transitioned_step(1) [OF inv])
    show "advances False False lo ?m (observe_cellular ?m i g b)"
      using assms that by (intro cellular_advances) (auto simp: system_inv_defs)
  qed (use that in auto)
  show ?thesis
  proof (cases "last_sequence a = None \<or> current_operation ?m = None")
    case True
    with still show ?thesis
      by (auto simp: observe_cellular_rt_def Let_def snapshot_def idle_def split: option.split)
  next
    case False
    then obtain g op where op: "last_sequence a = Some g" "current_operation ?m = Some op" by auto
    define skip where "skip \<longleftrightarrow> closed (runtime y) \<or> terminal (phase op) \<or>
      admission_state a \<noteq> Admitted \<and> admission_reason a \<noteq> Some NetworkLost \<and>
      phase op \<in> {DataDisabling, WaitingCellularLoss}"
    define lo where "lo \<longleftrightarrow> admission_state a \<noteq> Admitted \<and> admission_reason a = Some NetworkLost \<and>
      phase op \<in> {DataDisabling, WaitingCellularLoss} \<and> before_generation op < g"
    have "observe_cellular_rt (runtime y) a = (if skip then (runtime y, [], [])
        else log_also (if lo then [LossObserved (op_id op)] else [])
          (transitioned (runtime y) (observe_cellular ?m (op_id op) g (admission_state a = Admitted))))"
      using op by (auto simp: observe_cellular_rt_def Let_def snapshot_def operation_snapshot_def skip_def lo_def)
    moreover have "\<not> skip \<Longrightarrow> admission_state a \<noteq> Admitted \<Longrightarrow> before_generation op < g \<Longrightarrow>
        phase op \<in> {DataDisabling, WaitingCellularLoss} \<Longrightarrow> lo"
      by (auto simp: skip_def lo_def)
    ultimately show ?thesis using still step [OF op(2) refl, of "admission_state a = Admitted" g lo] by simp
  qed
qed

lemma observe_root_policy_step:
  assumes "system_inv y"
  shows "system_inv (on_runtime y (observe_root_policy_rt (runtime y) a e))"
proof -
  have inv: "system_inv (y\<lparr>tasks := DeadlineTimer 0 # tasks y\<rparr>)" using assms by (intro with_bystander) simp_all
  have "system_inv (on_runtime y (runtime y, [], []))" by (rule bystanders_step [OF inv]) simp_all
  moreover have "system_inv (on_runtime y (transitioned (runtime y) (observe_root_policy (machine (runtime y)) i g e)))" for i g
    using assms by (intro machine_call_step(1) [OF inv root_policy_advances]) (simp add: system_inv_defs)
  ultimately show ?thesis by (auto simp: observe_root_policy_rt_def Let_def split: option.splits)
qed

lemma shutdown_step:
  assumes "system_inv y"
  shows "system_inv (on_runtime y (shutdown_begin (runtime y)))"
proof -
  let ?m = "machine (runtime y)"
  have inv: "system_inv (y\<lparr>tasks := DeadlineTimer 0 # tasks y\<rparr>)" using assms by (intro with_bystander) simp_all
  have m: "rotation_inv ?m" using assms by (simp add: system_inv_defs)
  have drain: "system_inv (on_runtime y (s', [ShutdownDrain j f], []))"
    if "claimed s' = claimed (runtime y)"
      "machine s' = ?m \<or> (\<exists>i. machine s' = snd (fail ?m i RotationFailureStateUnavailable))" for s' j f
  proof -
    have "\<exists>r. advances False False False ?m (r, machine s')"
      using that(2) fail_advances [OF m, of False False False] advances_refl [OF m] by (metis prod.collapse fst_conv snd_conv)
    then obtain r where adv: "advances False False False ?m (r, machine s')" ..
    show ?thesis using that(1) by (intro runtime_step [OF inv adv]) (simp_all add: follows_def bystander_weights)
  qed
  have "system_inv (on_runtime y (runtime y, [], []))" by (rule bystanders_step [OF inv]) simp_all
  then show ?thesis by (auto simp: shutdown_begin_def Let_def intro!: drain split: option.split)
qed

lemma activate_prepared_step:
  assumes "system_inv y"
  shows "system_inv (on_runtime y (activate_prepared (runtime y) i now))"
proof -
  have inv: "system_inv (y\<lparr>tasks := DeadlineTimer 0 # tasks y\<rparr>)" using assms by (intro with_bystander) simp_all
  have adv: "advances False False False (machine (runtime y)) (Inl StaleOperation, machine (runtime y))"
    using assms by (intro advances_refl) (simp_all add: system_inv_defs)
  have "system_inv (on_runtime y (s', [ActivateSpawn i (snapshot (machine (runtime y)))], []))"
    if "machine s' = machine (runtime y)" "claimed s' = claimed (runtime y)" for s'
    using that adv by (intro runtime_step [OF inv, of False False False "Inl StaleOperation"])
      (simp_all add: follows_def snapshot_weights)
  moreover have "system_inv (on_runtime y (runtime y, [], []))" by (rule bystanders_step [OF inv]) simp_all
  ultimately show ?thesis by (auto simp: activate_prepared_def Let_def)
qed

lemma rotation_system_step_inv: "system_inv y \<Longrightarrow> system_inv (rotation_system_step y c)"
proof (cases c)
  case (Run n signal)
  assume inv: "system_inv y"
  show ?thesis
  proof (cases "n < length (tasks y)")
    case True
    let ?y = "y\<lparr>tasks := take n (tasks y) @ drop (Suc n) (tasks y)\<rparr>"
    have "system_inv (?y\<lparr>tasks := tasks y ! n # tasks ?y\<rparr>)"
      using system_inv_taken [OF inv True] by simp
    from task_step_inv [OF this] inv True Run show ?thesis by (auto split: option.split)
  qed (use inv Run in simp)
next
  case (Serve g)
  then show "system_inv y \<Longrightarrow> ?thesis" by (simp add: system_inv_defs)
qed (simp_all add: prepare_step fail_prepared_step activate_prepared_step observe_cellular_step
    observe_root_policy_step shutdown_step)

interpretation radio: guarded_machine rotation_system_new rotation_system_step system_inv
proof unfold_locales
  show "system_inv rotation_system_new"
    by (simp add: system_inv_defs rotation_system_new_def rotation_runtime_new_def new_machine_def rotation_inv_def
        machine_fact_def tokens_ok_def preparing_ok_def ids_ok_def)
qed (rule rotation_system_step_inv)

abbreviation rotation_system_run :: "RotationCall list \<Rightarrow> RotationSystem" where
  "rotation_system_run cs \<equiv> foldl rotation_system_step rotation_system_new cs"

subsection \<open>A rotation that runs to its end\<close>

definition demo_guard :: ProxyCredentialGuard where
  "demo_guard =
     \<lparr>guard_version = 1, guard_material = \<lparr>proxy_username = ''user'', proxy_password = ''secret''\<rparr>\<rparr>"

definition demo_admission ::
    "CellularAdmissionState \<Rightarrow> CellularAdmissionReason option \<Rightarrow> u64 \<Rightarrow> CellularAdmissionSnapshot" where
  "demo_admission st reason g =
     \<lparr>admission_state = st, admission_reason = reason, admitted_network = None, last_sequence = Some g\<rparr>"

definition demo_answer :: "string \<Rightarrow> Signal" where
  "demo_answer printed =
     Answer (Some (Inr \<lparr>exit_code = 0, stdout = printed, timed_out = False, output_complete = True,
       session_generation = 1\<rparr>))"

text \<open>Up to the point where the disable command is about to be submitted.\<close>

definition demo_checked :: "RotationCall list" where
  "demo_checked =
     [Serve (Some demo_guard), Prepare (demo_admission Admitted None 1) (Some (demo_admission Admitted None 1, True)),
      ActivatePrepared 1 0, Run 0 (Go True), Run 1 (Go True), Run 1 (Go True),
      Run 1 (Probed (Some (Inr (1, V4 1)))), Run 1 (Go True), Run 1 (Go True), Run 1 (demo_answer ''1''),
      Run 1 (Go True), Run 1 (Go True), Run 1 (Go True)]"

definition demo_rotation :: "RotationCall list" where
  "demo_rotation = demo_checked @
     [Run 1 (Go True), Run 1 (demo_answer []), Run 1 (Go True), Run 1 (Go True),
      ObserveCellular (demo_admission NotAdmitted (Some NetworkLost) 2), Run 1 (Go True), Run 1 (Go True), Run 1 (Go True),
      Run 1 (demo_answer []), Run 1 (demo_answer ''1''), Run 1 (Go True), Run 1 (Go True),
      ObserveCellular (demo_admission Admitted None 3), Run 1 (Go True),
      ObserveRootPolicy (demo_admission Admitted None 3) True, Run 1 (Go True), Run 1 (Go True),
      Run 1 (Probed (Some (Inr (3, V4 2)))), Run 1 (Go True), Run 1 (Go True), Run 1 (Go True)]"

text \<open>C39. The radio ledger of every run of the coordinator, whatever the interleaving of its tasks, the
  deadline, the observations and a shutdown. A disable command is sent at most once per operation, only
  after the setting was read as enabled and the duty to restore was recorded, and never while an earlier
  disable is still to be compensated. The main path sends one enable command per operation, after the
  network loss was observed; a restore sends one only after it read the setting as disabled; both only
  while a disable of this process is outstanding, which is exactly what the ownership bit says. A rotation
  that ends changed or unchanged has verified its enable by a readback.\<close>

theorem rotation_radio_ledger:
  "well_logged (radio_log (rotation_system_run calls)) \<and>
   owned (rotation_system_run calls) = outstanding (radio_log (rotation_system_run calls)) \<and>
   (\<forall>op. current_operation (machine (runtime (rotation_system_run calls))) = Some op \<longrightarrow>
      phase op \<in> {Changed, Unchanged} \<longrightarrow>
      EnableVerified (op_id op) \<in> set (radio_log (rotation_system_run calls)))"
proof -
  have "system_inv (rotation_system_run calls)" by (rule radio.inv_reachable)
  then show ?thesis by (auto simp: system_inv_defs machine_fact_def verified_phases_def)
qed

theorem rotation_radio_ledger_witness:
  "map_option phase (current_operation (machine (runtime (rotation_system_run demo_rotation)))) = Some Changed \<and>
   EnableVerified 1 \<in> set (radio_log (rotation_system_run demo_rotation)) \<and>
   well_logged (radio_log (rotation_system_run demo_rotation))"
proof -
  have ended: "map_option phase (current_operation (machine (runtime (rotation_system_run demo_rotation)))) = Some Changed"
    "map_option op_id (current_operation (machine (runtime (rotation_system_run demo_rotation)))) = Some 1"
    by code_simp+
  then obtain op where "current_operation (machine (runtime (rotation_system_run demo_rotation))) = Some op"
      "phase op = Changed" "op_id op = 1"
    by auto
  with ended rotation_radio_ledger [of demo_rotation] show ?thesis by auto
qed

subsection \<open>A disable that arrives late\<close>

text \<open>The deadline may pass between the last check of \<open>run_disable_data\<close> and the submission. The restore
  then finds the data on and settles the operation; the disable command goes out afterwards, and nothing
  is left that would enable the data again.\<close>

lemma late_disable:
  "let y = rotation_system_run (demo_checked @
       [Run 0 (Go True), Run 1 (Go True), Run 1 (demo_answer ''1''), Run 1 (Go True),
        Run 0 (Go True), Run 0 (demo_answer []), Run 0 (Go True)])
   in tasks y = [] \<and> outstanding (radio_log y) \<and>
      map_option (\<lambda>op. (phase op, restore_required op, restore_result op)) (current_operation (machine (runtime y))) =
        Some (Failed, False, Some AlreadyEnabled)"
  by code_simp

subsection \<open>A disable whose outcome is unknown\<close>

text \<open>The commands among the logged events, and the events that only a task in flight can cause.\<close>

definition radio_command :: "RadioEvent \<Rightarrow> bool" where
  "radio_command e \<longleftrightarrow> (\<exists>i. e = DisableIssued i \<or> e = EnableIssued i \<or> e = RestoreEnableIssued i)"

definition unapplied :: "RotationStateMachine \<Rightarrow> bool" where
  "unapplied m \<longleftrightarrow> (\<forall>op. current_operation m = Some op \<longrightarrow> phase op \<notin> applied_phases)"

text \<open>Tasks that cannot send a command or release the bit while the data is on.\<close>

primrec resting :: "RotationTask \<Rightarrow> bool" where
  "resting (DeadlineTimer i) = True"
| "resting (ActivateSpawn i snap) = (snap_phase snap \<notin> applied_phases)"
| "resting (ActivateSchedule i snap) = (snap_phase snap \<notin> applied_phases)"
| "resting (Transitioned snap) = (snap_phase snap \<notin> applied_phases)"
| "resting (Failing i f) = True"
| "resting (BeforeIpAt i p) = True"
| "resting (DisableAt i p) = (p \<notin> {DisableAwait, DisableReport RotationMutationOutcome.Applied})"
| "resting (EnableAt i p) = False"
| "resting (AfterIpAt i p) = True"
| "resting (RestoreAt i p) = (p \<noteq> RestoreSubmit \<and> p \<noteq> RestoreAwait \<and> (\<forall>e. p \<noteq> RestoreReadback e))"
| "resting (ShutdownDrain i f) = True"

definition blocked :: "RotationSystem \<Rightarrow> bool" where
  "blocked y \<longleftrightarrow> system_inv y \<and> owned y \<and> unapplied (machine (runtime y)) \<and> list_all resting (tasks y)"

text \<open>No observation reads the data as off.\<close>

fun data_on :: "RotationCall \<Rightarrow> bool" where
  "data_on (Run n (Answer (Some a))) \<longleftrightarrow> observed a \<noteq> Inr Disabled"
| "data_on c \<longleftrightarrow> True"

fun still :: "RotationRuntimeState outcome \<Rightarrow> bool" where
  "still (s, ts, es) \<longleftrightarrow> unapplied (machine s) \<and> list_all resting ts \<and> filter radio_command es = []"

lemma unapplied_snapshot: "unapplied m \<Longrightarrow> snap_phase (snapshot m) \<notin> applied_phases"
  by (auto simp: unapplied_def snapshot_def operation_snapshot_def idle_def applied_phases_def split: option.splits)

lemma unapplied_advances: "advances False v l m t \<Longrightarrow> unapplied m \<Longrightarrow> unapplied (snd t)"
  by (auto simp: advances_def unapplied_def moves_def split: option.splits)

lemma still_transitioned:
  assumes "advances False v l (machine s) tr" "unapplied (machine s)"
  shows "still (transitioned s tr)" "still (s\<lparr>machine := snd tr\<rparr>, [], [])"
    "fst tr = Inr snap \<Longrightarrow> snap_phase snap \<notin> applied_phases"
proof -
  have "unapplied (snd tr)" using assms by (rule unapplied_advances)
  moreover from this have snap: "fst tr = Inr snap \<Longrightarrow> snap_phase snap \<notin> applied_phases" for snap
    using assms(1) unapplied_snapshot by (simp add: advances_def)
  ultimately show "still (transitioned s tr)" "still (s\<lparr>machine := snd tr\<rparr>, [], [])"
    by (auto simp: transitioned_def case_prod_beta split: sum.split)
  show "fst tr = Inr snap \<Longrightarrow> snap_phase snap \<notin> applied_phases" by (rule snap)
qed

lemma unapplied_fail_prepared:
  assumes "rotation_inv (machine s)" "unapplied (machine s)"
  shows "unapplied (machine (snd (fail_prepared_before_mutation s i)))"
  using unapplied_advances [OF fail_advances [OF assms(1), of False False False] assms(2)]
  by (auto simp: fail_prepared_before_mutation_def Let_def assms(2) case_prod_beta split: sum.splits)

lemma still_schedule:
  assumes "unapplied (machine s)" "snap_phase snap \<notin> applied_phases"
  shows "still (snd (schedule_for s snap b))"
proof -
  have "resting (task_of a i)" if "action_of snap = Some a" for a i
    using assms(2) that by (auto simp: action_of_def applied_phases_def split: if_splits)
  then show ?thesis using assms(1) by (auto simp: schedule_for_def Let_def split: option.split)
qed

lemma still_activate:
  assumes "rotation_inv (machine s)" "unapplied (machine s)" "snap_phase snap \<notin> applied_phases"
  shows "still (activate_spawn s i snap b)" "still (activate_schedule s i snap b)"
proof -
  show "still (activate_spawn s i snap b)"
    using assms unapplied_fail_prepared by (simp add: activate_spawn_def)
  obtain r s1 ts es where run: "schedule_for s snap b = (r, s1, ts, es)" by (metis prod_cases4)
  moreover have "machine s1 = machine s"
    using run by (auto simp: schedule_for_def Let_def split: option.splits if_splits)
  ultimately show "still (activate_schedule s i snap b)"
    using still_schedule [OF assms(2,3), of b] unapplied_fail_prepared [of s1 i] assms(1,2)
    by (auto simp: activate_schedule_def split: sum.split)
qed

lemma still_log_also: "still r \<Longrightarrow> filter radio_command es = [] \<Longrightarrow> still (log_also es r)"
  by (cases r) (simp add: log_also_def)

lemma still_machine_calls:
  assumes m: "rotation_inv (machine s)" and u: "unapplied (machine s)"
  shows "still (fail_rt cred s i f)" "still (deadline_fired s i)" "still (before_ip_probed s i g p)"
    "still (after_ip_record s i g x)" "still (disable_start s i)"
    "r \<noteq> RotationMutationOutcome.Applied \<Longrightarrow> still (disable_report s i r)"
    "still (observe_cellular_rt s a)" "still (observe_root_policy_rt s a e)" "still (restore_report s i rr)"
proof -
  note moved = unapplied_advances [OF _ u] and snap = still_transitioned(3) [OF _ u] and calls = still_transitioned(1) [OF _ u]
  show "still (fail_rt cred s i f)" "still (deadline_fired s i)"
    using u calls [OF fail_advances [OF m]] calls [OF deadline_advances [OF m]]
    by (auto simp: fail_rt_def deadline_fired_def)
  show "still (disable_report s i r)" if "r \<noteq> RotationMutationOutcome.Applied"
    using u that calls [of _ _ "data_disable_effect_completed (machine s) i r"]
      disable_completed_advances [OF m, of r False False i]
    by (simp add: disable_report_def)
  show "still (observe_root_policy_rt s a e)"
    using u calls [OF root_policy_advances [OF m]] by (simp add: observe_root_policy_rt_def Let_def split: option.split)
  have "still (transitioned s (observe_cellular (machine s) j g b))" for j g b
    by (rule calls [of False True], rule cellular_advances [OF m]) simp
  then show "still (observe_cellular_rt s a)"
    using u by (simp add: observe_cellular_rt_def Let_def still_log_also radio_command_def split: option.split)
  show "still (restore_report s i rr)"
    using u moved [OF restore_advances [OF m]] by (simp add: restore_report_def Let_def)
  have "unapplied (snd (record_before_ip (machine s) i g' a'))"
    "fst (record_before_ip (machine s) i g' a') = Inr sn \<Longrightarrow> snap_phase sn \<notin> applied_phases" for g' a' sn
    using moved [OF before_ip_advances [OF m]] snap [OF before_ip_advances [OF m]] by blast+
  then show "still (before_ip_probed s i g p)"
    using u by (auto simp: before_ip_probed_def case_prod_beta split: option.split sum.split)
  have "unapplied (snd (record_after_ip (machine s) i g x))"
    "fst (record_after_ip (machine s) i g x) = Inr sn \<Longrightarrow> snap_phase sn \<notin> applied_phases" for sn
    using moved [OF after_ip_advances [OF m]] snap [OF after_ip_advances [OF m]] by blast+
  then show "still (after_ip_record s i g x)"
    using u by (auto simp: after_ip_record_def case_prod_beta split: sum.split)
  have "unapplied (snd (data_disable_mutation_started (machine s) i))"
    "fst (data_disable_mutation_started (machine s) i) = Inr sn \<Longrightarrow> snap_phase sn \<notin> applied_phases" for sn
    using moved [OF disable_started_advances [OF m]] snap [OF disable_started_advances [OF m]] by blast+
  then show "still (disable_start s i)"
    using u by (auto simp: disable_start_def case_prod_beta radio_command_def split: sum.split)
qed

lemma still_shutdown:
  assumes "rotation_inv (machine s)" "unapplied (machine s)"
  shows "still (shutdown_begin s)" "still (shutdown_end s j f)"
  using assms(2) unapplied_advances [OF fail_advances [OF assms(1), of False False False] assms(2)]
  by (auto simp: shutdown_begin_def shutdown_end_def Let_def split: option.split)

lemma still_others:
  assumes "unapplied (machine s)"
  shows "still (before_ip_start s i)" "still (after_ip_start s i)" "still (after_ip_probed s i g p)"
    "still (after_ip_guard cred s i g x)" "still (disable_task s i)" "still (disable_observed s i a)"
    "still (disable_check s i)" "still (activate_prepared s i now)"
  using assms unapplied_snapshot [OF assms]
  by (auto simp: before_ip_start_def after_ip_start_def after_ip_probed_def after_ip_guard_def disable_task_def
      disable_observed_def disable_check_def activate_prepared_def Let_def radio_command_def
      split: option.split sum.split)

text \<open>What a step keeps of a blocked coordinator, beside the invariant.\<close>

definition keeps_blocked :: "RotationSystem \<Rightarrow> RotationSystem \<Rightarrow> bool" where
  "keeps_blocked y y' \<longleftrightarrow>
     owned y' \<and> unapplied (machine (runtime y')) \<and> list_all resting (tasks y') \<and>
     filter radio_command (radio_log y') = filter radio_command (radio_log y)"

lemma keeps_on_runtime: "still r \<Longrightarrow> owned y \<Longrightarrow> list_all resting (tasks y) \<Longrightarrow> keeps_blocked y (on_runtime y r)"
  by (cases r) (simp add: keeps_blocked_def on_runtime_def)

lemma keeps_on_bit:
  assumes "owned y" "unapplied (machine (runtime y))" "list_all resting (tasks y)"
  shows "keeps_blocked y (on_bit y (disable_submit (owned y) i))"
    "map_option observed a \<noteq> Some (Inr Disabled) \<Longrightarrow> keeps_blocked y (on_bit y (restore_observed (owned y) i a))"
    "keeps_blocked y (on_bit y (restore_confirmed (owned y) i a))"
  using assms
  by (auto simp: keeps_blocked_def on_bit_def disable_submit_def disable_begin_def disable_report_task_def
      effect_outcome_def restore_observed_def restore_confirmed_def
      split: option.split sum.split MobileDataState.split)

lemma blocked_task:
  assumes y: "owned y" "unapplied (machine (runtime y))" "list_all resting (tasks y)" "rotation_inv (machine (runtime y))"
    and t: "resting t" "\<And>a. signal = Answer (Some a) \<Longrightarrow> observed a \<noteq> Inr Disabled"
    and step: "task_step t y signal = Some y'"
  shows "keeps_blocked y y'"
proof -
  note run = keeps_on_runtime [OF _ y(1,3)]
  have on: "map_option observed a \<noteq> Some (Inr Disabled)" if "signal = Answer a" for a
    using t(2) that by (cases a) auto
  show ?thesis
  proof (cases t)
    case (DeadlineTimer i)
    have "keeps_blocked y y" using y by (simp add: keeps_blocked_def)
    with DeadlineTimer step show ?thesis
      by (cases signal) (auto intro: run still_machine_calls [OF y(4,2)] split: if_splits)
  next
    case (DisableAt i p)
    with step t(1) show ?thesis
      by (cases p; cases signal)
         (auto intro: run still_others [OF y(2)] still_machine_calls [OF y(4,2)] keeps_on_bit(1) [OF y(1-3)])
  next
    case (RestoreAt i p)
    with step t(1) on show ?thesis
      by (cases p; cases signal)
         (auto intro: run still_machine_calls [OF y(4,2)] keeps_on_bit(2,3) [OF y(1-3)])
  next
    case (BeforeIpAt i p)
    with step show ?thesis
      by (cases p; cases signal) (auto intro: run still_others [OF y(2)] still_machine_calls [OF y(4,2)])
  next
    case (AfterIpAt i p)
    with step show ?thesis
      by (cases p; cases signal) (auto intro: run still_others [OF y(2)] still_machine_calls [OF y(4,2)])
  qed (use step t(1) in \<open>cases signal; auto intro: run still_activate [OF y(4,2)] still_schedule [OF y(2)]
       still_machine_calls [OF y(4,2)] still_shutdown [OF y(4,2)]\<close>)+
qed

lemma blocked_call:
  assumes "blocked y" "data_on c"
  shows "keeps_blocked y (rotation_system_step y c)"
proof -
  have y: "owned y" "unapplied (machine (runtime y))" "list_all resting (tasks y)" "rotation_inv (machine (runtime y))"
    using assms(1) by (auto simp: blocked_def system_inv_defs)
  note run = keeps_on_runtime [OF _ y(1,3)]
  show ?thesis
  proof (cases c)
    case (Run n signal)
    let ?y = "y\<lparr>tasks := take n (tasks y) @ drop (Suc n) (tasks y)\<rparr>"
    have same: "keeps_blocked y y" using y by (simp add: keeps_blocked_def)
    have "resting (tasks y ! n)" if "n < length (tasks y)" using y(3) that by (simp add: list_all_length)
    moreover have "list_all resting (take n (tasks y) @ drop (Suc n) (tasks y))"
      using y(3) by (auto simp: list_all_iff dest: in_set_takeD in_set_dropD)
    moreover have "\<And>a. signal = Answer (Some a) \<Longrightarrow> observed a \<noteq> Inr Disabled" using assms(2) Run by simp
    ultimately have "keeps_blocked ?y y'" if "n < length (tasks y)" "task_step (tasks y ! n) ?y signal = Some y'" for y'
      using that y by (intro blocked_task) simp_all
    then show ?thesis using same Run by (auto simp: keeps_blocked_def split: option.split)
  next
    case (Prepare a p)
    have "unapplied (machine (snd (prepare (runtime y) a p g)))" for g
      using y(2) by (auto simp: prepare_def start_def Let_def unapplied_def fresh_operation_def applied_phases_def
          split: option.splits if_splits prod.splits sum.splits)
    with y Prepare show ?thesis by (simp add: keeps_blocked_def)
  next
    case (FailPrepared i)
    with y unapplied_fail_prepared show ?thesis by (simp add: keeps_blocked_def)
  qed (use y in \<open>auto simp: keeps_blocked_def [of y "y\<lparr>serving := _\<rparr>"] intro: run still_others
       still_machine_calls still_shutdown\<close>)
qed

lemma blocked_run:
  assumes "blocked y" "list_all data_on cs"
  shows "blocked (foldl rotation_system_step y cs) \<and>
    filter radio_command (radio_log (foldl rotation_system_step y cs)) = filter radio_command (radio_log y)"
  using assms
proof (induction cs arbitrary: y)
  case (Cons c cs)
  have "keeps_blocked y (rotation_system_step y c)" using Cons.prems by (simp add: blocked_call)
  moreover from this have "blocked (rotation_system_step y c)"
    using Cons.prems by (simp add: keeps_blocked_def blocked_def rotation_system_step_inv)
  ultimately show ?case using Cons by (simp add: keeps_blocked_def)
qed simp

text \<open>An operation whose disable command got no answer, and whose restore read the data as on.\<close>

definition demo_uncertain :: "RotationCall list" where
  "demo_uncertain = demo_checked @
     [Run 1 (Go True), Run 1 (Answer None), Run 1 (Go True), Run 1 (Go True), Run 1 (demo_answer ''1''), Run 1 (Go True)]"

lemma demo_uncertain_blocked:
  "blocked (rotation_system_run demo_uncertain)"
  "map_option (\<lambda>op. (phase op, restore_required op, restore_result op))
     (current_operation (machine (runtime (rotation_system_run demo_uncertain)))) =
     Some (Failed, False, Some AlreadyEnabled)"
proof -
  show ended: "map_option (\<lambda>op. (phase op, restore_required op, restore_result op))
     (current_operation (machine (runtime (rotation_system_run demo_uncertain)))) =
     Some (Failed, False, Some AlreadyEnabled)"
    by code_simp
  have "owned (rotation_system_run demo_uncertain)" "tasks (rotation_system_run demo_uncertain) = [DeadlineTimer 1]"
    by code_simp+
  moreover have "system_inv (rotation_system_run demo_uncertain)" by (rule radio.inv_reachable)
  ultimately show "blocked (rotation_system_run demo_uncertain)"
    using ended by (auto simp: blocked_def unapplied_def applied_phases_def)
qed



end
