(* ===== verification/Root_Policy_Runtime.thy ===== *)
theory Root_Policy_Runtime
  imports Root_Session Root_Policy
begin

text \<open>
  The root-policy transaction, \<open>src/crates/runtime/src/root_policy_runtime.rs\<close>, and its effects,
  \<open>root_policy_effect.rs\<close>: the authority probe, the reading of a snapshot, the construction and the
  verification of the fail-closed base, the permitting lookup with its route check, and the exact cleanup.
  What answers the commands is a script, and every command that runs is kept on a trail with its answer.
  The counters of the command window and the diagnostics are left out: they drive nothing.
\<close>

subsection \<open>Effects\<close>

datatype RootAuthorityStatus = Ready | InteractiveGrantRequired | Denied | Unavailable | Incomplete

datatype RootPolicyFailure =
    InvalidInterface
  | ReservedPolicyCollision
  | ObservationUnavailable
  | ObservationIncomplete
  | StructuralMismatch
  | RouteTableDiscoveryFailed
  | MutationRejected
  | MutationUncertain
  | LookupRuleCreationFailed
  | RouteLookupVerificationFailed
  | ExactCleanupFailed

datatype RootPolicyCleanupFailure =
    IdentityUnavailable
  | IdentityCollision
  | Ipv4LookupDeleteFailed
  | Ipv4OutputJumpDeleteFailed
  | Ipv4LegacySelectorDeleteFailed
  | Ipv4ChainDeleteFailed
  | Ipv4GuardDeleteFailed
  | Ipv6OutputJumpDeleteFailed
  | Ipv6LegacySelectorDeleteFailed
  | Ipv6ChainDeleteFailed
  | Ipv6GuardDeleteFailed
  | FinalVerificationFailed

datatype RootPolicyResult =
    Enforced
  | FailClosed "RootPolicyFailure option"
  | AuthorityUnavailable RootAuthorityStatus

datatype RootPolicyReconcileOutcome = Completed RootPolicyResult | Superseded

definition retryable :: "RootPolicyResult \<Rightarrow> bool" where
  "retryable r =
     (case r of
        AuthorityUnavailable status \<Rightarrow> status \<in> {Unavailable, Incomplete}
      | FailClosed (Some f) \<Rightarrow> f \<in> {ObservationUnavailable, ObservationIncomplete, MutationUncertain}
      | _ \<Rightarrow> False)"

datatype RootPolicyEffectFailure =
    EffectObservationUnavailable
  | EffectObservationIncomplete
  | EffectMutationRejected
  | EffectMutationUncertain

definition map_effect_failure :: "RootPolicyEffectFailure \<Rightarrow> RootPolicyFailure" where
  "map_effect_failure f =
     (case f of
        EffectObservationUnavailable \<Rightarrow> ObservationUnavailable
      | EffectObservationIncomplete \<Rightarrow> ObservationIncomplete
      | EffectMutationRejected \<Rightarrow> MutationRejected
      | EffectMutationUncertain \<Rightarrow> MutationUncertain)"

text \<open>
  What is still to come from outside (answers of the session, its generation when asked, whether the owner
  generation is still current when asked), and the commands that ran, oldest first.
\<close>

record PolicyIo =
  replies :: "RootAnswer list"
  generations :: "u64 option list"
  currents :: "bool list"
  trail :: "(RootCommand \<times> RootAnswer) list"

definition io_execute :: "RootCommand \<Rightarrow> PolicyIo \<Rightarrow> RootAnswer \<times> PolicyIo" where
  "io_execute c w =
     (case replies w of
        [] \<Rightarrow> (Inl SpawnUnavailable, w\<lparr>trail := trail w @ [(c, Inl SpawnUnavailable)]\<rparr>)
      | a # rest \<Rightarrow> (a, w\<lparr>replies := rest, trail := trail w @ [(c, a)]\<rparr>))"

definition io_generation :: "PolicyIo \<Rightarrow> u64 option \<times> PolicyIo" where
  "io_generation w =
     (case generations w of [] \<Rightarrow> (None, w) | g # rest \<Rightarrow> (g, w\<lparr>generations := rest\<rparr>))"

definition is_current :: "PolicyIo \<Rightarrow> bool \<times> PolicyIo" where
  "is_current w = (case currents w of [] \<Rightarrow> (False, w) | b # rest \<Rightarrow> (b, w\<lparr>currents := rest\<rparr>))"

definition raw_observation :: "string \<Rightarrow> PolicyIo \<Rightarrow> RootAnswer \<times> PolicyIo" where
  "raw_observation cmd w =
     (case root_observation cmd of Inl e \<Rightarrow> (Inl e, w) | Inr c \<Rightarrow> io_execute c w)"

definition unanswered :: "RootCommandResult \<Rightarrow> bool" where
  "unanswered r \<longleftrightarrow> timed_out r \<or> \<not> output_complete r"

definition policy_observe ::
    "string \<Rightarrow> PolicyIo \<Rightarrow> (RootPolicyEffectFailure + RootCommandResult) \<times> PolicyIo" where
  "policy_observe cmd w =
     (case root_observation cmd of
        Inl e \<Rightarrow> (Inl EffectObservationUnavailable, w)
      | Inr c \<Rightarrow>
          (case io_execute c w of
             (Inl e, w) \<Rightarrow> (Inl EffectObservationUnavailable, w)
           | (Inr r, w) \<Rightarrow>
               if \<not> unanswered r then (Inr r, w)
               else case io_execute c w of
                      (Inl e, w) \<Rightarrow> (Inl EffectObservationUnavailable, w)
                    | (Inr r, w) \<Rightarrow> (if unanswered r then Inl EffectObservationIncomplete else Inr r, w)))"

definition parse_lines :: "string \<Rightarrow> string list" where
  "parse_lines s = filter (\<lambda>l. l \<noteq> []) (map trim (str_lines s))"

definition policy_lines ::
    "string \<Rightarrow> PolicyIo \<Rightarrow> (RootPolicyEffectFailure + string list) \<times> PolicyIo" where
  "policy_lines cmd w =
     (case policy_observe cmd w of
        (Inl e, w) \<Rightarrow> (Inl e, w)
      | (Inr r, w) \<Rightarrow>
          (if exit_code r \<noteq> 0 then Inl EffectObservationUnavailable else Inr (parse_lines (stdout r)), w))"

definition policy_mutate ::
    "string \<Rightarrow> PolicyIo \<Rightarrow> (RootPolicyEffectFailure + unit) \<times> PolicyIo" where
  "policy_mutate cmd w =
     (case root_mutation cmd of
        Inl e \<Rightarrow> (Inl EffectMutationRejected, w)
      | Inr c \<Rightarrow>
          (case io_execute c w of
             (Inl e, w) \<Rightarrow> (Inl EffectMutationUncertain, w)
           | (Inr r, w) \<Rightarrow>
               (if unanswered r then Inl EffectMutationUncertain
                else if exit_code r \<noteq> 0 then Inl EffectMutationRejected else Inr (), w)))"

subsection \<open>Sequencing\<close>

text \<open>A step of the transaction: it consumes answers and may fail; \<open>?\<close> is \<open>and_then\<close>.\<close>

type_synonym 'a policy = "PolicyIo \<Rightarrow> (RootPolicyFailure + 'a) \<times> PolicyIo"

definition succeed :: "'a \<Rightarrow> 'a policy" where
  "succeed x w = (Inr x, w)"

definition and_then :: "'a policy \<Rightarrow> ('a \<Rightarrow> 'b policy) \<Rightarrow> 'b policy" where
  "and_then p k w = (case p w of (Inl e, w) \<Rightarrow> (Inl e, w) | (Inr x, w) \<Rightarrow> k x w)"

definition require :: "bool \<Rightarrow> RootPolicyFailure \<Rightarrow> unit policy" where
  "require b e w = (if b then Inr () else Inl e, w)"

definition require_some :: "'a option \<Rightarrow> RootPolicyFailure \<Rightarrow> 'a policy" where
  "require_some m e w = (ok_or m e, w)"

definition effect :: "(PolicyIo \<Rightarrow> (RootPolicyEffectFailure + 'a) \<times> PolicyIo) \<Rightarrow> 'a policy" where
  "effect p w = (case p w of (r, w) \<Rightarrow> (map_err map_effect_failure r, w))"

definition lines :: "string \<Rightarrow> string list policy" where
  "lines cmd = effect (policy_lines cmd)"

definition mutate :: "string \<Rightarrow> unit policy" where
  "mutate cmd = effect (policy_mutate cmd)"

primrec mutate_all :: "string list \<Rightarrow> unit policy" where
  "mutate_all [] = succeed ()"
| "mutate_all (c # cs) = and_then (mutate c) (\<lambda>_. mutate_all cs)"

definition mangle_show :: "string \<Rightarrow> string" where
  "mangle_show binary = binary @ '' -t mangle -S''"

definition read_snapshot :: "RootPolicySnapshot policy" where
  "read_snapshot =
     and_then (lines IPV4_RULE_SHOW) (\<lambda>rules4. and_then (lines IPV6_RULE_SHOW) (\<lambda>rules6.
     and_then (lines (mangle_show IPTABLES)) (\<lambda>mangle4. and_then (lines (mangle_show IP6TABLES)) (\<lambda>mangle6.
     succeed \<lparr>ipv4_rules = rules4, ipv6_rules = rules6, ipv4_mangle = mangle4, ipv6_mangle = mangle6\<rparr>))))"

subsection \<open>The fail-closed base\<close>

definition owned_guard_in :: "RootPolicyContract \<Rightarrow> bool \<Rightarrow> string list \<Rightarrow> bool" where
  "owned_guard_in c ipv4 ls =
     (if ipv4 then list_ex (is_owned_ipv4_guard c) ls else list_ex (is_owned_ipv6_guard c) ls)"

definition rule_show :: "bool \<Rightarrow> string" where
  "rule_show ipv4 = (if ipv4 then IPV4_RULE_SHOW else IPV6_RULE_SHOW)"

definition ensure_guard :: "RootPolicyContract \<Rightarrow> bool \<Rightarrow> unit policy" where
  "ensure_guard c ipv4 =
     and_then (lines (rule_show ipv4)) (\<lambda>now.
       if owned_guard_in c ipv4 now then succeed ()
       else and_then (require_some (if ipv4 then ipv4_guard_add c else ipv6_guard_add c) StructuralMismatch) (\<lambda>add.
            and_then (mutate add) (\<lambda>_.
            and_then (lines (rule_show ipv4)) (\<lambda>verified.
            require (owned_guard_in c ipv4 verified) StructuralMismatch))))"

lemma io_execute_replies: "io_execute c w = (Inr r, w') \<Longrightarrow> length (replies w) = Suc (length (replies w'))"
  by (auto simp: io_execute_def split: list.splits)

lemma policy_mutate_replies: "policy_mutate cmd w = (Inr u, w') \<Longrightarrow> length (replies w') < length (replies w)"
  by (auto simp: policy_mutate_def dest!: io_execute_replies split: sum.splits prod.splits if_splits)

lemma io_execute_le: "length (replies (snd (io_execute c w))) \<le> length (replies w)"
  by (simp add: io_execute_def split: list.split)

lemma policy_observe_le: "length (replies (snd (policy_observe cmd w))) \<le> length (replies w)"
  by (auto simp: policy_observe_def case_prod_beta intro: order_trans [OF io_execute_le] io_execute_le split: sum.split)

lemma policy_lines_le: "length (replies (snd (policy_lines cmd w))) \<le> length (replies w)"
  using policy_observe_le [of cmd w] by (simp add: policy_lines_def case_prod_beta split: sum.split)

text \<open>The loop that deletes duplicate jumps; each round uses up an answer.\<close>

function delete_duplicate_jumps :: "RootPolicyContract \<Rightarrow> string \<Rightarrow> string list \<Rightarrow> string list policy" where
  "delete_duplicate_jumps c binary now w =
     (if output_jump_count c now \<le> 1 then (Inr now, w)
      else case policy_mutate (output_jump_delete c binary) w of
        (Inr _, w1) \<Rightarrow>
          (case policy_lines (mangle_show binary) w1 of
             (Inl e, w2) \<Rightarrow> (Inl (map_effect_failure e), w2)
           | (Inr fresh, w2) \<Rightarrow> delete_duplicate_jumps c binary fresh w2)
      | (Inl e, w1) \<Rightarrow>
          if e \<noteq> EffectMutationUncertain then (Inl (map_effect_failure e), w1)
          else case policy_lines (mangle_show binary) w1 of
             (Inl e, w2) \<Rightarrow> (Inl (map_effect_failure e), w2)
           | (Inr fresh, w2) \<Rightarrow>
               if output_jump_count c fresh \<le> 1 then (Inr fresh, w2) else (Inl MutationUncertain, w2))"
  by pat_completeness auto
termination
proof (relation "measure (\<lambda>(c, binary, now, w). length (replies w))", goal_cases)
  case (2 c binary now w r w1 u r' w2 fresh)
  then have "length (replies w1) < length (replies w)" by (auto dest: policy_mutate_replies [OF sym])
  moreover have "w2 = snd (policy_lines (mangle_show binary) w1)" using 2 by (metis snd_conv)
  ultimately show ?case using policy_lines_le [of "mangle_show binary" w1] by simp
qed simp

declare delete_duplicate_jumps.simps [simp del]

definition chain_state :: "RootPolicyContract \<Rightarrow> bool \<Rightarrow> string list \<Rightarrow> MangleFamilyState policy" where
  "chain_state c ipv4 ls = require_some (mangle_family_state c ls ipv4) StructuralMismatch"

text \<open>\<open>ensure_mangle_family\<close> after the duplicates are gone: create, rebuild while detached, attach, verify.\<close>

definition create_chain :: "RootPolicyContract \<Rightarrow> string \<Rightarrow> bool \<Rightarrow> MangleFamilyState policy" where
  "create_chain c binary ipv4 =
     and_then (mutate (create_chain_command c binary)) (\<lambda>_.
     and_then (lines (mangle_show binary)) (chain_state c ipv4))"

definition rebuild_chain :: "RootPolicyContract \<Rightarrow> string \<Rightarrow> bool \<Rightarrow> MangleFamilyState policy" where
  "rebuild_chain c binary ipv4 =
     and_then (mutate (flush_chain_command c binary)) (\<lambda>_.
     and_then (require_some (if ipv4 then ipv4_owned_chain_lines c else ipv6_owned_chain_lines c) StructuralMismatch) (\<lambda>expected.
     and_then (mutate_all (map (\<lambda>rule. binary @ '' -t mangle '' @ rule) expected)) (\<lambda>_.
     and_then (lines (mangle_show binary)) (chain_state c ipv4))))"

definition attach_chain :: "RootPolicyContract \<Rightarrow> string \<Rightarrow> bool \<Rightarrow> unit policy" where
  "attach_chain c binary ipv4 =
     and_then (mutate (output_jump_add c binary)) (\<lambda>_.
     and_then (lines (mangle_show binary)) (\<lambda>verified.
     require (mangle_family_state c verified ipv4 = Some AttachedExact) StructuralMismatch))"

definition publish_chain :: "RootPolicyContract \<Rightarrow> string \<Rightarrow> bool \<Rightarrow> MangleFamilyState \<Rightarrow> unit policy" where
  "publish_chain c binary ipv4 state =
     (if state = AttachedExact then succeed ()
      else
        and_then (if state = Missing then create_chain c binary ipv4 else succeed state) (\<lambda>state.
        and_then (if state = DetachedMismatch then rebuild_chain c binary ipv4 else succeed state) (\<lambda>state.
        and_then (require (state = DetachedExact) StructuralMismatch) (\<lambda>_.
        attach_chain c binary ipv4))))"

definition ensure_mangle_family :: "RootPolicyContract \<Rightarrow> string \<Rightarrow> bool \<Rightarrow> unit policy" where
  "ensure_mangle_family c binary ipv4 =
     and_then (lines (mangle_show binary)) (\<lambda>now.
     and_then (chain_state c ipv4 now) (\<lambda>state.
     and_then (require (state \<noteq> InvalidReferenced) StructuralMismatch) (\<lambda>_.
     and_then (if state = AttachedDuplicateExact
               then and_then (delete_duplicate_jumps c binary now) (chain_state c ipv4)
               else succeed state)
       (publish_chain c binary ipv4))))"

primrec remove_exact_rule_loop :: "nat \<Rightarrow> string \<Rightarrow> string \<Rightarrow> unit policy" where
  "remove_exact_rule_loop 0 check delete =
     and_then (effect (policy_observe check)) (\<lambda>r. require (exit_code r \<noteq> 0) MutationRejected)"
| "remove_exact_rule_loop (Suc n) check delete =
     and_then (effect (policy_observe check)) (\<lambda>r.
       if exit_code r \<noteq> 0 then succeed ()
       else and_then (mutate delete) (\<lambda>_. remove_exact_rule_loop n check delete))"

definition remove_exact_rule :: "string \<Rightarrow> string \<Rightarrow> unit policy" where
  "remove_exact_rule check delete = remove_exact_rule_loop MAX_RECONCILE_PASSES check delete"

fun delete_lookups :: "RootPolicyContract \<Rightarrow> RootPolicyFailure \<Rightarrow> string list \<Rightarrow> unit policy" where
  "delete_lookups c e [] = succeed ()"
| "delete_lookups c e (table # tables) =
     and_then (require_some (ipv4_lookup_delete c table) e) (\<lambda>delete.
     and_then (mutate delete) (\<lambda>_. delete_lookups c e tables))"

primrec remove_lookups_loop :: "nat \<Rightarrow> RootPolicyContract \<Rightarrow> unit policy" where
  "remove_lookups_loop 0 c =
     and_then (lines IPV4_RULE_SHOW) (\<lambda>rules. require (owned_ipv4_lookup_tables c rules = []) MutationRejected)"
| "remove_lookups_loop (Suc n) c =
     and_then (lines IPV4_RULE_SHOW) (\<lambda>rules.
       let tables = owned_ipv4_lookup_tables c rules
       in if tables = [] then succeed ()
          else and_then (delete_lookups c MutationRejected tables) (\<lambda>_. remove_lookups_loop n c))"

definition remove_owned_ipv4_lookups :: "RootPolicyContract \<Rightarrow> unit policy" where
  "remove_owned_ipv4_lookups c = remove_lookups_loop MAX_RECONCILE_PASSES c"

text \<open>Everything between the choice of the identity and the second snapshot.\<close>

definition build_base :: "RootPolicyContract \<Rightarrow> RootPolicySnapshot \<Rightarrow> unit policy" where
  "build_base c initial =
     and_then (if \<not> list_ex (is_owned_ipv4_guard c) (ipv4_rules initial) then ensure_guard c True else succeed ()) (\<lambda>_.
     and_then (if \<not> list_ex (is_owned_ipv6_guard c) (ipv6_rules initial) then ensure_guard c False else succeed ()) (\<lambda>_.
     and_then (if owned_ipv4_lookup_tables c (ipv4_rules initial) \<noteq> [] then remove_owned_ipv4_lookups c else succeed ()) (\<lambda>_.
     and_then (if mangle_family_state c (ipv4_mangle initial) True \<noteq> Some AttachedExact
               then ensure_mangle_family c IPTABLES True else succeed ()) (\<lambda>_.
     and_then (if mangle_family_state c (ipv6_mangle initial) False \<noteq> Some AttachedExact
               then ensure_mangle_family c IP6TABLES False else succeed ()) (\<lambda>_.
     and_then (remove_exact_rule (legacy_selector_check c IPTABLES) (legacy_selector_delete c IPTABLES)) (\<lambda>_.
     remove_exact_rule (legacy_selector_check c IP6TABLES) (legacy_selector_delete c IP6TABLES)))))))"

subsection \<open>The permitting lookup\<close>

definition route_show :: "string \<Rightarrow> string" where
  "route_show table = ''ip -4 route show table '' @ table @ '' default''"

fun matching_tables :: "string \<Rightarrow> string list \<Rightarrow> string list policy" where
  "matching_tables interface [] = succeed []"
| "matching_tables interface (table # tables) =
     and_then (effect (policy_observe (route_show table))) (\<lambda>route.
     and_then (matching_tables interface tables) (\<lambda>rest.
       succeed (if exit_code route = 0 \<and> route_has_default_on_interface (parse_lines (stdout route)) interface
                then table # rest else rest)))"

definition discover_validated_ipv4_table :: "string list \<Rightarrow> string \<Rightarrow> string policy" where
  "discover_validated_ipv4_table rules interface =
     and_then (matching_tables interface (referenced_tables rules)) (\<lambda>matching.
       case matching of [table] \<Rightarrow> succeed table | _ \<Rightarrow> require_some None RouteTableDiscoveryFailed)"

definition replace_ipv4_lookup :: "RootPolicyContract \<Rightarrow> string \<Rightarrow> unit policy" where
  "replace_ipv4_lookup c table =
     and_then (lines IPV4_RULE_SHOW) (\<lambda>rules.
     and_then (delete_lookups c LookupRuleCreationFailed
                (filter (\<lambda>t. t \<noteq> table) (owned_ipv4_lookup_tables c rules))) (\<lambda>_.
     and_then (lines IPV4_RULE_SHOW) (\<lambda>after_delete.
       if table \<in> set (owned_ipv4_lookup_tables c after_delete) then succeed ()
       else and_then (require_some (ipv4_lookup_add c table) LookupRuleCreationFailed) (\<lambda>add.
            and_then (mutate add) (\<lambda>_.
            and_then (lines IPV4_RULE_SHOW) (\<lambda>after_add.
            require (table \<in> set (owned_ipv4_lookup_tables c after_add)) LookupRuleCreationFailed))))))"

definition route_command :: "PolicyIdentity \<Rightarrow> string" where
  "route_command identity = ''ip -4 route get 1.1.1.1 mark '' @ mark_hex identity"

text \<open>The lookup and its verification; a route that does not match removes the lookup again.\<close>

definition apply_lookup :: "RootPolicyContract \<Rightarrow> string \<Rightarrow> string \<Rightarrow> PolicyIo \<Rightarrow> RootPolicyResult \<times> PolicyIo" where
  "apply_lookup c interface table w =
     (case replace_ipv4_lookup c table w of
        (Inl f, w) \<Rightarrow> (FailClosed (Some f), w)
      | (Inr _, w) \<Rightarrow>
          (case active_identity c of
             None \<Rightarrow> (FailClosed (Some StructuralMismatch), w)
           | Some identity \<Rightarrow>
               (case policy_observe (route_command identity) w of
                  (Inl e, w) \<Rightarrow> (FailClosed (Some (map_effect_failure e)), w)
                | (Inr route, w) \<Rightarrow>
                    if exit_code route \<noteq> 0 \<or> \<not> route_get_uses_interface (stdout route) interface
                    then (FailClosed (Some RouteLookupVerificationFailed), snd (remove_owned_ipv4_lookups c w))
                    else (Enforced, w))))"

subsection \<open>The transaction\<close>

text \<open>The result, and whether the generation was superseded at one of the safe points.\<close>

definition admit ::
    "RootPolicyContract \<Rightarrow> bool \<Rightarrow> string option \<Rightarrow> RootPolicySnapshot \<Rightarrow> PolicyIo \<Rightarrow>
     (RootPolicyResult \<times> bool) \<times> PolicyIo" where
  "admit c admitted interface_name fail_closed w =
     (if \<not> admitted then ((FailClosed None, False), w)
      else case interface_name of
        None \<Rightarrow> ((FailClosed (Some InvalidInterface), False), w)
      | Some interface \<Rightarrow>
          if \<not> is_safe_interface_name interface then ((FailClosed (Some InvalidInterface), False), w)
          else case discover_validated_ipv4_table (ipv4_rules fail_closed) interface w of
            (Inl f, w) \<Rightarrow> ((FailClosed (Some f), False), w)
          | (Inr table, w) \<Rightarrow>
              (case is_current w of
                 (False, w) \<Rightarrow> ((FailClosed None, True), w)
               | (True, w) \<Rightarrow> (let (r, w) = apply_lookup c interface table w in ((r, False), w))))"

definition establish ::
    "RootPolicyContract \<Rightarrow> RootPolicySnapshot \<Rightarrow> bool \<Rightarrow> string option \<Rightarrow> PolicyIo \<Rightarrow>
     (RootPolicyResult \<times> bool) \<times> PolicyIo" where
  "establish c initial admitted interface_name w =
     (case build_base c initial w of
        (Inl f, w) \<Rightarrow> ((FailClosed (Some f), False), w)
      | (Inr _, w) \<Rightarrow>
          (case read_snapshot w of
             (Inl f, w) \<Rightarrow> ((FailClosed (Some f), False), w)
           | (Inr fail_closed, w) \<Rightarrow>
               if verify_fail_closed_base c fail_closed \<noteq> Inr ()
               then ((FailClosed (Some StructuralMismatch), False), w)
               else case is_current w of
                 (False, w) \<Rightarrow> ((FailClosed None, True), w)
               | (True, w) \<Rightarrow> admit c admitted interface_name fail_closed w))"

definition reconcile_authorized ::
    "RootPolicyContract \<Rightarrow> bool \<Rightarrow> string option \<Rightarrow> PolicyIo \<Rightarrow>
     ((RootPolicyResult \<times> bool) \<times> RootPolicyContract) \<times> PolicyIo" where
  "reconcile_authorized c admitted interface_name w =
     (case read_snapshot w of
        (Inl f, w) \<Rightarrow> (((FailClosed (Some f), False), c), w)
      | (Inr initial, w) \<Rightarrow>
          (case is_current w of
             (False, w) \<Rightarrow> (((FailClosed None, True), c), w)
           | (True, w) \<Rightarrow>
               (case resolve_identity c initial of
                  (PolicyIdentityResolution.IdentityCollision, c) \<Rightarrow>
                    (case (if active_identity c \<noteq> None then remove_owned_ipv4_lookups c w else (Inr (), w)) of
                       (Inl f, w) \<Rightarrow> (((FailClosed (Some MutationRejected), False), c), w)
                     | (Inr _, w) \<Rightarrow>
                         (((FailClosed (Some RootPolicyFailure.ReservedPolicyCollision), False), c), w))
                | (Selected _, c) \<Rightarrow>
                    (let (r, w) = establish c initial admitted interface_name w in ((r, c), w)))))"

subsection \<open>The authority\<close>

record RootPolicyState =
  contract :: RootPolicyContract
  ready_session_generation :: "u64 option"
  terminal_authority :: "RootAuthorityStatus option"

definition with_io :: "u32 \<Rightarrow> RootPolicyNamespace \<Rightarrow> RootPolicyState option" where
  "with_io uid namespace =
     map_option (\<lambda>c. \<lparr>contract = c, ready_session_generation = None, terminal_authority = None\<rparr>)
       (RootPolicyContract_new uid namespace)"

definition complete_lines :: "RootAnswer \<Rightarrow> string list option" where
  "complete_lines a =
     (case a of Inl e \<Rightarrow> None
      | Inr r \<Rightarrow> if \<not> unanswered r \<and> exit_code r = 0 then Some (parse_lines (stdout r)) else None)"

primrec delete_stale_jumps :: "RootPolicyContract \<Rightarrow> string \<Rightarrow> u32 list \<Rightarrow> PolicyIo \<Rightarrow> bool \<times> PolicyIo" where
  "delete_stale_jumps c binary [] w = (True, w)"
| "delete_stale_jumps c binary (uid # uids) w =
     (case policy_mutate (stale_owner_jump_delete c binary uid) w of
        (Inl e, w) \<Rightarrow> (False, w)
      | (Inr _, w) \<Rightarrow> delete_stale_jumps c binary uids w)"

definition bootstrap_family :: "RootPolicyContract \<Rightarrow> string \<Rightarrow> bool \<Rightarrow> PolicyIo \<Rightarrow> bool \<times> PolicyIo" where
  "bootstrap_family c binary ipv4 w =
     (case raw_observation (mangle_show binary) w of (a, w) \<Rightarrow>
      case complete_lines a of
        None \<Rightarrow> (False, w)
      | Some found \<Rightarrow>
          let stale = stale_owner_jump_uids c found
          in if stale = [] \<or> \<not> is_exact_known_product_state c found ipv4 then (True, w)
             else case delete_stale_jumps c binary stale w of
               (False, w) \<Rightarrow> (False, w)
             | (True, w) \<Rightarrow>
                 (case raw_observation (mangle_show binary) w of (a, w) \<Rightarrow>
                  case complete_lines a of
                    None \<Rightarrow> (False, w)
                  | Some left \<Rightarrow> (stale_owner_jump_uids c left = [], w)))"

definition bootstrap_stale_owner_jumps :: "RootPolicyContract \<Rightarrow> PolicyIo \<Rightarrow> bool \<times> PolicyIo" where
  "bootstrap_stale_owner_jumps c w =
     (case bootstrap_family c IPTABLES True w of
        (False, w) \<Rightarrow> (False, w)
      | (True, w) \<Rightarrow> bootstrap_family c IP6TABLES False w)"

text \<open>The part of \<open>probe_authority\<close> after the check of \<open>id -u\<close>.\<close>

definition probe_rules :: "RootPolicyState \<Rightarrow> PolicyIo \<Rightarrow> (RootAuthorityStatus \<times> RootPolicyState) \<times> PolicyIo" where
  "probe_rules s w =
     (case raw_observation IPV4_RULE_SHOW w of
        (Inl e, w) \<Rightarrow> ((Incomplete, s), w)
      | (Inr rules, w) \<Rightarrow>
          if unanswered rules \<or> exit_code rules \<noteq> 0 \<or> trim (stdout rules) = [] then ((Incomplete, s), w)
          else case bootstrap_stale_owner_jumps (contract s) w of
            (False, w) \<Rightarrow> ((Incomplete, s), w)
          | (True, w) \<Rightarrow>
              (case io_generation w of (g, w) \<Rightarrow>
                 ((if g \<noteq> None then Ready else Incomplete, s\<lparr>ready_session_generation := g\<rparr>), w)))"

definition probe_identity :: "RootPolicyState \<Rightarrow> PolicyIo \<Rightarrow> (RootAuthorityStatus \<times> RootPolicyState) \<times> PolicyIo" where
  "probe_identity s w =
     (case raw_observation ''id -u'' w of
        (Inl e, w) \<Rightarrow> ((Unavailable, s), w)
      | (Inr identity, w) \<Rightarrow>
          if timed_out identity
          then ((InteractiveGrantRequired, s\<lparr>terminal_authority := Some InteractiveGrantRequired\<rparr>), w)
          else if exit_code identity \<in> {126, 127} then ((Unavailable, s), w)
          else if exit_code identity > 0 \<or> trim (stdout identity) \<noteq> ''0''
          then ((Denied, s\<lparr>terminal_authority := Some Denied\<rparr>), w)
          else if \<not> output_complete identity \<or> exit_code identity \<noteq> 0 then ((Incomplete, s), w)
          else probe_rules s w)"

definition probe_authority :: "RootPolicyState \<Rightarrow> PolicyIo \<Rightarrow> (RootAuthorityStatus \<times> RootPolicyState) \<times> PolicyIo" where
  "probe_authority s w =
     (case terminal_authority s of
        Some terminal \<Rightarrow> ((terminal, s), w)
      | None \<Rightarrow>
          (case io_generation w of (g, w) \<Rightarrow>
             if g \<noteq> None \<and> g = ready_session_generation s then ((Ready, s), w)
             else probe_identity (s\<lparr>ready_session_generation := None\<rparr>) w))"

definition reconcile_if_current ::
    "RootPolicyState \<Rightarrow> bool \<Rightarrow> string option \<Rightarrow> PolicyIo \<Rightarrow>
     (RootPolicyReconcileOutcome \<times> RootPolicyState) \<times> PolicyIo" where
  "reconcile_if_current s admitted interface_name w =
     (case is_current w of
        (False, w) \<Rightarrow> ((Superseded, s), w)
      | (True, w) \<Rightarrow>
          (case probe_authority s w of ((authority, s), w) \<Rightarrow>
             if authority \<noteq> Ready then ((Completed (AuthorityUnavailable authority), s), w)
             else case is_current w of
               (False, w) \<Rightarrow> ((Superseded, s), w)
             | (True, w) \<Rightarrow>
                 (case reconcile_authorized (contract s) admitted interface_name w of
                    (((r, superseded), c), w) \<Rightarrow>
                      ((if superseded then Superseded else Completed r, s\<lparr>contract := c\<rparr>), w))))"

subsection \<open>Exact cleanup\<close>

primrec remove_jumps_loop :: "nat \<Rightarrow> RootPolicyContract \<Rightarrow> string \<Rightarrow> unit policy" where
  "remove_jumps_loop 0 c binary =
     and_then (lines (mangle_show binary)) (\<lambda>ls. require (output_jump_count c ls = 0) MutationRejected)"
| "remove_jumps_loop (Suc n) c binary =
     and_then (lines (mangle_show binary)) (\<lambda>ls.
       if output_jump_count c ls = 0 then succeed ()
       else (\<lambda>w. case policy_mutate (output_jump_delete c binary) w of
               (Inr _, w) \<Rightarrow> remove_jumps_loop n c binary w
             | (Inl e, w) \<Rightarrow>
                 if e = EffectMutationUncertain
                 then and_then (lines (mangle_show binary))
                        (\<lambda>fresh. require (output_jump_count c fresh = 0) MutationUncertain) w
                 else (Inl (map_effect_failure e), w)))"

definition remove_all_output_jumps :: "RootPolicyContract \<Rightarrow> string \<Rightarrow> unit policy" where
  "remove_all_output_jumps c binary = remove_jumps_loop MAX_RECONCILE_PASSES c binary"

definition remove_owned_chain :: "RootPolicyContract \<Rightarrow> string \<Rightarrow> bool \<Rightarrow> unit policy" where
  "remove_owned_chain c binary ipv4 =
     and_then (lines (mangle_show binary)) (\<lambda>ls.
       if chain_definition c \<notin> set ls then succeed ()
       else
         and_then (require_some (if ipv4 then ipv4_owned_chain_lines c else ipv6_owned_chain_lines c) ExactCleanupFailed) (\<lambda>expected.
         and_then (require (set (chain_lines ls (chain_name c)) \<subseteq> set expected) ExactCleanupFailed) (\<lambda>_.
         and_then (mutate (flush_chain_command c binary)) (\<lambda>_.
         and_then (mutate (delete_chain_command c binary)) (\<lambda>_.
         and_then (lines (mangle_show binary)) (\<lambda>fresh.
         require (\<not> list_ex (\<lambda>line. str_contains line (chain_name c)) fresh) ExactCleanupFailed))))))"

primrec remove_guard_loop :: "nat \<Rightarrow> RootPolicyContract \<Rightarrow> bool \<Rightarrow> unit policy" where
  "remove_guard_loop 0 c ipv4 = require False ExactCleanupFailed"
| "remove_guard_loop (Suc n) c ipv4 =
     and_then (lines (rule_show ipv4)) (\<lambda>rules.
       if \<not> owned_guard_in c ipv4 rules then succeed ()
       else and_then (require_some (if ipv4 then ipv4_guard_delete c else ipv6_guard_delete c) ExactCleanupFailed) (\<lambda>delete.
            and_then (mutate delete) (\<lambda>_. remove_guard_loop n c ipv4)))"

definition remove_guard :: "RootPolicyContract \<Rightarrow> bool \<Rightarrow> unit policy" where
  "remove_guard c ipv4 = remove_guard_loop MAX_RECONCILE_PASSES c ipv4"

text \<open>One family of \<open>cleanup_exact\<close>: the selector and the jumps first; the chain and the guard only once
  both are gone. The first component reports what the removal of the chain or the guard did.\<close>

definition cleanup_family ::
    "RootPolicyContract \<Rightarrow> string \<Rightarrow> bool \<Rightarrow> RootPolicyCleanupFailure \<Rightarrow> RootPolicyCleanupFailure \<Rightarrow> PolicyIo \<Rightarrow>
     (RootPolicyCleanupFailure + bool \<times> bool) \<times> PolicyIo" where
  "cleanup_family c binary ipv4 chain_failed guard_failed w =
     (case remove_all_output_jumps c binary w of (jump, w) \<Rightarrow>
      case remove_exact_rule (legacy_selector_check c binary) (legacy_selector_delete c binary) w of (legacy, w) \<Rightarrow>
      if jump = Inr () \<and> legacy = Inr ()
      then case remove_owned_chain c binary ipv4 w of
             (Inl e, w) \<Rightarrow> (Inl chain_failed, w)
           | (Inr _, w) \<Rightarrow>
               (case remove_guard c ipv4 w of
                  (Inl e, w) \<Rightarrow> (Inl guard_failed, w)
                | (Inr _, w) \<Rightarrow> (Inr (True, True), w))
      else (Inr (jump = Inr (), legacy = Inr ()), w))"

definition cleanup_verify :: "RootPolicyState \<Rightarrow> PolicyIo \<Rightarrow> ((RootPolicyCleanupFailure + unit) \<times> RootPolicyState) \<times> PolicyIo" where
  "cleanup_verify s w =
     (case probe_authority s w of ((authority, s), w) \<Rightarrow>
      if authority \<noteq> Ready then ((Inl FinalVerificationFailed, s), w)
      else case read_snapshot w of
        (Inl e, w) \<Rightarrow> ((Inl FinalVerificationFailed, s), w)
      | (Inr final, w) \<Rightarrow>
          if \<not> verify_exact_cleanup (contract s) final then ((Inl FinalVerificationFailed, s), w)
          else ((Inr (), s\<lparr>contract := clear_active_identity (contract s)\<rparr>), w))"

definition cleanup_selected :: "RootPolicyState \<Rightarrow> PolicyIo \<Rightarrow> ((RootPolicyCleanupFailure + unit) \<times> RootPolicyState) \<times> PolicyIo" where
  "cleanup_selected s w =
     (case remove_owned_ipv4_lookups (contract s) w of
        (Inl e, w) \<Rightarrow> ((Inl Ipv4LookupDeleteFailed, s), w)
      | (Inr _, w) \<Rightarrow>
     (case cleanup_family (contract s) IPTABLES True Ipv4ChainDeleteFailed Ipv4GuardDeleteFailed w of
        (Inl e, w) \<Rightarrow> ((Inl e, s), w)
      | (Inr (jump4, legacy4), w) \<Rightarrow>
     (case cleanup_family (contract s) IP6TABLES False Ipv6ChainDeleteFailed Ipv6GuardDeleteFailed w of
        (Inl e, w) \<Rightarrow> ((Inl e, s), w)
      | (Inr (jump6, legacy6), w) \<Rightarrow>
          if \<not> jump4 then ((Inl Ipv4OutputJumpDeleteFailed, s), w)
          else if \<not> legacy4 then ((Inl Ipv4LegacySelectorDeleteFailed, s), w)
          else if \<not> jump6 then ((Inl Ipv6OutputJumpDeleteFailed, s), w)
          else if \<not> legacy6 then ((Inl Ipv6LegacySelectorDeleteFailed, s), w)
          else cleanup_verify s w)))"

definition cleanup_exact :: "RootPolicyState \<Rightarrow> PolicyIo \<Rightarrow> ((RootPolicyCleanupFailure + unit) \<times> RootPolicyState) \<times> PolicyIo" where
  "cleanup_exact s w =
     (if active_identity (contract s) \<noteq> None then cleanup_selected s w
      else case read_snapshot w of
        (Inl e, w) \<Rightarrow> ((Inl RootPolicyCleanupFailure.IdentityUnavailable, s), w)
      | (Inr snapshot, w) \<Rightarrow>
          (case resolve_identity (contract s) snapshot of
             (Selected _, c) \<Rightarrow> cleanup_selected (s\<lparr>contract := c\<rparr>) w
           | (PolicyIdentityResolution.IdentityCollision, c) \<Rightarrow>
               (case has_any_product_signature c snapshot of (found, c) \<Rightarrow>
                  ((if found then Inl RootPolicyCleanupFailure.IdentityCollision else Inr (),
                    s\<lparr>contract := c\<rparr>), w))))"

end
