(* ===== verification/Root_Policy_Transaction.thy ===== *)
theory Root_Policy_Transaction
  imports Root_Policy_Runtime
begin

text \<open>
  What the trail of a root-policy transaction looks like: which mutations each part of
  \<open>src/crates/runtime/src/root_policy_runtime.rs\<close> may run, what is known of the kernel at a point of the
  trail (every mutation voids it), and the theorem that a permitting rule is only ever added to a verified
  fail-closed base of an admitted and current owner.
\<close>

type_synonym entry = "RootCommand \<times> RootAnswer"

definition mutations :: "entry list \<Rightarrow> string list" where
  "mutations t = map (\<lambda>e. command (fst e)) (filter (\<lambda>e. command_kind (fst e) = Mutation) t)"

text \<open>A command that lets marked traffic out.\<close>

definition permits :: "string \<Rightarrow> bool" where
  "permits m \<longleftrightarrow> starts_with m ''ip -4 rule add'' \<and> ''lookup'' \<in> set (split_whitespace m)"

abbreviation closed :: "string \<Rightarrow> bool" where
  "closed m \<equiv> \<not> permits m"

text \<open>What the complete and successful observations since the last mutation said.\<close>

definition know :: "(string \<rightharpoonup> string list) \<Rightarrow> entry \<Rightarrow> (string \<rightharpoonup> string list)" where
  "know k e =
     (if command_kind (fst e) = Mutation then Map.empty
      else case complete_lines (snd e) of None \<Rightarrow> k | Some ls \<Rightarrow> k(command (fst e) \<mapsto> ls))"

definition known :: "entry list \<Rightarrow> (string \<rightharpoonup> string list)" where
  "known t = foldl know Map.empty t"

definition snapshot_in :: "(string \<rightharpoonup> string list) \<Rightarrow> RootPolicySnapshot option" where
  "snapshot_in k =
     (case (k IPV4_RULE_SHOW, k IPV6_RULE_SHOW, k (mangle_show IPTABLES), k (mangle_show IP6TABLES)) of
        (Some rules4, Some rules6, Some mangle4, Some mangle6) \<Rightarrow>
          Some \<lparr>ipv4_rules = rules4, ipv6_rules = rules6, ipv4_mangle = mangle4, ipv6_mangle = mangle6\<rparr>
      | _ \<Rightarrow> None)"

lemma mutations_simps [simp]:
  "mutations [] = []" "mutations (t @ u) = mutations t @ mutations u"
  by (simp_all add: mutations_def)

subsection \<open>Steps\<close>

text \<open>From one world to a later one with mutations of one sort only; the checks of currentness are not used up.\<close>

definition steps :: "(string \<Rightarrow> bool) \<Rightarrow> PolicyIo \<Rightarrow> PolicyIo \<Rightarrow> bool" where
  "steps S w w' \<longleftrightarrow> (\<exists>t. trail w' = trail w @ t \<and> list_all S (mutations t)) \<and> currents w' = currents w"

definition does :: "(string \<Rightarrow> bool) \<Rightarrow> (PolicyIo \<Rightarrow> 'r \<times> PolicyIo) \<Rightarrow> bool" where
  "does S p \<longleftrightarrow> (\<forall>w. steps S w (snd (p w)))"

lemma steps_refl [simp, intro]: "steps S w w"
  by (simp add: steps_def)

lemma steps_trans [trans]: "steps S u v \<Longrightarrow> steps S v w \<Longrightarrow> steps S u w"
  by (force simp: steps_def)

lemma steps_mono: "steps S v w \<Longrightarrow> (\<And>m. S m \<Longrightarrow> T m) \<Longrightarrow> steps T v w"
  by (auto simp: steps_def list_all_iff)

lemma doesD: "does S p \<Longrightarrow> p w = (r, w') \<Longrightarrow> steps S w w'"
  by (metis does_def snd_conv)

lemma doesI: "(\<And>w r w'. p w = (r, w') \<Longrightarrow> steps S w w') \<Longrightarrow> does S p"
  by (metis does_def prod.collapse)

lemma does_mono: "does S p \<Longrightarrow> (\<And>m. S m \<Longrightarrow> T m) \<Longrightarrow> does T p"
  by (auto simp: does_def intro: steps_mono)

named_theorems doing

lemma does_succeed [doing]: "does S (succeed x)"
  by (simp add: does_def succeed_def)

lemma does_require [doing]: "does S (require b e)"
  by (simp add: does_def require_def)

lemma does_require_some [doing]: "does S (require_some m e)"
  by (simp add: does_def require_some_def)

lemma does_if [doing]: "(b \<Longrightarrow> does S p) \<Longrightarrow> (\<not> b \<Longrightarrow> does S q) \<Longrightarrow> does S (if b then p else q)"
  by simp

lemma does_and_then [doing]:
  assumes "does S p" "\<And>x. does S (k x)"
  shows "does S (and_then p k)"
proof (rule doesI)
  fix w r w' assume r: "and_then p k w = (r, w')"
  obtain a v where p: "p w = (a, v)" by fastforce
  have 1: "steps S w v" using assms(1) p by (rule doesD)
  show "steps S w w'"
  proof (cases a)
    case (Inr x)
    with r p have "k x v = (r, w')" by (simp add: and_then_def)
    then show ?thesis using 1 steps_trans doesD [OF assms(2)] by blast
  qed (use r p 1 in \<open>simp add: and_then_def\<close>)
qed

lemma does_given:
  assumes "\<And>x. m = Some x \<Longrightarrow> does S (k x)"
  shows "does S (and_then (require_some m e) k)"
  using assms by (cases m) (auto simp: does_def and_then_def require_some_def ok_or_def)

lemma does_effect: "does S p \<Longrightarrow> does S (effect p)"
  by (simp add: does_def effect_def case_prod_beta)

subsection \<open>Effects\<close>

lemma io_execute_steps:
  "io_execute c w = (a, w') \<Longrightarrow> trail w' = trail w @ [(c, a)] \<and> currents w' = currents w"
  by (auto simp: io_execute_def split: list.splits)

lemma root_command_kind:
  "root_observation cmd = Inr c \<Longrightarrow> c = \<lparr>command_kind = Observation, command = cmd\<rparr>"
  "root_mutation cmd = Inr c \<Longrightarrow> c = \<lparr>command_kind = Mutation, command = cmd\<rparr>"
  by (auto simp: root_observation_def root_mutation_def root_command_new_def split: if_splits)

definition observed_by :: "string \<Rightarrow> RootCommandResult \<Rightarrow> entry list \<Rightarrow> bool" where
  "observed_by cmd r t \<longleftrightarrow>
     t \<noteq> [] \<and> last t = (\<lparr>command_kind = Observation, command = cmd\<rparr>, Inr r) \<and> \<not> unanswered r \<and>
     (\<forall>k. foldl know k t = (if exit_code r = 0 then k(cmd \<mapsto> parse_lines (stdout r)) else k))"

lemma policy_observe_trail:
  assumes "policy_observe cmd w = (a, w')"
  shows "\<exists>t. trail w' = trail w @ t \<and> mutations t = [] \<and> currents w' = currents w \<and>
    (case a of Inl e \<Rightarrow> True | Inr r \<Rightarrow> observed_by cmd r t)"
  using assms
  by (auto simp: policy_observe_def mutations_def observed_by_def know_def complete_lines_def
      dest!: io_execute_steps root_command_kind split: sum.splits prod.splits if_splits)

lemma policy_observe_does [doing]: "does S (policy_observe cmd)"
proof (rule doesI)
  fix w a w' assume "policy_observe cmd w = (a, w')"
  from policy_observe_trail [OF this] show "steps S w w'" by (auto simp: steps_def)
qed

lemma policy_lines_does [doing]: "does S (policy_lines cmd)"
  using policy_observe_does [of S cmd] by (simp add: does_def policy_lines_def case_prod_beta split: sum.split)

lemma lines_does [doing]: "does S (lines cmd)"
  unfolding lines_def by (intro does_effect doing)

lemma observe_does [doing]: "does S (effect (policy_observe cmd))"
  by (intro does_effect doing)

lemma policy_mutate_does: "S cmd \<Longrightarrow> does S (policy_mutate cmd)"
  by (rule doesI)
    (auto simp: policy_mutate_def steps_def mutations_def dest!: io_execute_steps root_command_kind split: sum.splits prod.splits)

lemma mutate_does [doing]: "S cmd \<Longrightarrow> does S (mutate cmd)"
  unfolding mutate_def by (intro does_effect policy_mutate_does)

lemma mutate_all_does [doing]: "list_all S cs \<Longrightarrow> does S (mutate_all cs)"
  by (induction cs) (auto intro!: doing)

lemma raw_observation_does [doing]: "does S (raw_observation cmd)"
  by (rule doesI)
    (auto simp: raw_observation_def steps_def mutations_def dest!: io_execute_steps root_command_kind split: sum.splits)

lemma read_snapshot_does [doing]: "does S read_snapshot"
  unfolding read_snapshot_def by (intro doing)

subsection \<open>The base never permits\<close>

lemma closed_prefix: "starts_with m p \<Longrightarrow> length p = length ''ip -4 rule add'' \<Longrightarrow> p \<noteq> ''ip -4 rule add'' \<Longrightarrow> closed m"
  by (simp add: permits_def starts_with_def)

definition is_binary :: "string \<Rightarrow> bool" where
  "is_binary b \<longleftrightarrow> b = IPTABLES \<or> b = IP6TABLES"

lemma closed_table: "is_binary b \<Longrightarrow> closed (b @ '' -t mangle'' @ x)"
  by (rule closed_prefix [of _ "take 14 (b @ '' -t mangle'')"])
    (auto simp: is_binary_def IPTABLES_def IP6TABLES_def starts_with_def)

lemma closed_mangle [simp]:
  assumes "is_binary b"
  shows "closed (output_jump_delete c b)" "closed (stale_owner_jump_delete c b uid)" "closed (create_chain_command c b)"
    "closed (flush_chain_command c b)" "closed (output_jump_add c b)"
    "closed (legacy_selector_delete c b)" "closed (b @ '' -t mangle '' @ rule)"
  using closed_table [OF assms, of "'' -D OUTPUT -m owner --uid-owner '' @ show_u32 (product_uid c) @ '' -j '' @ chain_name c"]
    closed_table [OF assms, of "'' -D OUTPUT -m owner --uid-owner '' @ show_u32 uid @ '' -j '' @ chain_name c"]
    closed_table [OF assms, of "'' -N '' @ chain_name c"] closed_table [OF assms, of "'' -F '' @ chain_name c"]
    closed_table [OF assms, of "'' '' @ output_jump c"] closed_table [OF assms, of "'' -D'' @ legacy_selector c"]
    closed_table [OF assms, of "'' '' @ rule"]
  by (simp_all add: output_jump_delete_def stale_owner_jump_delete_def create_chain_command_def flush_chain_command_def
      output_jump_add_def legacy_selector_delete_def)

lemma closed_lookup_delete: "ipv4_lookup_delete c table = Some m \<Longrightarrow> closed m"
  by (rule closed_prefix [of _ "''ip -4 rule del''"])
    (auto simp: ipv4_lookup_delete_def lookup_command_def starts_with_def split: if_splits)

lemma closed_guard6: "ipv6_guard_add c = Some m \<Longrightarrow> closed m"
  by (rule closed_prefix [of _ "''ip -6 rule add''"]) (auto simp: ipv6_guard_add_def guard_command_def starts_with_def)

lemma closed_guard4:
  assumes "active_identity c = Some i" "i \<in> set (candidates c)" "ipv4_guard_add c = Some m"
  shows "closed m"
proof -
  let ?p = "show_u32 (guard_priority i)"
  let ?words = "[''ip'', ''-4'', ''rule'', ''add'', ''pref'', ?p, ''fwmark'', mark_spec i, ''unreachable'']"
  have m: "m = join_spaces ?words"
    using assms(1,3) by (auto simp: ipv4_guard_add_def guard_command_def)
  have p: "word_ok ?p" using plain_uid [of "guard_priority i"] by (simp add: plain_def)
  have "list_all word_ok ?words"
    using p plain_spec [OF candidate_facts(1) [OF assms(2)]]
    by (simp add: mark_spec_def plain_def) code_simp
  then have "split_whitespace m = ?words" unfolding m by (rule split_join)
  moreover have "CHR ''/'' \<in> set (mark_spec i)" by (simp add: mark_spec_def)
  then have "mark_spec i \<noteq> ''lookup''" by auto
  moreover have "?p \<noteq> ''lookup''"
  proof
    assume "?p = ''lookup''"
    moreover have "digits_value 10 0 ?p = Some (unat (guard_priority i))" by (simp add: show_u32_def digits_value_show)
    moreover have "digits_value 10 0 ''lookup'' = None" by code_simp
    ultimately show False by simp
  qed
  ultimately show ?thesis by (simp add: permits_def)
qed

lemma is_binary [simp]: "is_binary IPTABLES" "is_binary IP6TABLES"
  by (simp_all add: is_binary_def)

lemma delete_duplicate_jumps_steps:
  "is_binary b \<Longrightarrow> delete_duplicate_jumps c b now w = (r, w') \<Longrightarrow> steps closed w w'"
proof (induction c b now w arbitrary: r w' rule: delete_duplicate_jumps.induct)
  case (1 c b now w)
  have "does closed (policy_mutate (output_jump_delete c b))"
    by (rule policy_mutate_does) (use 1(2) in simp)
  note m = doesD [OF this]
  have l: "policy_lines (mangle_show b) v = (x, u) \<Longrightarrow> steps closed v u" for x v u
    by (rule doesD [OF policy_lines_does])
  show ?case
  proof (cases "output_jump_count c now \<le> 1")
    case True
    then show ?thesis using 1(3) by (simp add: delete_duplicate_jumps.simps [of c b now w])
  next
    case False
    obtain x v where x: "policy_mutate (output_jump_delete c b) w = (x, v)" by fastforce
    obtain y u where y: "policy_lines (mangle_show b) v = (y, u)" by fastforce
    have wu: "steps closed w u" using m [OF x] l [OF y] by (rule steps_trans)
    show ?thesis
    proof (cases "\<exists>f. x = Inr () \<and> y = Inr f")
      case True
      then obtain f where f: "x = Inr ()" "y = Inr f" by auto
      then have "steps closed u w'"
        using 1(1) [OF False x [symmetric] f(1) y [symmetric] f(2) 1(2)] 1(3) False x y
        by (simp add: delete_duplicate_jumps.simps [of c b now w])
      with wu show ?thesis by (rule steps_trans)
    next
      case no: False
      then show ?thesis using 1(3) False x y m [OF x] wu
        by (auto simp: delete_duplicate_jumps.simps [of c b now w] split: sum.splits if_splits)
    qed
  qed
qed

lemma delete_duplicate_jumps_does [doing]: "is_binary b \<Longrightarrow> does closed (delete_duplicate_jumps c b now)"
  by (rule doesI) (rule delete_duplicate_jumps_steps)

lemma chain_state_does [doing]: "does S (chain_state c ipv4 ls)"
  unfolding chain_state_def by (rule doing)

lemma ensure_mangle_family_does [doing]:
  assumes [simp]: "is_binary b"
  shows "does closed (ensure_mangle_family c b ipv4)"
  unfolding ensure_mangle_family_def publish_chain_def create_chain_def rebuild_chain_def attach_chain_def
  by (intro doing) (use closed_mangle(7) [OF assms] in \<open>simp_all add: list_all_iff\<close>)

lemma ensure_guard_does:
  assumes "active_identity c = Some i" "i \<in> set (candidates c)"
  shows "does closed (ensure_guard c ipv4)"
  unfolding ensure_guard_def
  by (intro does_given doing) (use closed_guard4 [OF assms] closed_guard6 in \<open>auto split: if_splits\<close>)

lemma remove_exact_rule_does [doing]: "S delete \<Longrightarrow> does S (remove_exact_rule check delete)"
proof -
  assume S: "S delete"
  have "does S (remove_exact_rule_loop n check delete)" for n
    by (induction n) (auto intro!: doing S)
  then show ?thesis by (simp add: remove_exact_rule_def)
qed

lemma delete_lookups_does [doing]:
  assumes "\<And>table m. ipv4_lookup_delete c table = Some m \<Longrightarrow> S m"
  shows "does S (delete_lookups c e tables)"
  by (induction tables) (auto intro!: does_given doing assms)

lemma remove_owned_ipv4_lookups_does:
  assumes "\<And>table m. ipv4_lookup_delete c table = Some m \<Longrightarrow> S m"
  shows "does S (remove_owned_ipv4_lookups c)"
proof -
  have "does S (remove_lookups_loop n c)" for n
    by (induction n) (auto simp: Let_def intro!: doing assms)
  then show ?thesis by (simp add: remove_owned_ipv4_lookups_def)
qed

lemma remove_lookups_closed: "does closed (remove_owned_ipv4_lookups c)"
  by (rule remove_owned_ipv4_lookups_does) (rule closed_lookup_delete)

lemma build_base_does:
  assumes "active_identity c = Some i" "i \<in> set (candidates c)"
  shows "does closed (build_base c initial)"
  unfolding build_base_def
  by (intro doing ensure_guard_does [OF assms] remove_lookups_closed) simp_all

lemma delete_stale_jumps_does [doing]: "is_binary b \<Longrightarrow> does closed (delete_stale_jumps c b uids)"
proof (induction uids)
  case (Cons uid uids)
  have m: "does closed (policy_mutate (stale_owner_jump_delete c b uid))"
    by (rule policy_mutate_does) (use Cons.prems in simp)
  show ?case
    by (rule doesI)
      (auto split: sum.splits prod.splits intro: steps_trans dest!: doesD [OF m] doesD [OF Cons.IH [OF Cons.prems]])
qed (simp add: does_def)

lemma io_generation_steps: "io_generation w = (g, w') \<Longrightarrow> steps S w w'"
  by (auto simp: io_generation_def steps_def split: list.splits)

lemma bootstrap_family_does:
  assumes "is_binary b"
  shows "does closed (bootstrap_family c b ipv4)"
proof (rule doesI)
  fix w r w' assume r: "bootstrap_family c b ipv4 w = (r, w')"
  note o = doesD [OF raw_observation_does] and d = doesD [OF delete_stale_jumps_does [OF assms]]
  obtain a v where a: "raw_observation (mangle_show b) w = (a, v)" by fastforce
  show "steps closed w w'"
    using r o [OF a, of closed]
    by (auto simp: bootstrap_family_def a Let_def intro: steps_trans dest!: o d
        split: option.splits prod.splits if_splits bool.splits)
qed

lemma probe_authority_keeps:
  assumes "probe_authority s w = ((authority, s'), w')"
  shows "steps closed w w'" "contract s' = contract s"
proof -
  note b = doesD [OF bootstrap_family_does [OF is_binary(1)]] doesD [OF bootstrap_family_does [OF is_binary(2)]]
  have boot: "bootstrap_stale_owner_jumps c v = (r, v') \<Longrightarrow> steps closed v v'" for c v r v'
    by (auto simp: bootstrap_stale_owner_jumps_def intro: steps_trans dest!: b split: prod.splits bool.splits)
  note o = doesD [OF raw_observation_does]
  have rules: "probe_rules t v = ((x, t'), v') \<Longrightarrow> steps closed v v' \<and> contract t' = contract t" for t v x t' v'
    by (auto simp: probe_rules_def intro: steps_trans dest!: boot o io_generation_steps
        split: sum.splits prod.splits bool.splits if_splits)
  have ident: "probe_identity t v = ((x, t'), v') \<Longrightarrow> steps closed v v' \<and> contract t' = contract t" for t v x t' v'
    by (auto simp: probe_identity_def intro: steps_trans dest!: rules o split: sum.splits prod.splits if_splits)
  show "steps closed w w'" "contract s' = contract s"
    using assms
    by (auto simp: probe_authority_def intro: steps_trans dest!: ident io_generation_steps
        split: option.splits prod.splits if_splits)
qed

subsection \<open>What an observation leaves behind\<close>

text \<open>No mutation, and the knowledge changed by a given function.\<close>

definition finds :: "((string \<rightharpoonup> string list) \<Rightarrow> (string \<rightharpoonup> string list)) \<Rightarrow> PolicyIo \<Rightarrow> PolicyIo \<Rightarrow> bool" where
  "finds f w w' \<longleftrightarrow>
     (\<exists>t. trail w' = trail w @ t \<and> mutations t = [] \<and> (\<forall>k. foldl know k t = f k)) \<and> currents w' = currents w"

lemma finds_trans: "finds f u v \<Longrightarrow> finds g v w \<Longrightarrow> finds (\<lambda>k. g (f k)) u w"
  by (force simp: finds_def)

lemma and_then_Inr: "and_then p k w = (Inr y, w') \<Longrightarrow> \<exists>x v. p w = (Inr x, v) \<and> k x v = (Inr y, w')"
  by (auto simp: and_then_def split: prod.splits sum.splits)

lemma effect_Inr: "effect p w = (Inr x, w') \<Longrightarrow> p w = (Inr x, w')"
  by (auto simp: effect_def map_err_def split: prod.splits sum.splits)

lemma observe_finds:
  assumes "effect (policy_observe cmd) w = (Inr r, w')"
  shows "finds (\<lambda>k. if exit_code r = 0 then k(cmd \<mapsto> parse_lines (stdout r)) else k) w w'"
  using policy_observe_trail [OF effect_Inr [OF assms]] by (auto simp: finds_def observed_by_def)

lemma lines_finds:
  assumes "lines cmd w = (Inr ls, w')"
  shows "finds (\<lambda>k. k(cmd \<mapsto> ls)) w w'"
proof -
  obtain r where "policy_observe cmd w = (Inr r, w')" "exit_code r = 0" "ls = parse_lines (stdout r)"
    using effect_Inr [OF assms [unfolded lines_def]]
    by (auto simp: policy_lines_def split: prod.splits sum.splits if_splits)
  then show ?thesis using policy_observe_trail [of cmd w "Inr r" w'] by (auto simp: finds_def observed_by_def)
qed

lemma shows_differ:
  "IPV4_RULE_SHOW \<noteq> IPV6_RULE_SHOW" "IPV4_RULE_SHOW \<noteq> mangle_show IPTABLES" "IPV4_RULE_SHOW \<noteq> mangle_show IP6TABLES"
  "IPV6_RULE_SHOW \<noteq> mangle_show IPTABLES" "IPV6_RULE_SHOW \<noteq> mangle_show IP6TABLES"
  "mangle_show IPTABLES \<noteq> mangle_show IP6TABLES"
  by code_simp+

lemma read_snapshot_finds:
  assumes "read_snapshot w = (Inr snap, w')"
  shows "\<exists>f. finds f w w' \<and> (\<forall>k. snapshot_in (f k) = Some snap)"
proof -
  obtain r4 w1 r6 w2 m4 w3 m6 where
    "lines IPV4_RULE_SHOW w = (Inr r4, w1)" "lines IPV6_RULE_SHOW w1 = (Inr r6, w2)"
    "lines (mangle_show IPTABLES) w2 = (Inr m4, w3)" "lines (mangle_show IP6TABLES) w3 = (Inr m6, w')"
    and snap: "snap = \<lparr>ipv4_rules = r4, ipv6_rules = r6, ipv4_mangle = m4, ipv6_mangle = m6\<rparr>"
    using assms unfolding read_snapshot_def by (auto simp: succeed_def dest!: and_then_Inr)
  then have "finds (\<lambda>k. k(IPV4_RULE_SHOW \<mapsto> r4, IPV6_RULE_SHOW \<mapsto> r6, mangle_show IPTABLES \<mapsto> m4,
      mangle_show IP6TABLES \<mapsto> m6)) w w'"
    by (auto dest!: lines_finds intro: finds_trans)
  then show ?thesis using shows_differ by (auto simp: snapshot_in_def snap)
qed

lemma discover_does: "does S (discover_validated_ipv4_table rules interface)"
proof -
  have "does S (matching_tables interface tables)" for tables
    by (induction tables) (auto intro!: doing)
  then show ?thesis
    unfolding discover_validated_ipv4_table_def by (intro doing) (auto intro!: doing split: list.split)
qed

lemma route_show_inj [simp]: "route_show a = route_show b \<longleftrightarrow> a = b"
  by (simp add: route_show_def)

definition default_known :: "string \<Rightarrow> (string \<rightharpoonup> string list) \<Rightarrow> string \<Rightarrow> bool" where
  "default_known interface k table =
     (case k (route_show table) of None \<Rightarrow> False | Some ls \<Rightarrow> route_has_default_on_interface ls interface)"

text \<open>Reading the tables leaves every other view as it was.\<close>

lemma matching_tables_finds:
  assumes "matching_tables interface tables w = (Inr ms, w')" "distinct tables"
  shows "\<exists>f. finds f w w' \<and> set ms \<subseteq> set tables \<and>
     (\<forall>k. list_all (default_known interface (f k)) ms \<and> (\<forall>cmd. cmd \<notin> route_show ` set tables \<longrightarrow> f k cmd = k cmd))"
  using assms
proof (induction tables arbitrary: w ms)
  case Nil
  then show ?case by (auto simp: succeed_def finds_def intro!: exI [of _ "\<lambda>k. k"])
next
  case (Cons table tables)
  obtain r v rest where r: "effect (policy_observe (route_show table)) w = (Inr r, v)"
    and rest: "matching_tables interface tables v = (Inr rest, w')"
    and ms: "ms = (if exit_code r = 0 \<and> route_has_default_on_interface (parse_lines (stdout r)) interface
                   then table # rest else rest)"
    using Cons.prems(1) by (auto simp: succeed_def dest!: and_then_Inr)
  obtain f where f: "finds f v w'" "set rest \<subseteq> set tables"
    "\<And>k. list_all (default_known interface (f k)) rest"
    "\<And>k cmd. cmd \<notin> route_show ` set tables \<Longrightarrow> f k cmd = k cmd"
    using Cons.IH [OF rest] Cons.prems(2) by auto
  have fresh: "route_show table \<notin> route_show ` set tables" using Cons.prems(2) by auto
  define g where "g = (\<lambda>k. f (if exit_code r = 0 then k(route_show table \<mapsto> parse_lines (stdout r)) else k))"
  have "finds g w w'" unfolding g_def by (rule finds_trans [OF observe_finds [OF r] f(1)])
  moreover have "list_all (default_known interface (g k)) ms" for k
    using f(3) by (simp add: ms g_def default_known_def f(4) [OF fresh])
  moreover have "g k cmd = k cmd" if "cmd \<notin> route_show ` set (table # tables)" for k cmd
    using that f(4) by (auto simp: g_def)
  ultimately show ?case using f(2) by (intro exI [of _ g]) (auto simp: ms)
qed

lemma referenced_tables_distinct: "distinct (referenced_tables ls)"
proof -
  have "distinct ts \<Longrightarrow> distinct (push_table t ts)" for t ts
    by (auto simp: push_table_def push_new_def split: option.splits)
  then have "distinct ts \<Longrightarrow> distinct (fold (\<lambda>line tables. let tokens = split_whitespace line
        in push_table (token_after tokens ''table'') (push_table (token_after tokens ''lookup'') tables)) ls ts)" for ts
    by (induction ls arbitrary: ts) (auto simp: Let_def)
  then show ?thesis by (simp add: referenced_tables_def)
qed

lemma not_route_show:
  "IPV4_RULE_SHOW \<notin> range route_show" "IPV6_RULE_SHOW \<notin> range route_show"
  "mangle_show IPTABLES \<notin> range route_show" "mangle_show IP6TABLES \<notin> range route_show"
  by (auto simp: route_show_def IPV4_RULE_SHOW_def IPV6_RULE_SHOW_def mangle_show_def IPTABLES_def IP6TABLES_def)

lemma discover_finds:
  assumes "discover_validated_ipv4_table rules interface w = (Inr table, w')"
  shows "\<exists>f. finds f w w' \<and> table \<in> set (referenced_tables rules) \<and>
     (\<forall>k. default_known interface (f k) table \<and> snapshot_in (f k) = snapshot_in k)"
proof -
  have ms: "matching_tables interface (referenced_tables rules) w = (Inr [table], w')"
    using assms unfolding discover_validated_ipv4_table_def
    by (auto simp: succeed_def require_some_def ok_or_def split: list.splits dest!: and_then_Inr)
  obtain f where f: "finds f w w'" "table \<in> set (referenced_tables rules)"
    "\<And>k. default_known interface (f k) table"
    "\<And>k cmd. cmd \<notin> route_show ` set (referenced_tables rules) \<Longrightarrow> f k cmd = k cmd"
    using matching_tables_finds [OF ms referenced_tables_distinct] by auto
  have out: "cmd \<notin> range route_show \<Longrightarrow> f k cmd = k cmd" for k cmd using f(4) by blast
  have "snapshot_in (f k) = snapshot_in k" for k
    by (simp add: snapshot_in_def out not_route_show)
  with f(1-3) show ?thesis by blast
qed

subsection \<open>The permitting lookup\<close>

definition lookup_change :: "RootPolicyContract \<Rightarrow> string \<Rightarrow> string \<Rightarrow> bool" where
  "lookup_change c table m \<longleftrightarrow> ipv4_lookup_add c table = Some m \<or> (\<exists>t. ipv4_lookup_delete c t = Some m)"

definition lookup_known :: "RootPolicyContract \<Rightarrow> string \<Rightarrow> (string \<rightharpoonup> string list) \<Rightarrow> bool" where
  "lookup_known c table k =
     (case k IPV4_RULE_SHOW of None \<Rightarrow> False | Some rules \<Rightarrow> table \<in> set (owned_ipv4_lookup_tables c rules))"

definition route_checked :: "RootPolicyContract \<Rightarrow> string \<Rightarrow> entry \<Rightarrow> bool" where
  "route_checked c interface e =
     (case (active_identity c, snd e) of
        (Some identity, Inr r) \<Rightarrow>
          fst e = \<lparr>command_kind = Observation, command = route_command identity\<rparr> \<and>
          \<not> unanswered r \<and> exit_code r = 0 \<and> route_get_uses_interface (stdout r) interface
      | _ \<Rightarrow> False)"

lemma replace_ipv4_lookup_does: "does (lookup_change c table) (replace_ipv4_lookup c table)"
  unfolding replace_ipv4_lookup_def
  by (intro doing does_given) (auto simp: lookup_change_def)

lemma replace_ipv4_lookup_known:
  assumes "replace_ipv4_lookup c table w = (Inr (), w')"
  shows "\<exists>t. trail w' = trail w @ t \<and> (\<forall>k. lookup_known c table (foldl know k t))"
proof -
  let ?read = "\<lambda>v. \<exists>rules. lines IPV4_RULE_SHOW v = (Inr rules, w') \<and> table \<in> set (owned_ipv4_lookup_tables c rules)"
  let ?S = "lookup_change c table"
  obtain rules w1 u w2 seen w3 where 1: "lines IPV4_RULE_SHOW w = (Inr rules, w1)"
    "delete_lookups c LookupRuleCreationFailed (filter (\<lambda>t. t \<noteq> table) (owned_ipv4_lookup_tables c rules)) w1 = (Inr u, w2)"
    and 2: "lines IPV4_RULE_SHOW w2 = (Inr seen, w3)"
    and 3: "(if table \<in> set (owned_ipv4_lookup_tables c seen) then succeed ()
       else and_then (require_some (ipv4_lookup_add c table) LookupRuleCreationFailed) (\<lambda>add.
            and_then (mutate add) (\<lambda>_.
            and_then (lines IPV4_RULE_SHOW) (\<lambda>after_add.
            require (table \<in> set (owned_ipv4_lookup_tables c after_add)) LookupRuleCreationFailed)))) w3 = (Inr (), w')"
    using assms unfolding replace_ipv4_lookup_def by (auto dest!: and_then_Inr)
  have delete: "does ?S (delete_lookups c e ts)" for e ts by (intro doing) (auto simp: lookup_change_def)
  have w2: "steps ?S w w2" by (rule steps_trans [OF doesD [OF lines_does 1(1)] doesD [OF delete 1(2)]])
  have "\<exists>v. steps ?S w v \<and> ?read v"
  proof (cases "table \<in> set (owned_ipv4_lookup_tables c seen)")
    case True
    then show ?thesis using 2 3 w2 by (auto simp: succeed_def)
  next
    case False
    then obtain add x v where add: "ipv4_lookup_add c table = Some add" "mutate add w3 = (Inr x, v)" "?read v"
      using 3 by (cases "ipv4_lookup_add c table")
        (auto simp: require_some_def require_def split: if_splits dest!: and_then_Inr)
    have "steps ?S w3 v" by (rule doesD [OF mutate_does add(2)]) (simp add: lookup_change_def add(1))
    then have "steps ?S w v" by (rule steps_trans [OF steps_trans [OF w2 doesD [OF lines_does 2]]])
    then show ?thesis using add(3) by blast
  qed
  then obtain v rules where v: "steps ?S w v" "finds (\<lambda>k. k(IPV4_RULE_SHOW \<mapsto> rules)) v w'"
    "table \<in> set (owned_ipv4_lookup_tables c rules)"
    by (auto dest!: lines_finds)
  then obtain t u where "trail w' = trail w @ t @ u" "\<And>k. foldl know k u = k(IPV4_RULE_SHOW \<mapsto> rules)"
    by (auto simp: steps_def finds_def)
  then show ?thesis using v(3) by (intro exI [of _ "t @ u"]) (simp add: lookup_known_def)
qed

lemma apply_lookup_steps:
  assumes "apply_lookup c interface table w = (r, w')"
  shows "\<exists>t. trail w' = trail w @ t \<and> list_all (lookup_change c table) (mutations t) \<and>
    (r = Enforced \<longrightarrow> t \<noteq> [] \<and> route_checked c interface (last t) \<and> (\<forall>k. lookup_known c table (foldl know k t)))"
proof -
  let ?S = "lookup_change c table"
  obtain a v where a: "replace_ipv4_lookup c table w = (a, v)" by fastforce
  have wv: "steps ?S w v" by (rule doesD [OF replace_ipv4_lookup_does a])
  have "does ?S (remove_owned_ipv4_lookups c)"
    by (rule remove_owned_ipv4_lookups_does) (auto simp: lookup_change_def)
  then have drop: "steps ?S u (snd (remove_owned_ipv4_lookups c u))" for u by (simp add: does_def)
  have ww': "steps ?S w w'"
    using assms wv a drop
    by (auto simp: apply_lookup_def intro: steps_trans dest!: doesD [OF policy_observe_does]
        split: sum.splits option.splits prod.splits if_splits)
  show ?thesis
  proof (cases "r = Enforced")
    case False
    then show ?thesis using ww' by (auto simp: steps_def)
  next
    case True
    then obtain i route where e: "a = Inr ()" "active_identity c = Some i"
      "policy_observe (route_command i) v = (Inr route, w')" "exit_code route = 0"
      "route_get_uses_interface (stdout route) interface"
      using assms a by (auto simp: apply_lookup_def split: sum.splits option.splits prod.splits if_splits)
    obtain t where t: "trail v = trail w @ t" "\<And>k. lookup_known c table (foldl know k t)"
      using replace_ipv4_lookup_known a e(1) by blast
    obtain u where u: "trail w' = trail v @ u" "observed_by (route_command i) route u"
      using policy_observe_trail [OF e(3)] by auto
    have "route_command i \<noteq> IPV4_RULE_SHOW" by (simp add: route_command_def IPV4_RULE_SHOW_def)
    then have "lookup_known c table (foldl know k (t @ u))" for k
      using t(2) u(2) by (simp add: observed_by_def lookup_known_def)
    moreover have "route_checked c interface (last (t @ u))" "t @ u \<noteq> []"
      using u(2) e by (auto simp: observed_by_def route_checked_def)
    moreover have "list_all ?S (mutations (t @ u))" using ww' t(1) u(1) by (auto simp: steps_def)
    ultimately show ?thesis using t(1) u(1) by (metis append.assoc)
  qed
qed

subsection \<open>The transaction\<close>

definition base_verified :: "RootPolicyContract \<Rightarrow> string \<Rightarrow> string \<Rightarrow> (string \<rightharpoonup> string list) \<Rightarrow> bool" where
  "base_verified c interface table k =
     (case snapshot_in k of
        None \<Rightarrow> False
      | Some snapshot \<Rightarrow>
          verify_fail_closed_base c snapshot = Inr () \<and> table \<in> set (referenced_tables (ipv4_rules snapshot)) \<and>
          default_known interface k table)"

lemma is_current_cases:
  "is_current w = (b, w') \<Longrightarrow> trail w' = trail w \<and> (b \<longrightarrow> currents w = True # currents w')"
  by (auto simp: is_current_def split: list.splits)

text \<open>A suffix of the trail that opens: the base before it is verified, and it changes nothing but lookups.\<close>

definition opens ::
    "RootPolicyContract \<Rightarrow> string option \<Rightarrow> (string \<rightharpoonup> string list) \<Rightarrow> entry list \<Rightarrow> bool \<Rightarrow> bool" where
  "opens c interface_name k applied enforced \<longleftrightarrow>
     (\<exists>interface table. interface_name = Some interface \<and> is_safe_interface_name interface \<and>
        base_verified c interface table k \<and> list_all (lookup_change c table) (mutations applied) \<and>
        (enforced \<longrightarrow> applied \<noteq> [] \<and> route_checked c interface (last applied) \<and> lookup_known c table (foldl know k applied)))"

lemma admit_opens:
  assumes "admit c admitted interface_name snapshot w = ((r, superseded), w')"
    and verified: "verify_fail_closed_base c snapshot = Inr ()"
  shows "\<exists>t applied. trail w' = trail w @ t @ applied \<and> mutations t = [] \<and>
    (applied = [] \<and> r \<noteq> Enforced \<or>
     admitted \<and> (\<exists>later. currents w = True # later) \<and>
     (\<forall>k. snapshot_in k = Some snapshot \<longrightarrow> opens c interface_name (foldl know k t) applied (r = Enforced)))"
proof (cases "\<exists>interface. admitted \<and> interface_name = Some interface \<and> is_safe_interface_name interface")
  case False
  then show ?thesis using assms(1) by (force simp: admit_def split: option.splits if_splits)
next
  case True
  then obtain interface where i: "admitted" "interface_name = Some interface" "is_safe_interface_name interface" by auto
  obtain a v where a: "discover_validated_ipv4_table (ipv4_rules snapshot) interface w = (a, v)" by fastforce
  show ?thesis
  proof (cases a)
    case (Inl f)
    have "does (\<lambda>_. False) (discover_validated_ipv4_table (ipv4_rules snapshot) interface)" by (rule discover_does)
    from doesD [OF this a] obtain t where "trail v = trail w @ t" "mutations t = []"
      by (auto simp: steps_def list_all_iff)
    then show ?thesis using assms(1) a i Inl by (auto simp: admit_def)
  next
    case (Inr table)
    obtain f where f: "finds f w v" "table \<in> set (referenced_tables (ipv4_rules snapshot))"
      "\<And>k. default_known interface (f k) table" "\<And>k. snapshot_in (f k) = snapshot_in k"
      using discover_finds a Inr by blast
    then obtain t where t: "trail v = trail w @ t" "mutations t = []" "\<And>k. foldl know k t = f k" "currents v = currents w"
      by (auto simp: finds_def)
    obtain b u where b: "is_current v = (b, u)" by fastforce
    note cur = is_current_cases [OF b]
    show ?thesis
    proof (cases b)
      case False
      then show ?thesis using assms(1) a i Inr b cur t by (auto simp: admit_def)
    next
      case True
      then have "apply_lookup c interface table u = (r, w')"
        using assms(1) a i Inr b by (auto simp: admit_def split: prod.splits)
      from apply_lookup_steps [OF this] obtain applied where p: "trail w' = trail u @ applied"
        "list_all (lookup_change c table) (mutations applied)"
        "r = Enforced \<Longrightarrow> applied \<noteq> [] \<and> route_checked c interface (last applied) \<and> (\<forall>k. lookup_known c table (foldl know k applied))"
        by blast
      have "opens c interface_name (foldl know k t) applied (r = Enforced)" if "snapshot_in k = Some snapshot" for k
        using that f(2-4) p(2,3) i verified unfolding opens_def base_verified_def t(3) by auto
      moreover have "trail w' = trail w @ t @ applied" "currents w = True # currents u"
        using t p(1) cur True by simp_all
      ultimately show ?thesis using t(2) i(1) by blast
    qed
  qed
qed

lemma establish_opens:
  assumes "establish c initial admitted interface_name w = ((r, superseded), w')"
    and c: "active_identity c = Some i" "i \<in> set (candidates c)"
  shows "\<exists>base applied. trail w' = trail w @ base @ applied \<and> list_all closed (mutations base) \<and>
    (applied = [] \<and> r \<noteq> Enforced \<or>
     admitted \<and> (\<exists>later. currents w = True # True # later) \<and>
     (\<forall>k. opens c interface_name (foldl know k base) applied (r = Enforced)))"
proof -
  obtain a v where a: "build_base c initial w = (a, v)" by fastforce
  obtain b u where b: "read_snapshot v = (b, u)" by fastforce
  have wv: "steps closed w v" by (rule doesD [OF build_base_does [OF c] a])
  have wu: "steps closed w u" by (rule steps_trans [OF wv doesD [OF read_snapshot_does b]])
  show ?thesis
  proof (cases "\<exists>snapshot x. a = Inr () \<and> b = Inr snapshot \<and> verify_fail_closed_base c snapshot = Inr () \<and>
      is_current u = (True, x)")
    case False
    then have "r \<noteq> Enforced \<and> (\<exists>t. trail w' = trail w @ t \<and> list_all closed (mutations t))"
      using assms(1) a b wv wu
      by (auto simp: establish_def steps_def dest!: is_current_cases split: sum.splits prod.splits bool.splits if_splits)
    then show ?thesis by (metis append_Nil2)
  next
    case True
    then obtain snapshot x where s: "a = Inr ()" "b = Inr snapshot" "verify_fail_closed_base c snapshot = Inr ()"
      "is_current u = (True, x)" by auto
    then have "admit c admitted interface_name snapshot x = ((r, superseded), w')"
      using assms(1) a b by (simp add: establish_def)
    from admit_opens [OF this s(3)] obtain t applied where t: "trail w' = trail x @ t @ applied" "mutations t = []"
      and opens: "applied = [] \<and> r \<noteq> Enforced \<or> admitted \<and> (\<exists>later. currents x = True # later) \<and>
       (\<forall>k. snapshot_in k = Some snapshot \<longrightarrow> opens c interface_name (foldl know k t) applied (r = Enforced))"
      by blast
    obtain f where f: "finds f v u" "\<And>k. snapshot_in (f k) = Some snapshot"
      using read_snapshot_finds b s(2) by blast
    then obtain y z where y: "trail v = trail w @ y" "list_all closed (mutations y)" "trail u = trail v @ z"
      "mutations z = []" "\<And>k. foldl know k z = f k"
      using wv by (auto simp: steps_def finds_def)
    have cur: "trail x = trail u" "currents w = True # currents x"
      using is_current_cases [OF s(4)] wu by (auto simp: steps_def)
    have "opens c interface_name (foldl know k (y @ z @ t)) applied (r = Enforced)"
      if "\<forall>k. snapshot_in k = Some snapshot \<longrightarrow> opens c interface_name (foldl know k t) applied (r = Enforced)" for k
      using that f(2) y(5) by simp
    then show ?thesis
      using t y(1-4) cur opens by (intro exI [of _ "y @ z @ t"] exI [of _ applied]) auto
  qed
qed

lemma resolve_selected:
  assumes "resolve_identity c snapshot = (Selected i, c')"
  shows "active_identity c' = Some i" "i \<in> set (candidates c')"
proof -
  have loop: "active_identity c' = Some i \<and> i \<in> set cs \<and> candidates c' = candidates c"
    if "resolve_loop c snapshot cs = (Selected i, c')" for cs c
    using that by (induction cs arbitrary: c) (auto simp: Let_def candidates_def split: if_splits)
  have "active_identity c' = Some i \<and> i \<in> set (candidates c')"
    using assms
    by (auto simp: resolve_identity_def compatible_candidates_def Let_def split: if_splits option.splits dest!: loop)
  then show "active_identity c' = Some i" "i \<in> set (candidates c')" by auto
qed

lemma reconcile_authorized_opens:
  assumes "reconcile_authorized c admitted interface_name w = (((r, superseded), c'), w')"
  shows "\<exists>base applied. trail w' = trail w @ base @ applied \<and> list_all closed (mutations base) \<and>
    (applied = [] \<and> r \<noteq> Enforced \<or>
     admitted \<and> (\<exists>later. currents w = True # True # True # later) \<and>
     (\<forall>k. opens c' interface_name (foldl know k base) applied (r = Enforced)))"
proof -
  obtain a v where a: "read_snapshot w = (a, v)" by fastforce
  have wv: "steps closed w v" by (rule doesD [OF read_snapshot_does a])
  show ?thesis
  proof (cases "\<exists>initial i u. a = Inr initial \<and> resolve_identity c initial = (Selected i, c') \<and> is_current v = (True, u)")
    case False
    then have "r \<noteq> Enforced \<and> (\<exists>t. trail w' = trail w @ t \<and> list_all closed (mutations t))"
      using assms a wv
      by (auto simp: reconcile_authorized_def steps_def dest!: is_current_cases doesD [OF remove_lookups_closed]
          split: sum.splits prod.splits bool.splits if_splits PolicyIdentityResolution.splits)
    then show ?thesis by (metis append_Nil2)
  next
    case True
    then obtain initial i u where i: "a = Inr initial" "resolve_identity c initial = (Selected i, c')" "is_current v = (True, u)"
      by blast
    then have "establish c' initial admitted interface_name u = ((r, superseded), w')"
      using assms a by (auto simp: reconcile_authorized_def split: prod.splits)
    from establish_opens [OF this resolve_selected [OF i(2)]] obtain base applied where
      b: "trail w' = trail u @ base @ applied" "list_all closed (mutations base)"
        "applied = [] \<and> r \<noteq> Enforced \<or> admitted \<and> (\<exists>later. currents u = True # True # later) \<and>
         (\<forall>k. opens c' interface_name (foldl know k base) applied (r = Enforced))"
      by blast
    obtain t where t: "trail u = trail w @ t" "list_all closed (mutations t)" "currents w = True # currents u"
      using wv is_current_cases [OF i(3)] by (auto simp: steps_def)
    show ?thesis using b t by (intro exI [of _ "t @ base"] exI [of _ applied]) auto
  qed
qed

lemma reconcile_opens:
  assumes "reconcile_if_current s admitted interface_name w = ((outcome, s'), w')"
  shows "\<exists>base applied. trail w' = trail w @ base @ applied \<and> list_all closed (mutations base) \<and>
    (applied = [] \<and> outcome \<noteq> Completed Enforced \<or>
     admitted \<and> take 5 (currents w) = replicate 5 True \<and>
     opens (contract s') interface_name (known base) applied (outcome = Completed Enforced))"
proof -
  obtain b0 w0 where b0: "is_current w = (b0, w0)" by fastforce
  obtain authority s1 w1 where p: "probe_authority s w0 = ((authority, s1), w1)" by (metis surj_pair)
  obtain b1 w2 where b1: "is_current w1 = (b1, w2)" by fastforce
  obtain r superseded c w3 where r: "reconcile_authorized (contract s1) admitted interface_name w2 = (((r, superseded), c), w3)"
    by (metis surj_pair)
  have cur: "trail w0 = trail w" "b0 \<Longrightarrow> currents w = True # currents w0" "trail w2 = trail w1" "b1 \<Longrightarrow> currents w1 = True # currents w2"
    using is_current_cases [OF b0] is_current_cases [OF b1] by auto
  obtain t where t: "trail w1 = trail w0 @ t" "list_all closed (mutations t)" "currents w1 = currents w0"
    using probe_authority_keeps(1) [OF p] by (auto simp: steps_def)
  show ?thesis
  proof (cases "b0 \<and> authority = Ready \<and> b1")
    case False
    then have "outcome \<noteq> Completed Enforced \<and> (trail w' = trail w \<or> trail w' = trail w @ t)"
      using assms b0 p b1 cur t(1) by (auto simp: reconcile_if_current_def split: if_splits bool.splits)
    then have "outcome \<noteq> Completed Enforced \<and> (\<exists>u. trail w' = trail w @ u \<and> list_all closed (mutations u))"
      using t(2) by (auto intro: exI [of _ "[]"])
    then show ?thesis by (metis append_Nil2)
  next
    case True
    then have out: "outcome = (if superseded then Superseded else Completed r)" "s' = s1\<lparr>contract := c\<rparr>" "w' = w3"
      using assms b0 p b1 r by (auto simp: reconcile_if_current_def)
    obtain base applied where b: "trail w3 = trail w2 @ base @ applied" "list_all closed (mutations base)"
      "applied = [] \<and> r \<noteq> Enforced \<or> admitted \<and> (\<exists>later. currents w2 = True # True # True # later) \<and>
         (\<forall>k. opens c interface_name (foldl know k base) applied (r = Enforced))"
      using reconcile_authorized_opens [OF r] by blast
    have weak: "opens c interface_name k applied (r = Enforced) \<Longrightarrow> opens c interface_name k applied (outcome = Completed Enforced)" for k
      by (auto simp: opens_def out)
    have cw: "currents w = True # True # currents w2" using cur(2,4) t(3) True by simp
    have "trail w' = trail w @ (t @ base) @ applied" "list_all closed (mutations (t @ base))"
      using b(1,2) t(1,2) cur out(3) by simp_all
    moreover have "applied = [] \<and> outcome \<noteq> Completed Enforced \<or>
      admitted \<and> take 5 (currents w) = replicate 5 True \<and>
      opens (contract s') interface_name (known (t @ base)) applied (outcome = Completed Enforced)"
      using b(3) cw out(1,2) weak by (auto simp: known_def numeral_eq_Suc)
    ultimately show ?thesis by blast
  qed
qed

end
