(* ===== verification/Root_Policy_Runs.thy ===== *)
theory Root_Policy_Runs
  imports Root_Policy_Transaction
begin

text \<open>
  A whole run of the root-policy transaction, over the model of
  \<open>src/crates/runtime/src/root_policy_runtime.rs\<close>: on a device whose tables already hold the product's
  fail-closed lines, an admitted owner is let out with one mutation, and the properties of the transaction at
  this run.
\<close>

definition sendable :: "string \<Rightarrow> bool" where
  "sendable cmd \<longleftrightarrow> cmd \<noteq> [] \<and> list_all (\<lambda>c. c \<noteq> LF \<and> c \<noteq> CR \<and> c \<noteq> CHR 0x00) cmd"

abbreviation observation_of :: "string \<Rightarrow> RootCommand" where
  "observation_of cmd \<equiv> \<lparr>command_kind = Observation, command = cmd\<rparr>"

abbreviation mutation_of :: "string \<Rightarrow> RootCommand" where
  "mutation_of cmd \<equiv> \<lparr>command_kind = Mutation, command = cmd\<rparr>"

lemma sendable_new: "sendable cmd \<Longrightarrow> root_command_new kind cmd = Inr \<lparr>command_kind = kind, command = cmd\<rparr>"
  by (auto simp: root_command_new_def sendable_def list_all_iff)

lemma sendable_append: "sendable a \<Longrightarrow> list_all (\<lambda>c. c \<noteq> LF \<and> c \<noteq> CR \<and> c \<noteq> CHR 0x00) b \<Longrightarrow> sendable (a @ b)"
  by (simp add: sendable_def)

definition answered :: "RootAnswer \<Rightarrow> RootCommandResult \<Rightarrow> bool" where
  "answered a r \<longleftrightarrow> a = Inr r \<and> \<not> unanswered r"

lemma policy_observe_run:
  "sendable cmd \<Longrightarrow> answered a r \<Longrightarrow>
   policy_observe cmd \<lparr>replies = a # rest, generations = g, currents = b, trail = t\<rparr> =
     (Inr r, \<lparr>replies = rest, generations = g, currents = b, trail = t @ [(observation_of cmd, a)]\<rparr>)"
  by (auto simp: policy_observe_def root_observation_def sendable_new io_execute_def answered_def)

lemma observe_run:
  "sendable cmd \<Longrightarrow> answered a r \<Longrightarrow>
   effect (policy_observe cmd) \<lparr>replies = a # rest, generations = g, currents = b, trail = t\<rparr> =
     (Inr r, \<lparr>replies = rest, generations = g, currents = b, trail = t @ [(observation_of cmd, a)]\<rparr>)"
  by (simp add: effect_def policy_observe_run map_err_def)

lemma lines_run:
  assumes "sendable cmd" "complete_lines a = Some ls"
  shows "lines cmd \<lparr>replies = a # rest, generations = g, currents = b, trail = t\<rparr> =
     (Inr ls, \<lparr>replies = rest, generations = g, currents = b, trail = t @ [(observation_of cmd, a)]\<rparr>)"
proof -
  obtain r where "answered a r" "exit_code r = 0" "ls = parse_lines (stdout r)"
    using assms(2) by (auto simp: complete_lines_def answered_def split: sum.splits if_splits)
  then show ?thesis by (simp add: lines_def effect_def policy_lines_def policy_observe_run assms(1) map_err_def)
qed

lemma mutate_run:
  "sendable cmd \<Longrightarrow> answered a r \<Longrightarrow> exit_code r = 0 \<Longrightarrow>
   mutate cmd \<lparr>replies = a # rest, generations = g, currents = b, trail = t\<rparr> =
     (Inr (), \<lparr>replies = rest, generations = g, currents = b, trail = t @ [(mutation_of cmd, a)]\<rparr>)"
  by (auto simp: mutate_def effect_def policy_mutate_def root_mutation_def sendable_new io_execute_def answered_def map_err_def)

lemma current_run:
  "is_current \<lparr>replies = a, generations = g, currents = x # b, trail = t\<rparr> =
     (x, \<lparr>replies = a, generations = g, currents = b, trail = t\<rparr>)"
  by (simp add: is_current_def)

subsection \<open>The commands can be sent\<close>

lemma visible_sendable: "word_ok s \<Longrightarrow> sendable s"
  by (auto simp: word_ok_def sendable_def list_all_iff visible_def byte_of_def)

lemma sendable_rest: "sendable s \<Longrightarrow> list_all (\<lambda>c. c \<noteq> LF \<and> c \<noteq> CR \<and> c \<noteq> CHR 0x00) s"
  by (simp add: sendable_def)

lemma table_sendable: "is_safe_table_token t \<Longrightarrow> sendable t"
  by (auto simp: is_safe_table_token_def sendable_def list_all_iff as_bytes_def token_byte_def byte_of_def
      is_ascii_alphanumeric_def)

lemma sendable_shows:
  "sendable IPV4_RULE_SHOW" "sendable IPV6_RULE_SHOW" "sendable (mangle_show IPTABLES)" "sendable (mangle_show IP6TABLES)"
  by (simp_all add: sendable_def IPV4_RULE_SHOW_def IPV6_RULE_SHOW_def mangle_show_def IPTABLES_def IP6TABLES_def)

lemma candidate_sendable: "i \<in> set (candidates c) \<Longrightarrow> sendable (mark_hex i)"
  using candidate_facts(1) by (auto simp: plain_def intro: visible_sendable)

lemma uid_sendable: "sendable (show_u32 n)"
  using plain_uid by (auto simp: plain_def intro: visible_sendable)

lemma sendable_commands:
  "is_safe_table_token t \<Longrightarrow> sendable (route_show t)"
  "i \<in> set (candidates c) \<Longrightarrow> sendable (route_command i)"
  "i \<in> set (candidates c) \<Longrightarrow> is_safe_table_token t \<Longrightarrow> sendable (lookup_command ''ip -4 rule add'' t i)"
  using sendable_rest [OF table_sendable] sendable_rest [OF candidate_sendable] sendable_rest [OF uid_sendable]
  by (simp_all add: sendable_def route_show_def route_command_def lookup_command_def mark_spec_def)

lemma legacy_sendable: "is_binary b \<Longrightarrow> sendable (legacy_selector_check c b)"
proof -
  assume b: "is_binary b"
  have "candidates c ! 0 \<in> set (candidates c)"
    by (simp add: candidates_def RELEASE_POLICY_CANDIDATES_def DEBUG_POLICY_CANDIDATES_def split: RootPolicyNamespace.split)
  from sendable_rest [OF candidate_sendable [OF this]] sendable_rest [OF uid_sendable [of "product_uid c"]] b show ?thesis
    by (auto simp: sendable_def legacy_selector_check_def legacy_selector_def legacy_mark_hex_def is_binary_def
        IPTABLES_def IP6TABLES_def)
qed

subsection \<open>A prepared device\<close>

text \<open>The answers of a device that already holds the base: the four views, the two missing selectors, the
  four views again, the routes of the one table, the rules twice, the accepted rule, the rules with it and the
  route of the mark.\<close>

record Device =
  views :: "RootAnswer list"
  missing :: "RootAnswer list"
  default_routes :: RootAnswer
  accepted :: RootAnswer
  rules_after :: RootAnswer
  marked_route :: RootAnswer

definition script :: "Device \<Rightarrow> RootAnswer list" where
  "script d =
     views d @ missing d @ views d @
     [default_routes d, views d ! 0, views d ! 0, accepted d, rules_after d, marked_route d]"

definition shows_snapshot :: "RootAnswer list \<Rightarrow> RootPolicySnapshot \<Rightarrow> bool" where
  "shows_snapshot as p \<longleftrightarrow>
     map complete_lines as = map Some [ipv4_rules p, ipv6_rules p, ipv4_mangle p, ipv6_mangle p]"

definition answer_such :: "(RootCommandResult \<Rightarrow> bool) \<Rightarrow> RootAnswer \<Rightarrow> bool" where
  "answer_such P a = (case a of Inl e \<Rightarrow> False | Inr r \<Rightarrow> \<not> unanswered r \<and> P r)"

definition prepared :: "RootPolicyContract \<Rightarrow> PolicyIdentity \<Rightarrow> string \<Rightarrow> string \<Rightarrow> RootPolicySnapshot \<Rightarrow> Device \<Rightarrow> bool" where
  "prepared c i interface table p d \<longleftrightarrow>
     shows_snapshot (views d) p \<and> length (missing d) = 2 \<and>
     list_all (answer_such (\<lambda>r. exit_code r \<noteq> 0)) (missing d) \<and>
     answer_such (\<lambda>r. exit_code r = 0 \<and> route_has_default_on_interface (parse_lines (stdout r)) interface) (default_routes d) \<and>
     answer_such (\<lambda>r. exit_code r = 0) (accepted d) \<and>
     answer_such (\<lambda>r. exit_code r = 0 \<and>
       table \<in> set (owned_ipv4_lookup_tables (c\<lparr>active_identity := Some i\<rparr>) (parse_lines (stdout r)))) (rules_after d) \<and>
     answer_such (\<lambda>r. exit_code r = 0 \<and> route_get_uses_interface (stdout r) interface) (marked_route d)"

lemma answer_such_iff: "answer_such P a \<longleftrightarrow> (\<exists>r. answered a r \<and> P r)"
  by (auto simp: answer_such_def answered_def split: sum.split)

lemma read_snapshot_run:
  assumes "shows_snapshot [a, b, x, y] p"
  shows "read_snapshot \<lparr>replies = a # b # x # y # rest, generations = g, currents = cs, trail = t\<rparr> =
    (Inr p, \<lparr>replies = rest, generations = g, currents = cs,
       trail = t @ [(observation_of IPV4_RULE_SHOW, a), (observation_of IPV6_RULE_SHOW, b),
         (observation_of (mangle_show IPTABLES), x), (observation_of (mangle_show IP6TABLES), y)]\<rparr>)"
  using assms by (simp add: read_snapshot_def and_then_def lines_run sendable_shows succeed_def shows_snapshot_def)

lemma base_verifiedD:
  assumes "verify_fail_closed_base c p = Inr ()"
  shows "mangle_family_state c (ipv4_mangle p) True = Some AttachedExact"
    "mangle_family_state c (ipv6_mangle p) False = Some AttachedExact"
    "list_ex (is_owned_ipv4_guard c) (ipv4_rules p)" "list_ex (is_owned_ipv6_guard c) (ipv6_rules p)"
    "owned_ipv4_lookup_tables c (ipv4_rules p) = []"
  using assms by (auto simp: verify_fail_closed_base_def split: option.splits if_splits)

lemma remove_absent_run:
  assumes "sendable check" "answered a r" "exit_code r \<noteq> 0"
  shows "remove_exact_rule check delete \<lparr>replies = a # rest, generations = g, currents = cs, trail = t\<rparr> =
    (Inr (), \<lparr>replies = rest, generations = g, currents = cs, trail = t @ [(observation_of check, a)]\<rparr>)"
proof -
  have passes: "MAX_RECONCILE_PASSES = Suc 7" by (simp add: MAX_RECONCILE_PASSES_def)
  show ?thesis unfolding remove_exact_rule_def passes
    using assms by (simp only: remove_exact_rule_loop.simps) (simp add: and_then_def observe_run succeed_def)
qed

lemma build_base_run:
  assumes "verify_fail_closed_base c p = Inr ()" "answered a r" "exit_code r \<noteq> 0" "answered a' r'" "exit_code r' \<noteq> 0"
  shows "build_base c p \<lparr>replies = a # a' # rest, generations = g, currents = cs, trail = t\<rparr> =
    (Inr (), \<lparr>replies = rest, generations = g, currents = cs,
       trail = t @ [(observation_of (legacy_selector_check c IPTABLES), a), (observation_of (legacy_selector_check c IP6TABLES), a')]\<rparr>)"
  using base_verifiedD [OF assms(1)] assms(2-5)
  by (simp add: build_base_def and_then_def succeed_def remove_absent_run [OF legacy_sendable])

lemma discover_run:
  assumes "referenced_tables rules = [table]" "is_safe_table_token table" "answered a r" "exit_code r = 0"
    "route_has_default_on_interface (parse_lines (stdout r)) interface"
  shows "discover_validated_ipv4_table rules interface \<lparr>replies = a # rest, generations = g, currents = cs, trail = t\<rparr> =
    (Inr table, \<lparr>replies = rest, generations = g, currents = cs, trail = t @ [(observation_of (route_show table), a)]\<rparr>)"
  using assms by (simp add: discover_validated_ipv4_table_def and_then_def observe_run sendable_commands succeed_def)

lemma apply_lookup_run:
  assumes c: "active_identity c = Some i" "i \<in> set (candidates c)" "is_safe_table_token table"
    and "complete_lines a = Some rules" "owned_ipv4_lookup_tables c rules = []"
    and "answered ok r" "exit_code r = 0"
    and "complete_lines a' = Some rules'" "table \<in> set (owned_ipv4_lookup_tables c rules')"
    and "answered route r'" "exit_code r' = 0" "route_get_uses_interface (stdout r') interface"
  shows "apply_lookup c interface table
      \<lparr>replies = a # a # ok # a' # route # rest, generations = g, currents = cs, trail = t\<rparr> =
    (Enforced, \<lparr>replies = rest, generations = g, currents = cs,
       trail = t @ [(observation_of IPV4_RULE_SHOW, a), (observation_of IPV4_RULE_SHOW, a),
         (mutation_of (lookup_command ''ip -4 rule add'' table i), ok), (observation_of IPV4_RULE_SHOW, a'),
         (observation_of (route_command i), route)]\<rparr>)"
  using assms
  by (simp add: apply_lookup_def replace_ipv4_lookup_def and_then_def lines_run mutate_run policy_observe_run sendable_shows
      sendable_commands succeed_def require_def require_some_def ipv4_lookup_add_def)

lemma referenced_safe: "t \<in> set (referenced_tables ls) \<Longrightarrow> is_safe_table_token t"
proof -
  have push: "list_all is_safe_table_token ts \<Longrightarrow> list_all is_safe_table_token (push_table x ts)" for x ts
    by (simp add: push_table_def push_new_def split: option.split)
  have "list_all is_safe_table_token ts \<Longrightarrow> list_all is_safe_table_token (fold (\<lambda>line tables. let tokens = split_whitespace line
        in push_table (token_after tokens ''table'') (push_table (token_after tokens ''lookup'') tables)) ls ts)" for ts
    by (induction ls arbitrary: ts) (simp_all add: Let_def push)
  from this [of "[]"] show "t \<in> set (referenced_tables ls) \<Longrightarrow> is_safe_table_token t"
    by (simp add: referenced_tables_def list_all_iff)
qed

definition started :: "RootPolicyContract \<Rightarrow> u64 \<Rightarrow> RootPolicyState" where
  "started c g = \<lparr>contract = c, ready_session_generation = Some g, terminal_authority = None\<rparr>"

definition world :: "RootAnswer list \<Rightarrow> u64 \<Rightarrow> PolicyIo" where
  "world rs g = \<lparr>replies = rs, generations = [Some g], currents = replicate 5 True, trail = []\<rparr>"

lemma prepared_run:
  assumes i: "i \<in> set (candidates c)" and c: "active_identity c = None"
    and "\<not> list_ex (\<lambda>l. is_foreign_reserved_ipv4_line l i \<or> line_is_owned_lookup_for l i) other4"
    and "\<not> list_ex (\<lambda>l. is_foreign_reserved_ipv6_line l i) other6"
    and table: "referenced_tables (ipv4_rules (installed c i other4 other6)) = [table]"
    and d: "prepared c i interface table (installed c i other4 other6) d"
  shows "\<exists>w'. reconcile_if_current (started c g) True (Some interface) (world (script d) g) =
      ((Completed Enforced, started (c\<lparr>active_identity := Some i\<rparr>) g), w') \<and>
    mutations (trail w') = [lookup_command ''ip -4 rule add'' table i] \<and> replies w' = []"
proof -
  let ?p = "installed c i other4 other6"
  let ?c = "c\<lparr>active_identity := Some i\<rparr>"
  have verified: "verify_fail_closed_base ?c ?p = Inr ()" and "resolve_identity (c\<lparr>active_identity := None\<rparr>) ?p = (Selected i, ?c)"
    using installed_recognised [OF assms(1,3,4)] by auto
  moreover have "c\<lparr>active_identity := None\<rparr> = c" using c by (cases c) simp
  ultimately have resolved: "resolve_identity c ?p = (Selected i, ?c)" by simp
  have i': "i \<in> set (candidates ?c)" using i by (simp add: candidates_def)
  have safe: "is_safe_table_token table" using referenced_safe table by (metis list.set_intros(1))
  obtain v4 v6 x4 x6 where views: "views d = [v4, v6, x4, x6]" and shown: "shows_snapshot [v4, v6, x4, x6] ?p"
    using d by (auto simp: prepared_def shows_snapshot_def map_eq_Cons_conv)
  then have rules: "complete_lines v4 = Some (ipv4_rules ?p)" by (simp add: shows_snapshot_def)
  obtain n4 n6 r4 r6 where missing: "missing d = [n4, n6]" "answered n4 r4" "exit_code r4 \<noteq> 0" "answered n6 r6" "exit_code r6 \<noteq> 0"
    using d by (auto simp: prepared_def answer_such_iff numeral_2_eq_2 length_Suc_conv)
  obtain rd ra later rm where answers_: "answered (default_routes d) rd" "exit_code rd = 0"
      "route_has_default_on_interface (parse_lines (stdout rd)) interface"
      "answered (accepted d) ra" "exit_code ra = 0"
      "complete_lines (rules_after d) = Some later"
      "table \<in> set (owned_ipv4_lookup_tables ?c later)"
      "answered (marked_route d) rm" "exit_code rm = 0" "route_get_uses_interface (stdout rm) interface"
    using d by (auto simp: prepared_def answer_such_def answered_def complete_lines_def split: sum.splits)
  then have interface: "is_safe_interface_name interface" by (simp add: route_get_uses_interface_def)
  note runs = read_snapshot_run [OF shown] build_base_run [OF verified missing(2-5)]
    discover_run [OF table safe answers_(1-3)] current_run
    apply_lookup_run [OF _ i' safe rules base_verifiedD(5) [OF verified] answers_(4-10)]
  show ?thesis
    by (simp add: reconcile_if_current_def probe_authority_def io_generation_def reconcile_authorized_def establish_def
        admit_def started_def world_def script_def views missing(1) runs resolved verified interface numeral_eq_Suc
        mutations_def)
qed

subsection \<open>A device that prints its tables\<close>

definition text_of :: "string list \<Rightarrow> string" where
  "text_of ls = concat (map (\<lambda>l. l @ [LF]) ls)"

definition prints :: "string list \<Rightarrow> RootAnswer" where
  "prints ls = Inr \<lparr>exit_code = 0, stdout = text_of ls, timed_out = False, output_complete = True, session_generation = 1\<rparr>"

definition exits :: "int \<Rightarrow> RootAnswer" where
  "exits n = Inr \<lparr>exit_code = n, stdout = [], timed_out = False, output_complete = True, session_generation = 1\<rparr>"

lemma parse_text:
  assumes "\<forall>l \<in> set ls. LF \<notin> set l \<and> CR \<notin> set l"
  shows "parse_lines (text_of ls) = normalized ls"
proof -
  have "split_when (\<lambda>c. c = LF) (text_of ls) = ls @ [[]]"
    using assms
  proof (induction ls)
    case (Cons l ls)
    then have "split_when (\<lambda>c. c = LF) (l @ LF # text_of ls) = l # split_when (\<lambda>c. c = LF) (text_of ls)"
      by (intro split_when_sep) auto
    with Cons show ?case by (simp add: text_of_def)
  qed (simp add: text_of_def)
  moreover have "\<not> ends_with l [CR]" if "l \<in> set ls" for l
    using that assms in_set_dropD [of CR "length l - 1" l] by (auto simp: ends_with_def)
  then have "map (\<lambda>l. if ends_with l [CR] then butlast l else l) ls = ls" by (simp add: map_idI)
  ultimately show ?thesis by (simp add: parse_lines_def str_lines_def normalized_def)
qed

lemma prints_words:
  assumes "\<forall>ws \<in> set table. list_all word_ok ws \<and> ws \<noteq> []"
  shows "complete_lines (prints (map join_spaces table)) = Some (map join_spaces table)"
proof -
  have chars: "set (join_spaces ws) \<subseteq> insert (CHR '' '') (\<Union>w \<in> set ws. set w)" for ws
  proof (induction ws)
    case (Cons w ws)
    then show ?case by (cases ws) (auto simp del: join_spaces.simps simp add: join_spaces.simps(2) [of w])
  qed simp
  have control: "\<not> visible LF" "\<not> visible CR" by (simp_all add: visible_def byte_of_def)
  have "LF \<notin> set (join_spaces ws) \<and> CR \<notin> set (join_spaces ws)" if "list_all word_ok ws" for ws
    using that chars [of ws] control by (fastforce simp: word_ok_def list_all_iff)
  then have "parse_lines (text_of (map join_spaces table)) = normalized (map join_spaces table)"
    using assms by (intro parse_text) auto
  with normalized_join [OF assms] show ?thesis by (simp add: complete_lines_def prints_def unanswered_def)
qed

lemma prints_installed:
  assumes "i \<in> set (candidates c)"
  shows "complete_lines (prints (ipv4_mangle (installed c i other4 other6))) = Some (ipv4_mangle (installed c i other4 other6))"
    "complete_lines (prints (ipv6_mangle (installed c i other4 other6))) = Some (ipv6_mangle (installed c i other4 other6))"
  using prints_words [OF table_words_ok [OF plain_uid chain_facts(1) loopbacks(1) candidate_facts(1) [OF assms]]]
    prints_words [OF table_words_ok [OF plain_uid chain_facts(1) loopbacks(2) candidate_facts(1) [OF assms]]]
  by (simp_all add: installed_def ipv4_owned_chain_lines_for_def ipv6_owned_chain_lines_for_def installed_mangle_words)

definition example_contract :: RootPolicyContract where
  "example_contract = \<lparr>product_uid = 10234, policy_namespace = Release, active_identity = None\<rparr>"

definition example_identity :: PolicyIdentity where
  "example_identity = RELEASE_POLICY_CANDIDATES ! 1"

abbreviation main_rule :: string where
  "main_rule \<equiv> ''32766: from all lookup main''"

abbreviation lookup_rule :: string where
  "lookup_rule \<equiv> ''9520: from all fwmark 0x400000/0x400000 lookup main''"

abbreviation default_line :: string where
  "default_line \<equiv> ''default via 10.64.0.1 dev rmnet0''"

abbreviation route_line :: string where
  "route_line \<equiv> ''1.1.1.1 via 10.64.0.1 dev rmnet0 uid 0''"

definition example_snapshot :: RootPolicySnapshot where
  "example_snapshot = installed example_contract example_identity [main_rule] []"

definition example_device :: Device where
  "example_device =
     \<lparr>views = map prints [ipv4_rules example_snapshot, ipv6_rules example_snapshot,
                         ipv4_mangle example_snapshot, ipv6_mangle example_snapshot],
      missing = [exits 1, exits 1],
      default_routes = prints [default_line],
      accepted = exits 0,
      rules_after = prints [lookup_rule, main_rule],
      marked_route = prints [route_line]\<rparr>"

lemma example_candidate: "example_identity \<in> set (candidates example_contract)"
  by (simp add: example_identity_def example_contract_def candidates_def RELEASE_POLICY_CANDIDATES_def)

lemma example_rules:
  "ipv4_rules example_snapshot = [main_rule, ''9521:'' @ [CHR 0x09] @ ''from all fwmark 0x400000/0x400000 unreachable'']"
  "ipv6_rules example_snapshot = [''9521:'' @ [CHR 0x09] @ ''from all fwmark 0x400000/0x400000 unreachable'']"
proof -
  have "digit_char 9 = CHR ''9''" "digit_char 5 = CHR ''5''" "digit_char 2 = CHR ''2''" "digit_char (Suc 0) = CHR ''1''"
    by code_simp+
  then have "show_u32 9521 = ''9521''" by (simp add: show_u32_def show_nat.simps)
  then show "ipv4_rules example_snapshot = [main_rule, ''9521:'' @ [CHR 0x09] @ ''from all fwmark 0x400000/0x400000 unreachable'']"
    "ipv6_rules example_snapshot = [''9521:'' @ [CHR 0x09] @ ''from all fwmark 0x400000/0x400000 unreachable'']"
    by (simp_all add: example_snapshot_def installed_def shown_guard_def example_identity_def RELEASE_POLICY_CANDIDATES_def mark_spec_def)
qed

lemma example_words:
  "list_all (list_all word_ok)
     [[''32766:'', ''from'', ''all'', ''lookup'', ''main''],
      [''9520:'', ''from'', ''all'', ''fwmark'', ''0x400000/0x400000'', ''lookup'', ''main''],
      [''default'', ''via'', ''10.64.0.1'', ''dev'', ''rmnet0''],
      [''1.1.1.1'', ''via'', ''10.64.0.1'', ''dev'', ''rmnet0'', ''uid'', ''0'']]"
  by code_simp

lemma example_lines:
  "main_rule = join_spaces [''32766:'', ''from'', ''all'', ''lookup'', ''main'']"
  "lookup_rule = join_spaces [''9520:'', ''from'', ''all'', ''fwmark'', ''0x400000/0x400000'', ''lookup'', ''main'']"
  "default_line = join_spaces [''default'', ''via'', ''10.64.0.1'', ''dev'', ''rmnet0'']"
  "route_line = join_spaces [''1.1.1.1'', ''via'', ''10.64.0.1'', ''dev'', ''rmnet0'', ''uid'', ''0'']"
  by simp_all

lemma example_splits:
  "split_whitespace main_rule = [''32766:'', ''from'', ''all'', ''lookup'', ''main'']"
  "split_whitespace lookup_rule = [''9520:'', ''from'', ''all'', ''fwmark'', ''0x400000/0x400000'', ''lookup'', ''main'']"
  "split_whitespace default_line = [''default'', ''via'', ''10.64.0.1'', ''dev'', ''rmnet0'']"
  "split_whitespace route_line = [''1.1.1.1'', ''via'', ''10.64.0.1'', ''dev'', ''rmnet0'', ''uid'', ''0'']"
  unfolding example_lines by (rule split_join, use example_words in simp)+

lemma example_safe: "is_safe_table_token ''main''" "is_safe_interface_name ''rmnet0''"
  by code_simp+

lemma example_mark: "mark_spec example_identity = ''0x400000/0x400000''" "lookup_priority example_identity = 9520"
  by (simp_all add: example_identity_def RELEASE_POLICY_CANDIDATES_def mark_spec_def)

lemma example_tables: "referenced_tables (ipv4_rules example_snapshot) = [''main'']"
  using shown_guard_facts(2) [OF example_candidate] example_splits(1) example_safe(1) example_mark(1)
  by (simp add: example_snapshot_def installed_def referenced_tables_def push_table_def push_new_def)

lemma example_views: "shows_snapshot (views example_device) example_snapshot"
proof -
  let ?guard = "''9521:'' @ [CHR 0x09] @ ''from all fwmark 0x400000/0x400000 unreachable''"
  have "trim ?guard = ?guard" by code_simp
  moreover have "trim main_rule = main_rule"
    using trim_join [of "[''32766:'', ''from'', ''all'', ''lookup'', ''main'']"] example_words by simp
  ultimately have "normalized (ipv4_rules example_snapshot) = ipv4_rules example_snapshot"
    "normalized (ipv6_rules example_snapshot) = ipv6_rules example_snapshot"
    by (simp_all add: example_rules normalized_def)
  moreover have "parse_lines (text_of (ipv4_rules example_snapshot)) = normalized (ipv4_rules example_snapshot)"
    "parse_lines (text_of (ipv6_rules example_snapshot)) = normalized (ipv6_rules example_snapshot)"
    by (rule parse_text, simp add: example_rules)+
  ultimately have "complete_lines (prints (ipv4_rules example_snapshot)) = Some (ipv4_rules example_snapshot)"
    "complete_lines (prints (ipv6_rules example_snapshot)) = Some (ipv6_rules example_snapshot)"
    by (simp_all add: complete_lines_def prints_def unanswered_def)
  then show ?thesis
    using prints_installed [OF example_candidate, of "[main_rule]" "[]"]
    by (simp add: shows_snapshot_def example_device_def example_snapshot_def)
qed

lemma example_lookup:
  "''main'' \<in> set (owned_ipv4_lookup_tables (example_contract\<lparr>active_identity := Some example_identity\<rparr>) [lookup_rule, main_rule])"
proof -
  have "trim lookup_rule = lookup_rule"
    using trim_join [of "[''9520:'', ''from'', ''all'', ''fwmark'', ''0x400000/0x400000'', ''lookup'', ''main'']"] example_words
    by simp
  moreover have "split_once (CHR '':'') lookup_rule = Some (''9520'', '' from all fwmark 0x400000/0x400000 lookup main'')"
    by (simp add: split_once_def)
  moreover have "parse_u32 ''9520'' = Some 9520"
    by (simp add: parse_u32_def parse_unsigned_def digit_value_def to_ascii_lowercase_def byte_of_def)
  ultimately have "rpdb_priority lookup_rule = Some 9520" by (simp add: rpdb_priority_def)
  moreover have "rpdb_priority main_rule \<noteq> Some 9520"
    using main_lookup_foreign
    by (auto simp: is_foreign_reserved_ipv4_line_def reserved_line_def line_is_owned_guard_for_def RELEASE_POLICY_CANDIDATES_def
        split: if_splits)
  ultimately show ?thesis
    using example_splits(2) example_mark example_safe
    by (simp add: owned_ipv4_lookup_tables_def push_table_def push_new_def)
qed

lemma example_prepared:
  "prepared example_contract example_identity ''rmnet0'' ''main'' example_snapshot example_device"
proof -
  have printed: "parse_lines (text_of [join_spaces ws]) = [join_spaces ws]" if "list_all word_ok ws" "ws \<noteq> []" for ws
    using prints_words [of "[ws]"] that by (simp add: complete_lines_def prints_def unanswered_def)
  have "complete_lines (prints [lookup_rule, main_rule]) = Some [lookup_rule, main_rule]"
    using prints_words [of "[[''9520:'', ''from'', ''all'', ''fwmark'', ''0x400000/0x400000'', ''lookup'', ''main''],
        [''32766:'', ''from'', ''all'', ''lookup'', ''main'']]"] example_words by simp
  moreover have "route_has_default_on_interface (parse_lines (text_of [default_line])) ''rmnet0''"
    using printed [of "[''default'', ''via'', ''10.64.0.1'', ''dev'', ''rmnet0'']"] example_words example_splits(3) example_safe(2)
    by (simp add: route_has_default_on_interface_def)
  moreover have "route_get_uses_interface (text_of [route_line]) ''rmnet0''"
  proof -
    have "str_lines (text_of [route_line]) = [route_line]"
      by (simp add: str_lines_def text_of_def ends_with_def)
    then show ?thesis using example_splits(4) example_safe(2) by (simp add: route_get_uses_interface_def)
  qed
  ultimately show ?thesis
    using example_views example_lookup
    by (simp add: prepared_def example_device_def prints_def exits_def answer_such_def unanswered_def complete_lines_def)
qed

subsection \<open>Properties of the transaction\<close>

text \<open>C33. A device that already holds the product's base is opened with a single mutation: for every user
  id, namespace, candidate identity and other routing rules that stay clear of it, when the rules reference
  one table, its default route uses the interface, the shell accepts the rule and shows it and the marked
  route uses the interface, then a reconcile of an admitted owner that stays current, by a runtime with no
  active identity and a ready session, ends Enforced with that identity active. The addition of the lookup is
  the only mutation and every answer is used.\<close>

theorem prepared_policy_enforced:
  assumes "i \<in> set (candidates c)" and "active_identity c = None"
    and "\<not> list_ex (\<lambda>l. is_foreign_reserved_ipv4_line l i \<or> line_is_owned_lookup_for l i) other4"
    and "\<not> list_ex (\<lambda>l. is_foreign_reserved_ipv6_line l i) other6"
    and "referenced_tables (ipv4_rules (installed c i other4 other6)) = [table]"
    and "prepared c i interface table (installed c i other4 other6) d"
  shows "\<exists>w'. reconcile_if_current (started c g) True (Some interface) (world (script d) g) =
      ((Completed Enforced, started (c\<lparr>active_identity := Some i\<rparr>) g), w') \<and>
    mutations (trail w') = [lookup_command ''ip -4 rule add'' table i] \<and> replies w' = []"
  using assms by (rule prepared_run)

lemma example_active: "active_identity example_contract = None"
  by (simp add: example_contract_def)

lemma example_others:
  "\<not> list_ex (\<lambda>l. is_foreign_reserved_ipv4_line l example_identity \<or> line_is_owned_lookup_for l example_identity) [main_rule]"
  "\<not> list_ex (\<lambda>l. is_foreign_reserved_ipv6_line l example_identity) []"
  using main_lookup_foreign by (simp_all add: example_identity_def)

theorem prepared_policy_enforced_witness:
  "\<exists>w'. reconcile_if_current (started example_contract 1) True (Some ''rmnet0'') (world (script example_device) 1) =
      ((Completed Enforced, started (example_contract\<lparr>active_identity := Some example_identity\<rparr>) 1), w') \<and>
    mutations (trail w') = [lookup_command ''ip -4 rule add'' ''main'' example_identity] \<and> replies w' = []"
  by (rule prepared_policy_enforced [OF example_candidate example_active example_others
        example_tables [unfolded example_snapshot_def] example_prepared [unfolded example_snapshot_def]])

text \<open>C32. Whatever the root shell answers and however long the owner stays current, a reconcile runs in two parts. In
  the first nothing is run that adds a permitting rule. The second is empty, and then the result is not
  Enforced, or the owner was admitted and current at all five checks and the first part ended knowing, with
  no mutation since, a snapshot that passes the fail-closed verification and one referenced table whose
  default route uses the interface; it then only adds the lookup of that table and deletes owned lookups.
  Enforced is reported only when the lookup was read back and a complete route answer for the mark uses the
  interface, as the last thing on the trail.\<close>

theorem permit_only_on_verified_base:
  assumes "reconcile_if_current s admitted interface_name w = ((outcome, s'), w')"
  shows "\<exists>base applied. trail w' = trail w @ base @ applied \<and> list_all closed (mutations base) \<and>
    (applied = [] \<and> outcome \<noteq> Completed Enforced \<or>
     admitted \<and> take 5 (currents w) = replicate 5 True \<and>
     opens (contract s') interface_name (known base) applied (outcome = Completed Enforced))"
  using assms by (rule reconcile_opens)

theorem permit_only_on_verified_base_witness:
  "\<exists>w' base applied. reconcile_if_current (started example_contract 1) True (Some ''rmnet0'') (world (script example_device) 1) =
      ((Completed Enforced, started (example_contract\<lparr>active_identity := Some example_identity\<rparr>) 1), w') \<and>
    trail w' = base @ applied \<and> list_all closed (mutations base) \<and>
    opens (example_contract\<lparr>active_identity := Some example_identity\<rparr>) (Some ''rmnet0'') (known base) applied True"
proof -
  obtain w' where r: "reconcile_if_current (started example_contract 1) True (Some ''rmnet0'') (world (script example_device) 1) =
      ((Completed Enforced, started (example_contract\<lparr>active_identity := Some example_identity\<rparr>) 1), w')"
    using prepared_run [OF example_candidate example_active example_others
        example_tables [unfolded example_snapshot_def] example_prepared [unfolded example_snapshot_def]] by blast
  from permit_only_on_verified_base [OF r] r show ?thesis by (auto simp: world_def started_def)
qed

text \<open>When the route of the mark stays unanswered the lookup is left in place, though the result says fail
  closed; only a route that does not match removes it.\<close>

lemma unanswered_route_leaves_lookup:
  assumes "replace_ipv4_lookup c table w = (Inr (), v)" "active_identity c = Some i"
    and u: "policy_observe (route_command i) v = (Inl e, u)"
  shows "apply_lookup c interface table w = (FailClosed (Some (map_effect_failure e)), u)"
    "\<exists>t. trail u = trail v @ t \<and> mutations t = []"
proof -
  show "apply_lookup c interface table w = (FailClosed (Some (map_effect_failure e)), u)"
    using assms by (simp add: apply_lookup_def)
  show "\<exists>t. trail u = trail v @ t \<and> mutations t = []" using policy_observe_trail [OF u] by auto
qed

subsection \<open>Cleanup\<close>

lemma closed_removal [simp]:
  assumes "is_binary b"
  shows "closed (delete_chain_command c b)"
  using closed_table [OF assms, of "'' -X '' @ chain_name c"] by (simp add: delete_chain_command_def)

lemma closed_guard4_delete: "ipv4_guard_delete c = Some m \<Longrightarrow> closed m"
  by (rule closed_prefix [of _ "''ip -4 rule del''"]) (auto simp: ipv4_guard_delete_def guard_command_def starts_with_def)

lemma closed_guard6_delete: "ipv6_guard_delete c = Some m \<Longrightarrow> closed m"
  by (rule closed_prefix [of _ "''ip -6 rule del''"]) (auto simp: ipv6_guard_delete_def guard_command_def starts_with_def)

lemma remove_all_output_jumps_does:
  assumes b: "is_binary b"
  shows "does closed (remove_all_output_jumps c b)"
proof -
  have m: "does closed (policy_mutate (output_jump_delete c b))" by (rule policy_mutate_does) (use b in simp)
  have fresh: "does closed (and_then (lines (mangle_show b)) (\<lambda>fresh. require (output_jump_count c fresh = 0) MutationUncertain))"
    by (intro doing)
  have "does closed (remove_jumps_loop n c b)" for n
  proof (induction n)
    case (Suc n)
    have "does closed (\<lambda>w. case policy_mutate (output_jump_delete c b) w of
               (Inr _, w) \<Rightarrow> remove_jumps_loop n c b w
             | (Inl e, w) \<Rightarrow>
                 if e = EffectMutationUncertain
                 then and_then (lines (mangle_show b))
                        (\<lambda>fresh. require (output_jump_count c fresh = 0) MutationUncertain) w
                 else (Inl (map_effect_failure e), w))"
      by (rule doesI) (auto split: prod.splits sum.splits if_splits intro: steps_trans
          dest!: doesD [OF m] doesD [OF Suc] doesD [OF fresh])
    then show ?case by (auto intro!: doing)
  qed (auto intro!: doing)
  then show ?thesis by (simp add: remove_all_output_jumps_def)
qed

lemma remove_owned_chain_does: "is_binary b \<Longrightarrow> does closed (remove_owned_chain c b ipv4)"
  unfolding remove_owned_chain_def by (intro doing) simp_all

lemma remove_guard_does: "does closed (remove_guard c ipv4)"
proof -
  have "does closed (remove_guard_loop n c ipv4)" for n
    by (induction n) (auto intro!: does_given doing dest: closed_guard4_delete closed_guard6_delete)
  then show ?thesis by (simp add: remove_guard_def)
qed

lemma cleanup_family_does:
  assumes b: "is_binary b"
  shows "does closed (cleanup_family c b ipv4 e1 e2)"
proof -
  have legacy: "does closed (remove_exact_rule (legacy_selector_check c b) (legacy_selector_delete c b))"
    by (rule remove_exact_rule_does) (use b in simp)
  note d = doesD [OF remove_all_output_jumps_does [OF b]] doesD [OF legacy] doesD [OF remove_owned_chain_does [OF b]]
    doesD [OF remove_guard_does]
  show ?thesis
    by (rule doesI) (auto simp: cleanup_family_def split: prod.splits sum.splits if_splits intro: steps_trans dest!: d)
qed

lemma cleanup_verify_ok:
  assumes "cleanup_verify s w = ((r, s'), w')"
  shows "steps closed w w'" "r = Inr () \<Longrightarrow> active_identity (contract s') = None \<and>
      (\<exists>t p. trail w' = trail w @ t \<and> (\<forall>k. snapshot_in (foldl know k t) = Some p) \<and> verify_exact_cleanup (contract s) p)"
    "r \<noteq> Inr () \<Longrightarrow> contract s' = contract s"
proof -
  obtain authority s1 v where p: "probe_authority s w = ((authority, s1), v)" by (metis surj_pair)
  note keeps = probe_authority_keeps [OF p]
  obtain a u where a: "read_snapshot v = (a, u)" by fastforce
  show "steps closed w w'"
    using assms p a keeps(1) doesD [OF read_snapshot_does a, of closed]
    by (auto simp: cleanup_verify_def intro: steps_trans split: if_splits sum.splits)
  show "contract s' = contract s" if "r \<noteq> Inr ()"
    using that assms p a keeps(2) by (auto simp: cleanup_verify_def split: if_splits sum.splits)
  show "active_identity (contract s') = None \<and>
      (\<exists>t p. trail w' = trail w @ t \<and> (\<forall>k. snapshot_in (foldl know k t) = Some p) \<and> verify_exact_cleanup (contract s) p)"
    if r: "r = Inr ()"
  proof -
    obtain final where f: "a = Inr final" "verify_exact_cleanup (contract s) final" "u = w'" "active_identity (contract s') = None"
      using r assms p a keeps(2) by (auto simp: cleanup_verify_def clear_active_identity_def split: if_splits sum.splits)
    obtain x y where "trail v = trail w @ x" "trail w' = trail v @ y" "\<And>k. snapshot_in (foldl know k y) = Some final"
      using read_snapshot_finds [of v final w'] keeps(1) a f by (force simp: finds_def steps_def)
    then have "trail w' = trail w @ (x @ y) \<and> (\<forall>k. snapshot_in (foldl know k (x @ y)) = Some final)" by simp
    with f(2,4) show ?thesis by blast
  qed
qed

lemma resolve_loop_contract:
  "resolve_loop c snapshot cs = (x, c') \<Longrightarrow>
     (\<exists>a. c' = c\<lparr>active_identity := a\<rparr> \<and> (case a of None \<Rightarrow> True | Some i \<Rightarrow> i \<in> set cs))"
proof (induction cs arbitrary: c)
  case (Cons a cs)
  show ?case
  proof (cases "audit_reserved_policy_space (c\<lparr>active_identity := Some a\<rparr>) snapshot a = Clean")
    case True
    then show ?thesis using Cons.prems by (auto simp: Let_def intro!: exI [of _ "Some a"])
  next
    case False
    then obtain b where "c' = c\<lparr>active_identity := b\<rparr>" "case b of None \<Rightarrow> True | Some i \<Rightarrow> i \<in> set cs"
      using Cons.IH [of "c\<lparr>active_identity := Some a\<rparr>"] Cons.prems by (auto simp: Let_def)
    then show ?thesis by (intro exI [of _ b]) (auto split: option.splits)
  qed
qed (auto intro!: exI [of _ None])

lemma product_line_active:
  "product_line (c\<lparr>active_identity := a\<rparr>) = product_line c" "candidates (c\<lparr>active_identity := a\<rparr>) = candidates c"
  by (simp_all add: fun_eq_iff product_line_def chain_name_def legacy_selector_line_def legacy_selector_def
      legacy_mark_hex_def candidates_def)

lemma signature_active:
  "fst (has_any_product_signature (c\<lparr>active_identity := a\<rparr>) p) = fst (has_any_product_signature c p)"
proof -
  have "signature_loop (c\<lparr>active_identity := a\<rparr>) p cs = signature_loop c p cs" for cs
    by (cases cs) (simp_all add: Let_def)
  then show ?thesis by (simp add: has_any_product_signature_def product_line_active)
qed

text \<open>A resolution changes at most the active identity, from none to a candidate.\<close>

lemma resolve_contract:
  assumes "resolve_identity c snapshot = (x, c')"
  shows "c' = c \<or> (active_identity c = None \<and> (\<exists>a. c' = c\<lparr>active_identity := a\<rparr> \<and>
    (case a of None \<Rightarrow> True | Some i \<Rightarrow> i \<in> set (candidates c))))"
  using assms
  by (auto simp: resolve_identity_def compatible_candidates_def Let_def split: if_splits option.splits
      dest!: resolve_loop_contract)

lemma resolve_collision:
  assumes "resolve_identity c snapshot = (PolicyIdentityResolution.IdentityCollision, c')" "active_identity c = None"
  shows "active_identity c' = None"
proof -
  have "resolve_loop c snapshot cs = (PolicyIdentityResolution.IdentityCollision, c') \<Longrightarrow> active_identity c' = None" for c cs
    by (induction cs arbitrary: c) (auto simp: Let_def split: if_splits)
  then show ?thesis using assms by (auto simp: resolve_identity_def Let_def split: if_splits)
qed

lemma cleanup_selected_ok:
  assumes "cleanup_selected s w = ((r, s'), w')"
  shows "steps closed w w'" "r = Inr () \<Longrightarrow> active_identity (contract s') = None \<and>
      (\<exists>t p. trail w' = trail w @ t \<and> (\<forall>k. snapshot_in (foldl know k t) = Some p) \<and> verify_exact_cleanup (contract s) p)"
    "r \<noteq> Inr () \<Longrightarrow> contract s' = contract s"
proof -
  note d = doesD [OF remove_lookups_closed] doesD [OF cleanup_family_does [OF is_binary(1)]]
    doesD [OF cleanup_family_does [OF is_binary(2)]]
  have "\<exists>v. steps closed w v \<and> (cleanup_verify s v = ((r, s'), w') \<or> r \<noteq> Inr () \<and> s' = s \<and> w' = v)"
    using assms
    by (auto simp: cleanup_selected_def split: prod.splits sum.splits if_splits intro: steps_trans dest!: d)
      (meson steps_trans)
  then obtain v where v: "steps closed w v" "cleanup_verify s v = ((r, s'), w') \<or> r \<noteq> Inr () \<and> s' = s \<and> w' = v" by blast
  then show "steps closed w w'" "r \<noteq> Inr () \<Longrightarrow> contract s' = contract s"
    using cleanup_verify_ok(1,3) steps_trans by blast+
  show "active_identity (contract s') = None \<and>
      (\<exists>t p. trail w' = trail w @ t \<and> (\<forall>k. snapshot_in (foldl know k t) = Some p) \<and> verify_exact_cleanup (contract s) p)"
    if "r = Inr ()"
  proof -
    from v that have c: "cleanup_verify s v = ((Inr (), s'), w')" by simp
    obtain x where x: "trail v = trail w @ x" using v(1) by (auto simp: steps_def)
    obtain t p where "trail w' = trail v @ t" "\<And>k. snapshot_in (foldl know k t) = Some p" "verify_exact_cleanup (contract s) p"
      "active_identity (contract s') = None"
      using cleanup_verify_ok(2) [OF c] by auto
    with x show ?thesis by (intro conjI exI [of _ "x @ t"] exI [of _ p]) simp_all
  qed
qed

text \<open>What the result of a cleanup says, by the contract before, the trail and the contract after.\<close>

text \<open>The identity a cleanup works for: the active one, otherwise the one that resolving its first snapshot selects.\<close>

definition cleanup_identity :: "RootPolicyContract \<Rightarrow> PolicyIo \<Rightarrow> PolicyIdentity option" where
  "cleanup_identity c w =
     (case active_identity c of
        Some i \<Rightarrow> Some i
      | None \<Rightarrow>
          (case fst (read_snapshot w) of
             Inl e \<Rightarrow> None
           | Inr p \<Rightarrow> (case fst (resolve_identity c p) of Selected i \<Rightarrow> Some i | _ \<Rightarrow> None)))"

definition no_trace :: "RootPolicyContract \<Rightarrow> RootPolicySnapshot \<Rightarrow> bool" where
  "no_trace c p \<longleftrightarrow>
     list_all (\<lambda>l. \<not> is_owned_ipv4_lookup c l \<and> \<not> is_owned_ipv4_guard c l) (ipv4_rules p) \<and>
     list_all (\<lambda>l. \<not> is_owned_ipv6_guard c l) (ipv6_rules p) \<and>
     list_all (\<lambda>l. \<not> str_contains l (chain_name c) \<and> l \<noteq> legacy_selector_line c) (ipv4_mangle p @ ipv6_mangle p)"

definition cleaned :: "RootPolicyContract \<Rightarrow> PolicyIo \<Rightarrow> entry list \<Rightarrow> RootPolicyContract \<Rightarrow> bool" where
  "cleaned c w t c' \<longleftrightarrow>
     active_identity c' = None \<and>
     (\<exists>p. snapshot_in (known t) = Some p \<and>
        (case cleanup_identity c w of
           Some i \<Rightarrow> no_trace (c\<lparr>active_identity := Some i\<rparr>) p
         | None \<Rightarrow> mutations t = [] \<and> (\<forall>i \<in> set (candidates c). no_trace (c\<lparr>active_identity := Some i\<rparr>) p)))"

definition cleanup_reports ::
    "RootPolicyContract \<Rightarrow> PolicyIo \<Rightarrow> entry list \<Rightarrow> RootPolicyCleanupFailure + unit \<Rightarrow> RootPolicyContract \<Rightarrow> bool" where
  "cleanup_reports c w t r c' =
     (case r of Inl e \<Rightarrow> active_identity c = None \<or> c' = c | Inr _ \<Rightarrow> cleaned c w t c')"

lemma owned_tables_empty:
  "owned_tables_loop i ls r = [] \<longleftrightarrow> r = [] \<and> (\<forall>l \<in> set ls. owned_tables_loop i [l] [] = [])"
  by (induction ls arbitrary: r) (auto simp: Let_def push_table_def push_new_def split: option.splits if_splits)

lemma verify_no_trace: "active_identity c = Some i \<Longrightarrow> verify_exact_cleanup c p \<longleftrightarrow> no_trace c p"
  using owned_tables_empty [of i "ipv4_rules p" "[]"]
  by (auto simp: verify_exact_cleanup_def no_trace_def product_line_def is_owned_ipv4_lookup_def owned_ipv4_lookup_tables_def
      list_all_iff list_ex_iff)

lemma no_signature_no_trace:
  assumes "\<not> fst (has_any_product_signature c p)" "i \<in> set (candidates c)"
  shows "no_trace (c\<lparr>active_identity := Some i\<rparr>) p"
proof -
  have mangle: "\<not> list_ex (product_line c) (ipv4_mangle p @ ipv6_mangle p)" and loop: "\<not> signature_loop c p (candidates c)"
    using assms(1) by (auto simp: has_any_product_signature_def split: if_splits)
  have "list_all (\<lambda>l. \<not> is_owned_ipv4_lookup (c\<lparr>active_identity := Some i\<rparr>) l \<and>
        \<not> is_owned_ipv4_guard (c\<lparr>active_identity := Some i\<rparr>) l) (ipv4_rules p) \<and>
      list_all (\<lambda>l. \<not> is_owned_ipv6_guard (c\<lparr>active_identity := Some i\<rparr>) l) (ipv6_rules p)"
    if "\<not> signature_loop d p cs" "i \<in> set cs" "d\<lparr>active_identity := Some i\<rparr> = c\<lparr>active_identity := Some i\<rparr>" for d cs
    using that by (induction cs arbitrary: d) (auto simp: Let_def list_all_iff list_ex_iff split: if_splits)
  moreover have "(\<not> str_contains l (chain_name (c\<lparr>active_identity := Some i\<rparr>)) \<and>
      l \<noteq> legacy_selector_line (c\<lparr>active_identity := Some i\<rparr>)) = (\<not> product_line c l)" for l
    unfolding product_line_active(1) [where c = c and a = "Some i", symmetric] product_line_def by blast
  ultimately show ?thesis
    using loop assms(2) mangle by (simp only: no_trace_def) (auto simp: list_all_iff list_ex_iff)
qed

lemma cleanup_unselected:
  assumes "cleanup_exact s w = ((r, s'), w')" and None: "active_identity (contract s) = None"
  shows "\<exists>t. trail w' = trail w @ t \<and> list_all closed (mutations t) \<and> cleanup_reports (contract s) w t r (contract s')"
proof -
  obtain a v where a: "read_snapshot w = (a, v)" by fastforce
  have "steps (\<lambda>_. False) w v" by (rule doesD [OF read_snapshot_does a])
  then obtain x where x: "trail v = trail w @ x" "mutations x = []" by (auto simp: steps_def list_all_iff)
  show ?thesis
  proof (cases a)
    case (Inl e)
    then show ?thesis using assms None a x by (auto simp: cleanup_exact_def cleanup_reports_def)
  next
    case (Inr p)
    have known: "snapshot_in (known x) = Some p"
      using read_snapshot_finds [of w p v] a Inr x(1) by (auto simp: finds_def known_def)
    obtain res c where res: "resolve_identity (contract s) p = (res, c)" by fastforce
    show ?thesis
    proof (cases res)
      case (Selected i)
      then have sel: "cleanup_selected (s\<lparr>contract := c\<rparr>) v = ((r, s'), w')"
        using assms None a Inr res by (simp add: cleanup_exact_def)
      have c: "c = (contract s)\<lparr>active_identity := Some i\<rparr>"
        using resolve_contract [OF res] resolve_selected(1) res Selected None by fastforce
      have i: "cleanup_identity (contract s) w = Some i" using None a Inr res Selected by (simp add: cleanup_identity_def)
      note ok = cleanup_selected_ok [OF sel]
      obtain t where t: "trail w' = trail v @ t" "list_all closed (mutations t)" using ok(1) by (auto simp: steps_def)
      show ?thesis
      proof (cases r)
        case (Inr u)
        then obtain q where "\<And>k. snapshot_in (foldl know k t) = Some q" "verify_exact_cleanup c q"
          using ok(2) t(1) by auto
        with t x ok(2) Inr None c i verify_no_trace [of c i q] show ?thesis
          by (intro exI [of _ "x @ t"]) (auto simp: known_def cleanup_reports_def cleaned_def)
      qed (use t x None in \<open>auto simp: cleanup_reports_def\<close>)
    next
      case IdentityCollision
      have "contract s' = c" "w' = v" "r = (if fst (has_any_product_signature c p) then Inl RootPolicyCleanupFailure.IdentityCollision else Inr ())"
        using assms None a Inr res IdentityCollision by (auto simp: cleanup_exact_def has_any_product_signature_def split: if_splits)
      moreover have "active_identity c = None" using resolve_collision res IdentityCollision None by blast
      moreover have "fst (has_any_product_signature c p) = fst (has_any_product_signature (contract s) p)"
        using resolve_contract [OF res] signature_active by auto
      moreover have "cleanup_identity (contract s) w = None"
        using None a Inr res IdentityCollision by (simp add: cleanup_identity_def)
      ultimately show ?thesis
        using x known no_signature_no_trace [of "contract s" p] None
        by (intro exI [of _ x]) (auto simp: cleanup_reports_def cleaned_def)
    qed
  qed
qed

text \<open>C34. A cleanup never runs a command that permits. It works for one identity: the active one, or, when none is
  active, the one that resolving the first snapshot it reads selects. It reports success only when it ends
  knowing, with no mutation since, a snapshot in which no IPv4 rule is a lookup or a guard of that identity, no
  IPv6 rule is a guard of it, and no line of the mangle tables names the product's chain or is its legacy
  selector; no identity is active any more. When there is no such identity, success means that it mutated
  nothing and that the snapshot is clear in this sense of every candidate. A cleanup that fails while an identity
  is active keeps it, so that a later cleanup can finish the work.\<close>

theorem cleanup_exact_verified:
  assumes "cleanup_exact s w = ((r, s'), w')"
  shows "\<exists>t. trail w' = trail w @ t \<and> list_all closed (mutations t) \<and> cleanup_reports (contract s) w t r (contract s')"
proof (cases "active_identity (contract s)")
  case (Some i)
  then have same: "(contract s)\<lparr>active_identity := Some i\<rparr> = contract s" by (cases "contract s") simp
  from assms Some have sel: "cleanup_selected s w = ((r, s'), w')" by (simp add: cleanup_exact_def)
  note ok = cleanup_selected_ok [OF sel]
  obtain t where t: "trail w' = trail w @ t" "list_all closed (mutations t)" using ok(1) by (auto simp: steps_def)
  show ?thesis
  proof (cases r)
    case (Inr u)
    then obtain p where "\<And>k. snapshot_in (foldl know k t) = Some p" "verify_exact_cleanup (contract s) p"
      using ok(2) t(1) by auto
    moreover have "cleanup_identity (contract s) w = Some i" by (simp add: cleanup_identity_def Some)
    ultimately show ?thesis
      using t ok(2) Inr verify_no_trace [OF Some]
      by (intro exI [of _ t]) (auto simp: known_def cleanup_reports_def cleaned_def same)
  qed (use t ok(3) in \<open>auto simp: cleanup_reports_def\<close>)
qed (rule cleanup_unselected [OF assms])

definition clean_script :: "RootAnswer list" where
  "clean_script =
     (let rules4 = prints [main_rule]; empty = prints [] in
      [rules4, empty, exits 1, empty, rules4, empty, exits 1, empty, empty, rules4, empty, empty, empty])"

abbreviation owning :: RootPolicyContract where
  "owning \<equiv> example_contract\<lparr>active_identity := Some example_identity\<rparr>"

lemma main_rule_unowned:
  "owned_ipv4_lookup_tables owning [main_rule] = []" "\<not> is_owned_guard owning main_rule"
  using main_lookup_foreign(2) owned_tables_none [of "[main_rule]" example_identity "[]"]
  by (simp_all add: owned_ipv4_lookup_tables_def is_owned_guard_def example_identity_def example_splits(1)
      del: owned_tables_loop.simps)

lemma clean_answers:
  "complete_lines (prints [main_rule]) = Some [main_rule]" "complete_lines (prints []) = Some []"
  "answered (exits 1) \<lparr>exit_code = 1, stdout = [], timed_out = False, output_complete = True, session_generation = 1\<rparr>"
  using prints_words [of "[[''32766:'', ''from'', ''all'', ''lookup'', ''main'']]"] prints_words [of "[]"] example_words
  by (simp_all add: answered_def exits_def unanswered_def)

lemma clean_run:
  "\<exists>w'. cleanup_exact (started owning 1) (world clean_script 1) = ((Inr (), started example_contract 1), w')"
proof -
  have passes: "MAX_RECONCILE_PASSES = Suc 7" by (simp add: MAX_RECONCILE_PASSES_def)
  have lookups: "remove_owned_ipv4_lookups owning \<lparr>replies = prints [main_rule] # rest, generations = g, currents = cs, trail = t\<rparr> =
      (Inr (), \<lparr>replies = rest, generations = g, currents = cs, trail = t @ [(observation_of IPV4_RULE_SHOW, prints [main_rule])]\<rparr>)"
    for rest g cs t
    unfolding remove_owned_ipv4_lookups_def passes
    by (simp only: remove_lookups_loop.simps)
      (simp add: and_then_def lines_run sendable_shows clean_answers main_rule_unowned succeed_def)
  have jumps: "remove_all_output_jumps owning b \<lparr>replies = prints [] # rest, generations = g, currents = cs, trail = t\<rparr> =
      (Inr (), \<lparr>replies = rest, generations = g, currents = cs, trail = t @ [(observation_of (mangle_show b), prints [])]\<rparr>)"
    if "is_binary b" for b rest g cs t
    unfolding remove_all_output_jumps_def passes using that
    by (simp only: remove_jumps_loop.simps)
      (auto simp: and_then_def lines_run sendable_shows clean_answers succeed_def is_binary_def output_jump_count_def line_count_def)
  have chain: "remove_owned_chain owning b ipv4 \<lparr>replies = prints [] # rest, generations = g, currents = cs, trail = t\<rparr> =
      (Inr (), \<lparr>replies = rest, generations = g, currents = cs, trail = t @ [(observation_of (mangle_show b), prints [])]\<rparr>)"
    if "is_binary b" for b ipv4 rest g cs t
    using that by (auto simp: remove_owned_chain_def and_then_def lines_run sendable_shows clean_answers succeed_def is_binary_def)
  have guard: "remove_guard owning ipv4 \<lparr>replies = prints ls # rest, generations = g, currents = cs, trail = t\<rparr> =
      (Inr (), \<lparr>replies = rest, generations = g, currents = cs, trail = t @ [(observation_of (rule_show ipv4), prints ls)]\<rparr>)"
    if "ls = [] \<or> ls = [main_rule]" for ipv4 ls rest g cs t
    unfolding remove_guard_def passes using that
    by (simp only: remove_guard_loop.simps)
      (auto simp: and_then_def lines_run sendable_shows clean_answers succeed_def rule_show_def owned_guard_in_def
        is_owned_ipv4_guard_def is_owned_ipv6_guard_def main_rule_unowned)
  have final: "shows_snapshot [prints [main_rule], prints [], prints [], prints []]
      \<lparr>ipv4_rules = [main_rule], ipv6_rules = [], ipv4_mangle = [], ipv6_mangle = []\<rparr>"
    by (simp add: shows_snapshot_def clean_answers)
  have "(started owning 1)\<lparr>contract := clear_active_identity owning\<rparr> = started example_contract 1"
    by (simp add: started_def clear_active_identity_def example_contract_def)
  then show ?thesis
    by (simp add: cleanup_exact_def cleanup_selected_def cleanup_family_def cleanup_verify_def clean_script_def world_def
        started_def Let_def lookups jumps chain guard remove_absent_run [OF legacy_sendable clean_answers(3)]
        probe_authority_def io_generation_def read_snapshot_run [OF final] verify_exact_cleanup_def
        is_owned_ipv4_guard_def is_owned_ipv6_guard_def main_rule_unowned)
qed

theorem cleanup_exact_verified_witness:
  "\<exists>w' t. cleanup_exact (started owning 1) (world clean_script 1) = ((Inr (), started example_contract 1), w') \<and>
     trail w' = t \<and> cleaned owning (world clean_script 1) t example_contract"
proof -
  obtain w' where r: "cleanup_exact (started owning 1) (world clean_script 1) = ((Inr (), started example_contract 1), w')"
    using clean_run by blast
  from cleanup_exact_verified [OF r] r show ?thesis by (auto simp: world_def started_def cleanup_reports_def)
qed

subsection \<open>The state over a life of the runtime\<close>

text \<open>A candidate of one namespace is never one of the other.\<close>

lemma namespaces_disjoint: "set RELEASE_POLICY_CANDIDATES \<inter> set DEBUG_POLICY_CANDIDATES = {}"
  by (simp add: RELEASE_POLICY_CANDIDATES_def DEBUG_POLICY_CANDIDATES_def)

text \<open>The calls on the runtime, each with what it meets outside.\<close>

datatype RootPolicyCall = ReconcileCall bool "string option" PolicyIo | CleanupCall PolicyIo

fun policy_call :: "RootPolicyState \<Rightarrow> RootPolicyCall \<Rightarrow> RootPolicyState" where
  "policy_call s (ReconcileCall admitted interface_name w) = snd (fst (reconcile_if_current s admitted interface_name w))"
| "policy_call s (CleanupCall w) = snd (fst (cleanup_exact s w))"

definition contract_typed :: "u32 \<Rightarrow> RootPolicyNamespace \<Rightarrow> RootPolicyContract \<Rightarrow> bool" where
  "contract_typed uid namespace c \<longleftrightarrow>
     product_uid c = uid \<and> policy_namespace c = namespace \<and>
     (case active_identity c of None \<Rightarrow> True | Some i \<Rightarrow> i \<in> set (candidates c))"

definition state_typed :: "u32 \<Rightarrow> RootPolicyNamespace \<Rightarrow> RootPolicyState \<Rightarrow> bool" where
  "state_typed uid namespace s \<longleftrightarrow>
     contract_typed uid namespace (contract s) \<and>
     terminal_authority s \<in> {None, Some InteractiveGrantRequired, Some Denied}"

definition state_new :: "u32 \<Rightarrow> RootPolicyNamespace \<Rightarrow> RootPolicyState" where
  "state_new uid namespace =
     \<lparr>contract = \<lparr>product_uid = uid, policy_namespace = namespace, active_identity = None\<rparr>,
      ready_session_generation = None, terminal_authority = None\<rparr>"

lemma resolve_typed:
  assumes "resolve_identity c p = (x, c')" "contract_typed uid namespace c"
  shows "contract_typed uid namespace c'"
proof -
  have "candidates (c\<lparr>active_identity := a\<rparr>) = candidates c" for a by (simp add: candidates_def)
  then show ?thesis
    using resolve_contract [OF assms(1)] assms(2) by (auto simp: contract_typed_def split: option.splits)
qed

lemma probe_terminal:
  assumes "probe_authority s w = ((authority, s'), w')" "terminal_authority s \<in> {None, Some InteractiveGrantRequired, Some Denied}"
  shows "terminal_authority s' \<in> {None, Some InteractiveGrantRequired, Some Denied}"
proof -
  have "probe_rules t v = ((x, t'), v') \<Longrightarrow> terminal_authority t' = terminal_authority t" for t v x t' v'
    by (auto simp: probe_rules_def split: sum.splits prod.splits bool.splits if_splits)
  then have "probe_identity t v = ((x, t'), v') \<Longrightarrow> terminal_authority t' \<in> {terminal_authority t, Some InteractiveGrantRequired, Some Denied}"
    for t v x t' v'
    by (fastforce simp: probe_identity_def split: sum.splits prod.splits if_splits)
  from this [of "s\<lparr>ready_session_generation := None\<rparr>" _ authority s' w'] assms show ?thesis
    by (auto simp: probe_authority_def split: option.splits prod.splits if_splits)
qed

lemma reconcile_typed:
  assumes "state_typed uid namespace s"
  shows "state_typed uid namespace (snd (fst (reconcile_if_current s admitted interface_name w)))"
proof -
  have authorized: "contract_typed uid namespace c'"
    if "contract_typed uid namespace c" "reconcile_authorized c admitted interface_name v = (((r, b), c'), v')" for c c' v r b v'
    using that(2) resolve_typed [OF _ that(1)] that(1)
    by (auto simp: reconcile_authorized_def split: sum.splits prod.splits bool.splits PolicyIdentityResolution.splits if_splits)
  obtain b0 w0 where b0: "is_current w = (b0, w0)" by fastforce
  obtain authority s1 w1 where p: "probe_authority s w0 = ((authority, s1), w1)" by (metis surj_pair)
  obtain b1 w2 where b1: "is_current w1 = (b1, w2)" by fastforce
  obtain r superseded c w3 where r: "reconcile_authorized (contract s1) admitted interface_name w2 = (((r, superseded), c), w3)"
    by (metis surj_pair)
  have s1: "state_typed uid namespace s1"
    using assms probe_authority_keeps(2) [OF p] probe_terminal [OF p] by (simp add: state_typed_def)
  then have "contract_typed uid namespace c" using authorized [OF _ r] by (simp add: state_typed_def)
  then show ?thesis
    using assms s1 b0 p b1 r by (cases b0; cases b1) (auto simp: reconcile_if_current_def state_typed_def)
qed

lemma cleanup_typed:
  assumes "state_typed uid namespace s"
  shows "state_typed uid namespace (snd (fst (cleanup_exact s w)))"
proof -
  have verify: "state_typed uid namespace (snd (fst (cleanup_verify t v)))" if "state_typed uid namespace t" for t v
  proof -
    obtain authority t1 v1 where p: "probe_authority t v = ((authority, t1), v1)" by (metis surj_pair)
    have t1: "state_typed uid namespace t1"
      using that probe_authority_keeps(2) [OF p] probe_terminal [OF p] by (simp add: state_typed_def)
    then have "state_typed uid namespace (t1\<lparr>contract := clear_active_identity (contract t1)\<rparr>)"
      by (simp add: state_typed_def contract_typed_def clear_active_identity_def)
    with t1 show ?thesis by (simp add: cleanup_verify_def p split: sum.split prod.split)
  qed
  have selected: "state_typed uid namespace (snd (fst (cleanup_selected t v)))" if "state_typed uid namespace t" for t v
    using that verify [OF that] by (simp add: cleanup_selected_def split: sum.split prod.split)
  obtain a v where a: "read_snapshot w = (a, v)" by fastforce
  show ?thesis
  proof (cases a)
    case (Inl e)
    then show ?thesis using assms selected [OF assms] a by (simp add: cleanup_exact_def)
  next
    case (Inr p)
    obtain x c where x: "resolve_identity (contract s) p = (x, c)" by fastforce
    have c: "state_typed uid namespace (s\<lparr>contract := c\<rparr>)"
      using resolve_typed [OF x] assms by (simp add: state_typed_def)
    have "snd (has_any_product_signature c p) = c" by (simp add: has_any_product_signature_def)
    then show ?thesis using assms selected [OF assms] selected [OF c] c a Inr x
      by (cases x) (simp_all add: cleanup_exact_def case_prod_beta)
  qed
qed

interpretation root_policy: guarded_machine "state_new uid namespace" policy_call "state_typed uid namespace" for uid namespace
proof
  show "state_typed uid namespace (state_new uid namespace)"
    by (simp add: state_typed_def state_new_def contract_typed_def)
  show "state_typed uid namespace (policy_call s e)" if "state_typed uid namespace s" for s e
    using that by (cases e) (auto intro: reconcile_typed cleanup_typed)
qed

text \<open>C35. The runtime can be built exactly for a user id that is not root, and whatever calls of reconcile
  and cleanup it then serves, whatever the shell answers to them: its contract keeps the user id and the
  namespace, the active identity is none or one of the four candidates of the namespace, and the terminal authority is none, a denial or an interactive grant.\<close>

theorem root_policy_state_typed:
  "case with_io uid namespace of
     None \<Rightarrow> uid = 0
   | Some s \<Rightarrow> uid \<noteq> 0 \<and> state_typed uid namespace (foldl policy_call s served)"
  using root_policy.inv_reachable [of uid namespace served]
  by (simp add: with_io_def RootPolicyContract_new_def state_new_def)

end
