(* ===== verification/Cellular_Policy.thy ===== *)
theory Cellular_Policy
  imports Cellular_Egress Root_Policy_Runtime
begin

text \<open>
  The cellular runtime with its effect gate, \<open>src/crates/runtime/src/cellular_runtime.rs\<close>, and the coordinator
  that reconciles the root policy with every generation of the cellular owner,
  \<open>src/crates/runtime/src/cellular_policy_coordinator.rs\<close>. The calls of the platform, the drain task, the
  recovery timers and the shutdown are interleaved between their critical sections. A drain is spawned in
  the critical section that schedules it, where the code spawns it right after. Poisoned locks, the
  observer callbacks and the elapsed times are left out.
\<close>

subsection \<open>The effect gate\<close>

record RootPolicyEffectGate =
  gate_ready :: bool
  in_flight :: usize

definition gate_new :: RootPolicyEffectGate where
  "gate_new = \<lparr>gate_ready = False, in_flight = 0\<rparr>"

definition set_ready :: "bool \<Rightarrow> RootPolicyEffectGate \<Rightarrow> RootPolicyEffectGate" where
  "set_ready ready g = g\<lparr>gate_ready := ready\<rparr>"

definition gate_acquire :: "RootPolicyEffectGate \<Rightarrow> RootPolicyEffectGate option" where
  "gate_acquire g =
     (if \<not> gate_ready g then None
      else case checked_add_usize (in_flight g) 1 of None \<Rightarrow> None | Some n \<Rightarrow> Some (g\<lparr>in_flight := n\<rparr>))"

definition gate_release :: "RootPolicyEffectGate \<Rightarrow> RootPolicyEffectGate" where
  "gate_release g = (if in_flight g = 0 then g else g\<lparr>in_flight := in_flight g - 1\<rparr>)"

subsection \<open>The cellular runtime\<close>

datatype CellularRuntimeError = InvalidOperationTimeout | ConnectorUnavailable | RuntimeStateUnavailable

definition OPERATION_TIMEOUT_MAX_MS :: nat where "OPERATION_TIMEOUT_MAX_MS = 120000"

text \<open>Durations in nanoseconds.\<close>

definition validate_operation_timeout :: "nat \<Rightarrow> CellularRuntimeError + unit" where
  "validate_operation_timeout t =
     (if t = 0 \<or> t div 1000000 > OPERATION_TIMEOUT_MAX_MS then Inl InvalidOperationTimeout else Inr ())"

record CellularRuntime =
  rt_owner :: CellularEgress
  rt_gate :: RootPolicyEffectGate

definition cellular_runtime_new :: CellularRuntime where
  "cellular_runtime_new = \<lparr>rt_owner = cellular_new, rt_gate = gate_new\<rparr>"

definition admission_snapshot :: "CellularRuntime \<Rightarrow> CellularAdmissionSnapshot" where
  "admission_snapshot r = admission (rt_owner r)"

definition rt_observe_network :: "NetworkObservation \<Rightarrow> CellularRuntime \<Rightarrow> CellularRuntime" where
  "rt_observe_network obs r =
     r\<lparr>rt_gate := set_ready False (rt_gate r), rt_owner := snd (observe (rt_owner r) obs)\<rparr>"

definition rt_network_lost :: "ObservationSequence \<Rightarrow> NetworkHandle \<Rightarrow> CellularRuntime \<Rightarrow> CellularRuntime" where
  "rt_network_lost q handle r =
     r\<lparr>rt_gate := set_ready False (rt_gate r), rt_owner := snd (lost (rt_owner r) q handle)\<rparr>"

definition close_root_policy_gate :: "CellularRuntime \<Rightarrow> CellularRuntime" where
  "close_root_policy_gate r = r\<lparr>rt_gate := set_ready False (rt_gate r)\<rparr>"

definition authorize_root_policy ::
    "ObservationSequence \<Rightarrow> NetworkHandle \<Rightarrow> CellularRuntime \<Rightarrow> bool \<times> CellularRuntime" where
  "authorize_root_policy q handle r =
     (let a = admission_snapshot r;
          current = (admission_state a = Admitted \<and> last_sequence a = Some q \<and> admitted_network a = Some handle)
      in (current, r\<lparr>rt_gate := set_ready current (rt_gate r)\<rparr>))"

subsection \<open>The coordinator's state\<close>

record ReconcileRequest =
  req_admission :: CellularAdmissionSnapshot
  req_interface :: "string option"

record CellularPolicyPublication =
  pub_admission :: CellularAdmissionSnapshot
  pub_result :: RootPolicyResult

record CoordinatorState =
  latest :: "ReconcileRequest option"
  drain_scheduled :: bool
  requested :: u64
  executed :: u64
  coalesced :: u64
  last_owner_sequence :: "u64 option"
  stale_after_reconcile :: u64
  superseded_during_reconcile :: u64
  interface_hints :: "NetworkHandle \<rightharpoonup> string"
  recovery_pending :: bool
  recovery_attempts :: u32
  recovery_epoch :: u64
  last_policy_result :: "RootPolicyResult option"
  last_publication :: "CellularPolicyPublication option"
  last_admission :: "CellularAdmissionSnapshot option"
  coordinator_closed :: bool

definition coordinator_new :: CoordinatorState where
  "coordinator_new =
     \<lparr>latest = None, drain_scheduled = False, requested = 0, executed = 0, coalesced = 0,
      last_owner_sequence = None, stale_after_reconcile = 0, superseded_during_reconcile = 0,
      interface_hints = Map.empty, recovery_pending = False, recovery_attempts = 0, recovery_epoch = 0,
      last_policy_result = None, last_publication = None, last_admission = None, coordinator_closed = False\<rparr>"

definition same_generation :: "CellularAdmissionSnapshot \<Rightarrow> CellularAdmissionSnapshot \<Rightarrow> bool" where
  "same_generation expected now =
     (if last_sequence expected = None
      then admission_state expected = AdmissionUnknown \<and> admission_state now = AdmissionUnknown \<and>
           last_sequence now = None \<and> admitted_network expected = None \<and> admitted_network now = None
      else last_sequence expected = last_sequence now \<and> admission_state expected = admission_state now \<and>
           admitted_network expected = admitted_network now)"

definition RECOVERY_DELAYS_MS :: "u64 list" where
  "RECOVERY_DELAYS_MS = [0, 1000, 5000, 15000, 30000, 60000]"

definition recovery_delay_ms :: "u32 \<Rightarrow> u64" where
  "recovery_delay_ms attempt = RECOVERY_DELAYS_MS ! min (unat attempt) (length RECOVERY_DELAYS_MS - 1)"

definition saturating_inc32 :: "u32 \<Rightarrow> u32" where
  "saturating_inc32 n = (case checked_add n 1 of None \<Rightarrow> n | Some m \<Rightarrow> m)"

definition reset_recovery :: "CoordinatorState \<Rightarrow> CoordinatorState" where
  "reset_recovery c =
     c\<lparr>recovery_epoch := recovery_epoch c + 1, recovery_pending := False, recovery_attempts := 0\<rparr>"

definition publish :: "CellularAdmissionSnapshot \<Rightarrow> RootPolicyResult \<Rightarrow> CoordinatorState \<Rightarrow> CoordinatorState" where
  "publish a r c =
     c\<lparr>last_policy_result := Some r, last_publication := Some \<lparr>pub_admission = a, pub_result = r\<rparr>\<rparr>"

definition publish_admission :: "CellularAdmissionSnapshot \<Rightarrow> CoordinatorState \<Rightarrow> CoordinatorState" where
  "publish_admission a c = (if last_admission c = Some a then c else c\<lparr>last_admission := Some a\<rparr>)"

text \<open>Taking a request into the slot; the flag says whether a drain has to be spawned.\<close>

definition put_latest :: "ReconcileRequest \<Rightarrow> CoordinatorState \<Rightarrow> bool \<times> CoordinatorState" where
  "put_latest request c =
     (\<not> drain_scheduled c,
      c\<lparr>coalesced := (if latest c \<noteq> None then saturating_inc (coalesced c) else coalesced c),
        latest := Some request, drain_scheduled := True\<rparr>)"

definition coordinator_shut :: "CoordinatorState \<Rightarrow> CoordinatorState" where
  "coordinator_shut c =
     c\<lparr>coordinator_closed := True, latest := None, recovery_epoch := recovery_epoch c + 1, recovery_pending := False\<rparr>"

subsection \<open>The system\<close>

text \<open>Where a call of the platform stands, by what it does next.\<close>

datatype CallPhase =
    SetHint NetworkHandle "string option" CellularAdmissionSnapshot
  | DropHint NetworkHandle CellularAdmissionSnapshot
  | PublishAdmission CellularAdmissionSnapshot
  | ReadRequest CellularAdmissionSnapshot
  | Offer ReconcileRequest

datatype DrainPhase =
    DrainTop
  | DrainTaken ReconcileRequest
  | DrainWaiting ReconcileRequest
  | DrainReady ReconcileRequest
  | DrainReconciled ReconcileRequest RootPolicyResult
  | DrainDeciding ReconcileRequest RootPolicyResult
  | DrainResetting ReconcileRequest RootPolicyResult
  | DrainPublishing ReconcileRequest RootPolicyResult
  | DrainRetrying ReconcileRequest RootPolicyResult
  | DrainScheduling ReconcileRequest
  | DrainProcessed

datatype ShutdownPhase = ShutdownGate | ShutdownWait | ShutdownCleanup bool | ShutdownSession bool

text \<open>\<open>enforced\<close> is a history: the generations for which a reconcile of this coordinator returned Enforced.
  \<open>executor_up\<close> says whether the executor takes tasks.\<close>

record PolicySystem =
  cellular :: CellularRuntime
  coordinator :: CoordinatorState
  root_policy :: RootPolicyState
  api_calls :: "CallPhase list"
  drains :: "DrainPhase list"
  timers :: "(u64 \<times> ReconcileRequest) list"
  shutdowns :: "ShutdownPhase list"
  shutdown_results :: "bool list"
  executor_up :: bool
  enforced :: "(ObservationSequence \<times> NetworkHandle) set"

definition request_is_current :: "PolicySystem \<Rightarrow> ReconcileRequest \<Rightarrow> bool" where
  "request_is_current s request = same_generation (req_admission request) (admission_snapshot (cellular s))"

definition spawn_drain :: "PolicySystem \<Rightarrow> PolicySystem" where
  "spawn_drain s = (if executor_up s then s\<lparr>drains := drains s @ [DrainTop]\<rparr> else s)"

definition take_request :: "ReconcileRequest \<Rightarrow> PolicySystem \<Rightarrow> PolicySystem" where
  "take_request request s =
     (case put_latest request (coordinator s) of (schedule, c) \<Rightarrow>
        let s = s\<lparr>coordinator := c\<rparr> in if schedule then spawn_drain s else s)"

definition offer_new_owner_request :: "ReconcileRequest \<Rightarrow> PolicySystem \<Rightarrow> PolicySystem" where
  "offer_new_owner_request request s =
     (let c = coordinator s in
      if coordinator_closed c then s
      else take_request request
        (s\<lparr>coordinator := c\<lparr>requested := saturating_inc (requested c), recovery_epoch := recovery_epoch c + 1,
                            recovery_pending := False, recovery_attempts := 0\<rparr>\<rparr>))"

definition fire_recovery :: "u64 \<Rightarrow> ReconcileRequest \<Rightarrow> PolicySystem \<Rightarrow> PolicySystem" where
  "fire_recovery epoch request s =
     (let c = coordinator s in
      if coordinator_closed c \<or> recovery_epoch c \<noteq> epoch \<or> \<not> recovery_pending c then s
      else let s = s\<lparr>coordinator := c\<lparr>recovery_pending := False\<rparr>\<rparr>
           in if \<not> request_is_current s request then s else take_request request s)"

definition schedule_recovery :: "ReconcileRequest \<Rightarrow> PolicySystem \<Rightarrow> PolicySystem" where
  "schedule_recovery request s =
     (let c = coordinator s in
      if coordinator_closed c \<or> recovery_pending c then s
      else let c' = c\<lparr>recovery_attempts := saturating_inc32 (recovery_attempts c), recovery_pending := executor_up s\<rparr>
           in s\<lparr>coordinator := c',
                timers := (if executor_up s then timers s @ [(recovery_epoch c, request)] else timers s)\<rparr>)"

text \<open>One critical section of a call: what is left of the call, and the system.\<close>

definition call_step :: "CallPhase \<Rightarrow> PolicySystem \<Rightarrow> CallPhase option \<times> PolicySystem" where
  "call_step p s =
     (case p of
        SetHint handle interface_name a \<Rightarrow>
          (Some (PublishAdmission a),
           case interface_name of
             None \<Rightarrow> s
           | Some name \<Rightarrow>
               s\<lparr>coordinator := (coordinator s)\<lparr>interface_hints := (interface_hints (coordinator s))(handle \<mapsto> name)\<rparr>\<rparr>)
      | DropHint handle a \<Rightarrow>
          (Some (PublishAdmission a),
           s\<lparr>coordinator := (coordinator s)\<lparr>interface_hints := (interface_hints (coordinator s))(handle := None)\<rparr>\<rparr>)
      | PublishAdmission a \<Rightarrow> (Some (ReadRequest a), s\<lparr>coordinator := publish_admission a (coordinator s)\<rparr>)
      | ReadRequest a \<Rightarrow>
          if coordinator_closed (coordinator s) then (None, s)
          else (Some (Offer \<lparr>req_admission = a,
                  req_interface = Option.bind (admitted_network a) (interface_hints (coordinator s))\<rparr>), s)
      | Offer request \<Rightarrow> (None, offer_new_owner_request request s))"

text \<open>One step of a drain. \<open>quiesced\<close> is the answer of the wait for the gate, which says False when its
  15 s run out, and \<open>w\<close> what the root policy meets; whether the request is still current during the transaction is one of its answers.\<close>

definition admitted_request :: "ReconcileRequest \<Rightarrow> bool" where
  "admitted_request request \<longleftrightarrow> admission_state (req_admission request) = Admitted"

definition note_enforced :: "ReconcileRequest \<Rightarrow> RootPolicyResult \<Rightarrow> PolicySystem \<Rightarrow> PolicySystem" where
  "note_enforced request r s =
     (case (r, last_sequence (req_admission request), admitted_network (req_admission request)) of
        (Enforced, Some q, Some h) \<Rightarrow> s\<lparr>enforced := insert (q, h) (enforced s)\<rparr>
      | _ \<Rightarrow> s)"

definition decide :: "ReconcileRequest \<Rightarrow> RootPolicyResult \<Rightarrow> PolicySystem \<Rightarrow> DrainPhase \<times> PolicySystem" where
  "decide request r s =
     (if r = Enforced then
        (case (last_sequence (req_admission request), admitted_network (req_admission request)) of
           (Some q, Some h) \<Rightarrow>
             (case authorize_root_policy q h (cellular s) of (ok, rt) \<Rightarrow>
                (if ok then DrainResetting request r else DrainProcessed, s\<lparr>cellular := rt\<rparr>))
         | _ \<Rightarrow> (DrainProcessed, s))
      else if r = FailClosed None \<and> \<not> admitted_request request then (DrainResetting request r, s)
      else if retryable r then (DrainRetrying request r, s)
      else (DrainResetting request r, s))"

definition reconcile_request :: "ReconcileRequest \<Rightarrow> PolicyIo \<Rightarrow> PolicySystem \<Rightarrow> DrainPhase \<times> PolicySystem" where
  "reconcile_request request w s =
     (case reconcile_if_current (root_policy s) (admitted_request request) (req_interface request) w of
        ((outcome, pol), _) \<Rightarrow>
          (case outcome of
             Completed r \<Rightarrow> (DrainReconciled request r, note_enforced request r (s\<lparr>root_policy := pol\<rparr>))
           | Superseded \<Rightarrow>
               (DrainProcessed,
                s\<lparr>root_policy := pol, coordinator := (coordinator s)\<lparr>superseded_during_reconcile :=
                    saturating_inc (superseded_during_reconcile (coordinator s))\<rparr>\<rparr>)))"

definition drain_top :: "PolicySystem \<Rightarrow> DrainPhase option \<times> PolicySystem" where
  "drain_top s =
     (let c = coordinator s in
      if coordinator_closed c then (None, s\<lparr>coordinator := c\<lparr>latest := None, drain_scheduled := False\<rparr>\<rparr>)
      else case latest c of
        Some request \<Rightarrow> (Some (DrainTaken request), s\<lparr>coordinator := c\<lparr>latest := None\<rparr>\<rparr>)
      | None \<Rightarrow> (None, s\<lparr>coordinator := c\<lparr>drain_scheduled := False\<rparr>\<rparr>))"

definition drain_step :: "DrainPhase \<Rightarrow> bool \<Rightarrow> PolicyIo \<Rightarrow> PolicySystem \<Rightarrow> DrainPhase option \<times> PolicySystem" where
  "drain_step p quiesced w s =
     (case p of
        DrainTop \<Rightarrow> drain_top s
      | DrainTaken request \<Rightarrow>
          (Some (if request_is_current s request then DrainWaiting request else DrainProcessed), s)
      | DrainWaiting request \<Rightarrow>
          if quiesced \<and> in_flight (rt_gate (cellular s)) \<noteq> 0 then (Some p, s)
          else if \<not> quiesced \<or> \<not> request_is_current s request then (Some DrainProcessed, s)
          else (Some (DrainReady request),
                s\<lparr>coordinator := (coordinator s)\<lparr>last_owner_sequence := last_sequence (req_admission request)\<rparr>\<rparr>)
      | DrainReady request \<Rightarrow> (case reconcile_request request w s of (p, s) \<Rightarrow> (Some p, s))
      | DrainReconciled request r \<Rightarrow>
          if request_is_current s request then (Some (DrainDeciding request r), s)
          else (Some DrainProcessed,
                s\<lparr>coordinator := (coordinator s)\<lparr>stale_after_reconcile :=
                    saturating_inc (stale_after_reconcile (coordinator s))\<rparr>\<rparr>)
      | DrainDeciding request r \<Rightarrow> (case decide request r s of (p, s) \<Rightarrow> (Some p, s))
      | DrainResetting request r \<Rightarrow>
          (Some (DrainPublishing request r), s\<lparr>coordinator := reset_recovery (coordinator s)\<rparr>)
      | DrainPublishing request r \<Rightarrow>
          (Some DrainProcessed, s\<lparr>coordinator := publish (req_admission request) r (coordinator s)\<rparr>)
      | DrainRetrying request r \<Rightarrow>
          (Some (DrainScheduling request), s\<lparr>coordinator := publish (req_admission request) r (coordinator s)\<rparr>)
      | DrainScheduling request \<Rightarrow> (Some DrainProcessed, schedule_recovery request s)
      | DrainProcessed \<Rightarrow>
          (Some DrainTop, s\<lparr>coordinator := (coordinator s)\<lparr>executed := saturating_inc (executed (coordinator s))\<rparr>\<rparr>))"

definition shutdown_step :: "ShutdownPhase \<Rightarrow> bool \<Rightarrow> PolicyIo \<Rightarrow> PolicySystem \<Rightarrow> ShutdownPhase option \<times> PolicySystem" where
  "shutdown_step p quiesced w s =
     (case p of
        ShutdownGate \<Rightarrow> (Some ShutdownWait, s\<lparr>cellular := close_root_policy_gate (cellular s)\<rparr>)
      | ShutdownWait \<Rightarrow>
          if quiesced \<and> in_flight (rt_gate (cellular s)) \<noteq> 0 then (Some p, s) else (Some (ShutdownCleanup quiesced), s)
      | ShutdownCleanup quiesced \<Rightarrow>
          if \<not> quiesced then (Some (ShutdownSession False), s)
          else (case cleanup_exact (root_policy s) w of
                  ((r, pol), _) \<Rightarrow> (Some (ShutdownSession (r = Inr ())), s\<lparr>root_policy := pol\<rparr>))
      | ShutdownSession cleanup \<Rightarrow> (None, s\<lparr>shutdown_results := shutdown_results s @ [cleanup]\<rparr>))"

datatype PolicyEvent =
    BeginStart
  | BeginObserve NetworkObservation NetworkHandle "string option"
  | BeginLost ObservationSequence NetworkHandle
  | StepCall nat
  | StepDrain nat bool PolicyIo
  | FireTimer nat
  | BeginShutdown
  | StepShutdown nat bool PolicyIo
  | AcquirePermit
  | ReleasePermit

definition set_task :: "nat \<Rightarrow> 'p option \<Rightarrow> 'p list \<Rightarrow> 'p list" where
  "set_task i p ps = take i ps @ (case p of None \<Rightarrow> [] | Some p \<Rightarrow> [p]) @ drop (Suc i) ps"

fun policy_system_step :: "PolicySystem \<Rightarrow> PolicyEvent \<Rightarrow> PolicySystem" where
  "policy_system_step s BeginStart =
     s\<lparr>api_calls := api_calls s @ [PublishAdmission (admission_snapshot (cellular s))]\<rparr>"
| "policy_system_step s (BeginObserve obs handle interface_name) =
     (let rt = rt_observe_network obs (cellular s)
      in s\<lparr>cellular := rt, api_calls := api_calls s @ [SetHint handle interface_name (admission_snapshot rt)]\<rparr>)"
| "policy_system_step s (BeginLost q handle) =
     (let rt = rt_network_lost q handle (cellular s)
      in s\<lparr>cellular := rt, api_calls := api_calls s @ [DropHint handle (admission_snapshot rt)]\<rparr>)"
| "policy_system_step s (StepCall i) =
     (if i < length (api_calls s)
      then (case call_step (api_calls s ! i) s of (p, s') \<Rightarrow> s'\<lparr>api_calls := set_task i p (api_calls s)\<rparr>)
      else s)"
| "policy_system_step s (StepDrain i quiesced w) =
     (if i < length (drains s)
      then (case drain_step (drains s ! i) quiesced w s of (p, s') \<Rightarrow> s'\<lparr>drains := set_task i p (drains s')\<rparr>)
      else s)"
| "policy_system_step s (FireTimer i) =
     (if i < length (timers s)
      then fire_recovery (fst (timers s ! i)) (snd (timers s ! i)) (s\<lparr>timers := set_task i None (timers s)\<rparr>)
      else s)"
| "policy_system_step s BeginShutdown =
     s\<lparr>coordinator := coordinator_shut (coordinator s), shutdowns := shutdowns s @ [ShutdownGate]\<rparr>"
| "policy_system_step s (StepShutdown i quiesced w) =
     (if i < length (shutdowns s)
      then (case shutdown_step (shutdowns s ! i) quiesced w s of (p, s') \<Rightarrow> s'\<lparr>shutdowns := set_task i p (shutdowns s)\<rparr>)
      else s)"
| "policy_system_step s AcquirePermit =
     (case gate_acquire (rt_gate (cellular s)) of
        None \<Rightarrow> s | Some g \<Rightarrow> s\<lparr>cellular := (cellular s)\<lparr>rt_gate := g\<rparr>\<rparr>)"
| "policy_system_step s ReleasePermit =
     s\<lparr>cellular := (cellular s)\<lparr>rt_gate := gate_release (rt_gate (cellular s))\<rparr>\<rparr>"

definition policy_system_new :: "bool \<Rightarrow> RootPolicyState \<Rightarrow> PolicySystem" where
  "policy_system_new up pol =
     \<lparr>cellular = cellular_runtime_new, coordinator = coordinator_new, root_policy = pol, api_calls = [], drains = [],
      timers = [], shutdowns = [], shutdown_results = [], executor_up = up, enforced = {}\<rparr>"

end
