(* ===== verification/Cellular_Policy_Runs.thy ===== *)
theory Cellular_Policy_Runs
  imports Cellular_Policy Root_Policy_Runs
begin

text \<open>
  What every interleaving of the cellular policy coordinator keeps
  (\<open>src/crates/runtime/src/cellular_policy_coordinator.rs\<close>, \<open>cellular_runtime.rs\<close>): the effect gate is ready only
  under an admission that was enforced, and one drain serves the request slot; and two interleavings that its
  critical sections leave open.
\<close>

lemma set_task_mem: "x \<in> set (set_task i p ps) \<Longrightarrow> x \<in> set ps \<or> p = Some x"
  by (auto simp: set_task_def split: option.splits dest: in_set_takeD in_set_dropD)

lemma set_task_length [simp]:
  "i < length ps \<Longrightarrow> length (set_task i (Some p) ps) = length ps"
  "i < length ps \<Longrightarrow> length (set_task i None ps) = length ps - 1"
  by (auto simp: set_task_def)

subsection \<open>The invariant\<close>

definition generation_enforced :: "(ObservationSequence \<times> NetworkHandle) set \<Rightarrow> CellularAdmissionSnapshot \<Rightarrow> bool" where
  "generation_enforced E a =
     (case (last_sequence a, admitted_network a) of (Some q, Some h) \<Rightarrow> (q, h) \<in> E | _ \<Rightarrow> False)"

definition phase_enforced :: "(ObservationSequence \<times> NetworkHandle) set \<Rightarrow> DrainPhase \<Rightarrow> bool" where
  "phase_enforced E p =
     (case p of
        DrainReconciled request r \<Rightarrow>
          r = Enforced \<longrightarrow> last_sequence (req_admission request) \<noteq> None \<longrightarrow> admitted_network (req_admission request) \<noteq> None \<longrightarrow>
          generation_enforced E (req_admission request)
      | DrainDeciding request r \<Rightarrow>
          r = Enforced \<longrightarrow> last_sequence (req_admission request) \<noteq> None \<longrightarrow> admitted_network (req_admission request) \<noteq> None \<longrightarrow>
          generation_enforced E (req_admission request)
      | _ \<Rightarrow> True)"

definition gate_inv :: "PolicySystem \<Rightarrow> bool" where
  "gate_inv s \<longleftrightarrow>
     (gate_ready (rt_gate (cellular s)) \<longrightarrow>
        admission_state (admission_snapshot (cellular s)) = Admitted \<and>
        generation_enforced (enforced s) (admission_snapshot (cellular s))) \<and>
     (\<forall>p \<in> set (drains s). phase_enforced (enforced s) p)"

definition drain_inv :: "PolicySystem \<Rightarrow> bool" where
  "drain_inv s \<longleftrightarrow>
     length (drains s) = (if executor_up s \<and> drain_scheduled (coordinator s) then 1 else 0) \<and>
     (latest (coordinator s) \<noteq> None \<longrightarrow> drain_scheduled (coordinator s))"

definition policy_system_inv :: "PolicySystem \<Rightarrow> bool" where
  "policy_system_inv s \<longleftrightarrow> gate_inv s \<and> drain_inv s"

lemma enforced_mono:
  "generation_enforced E a \<Longrightarrow> E \<subseteq> F \<Longrightarrow> generation_enforced F a"
  "phase_enforced E p \<Longrightarrow> E \<subseteq> F \<Longrightarrow> phase_enforced F p"
  by (auto simp: generation_enforced_def phase_enforced_def split: option.splits DrainPhase.splits)

lemma take_request_effect:
  "cellular (take_request r s) = cellular s" "enforced (take_request r s) = enforced s"
  "root_policy (take_request r s) = root_policy s" "executor_up (take_request r s) = executor_up s"
  "drains (take_request r s) = drains s @ (if \<not> drain_scheduled (coordinator s) \<and> executor_up s then [DrainTop] else [])"
  "drain_scheduled (coordinator (take_request r s))"
  by (simp_all add: take_request_def put_latest_def spawn_drain_def Let_def)

lemma take_request_inv:
  assumes "policy_system_inv s"
  shows "policy_system_inv (take_request r s)"
proof -
  have "phase_enforced E DrainTop" for E by (simp add: phase_enforced_def)
  then show ?thesis
    using assms by (auto simp: policy_system_inv_def gate_inv_def drain_inv_def take_request_effect split: if_splits)
qed

text \<open>Changes of the coordinator's state that leave the slot and the drain flag alone.\<close>

lemma coordinator_inv:
  assumes "policy_system_inv s" "latest c = latest (coordinator s)" "drain_scheduled c = drain_scheduled (coordinator s)"
  shows "policy_system_inv (s\<lparr>coordinator := c\<rparr>)"
  using assms by (simp add: policy_system_inv_def gate_inv_def drain_inv_def)

lemma offer_inv: "policy_system_inv s \<Longrightarrow> policy_system_inv (offer_new_owner_request r s)"
  by (simp add: offer_new_owner_request_def Let_def take_request_inv coordinator_inv)

lemma fire_inv: "policy_system_inv s \<Longrightarrow> policy_system_inv (fire_recovery epoch r s)"
  by (simp add: fire_recovery_def Let_def take_request_inv coordinator_inv)

lemma call_step_inv:
  assumes "policy_system_inv s" "call_step p s = (p', s')"
  shows "policy_system_inv s'"
  using assms
  by (auto simp: call_step_def publish_admission_def split: CallPhase.splits option.splits if_splits
      intro!: coordinator_inv offer_inv)

lemma inv_frames:
  "policy_system_inv (s\<lparr>api_calls := x\<rparr>) = policy_system_inv s"
  "policy_system_inv (s\<lparr>timers := y\<rparr>) = policy_system_inv s"
  "policy_system_inv (s\<lparr>shutdowns := z\<rparr>) = policy_system_inv s"
  "policy_system_inv (s\<lparr>shutdown_results := b\<rparr>) = policy_system_inv s"
  "policy_system_inv (s\<lparr>root_policy := pol\<rparr>) = policy_system_inv s"
  by (simp_all add: policy_system_inv_def gate_inv_def drain_inv_def)

text \<open>A drain that moves on, with the system changed apart from the slot, the flag and the drains.\<close>

lemma drain_moves:
  assumes "policy_system_inv s" "i < length (drains s)" "gate_inv s'"
    and "drains s' = drains s" "executor_up s' = executor_up s" "phase_enforced (enforced s') p"
    and "latest (coordinator s') = latest (coordinator s)" "drain_scheduled (coordinator s') = drain_scheduled (coordinator s)"
  shows "policy_system_inv (s'\<lparr>drains := set_task i (Some p) (drains s)\<rparr>)"
  using assms by (auto simp: policy_system_inv_def gate_inv_def drain_inv_def dest!: set_task_mem)

lemma gate_inv_grow:
  assumes "gate_inv s" "cellular s' = cellular s" "drains s' = drains s" "enforced s \<subseteq> enforced s'"
  shows "gate_inv s'"
  using assms enforced_mono by (fastforce simp: gate_inv_def)

lemma drain_quiet:
  assumes inv: "policy_system_inv s" and i: "i < length (drains s)" and p: "phase_enforced (enforced s) p"
  shows "policy_system_inv (s\<lparr>drains := set_task i (Some p) (drains s)\<rparr>)"
    "latest c = latest (coordinator s) \<Longrightarrow> drain_scheduled c = drain_scheduled (coordinator s) \<Longrightarrow>
     policy_system_inv (s\<lparr>coordinator := c, drains := set_task i (Some p) (drains s)\<rparr>)"
    "latest c = latest (coordinator s) \<Longrightarrow> drain_scheduled c = drain_scheduled (coordinator s) \<Longrightarrow>
     policy_system_inv (s\<lparr>coordinator := c, timers := ts, drains := set_task i (Some p) (drains s)\<rparr>)"
    "latest c = latest (coordinator s) \<Longrightarrow> drain_scheduled c = drain_scheduled (coordinator s) \<Longrightarrow>
     policy_system_inv (s\<lparr>root_policy := pol, coordinator := c, drains := set_task i (Some p) (drains s)\<rparr>)"
proof -
  have g: "gate_inv s" using inv by (simp add: policy_system_inv_def)
  have g': "gate_inv (s\<lparr>coordinator := c\<rparr>)" "gate_inv (s\<lparr>coordinator := c, timers := ts\<rparr>)"
    "gate_inv (s\<lparr>root_policy := pol, coordinator := c\<rparr>)" for c ts pol
    by (rule gate_inv_grow [OF g]; simp)+
  show "policy_system_inv (s\<lparr>drains := set_task i (Some p) (drains s)\<rparr>)"
    by (rule drain_moves [OF inv i g]) (simp_all add: p)
  show "policy_system_inv (s\<lparr>coordinator := c, drains := set_task i (Some p) (drains s)\<rparr>)"
    if "latest c = latest (coordinator s)" "drain_scheduled c = drain_scheduled (coordinator s)"
    using drain_moves [OF inv i g'(1)] p that by simp
  show "policy_system_inv (s\<lparr>coordinator := c, timers := ts, drains := set_task i (Some p) (drains s)\<rparr>)"
    if "latest c = latest (coordinator s)" "drain_scheduled c = drain_scheduled (coordinator s)"
    using drain_moves [OF inv i g'(2)] p that by simp
  show "policy_system_inv (s\<lparr>root_policy := pol, coordinator := c, drains := set_task i (Some p) (drains s)\<rparr>)"
    if "latest c = latest (coordinator s)" "drain_scheduled c = drain_scheduled (coordinator s)"
    using drain_moves [OF inv i g'(3)] p that by simp
qed

lemma phase_trivial [simp]:
  "phase_enforced E DrainTop" "phase_enforced E (DrainTaken request)" "phase_enforced E (DrainWaiting request)"
  "phase_enforced E (DrainReady request)" "phase_enforced E (DrainResetting request r)"
  "phase_enforced E (DrainPublishing request r)" "phase_enforced E (DrainRetrying request r)"
  "phase_enforced E (DrainScheduling request)" "phase_enforced E DrainProcessed"
  by (simp_all add: phase_enforced_def)

lemma note_enforced_effect:
  "cellular (note_enforced request r s) = cellular s" "coordinator (note_enforced request r s) = coordinator s"
  "drains (note_enforced request r s) = drains s" "executor_up (note_enforced request r s) = executor_up s"
  "enforced s \<subseteq> enforced (note_enforced request r s)"
  "phase_enforced (enforced (note_enforced request r s)) (DrainReconciled request r)"
  by (auto simp: note_enforced_def phase_enforced_def generation_enforced_def split: RootPolicyResult.splits option.splits)

lemma authorize_effect:
  assumes "authorize_root_policy q h r = (ok, r')"
  shows "admission_snapshot r' = admission_snapshot r" "gate_ready (rt_gate r') = ok"
    "ok = (admission_state (admission_snapshot r) = Admitted \<and> last_sequence (admission_snapshot r) = Some q \<and>
       admitted_network (admission_snapshot r) = Some h)"
  using assms by (auto simp: authorize_root_policy_def set_ready_def admission_snapshot_def Let_def)

lemma decide_effect:
  assumes d: "decide request r s = (p, s')" and g: "gate_inv s" and ph: "phase_enforced (enforced s) (DrainDeciding request r)"
  shows "gate_inv s'" "phase_enforced E p" "drains s' = drains s" "enforced s' = enforced s" "coordinator s' = coordinator s"
    "executor_up s' = executor_up s"
proof -
  let ?a = "req_admission request"
  have "gate_inv s' \<and> phase_enforced E p \<and> drains s' = drains s \<and> enforced s' = enforced s \<and> coordinator s' = coordinator s \<and>
    executor_up s' = executor_up s"
  proof (cases "r = Enforced \<and> last_sequence ?a \<noteq> None \<and> admitted_network ?a \<noteq> None")
    case True
    then obtain q h where q: "r = Enforced" "last_sequence ?a = Some q" "admitted_network ?a = Some h" by auto
    obtain ok rt where a: "authorize_root_policy q h (cellular s) = (ok, rt)" by fastforce
    have "(q, h) \<in> enforced s" using ph q by (simp add: phase_enforced_def generation_enforced_def)
    then have "gate_inv (s\<lparr>cellular := rt\<rparr>)"
      using g authorize_effect [OF a] by (auto simp: gate_inv_def generation_enforced_def)
    then show ?thesis using d q a by (auto simp: decide_def phase_enforced_def)
  next
    case False
    then show ?thesis using d g by (auto simp: decide_def phase_enforced_def split: if_splits option.splits)
  qed
  then show "gate_inv s'" "phase_enforced E p" "drains s' = drains s" "enforced s' = enforced s" "coordinator s' = coordinator s"
    "executor_up s' = executor_up s" by auto
qed

lemma drain_top_inv:
  assumes "policy_system_inv s" "i < length (drains s)" "drain_top s = (p, s')"
  shows "policy_system_inv (s'\<lparr>drains := set_task i p (drains s')\<rparr>)"
proof -
  have one: "length (drains s) = 1" "i = 0" "executor_up s" "drain_scheduled (coordinator s)"
    using assms(1,2) by (auto simp: policy_system_inv_def drain_inv_def split: if_splits)
  have gone: "set_task i None (drains s) = []" using one by (cases "drains s") (auto simp: set_task_def)
  have taken: "phase_enforced E (DrainTaken request)" for E request by (simp add: phase_enforced_def)
  show ?thesis
    using assms(1,3) one gone taken
    by (auto simp: drain_top_def Let_def policy_system_inv_def gate_inv_def drain_inv_def split: if_splits option.splits
        dest!: set_task_mem)
qed

lemma drain_step_inv:
  assumes inv: "policy_system_inv s" and i: "i < length (drains s)" and st: "drain_step (drains s ! i) quiesced w s = (p, s')"
  shows "policy_system_inv (s'\<lparr>drains := set_task i p (drains s')\<rparr>)"
proof (cases "drains s ! i")
  case DrainTop
  then show ?thesis using drain_top_inv [OF inv i] st by (simp add: drain_step_def)
next
  case (DrainReady request)
  obtain outcome pol w' where r: "reconcile_if_current (root_policy s) (admitted_request request) (req_interface request) w = ((outcome, pol), w')"
    by (metis surj_pair)
  have g: "gate_inv s" using inv by (simp add: policy_system_inv_def)
  show ?thesis
  proof (cases outcome)
    case (Completed x)
    let ?s = "note_enforced request x (s\<lparr>root_policy := pol\<rparr>)"
    have "p = Some (DrainReconciled request x)" "s' = ?s"
      using st DrainReady r Completed by (auto simp: drain_step_def reconcile_request_def)
    moreover note n = note_enforced_effect [where request = request and r = x and s = "s\<lparr>root_policy := pol\<rparr>"]
    moreover have "gate_inv ?s" by (rule gate_inv_grow [OF g]) (use n in auto)
    ultimately show ?thesis by (auto intro!: drain_moves [OF inv i])
  next
    case Superseded
    then show ?thesis
      using st DrainReady r by (auto simp: drain_step_def reconcile_request_def intro!: drain_quiet [OF inv i])
  qed
next
  case (DrainDeciding request r)
  obtain q t where d: "decide request r s = (q, t)" by fastforce
  have g: "gate_inv s" "phase_enforced (enforced s) (DrainDeciding request r)"
    using inv nth_mem [OF i] DrainDeciding by (simp_all add: policy_system_inv_def gate_inv_def)
  note e = decide_effect [OF d g]
  have "p = Some q" "s' = t" using st DrainDeciding d by (auto simp: drain_step_def)
  then show ?thesis using e by (auto intro!: drain_moves [OF inv i])
next
  case (DrainReconciled request r)
  have "phase_enforced (enforced s) (DrainReconciled request r)"
    using inv nth_mem [OF i] DrainReconciled by (simp add: policy_system_inv_def gate_inv_def)
  then have "phase_enforced (enforced s) (DrainDeciding request r)" by (simp add: phase_enforced_def)
  then show ?thesis
    using st DrainReconciled inv i by (auto simp: drain_step_def split: if_splits intro!: drain_quiet coordinator_inv)
qed (use st inv i in \<open>auto simp: drain_step_def schedule_recovery_def Let_def reset_recovery_def publish_def inv_frames split: if_splits
      intro!: drain_quiet coordinator_inv\<close>)

lemma closed_gate_inv:
  assumes "policy_system_inv s" "\<not> gate_ready (rt_gate rt)"
  shows "policy_system_inv (s\<lparr>cellular := rt\<rparr>)"
  using assms by (simp add: policy_system_inv_def gate_inv_def drain_inv_def)

lemma permit_inv:
  assumes "policy_system_inv s" "gate_ready g = gate_ready (rt_gate (cellular s))"
  shows "policy_system_inv (s\<lparr>cellular := (cellular s)\<lparr>rt_gate := g\<rparr>\<rparr>)"
  using assms by (simp add: policy_system_inv_def gate_inv_def drain_inv_def admission_snapshot_def)

lemma shutdown_step_inv:
  assumes "policy_system_inv s" "shutdown_step p quiesced w s = (p', s')"
  shows "policy_system_inv s'"
  using assms
  by (auto simp: shutdown_step_def inv_frames close_root_policy_gate_def set_ready_def split: ShutdownPhase.splits if_splits prod.splits
      intro!: closed_gate_inv)

lemma policy_system_step_inv:
  assumes "policy_system_inv s"
  shows "policy_system_inv (policy_system_step s e)"
proof (cases e)
  case (StepCall i)
  then show ?thesis using assms call_step_inv by (auto simp: inv_frames split: prod.splits)
next
  case (StepDrain i quiesced w)
  then show ?thesis using assms drain_step_inv by (auto split: prod.splits)
next
  case (StepShutdown i quiesced w)
  then show ?thesis using assms shutdown_step_inv by (auto simp: inv_frames split: prod.splits)
next
  case BeginShutdown
  then show ?thesis
    using assms by (simp add: policy_system_inv_def gate_inv_def drain_inv_def coordinator_shut_def)
qed (use assms in \<open>auto simp: Let_def inv_frames rt_observe_network_def rt_network_lost_def set_ready_def gate_acquire_def
      gate_release_def split: option.splits if_splits intro!: closed_gate_inv permit_inv fire_inv\<close>)

lemma policy_system_new_inv: "policy_system_inv (policy_system_new up pol)"
  by (simp add: policy_system_new_def policy_system_inv_def gate_inv_def drain_inv_def cellular_runtime_new_def gate_new_def
      coordinator_new_def)

interpretation policies: guarded_machine "policy_system_new up pol" policy_system_step policy_system_inv for up pol
  by unfold_locales (rule policy_system_new_inv, rule policy_system_step_inv)

definition policy_run :: "bool \<Rightarrow> RootPolicyState \<Rightarrow> PolicyEvent list \<Rightarrow> PolicySystem" where
  "policy_run up pol es = foldl policy_system_step (policy_system_new up pol) es"

lemma policy_run_inv: "policy_system_inv (policy_run up pol es)"
  unfolding policy_run_def by (rule policies.inv_reachable)

subsection \<open>Where an enforced generation comes from\<close>

text \<open>The event is the step of a drain whose reconcile of the request returns Enforced.\<close>

definition returns_enforced :: "PolicySystem \<Rightarrow> PolicyEvent \<Rightarrow> ReconcileRequest \<Rightarrow> bool" where
  "returns_enforced s e request =
     (case e of
        StepDrain i quiesced w \<Rightarrow>
          i < length (drains s) \<and> drains s ! i = DrainReady request \<and>
          fst (fst (reconcile_if_current (root_policy s) (admitted_request request) (req_interface request) w)) = Completed Enforced
      | _ \<Rightarrow> False)"

lemma enforced_quiet:
  "enforced (offer_new_owner_request r s) = enforced s" "enforced (fire_recovery epoch r s) = enforced s"
  "enforced (schedule_recovery r s) = enforced s" "enforced (snd (call_step p s)) = enforced s"
  "enforced (snd (shutdown_step sp quiesced w s)) = enforced s" "enforced (snd (drain_top s)) = enforced s"
  "enforced (snd (decide r x s)) = enforced s"
  by (auto simp: offer_new_owner_request_def fire_recovery_def schedule_recovery_def call_step_def shutdown_step_def drain_top_def
      decide_def Let_def take_request_effect split: CallPhase.splits ShutdownPhase.splits option.splits prod.splits)

lemma enforced_note:
  assumes "g \<in> enforced (note_enforced request r s)" "g \<notin> enforced s"
  shows "r = Enforced" "last_sequence (req_admission request) = Some (fst g)" "admitted_network (req_admission request) = Some (snd g)"
  using assms by (auto simp: note_enforced_def split: RootPolicyResult.splits option.splits)

lemma enforced_step:
  assumes new: "g \<in> enforced (policy_system_step s e)" "g \<notin> enforced s"
  shows "\<exists>request. returns_enforced s e request \<and> last_sequence (req_admission request) = Some (fst g) \<and>
    admitted_network (req_admission request) = Some (snd g)"
proof (cases e)
  case (StepDrain i quiesced w)
  then have i: "i < length (drains s)" and g: "g \<in> enforced (snd (drain_step (drains s ! i) quiesced w s))"
    using new by (auto split: if_splits prod.splits)
  obtain request where ready: "drains s ! i = DrainReady request"
  proof (cases "drains s ! i")
    case (DrainReady request)
    then show thesis by (rule that)
  qed (use g new(2) enforced_quiet in \<open>auto simp: drain_step_def case_prod_unfold split: if_splits\<close>)
  obtain outcome pol w' where r: "reconcile_if_current (root_policy s) (admitted_request request) (req_interface request) w = ((outcome, pol), w')"
    by (metis surj_pair)
  obtain x where x: "outcome = Completed x" "g \<in> enforced (note_enforced request x (s\<lparr>root_policy := pol\<rparr>))"
    using g new(2) ready r by (cases outcome) (auto simp: drain_step_def reconcile_request_def)
  then show ?thesis
    using enforced_note [OF x(2)] new(2) i ready r StepDrain by (auto simp: returns_enforced_def intro!: exI [of _ request])
next
  case (StepCall i)
  then show ?thesis using new by (simp add: enforced_quiet case_prod_unfold split: if_splits)
next
  case (StepShutdown i quiesced w)
  then show ?thesis using new by (simp add: enforced_quiet case_prod_unfold split: if_splits)
qed (use new enforced_quiet in \<open>auto simp: Let_def split: if_splits option.splits\<close>)

lemma enforced_origin:
  "g \<in> enforced (policy_run up pol es) \<Longrightarrow>
   \<exists>before e after request. es = before @ e # after \<and> returns_enforced (policy_run up pol before) e request \<and>
     last_sequence (req_admission request) = Some (fst g) \<and> admitted_network (req_admission request) = Some (snd g)"
proof (induction es rule: rev_induct)
  case Nil
  then show ?case by (simp add: policy_run_def policy_system_new_def)
next
  case (snoc e es)
  show ?case
  proof (cases "g \<in> enforced (policy_run up pol es)")
    case True
    then show ?thesis using snoc.IH by fastforce
  next
    case False
    then show ?thesis using snoc.prems enforced_step [of g "policy_run up pol es" e] by (fastforce simp: policy_run_def)
  qed
qed

lemma executor_step: "executor_up (policy_system_step s e) = executor_up s"
proof -
  have "executor_up (fire_recovery epoch r s) = executor_up s" "executor_up (offer_new_owner_request r s) = executor_up s"
    "executor_up (note_enforced r x s) = executor_up s" for epoch r x s
    by (auto simp: fire_recovery_def offer_new_owner_request_def Let_def take_request_effect note_enforced_effect)
  then show ?thesis
    by (cases e)
      (auto simp: Let_def call_step_def drain_step_def drain_top_def decide_def reconcile_request_def schedule_recovery_def
        shutdown_step_def split: option.splits prod.splits CallPhase.splits DrainPhase.splits ShutdownPhase.splits
        RootPolicyReconcileOutcome.splits)
qed

lemma executor_run: "executor_up (policy_run up pol es) = up"
  by (induction es rule: rev_induct) (simp_all add: policy_run_def policy_system_new_def executor_step)

subsection \<open>Example runs\<close>

text \<open>An observation of a usable cellular network, the four critical sections of its call, and the steps of a drain.\<close>

definition usable :: "ObservationSequence \<Rightarrow> NetworkHandle \<Rightarrow> NetworkObservation" where
  "usable q h = \<lparr>obs_sequence = q, obs_handle = h, is_cellular = True, has_internet = True, is_validated = True, is_not_vpn = True\<rparr>"

definition deciding_events :: "PolicyEvent list" where
  "deciding_events =
     BeginObserve (usable 1 7) 7 (Some ''rmnet0'') # replicate 4 (StepCall 0) @
     replicate 5 (StepDrain 0 True (world (script example_device) 1))"

definition decide_event :: PolicyEvent where
  "decide_event = StepDrain 0 True (world (script example_device) 1)"

definition shutdown_events :: "PolicyEvent list" where
  "shutdown_events = BeginShutdown # replicate 4 (StepShutdown 0 True (world clean_script 1))"

lemma few: "replicate 4 x = [x, x, x, x]" "replicate 5 x = [x, x, x, x, x]"
  by (simp_all add: numeral_eq_Suc)

lemmas run_defs = policy_run_def policy_system_new_def cellular_runtime_new_def cellular_new_def gate_new_def coordinator_new_def
  usable_def rt_observe_network_def set_ready_def observe_def is_stale_def rejection_reason_def admission_snapshot_def
  call_step_def publish_admission_def offer_new_owner_request_def take_request_def put_latest_def spawn_drain_def set_task_def
  drain_step_def drain_top_def request_is_current_def same_generation_def

definition deciding :: "CoordinatorState \<Rightarrow> PolicySystem" where
  "deciding c =
     (let a = \<lparr>admission_state = Admitted, admission_reason = None, admitted_network = Some 7, last_sequence = Some 1\<rparr> in
      \<lparr>cellular = \<lparr>rt_owner = \<lparr>admission = a, last_observed_network = Some 7\<rparr>, rt_gate = gate_new\<rparr>,
       coordinator = c, root_policy = started owning 1, api_calls = [],
       drains = [DrainDeciding \<lparr>req_admission = a, req_interface = Some ''rmnet0''\<rparr> Enforced],
       timers = [], shutdowns = [], shutdown_results = [], executor_up = True, enforced = {(1, 7)}\<rparr>)"

lemma deciding_state: "\<exists>c. policy_run True (started example_contract 1) deciding_events = deciding c"
proof -
  obtain w' where r: "reconcile_if_current (started example_contract 1) True (Some ''rmnet0'') (world (script example_device) 1) =
      ((Completed Enforced, started owning 1), w')"
    using prepared_run [OF example_candidate example_active example_others
        example_tables [unfolded example_snapshot_def] example_prepared [unfolded example_snapshot_def]] by blast
  show ?thesis
    by (simp add: deciding_events_def deciding_def few run_defs Let_def reconcile_request_def admitted_request_def r note_enforced_def)
qed

lemmas deciding_defs = deciding_def gate_new_def drain_step_def decide_def authorize_root_policy_def admission_snapshot_def
  set_ready_def set_task_def

lemma policy_run_append: "policy_run up pol (es @ fs) = foldl policy_system_step (policy_run up pol es) fs"
  by (simp add: policy_run_def)

lemma decided_state:
  "gate_ready (rt_gate (cellular (policy_run True (started example_contract 1) (deciding_events @ [decide_event]))))"
  using deciding_state by (auto simp: policy_run_append decide_event_def deciding_defs Let_def)

definition overlapping_events :: "NetworkHandle \<Rightarrow> NetworkHandle \<Rightarrow> PolicyIo \<Rightarrow> PolicyEvent list" where
  "overlapping_events h h' w =
     [BeginObserve (usable 1 h) h None, BeginObserve (usable 2 h') h' None] @
     replicate 4 (StepCall 1) @ replicate 4 (StepCall 0) @ replicate 4 (StepDrain 0 True w)"

lemma later_sequence: "\<not> (2 :: ObservationSequence) \<le> 1"
  by (simp add: word_le_nat_alt)

lemma overlapping_state:
  "\<exists>c. policy_run True pol (overlapping_events h h' w) =
     \<lparr>cellular = \<lparr>rt_owner = \<lparr>admission = \<lparr>admission_state = Admitted, admission_reason = None, admitted_network = Some h',
         last_sequence = Some 2\<rparr>, last_observed_network = Some h'\<rparr>, rt_gate = gate_new\<rparr>,
      coordinator = c, root_policy = pol, api_calls = [], drains = [], timers = [], shutdowns = [], shutdown_results = [],
      executor_up = True, enforced = {}\<rparr> \<and>
   latest c = None \<and> \<not> drain_scheduled c \<and> \<not> recovery_pending c \<and> last_publication c = None"
  by (simp add: overlapping_events_def few run_defs later_sequence Let_def)

lemma shutdown_state:
  "\<exists>c. foldl policy_system_step (deciding c0) shutdown_events =
     (deciding c)\<lparr>root_policy := started example_contract 1, shutdown_results := [True]\<rparr> \<and> coordinator_closed c"
proof -
  obtain w' where r: "cleanup_exact (started owning 1) (world clean_script 1) = ((Inr (), started example_contract 1), w')"
    using clean_run by blast
  show ?thesis
    by (simp add: shutdown_events_def few shutdown_step_def coordinator_shut_def close_root_policy_gate_def r deciding_defs Let_def)
qed

subsection \<open>Properties of the coordinator\<close>

text \<open>C8. The effect gate is opened only behind an enforced policy: whatever the interleaving of observations, losses,
  drains, recovery timers, permits and shutdowns, when the gate is ready the owner's current snapshot is Admitted,
  and some earlier step of a drain reconciled a request of exactly that sequence and network and the root policy
  returned Enforced for it.\<close>

theorem gate_ready_was_enforced:
  assumes "gate_ready (rt_gate (cellular (policy_run up pol es)))"
  shows "\<exists>before e after request. es = before @ e # after \<and> returns_enforced (policy_run up pol before) e request \<and>
    (let now = admission_snapshot (cellular (policy_run up pol es)) in
     admission_state now = Admitted \<and> last_sequence now \<noteq> None \<and> last_sequence (req_admission request) = last_sequence now \<and>
     admitted_network now \<noteq> None \<and> admitted_network (req_admission request) = admitted_network now)"
proof -
  let ?now = "admission_snapshot (cellular (policy_run up pol es))"
  have "admission_state ?now = Admitted" "generation_enforced (enforced (policy_run up pol es)) ?now"
    using policy_run_inv [of up pol es] assms by (auto simp: policy_system_inv_def gate_inv_def)
  then obtain q h where now: "admission_state ?now = Admitted" "last_sequence ?now = Some q" "admitted_network ?now = Some h"
    and "(q, h) \<in> enforced (policy_run up pol es)"
    by (auto simp: generation_enforced_def split: option.splits)
  then show ?thesis using enforced_origin [of "(q, h)"] by (fastforce simp: Let_def)
qed

theorem gate_ready_was_enforced_witness:
  "\<exists>before e after request. deciding_events @ [decide_event] = before @ e # after \<and>
     returns_enforced (policy_run True (started example_contract 1) before) e request \<and>
     gate_ready (rt_gate (cellular (policy_run True (started example_contract 1) (deciding_events @ [decide_event]))))"
  using gate_ready_was_enforced [OF decided_state] decided_state by blast

text \<open>C9. One drain serves the slot and no wake-up is lost: over every interleaving with a running executor, there is a
  drain exactly if the coordinator says that one is scheduled, never two, and a request in the slot always has a
  drain that will look at it.\<close>

theorem single_drain_serves_slot:
  "length (drains (policy_run True pol es)) = (if drain_scheduled (coordinator (policy_run True pol es)) then 1 else 0) \<and>
   (latest (coordinator (policy_run True pol es)) = None \<or> length (drains (policy_run True pol es)) = 1)"
  using policy_run_inv [of True pol es] executor_run [of True pol es] by (auto simp: policy_system_inv_def drain_inv_def)

subsection \<open>Two interleavings\<close>

text \<open>Overlapping observations may lose the newest generation: of two calls of \<open>observe_network\<close> the second is
  applied to the owner last and offers its request first; the older request then takes its place in the slot and
  the drain drops it as stale. Both calls and the drain have ended, no timer runs, the owner is admitted under the
  second observation, and the gate stays closed with nothing published until another event of the platform.\<close>

lemma newest_request_lost:
  "let s = policy_run True pol (overlapping_events h h' w) in
   admission_state (admission_snapshot (cellular s)) = Admitted \<and> last_sequence (admission_snapshot (cellular s)) = Some 2 \<and>
   api_calls s = [] \<and> drains s = [] \<and> timers s = [] \<and> latest (coordinator s) = None \<and>
   \<not> drain_scheduled (coordinator s) \<and> \<not> recovery_pending (coordinator s) \<and>
   \<not> gate_ready (rt_gate (cellular s)) \<and> last_publication (coordinator s) = None"
  using overlapping_state [of pol h h' w] by (auto simp: gate_new_def admission_snapshot_def)

text \<open>A shutdown may report a clean end and the gate opens afterwards: a drain that has found its request current
  after an enforced reconcile is not waited for. The shutdown closes the gate, removes the policy and reports
  success; the drain then authorizes the generation, which the owner still holds, and the gate is ready although
  the root policy has no active identity any more.\<close>

lemma shutdown_reopens_gate:
  "let s = policy_run True (started example_contract 1) (deciding_events @ shutdown_events @ [decide_event]) in
   shutdowns s = [] \<and> shutdown_results s = [True] \<and> coordinator_closed (coordinator s) \<and>
   root_policy s = started example_contract 1 \<and> gate_ready (rt_gate (cellular s))"
proof -
  obtain c0 where c0: "policy_run True (started example_contract 1) deciding_events = deciding c0" using deciding_state by blast
  obtain c where "policy_run True (started example_contract 1) (deciding_events @ shutdown_events @ [decide_event]) =
      policy_system_step ((deciding c)\<lparr>root_policy := started example_contract 1, shutdown_results := [True]\<rparr>) decide_event"
    and "coordinator_closed c"
    using shutdown_state [of c0] by (auto simp: policy_run_append c0)
  then show ?thesis by (simp only: Let_def) (simp add: decide_event_def deciding_defs Let_def)
qed

end
