(* ===== verification/Spec2Isabelle.thy ===== *)
theory Spec2Isabelle
  imports Mish_Prelude Rust_Net Rust_Str Rotation Cellular_Egress Readiness Mesh_Endpoint Mesh_Sessions
    Mesh_Transport Runtime_Lifecycle Product_Runtime Platform_Facts Proto_Wire Temporary_Credential
    External_Credential Rust_Io Rust_Addr Proxy_Auth Proxy_Http Proxy_Socks5 Proxy_Session
    Configuration Probe_Wire Root_Audit Root_Policy Control_Protocol Root_Session Mobile_Data_Effect
    Rotation_Runtime Rotation_Ledger Root_Policy_Runtime Root_Policy_Transaction Root_Policy_Runs
    Cellular_Policy Cellular_Policy_Runs
begin

text \<open>
  A verification development for the Rust core of \<open>mobile-proxy-mish\<close>: a phone that serves an authenticated
  proxy over a private mesh network, sends the proxied traffic out through its cellular network only, and
  rotates its public address by switching mobile data off and on with a root shell. All paths below are under
  \<open>src/crates\<close>.

  \<^bold>\<open>How the parts interact.\<close> Android reports networks, VPN addresses and clocks. The cellular owner turns network
  facts into an admission with a sequence number; the root-policy runtime turns an admitted network into
  firewall marks, guards and one routing lookup; the mesh owner turns VPN addresses into an admission epoch and
  the transport coordinator opens the ingress for exactly that epoch; the proxy authenticates a session, parses
  its target and connects it through the cellular network; the readiness owner asks a probe, sent through the
  phone's own proxy, whether all of this works; the rotation machine drives one address change and the
  coordinator around it owns the mobile-data switch; the lifecycle and the product runtime start, stop and
  replace the generation of tasks that runs all this; the credentials are derived, persisted and provisioned;
  the control protocol signs and carries commands from outside.

  \<^bold>\<open>Conventions.\<close> Rust integers are machine words of their width (\<open>u8\<close>, \<open>u16\<close>, \<open>u32\<close>, \<open>u64\<close>), \<open>usize\<close> is \<open>nat\<close>,
  instants and durations are \<open>int\<close> and \<open>nat\<close>. \<open>Result\<close> is a sum with the error on the left, \<open>?\<close> is \<open>rbind\<close> (or
  the bind of the component's own state monad). Strings are lists of characters that stand for UTF-8 bytes. An
  owner behind a lock is a record, a method is a function that returns the record updated, and tasks that run
  concurrently are steps of an interleaving between two critical sections. Whatever lies outside (the shell's
  answers, sockets, clocks, HKDF, SHA-256, JSON, TLS) is an argument.

  \<^bold>\<open>Foundations.\<close>
  \<^item> \<open>Mish_Prelude\<close>: words, results, checked arithmetic, and the interfaces \<open>guarded_machine\<close> (an owner with an
    invariant), \<open>ranked_machine\<close> (with a number no step lowers), \<open>codec\<close> and \<open>canonical_codec\<close>. Every one is
    interpreted on the definitions of components: the mesh owner, the platform facts, the rotation system, the
    root-policy runtime, the policy coordinator and the durable records.
  \<^item> \<open>Rust_Net\<close>, \<open>Rust_Addr\<close>, \<open>Rust_Str\<close>, \<open>Rust_Io\<close>: what the code uses of the standard library: addresses and
    their parser, string methods, and byte streams as scripts with reads, writes, ends and failures.

  \<^bold>\<open>Owners.\<close>
  \<^item> \<open>Rotation\<close> (\<open>rotation/src/lib.rs\<close>): every method of the state machine. A result
    other than a failure rests on two addresses that were reported, in order, for exactly the two generations it
    names; the probe runs only under the fresh admission and the fresh root policy; whatever fact makes a rotation
    fail while the data may be off leaves the restore owed; facts of another operation change nothing; and the
    confirmations of a new generation end a waiting rotation.
  \<^item> \<open>Cellular_Egress\<close> (\<open>cellular/src/lib.rs\<close>): admission as a function of the newest facts, and when an issued
    network authority is still valid.
  \<^item> \<open>Readiness\<close> (\<open>readiness/src/lib.rs\<close>, \<open>application/src/lib.rs\<close>): the projection, the probe tickets, and that
    Ready rests on the latest completed probe under the current binding.
  \<^item> \<open>Mesh_Endpoint\<close>, \<open>Mesh_Sessions\<close> (\<open>transport/src/lib.rs\<close>) and \<open>Mesh_Transport\<close>
    (\<open>transport/src/runtime_owner.rs\<close>): an epoch names one uninterrupted admission, the selected endpoint is the
    only accepted local address, sessions stay within the budget over every interleaving, and a running ingress
    belongs to exactly the admitted epoch.
  \<^item> \<open>Runtime_Lifecycle\<close> (\<open>runtime/src/lifecycle.rs\<close>, \<open>proxy_recovery.rs\<close>), \<open>Product_Runtime\<close> and \<open>Platform_Facts\<close>
    (\<open>runtime/src/product_runtime.rs\<close>, \<open>product_generation.rs\<close>, \<open>execution.rs\<close>): a generation is launched at most
    once over every interleaving of the tasks, a queued restart skips the checks of a start, and replaying the
    recorded platform facts to a new generation gives the admission the old one had.

  \<^bold>\<open>Credentials and wire formats.\<close>
  \<^item> \<open>Proto_Wire\<close>, \<open>Temporary_Credential\<close> (\<open>credentials/src/proto.rs\<close>, \<open>temporary.rs\<close>): the lease over a clock, the
    durable record, and which bytes decode.
  \<^item> \<open>External_Credential\<close> (\<open>credentials/src/lib.rs\<close>, \<open>persistence.rs\<close>, \<open>provisioning.rs\<close>): a revoked version is
    never derived again, what the two durable slots resolve to, and the round trips of state and envelope.
  \<^item> \<open>Configuration\<close> (\<open>configuration/src/lib.rs\<close>) and \<open>Control_Protocol\<close> (\<open>control/src/lib.rs\<close>): validation of every
    field, and that the conversion of a DER signature accepts exactly the minimal encodings of two scalars.

  \<^bold>\<open>Proxy.\<close> \<open>Proxy_Auth\<close>, \<open>Proxy_Http\<close>, \<open>Proxy_Socks5\<close>, \<open>Proxy_Session\<close> (\<open>proxy/src\<close>): listeners, targets,
  authentication, HTTP CONNECT, SOCKS5 and protocol detection on scripted streams. A session connects only for an
  accepted credential and exactly to the requested target, the acceptance conditions are exact, the header reader
  takes no byte past the header, and the mixed port behaves as the two single ports. \<open>Probe_Wire\<close>
  (\<open>runtime/src/readiness_network.rs\<close>, \<open>tls_client.rs\<close>) sends the readiness probe through this very model.

  \<^bold>\<open>Root effects.\<close>
  \<^item> \<open>Root_Audit\<close>, \<open>Root_Policy\<close> (\<open>cellular/src/root_policy.rs\<close>): the audit of a mangle table as a graph search (it
    ends; it is clean exactly if no reachable rule touches the mark), the lines and commands of the contract,
    the choice of an identity.
  \<^item> \<open>Root_Session\<close> (\<open>runtime/src/root_session.rs\<close>): the framing of commands on one shell and the session manager,
    with commands that a caller drops half way.
  \<^item> \<open>Root_Policy_Runtime\<close> (\<open>runtime/src/root_policy_runtime.rs\<close>, \<open>root_policy_effect.rs\<close>): the authority probe, the
    reconcile transaction and the cleanup as state passing over a script of answers and a trail of commands.
    \<open>Root_Policy_Transaction\<close> says what every part may run and what is known at a point of the trail;
    \<open>Root_Policy_Runs\<close> holds the properties: a permitting rule is only added on a verified base of an admitted and
    current owner, a prepared device is opened with one mutation, a cleanup reports success only for a verified
    snapshot, and the state stays typed.
  \<^item> \<open>Mobile_Data_Effect\<close> (\<open>runtime/src/mobile_data_effect.rs\<close>): observation, disable and verified enable.
  \<^item> \<open>Rotation_Runtime\<close>, \<open>Rotation_Ledger\<close> (\<open>runtime/src/rotation_runtime.rs\<close> with the credential guard of
    \<open>proxy_coordinator.rs\<close>): the coordinator as interleaved tasks over the rotation machine, and the ledger of the
    data switch: what the coordinator owes whenever it switched the data off, and the runs in which an unanswered
    disable blocks all later rotations.
  \<^item> \<open>Cellular_Policy\<close>, \<open>Cellular_Policy_Runs\<close> (\<open>runtime/src/cellular_runtime.rs\<close>, \<open>cellular_policy_coordinator.rs\<close>):
    the effect gate and the coordinator that reconciles the root policy with each generation of the cellular owner,
    with its calls, drain, recovery timers and shutdown interleaved at their critical sections. The gate is ready
    only for an admitted generation whose reconcile returned Enforced and one drain serves the request slot; two
    lemmas show interleavings that lose the newest request and that open the gate after a shutdown.

  \<^bold>\<open>Bounds and fuel.\<close> The searches and loops of the code are total functions: the audit recurses on the chains not
  yet visited, the reading loops on the script, the loop that deletes duplicate jumps on the answers left. The
  passes of the root-policy loops are the constant 8 of the code. Nothing else is cut off.

  \<^bold>\<open>Not modelled.\<close> The byte relay after a proxy or mesh session is set up, TLS handshakes, process and socket
  creation, the task executor and timers (instants are arguments), JSON and protobuf of the diagnostics, elapsed
  times and counters that drive nothing, redacted debug output, the coordinators that only wire owners to sockets (the cellular connector, the proxy and mesh serving loops, the control and readiness runtimes, the public-address client), the Android bindings
  (\<open>android-ffi\<close>, \<open>android-network\<close>), the empty \<open>identity\<close> crate, and everything that is not the Rust core: the Kotlin
  application, the edge worker, the SDK, the laboratory scripts and the contract checkers.
\<close>

end
